(* ===== verification/Prelude.thy ===== *)
theory Prelude
  imports Main "HOL-Library.Word" "HOL-Library.Char_ord" "HOL-Library.List_Lexorder"
begin

text \<open>
  What the component theories share: the names of the model's types, the standard-library
  types the program uses (\<open>Duration\<close>, \<open>BTreeMap\<close>, \<open>str\<close> and its searching methods) and the
  generic lemmas about them.

  A Rust \<open>String\<close> is modelled by the list of its UTF-8 bytes, one \<open>char\<close> per byte, so
  \<open>length\<close> is \<open>str::len\<close> and the order of \<open>HOL-Library.List_Lexorder\<close> is \<open>Ord for str\<close>.
  A \<open>Duration\<close> is its number of nanoseconds, with the bound of its \<open>u64\<close> seconds written out.
  A \<open>BTreeMap\<close> is the list of its entries in key order; \<open>bt_wf\<close> is the strict ordering of
  the keys that the Rust type guarantees.
\<close>

section \<open>Collections of facts\<close>

named_theorems bt_intros \<open>operations keep the key order of a map\<close>
named_theorems bt_simps \<open>lookups after operations on a map\<close>

section \<open>Machine integers\<close>

type_synonym u16 = "16 word"
type_synonym u32 = "32 word"
type_synonym u64 = "64 word"

text \<open>\<open>u32::saturating_add(1)\<close>.\<close>

definition saturating_succ :: "'a::len word \<Rightarrow> 'a word" where
  "saturating_succ w = (if w = - 1 then w else w + 1)"

lemma unat_saturating_succ:
  "unat (saturating_succ w) = (if w = - 1 then unat w else Suc (unat w))"
proof (cases "w = - 1")
  case False
  then have "1 + w \<noteq> 0"
    by (metis add.commute add_eq_0_iff2)
  then show ?thesis using False
    by (simp add: saturating_succ_def unatSuc add.commute)
qed (simp add: saturating_succ_def)

lemma saturating_succ_pos [simp]: "saturating_succ w \<noteq> 0"
  by (simp add: saturating_succ_def add_eq_0_iff2)

lemma unat_le_saturating_succ: "unat w \<le> unat (saturating_succ w)"
  by (simp add: unat_saturating_succ)

section \<open>Durations\<close>

type_synonym duration = nat

definition nanos_per_sec :: nat where
  "nanos_per_sec = 1000000000"

definition dur_secs :: "nat \<Rightarrow> duration" where
  "dur_secs s = s * nanos_per_sec"

definition dur_millis :: "nat \<Rightarrow> duration" where
  "dur_millis ms = ms * 1000000"

text \<open>The largest \<open>Duration\<close>: \<open>u64::MAX\<close> seconds and 999999999 nanoseconds.\<close>

definition dur_max :: duration where
  "dur_max = (2 ^ 64 - 1) * nanos_per_sec + (nanos_per_sec - 1)"

definition dur_checked_mul :: "duration \<Rightarrow> nat \<Rightarrow> duration option" where
  "dur_checked_mul d k = (if d * k \<le> dur_max then Some (d * k) else None)"

section \<open>Text\<close>

text \<open>Joining strings with a separator, as \<open>[\<dots>].join(sep)\<close>.\<close>

fun join :: "string \<Rightarrow> string list \<Rightarrow> string" where
  "join sep [] = []"
| "join sep [x] = x"
| "join sep (x # xs) = x @ sep @ join sep xs"

text \<open>Decimal numbers, as \<open>Display\<close> prints them.\<close>

definition digit_char :: "nat \<Rightarrow> char" where
  "digit_char d = char_of (48 + d)"

fun show_nat :: "nat \<Rightarrow> string" where
  "show_nat n = (if n < 10 then [digit_char n] else show_nat (n div 10) @ [digit_char (n mod 10)])"

declare show_nat.simps [simp del]

definition show_int :: "int \<Rightarrow> string" where
  "show_int i = (if i < 0 then ''-'' @ show_nat (nat (- i)) else show_nat (nat i))"

lemma show_nat_nonempty [simp]: "show_nat n \<noteq> []"
  by (subst show_nat.simps) simp

text \<open>\<open>strip_prefix\<close>: the rest of \<open>s\<close> after \<open>p\<close>, when \<open>s\<close> starts with \<open>p\<close>.\<close>

fun strip_prefix :: "'a list \<Rightarrow> 'a list \<Rightarrow> 'a list option" where
  "strip_prefix [] s = Some s"
| "strip_prefix (p # ps) [] = None"
| "strip_prefix (p # ps) (c # s) = (if p = c then strip_prefix ps s else None)"

lemma strip_prefix_Some: "strip_prefix p s = Some r \<longleftrightarrow> s = p @ r"
  by (induction p s rule: strip_prefix.induct) auto

definition strip_suffix :: "'a list \<Rightarrow> 'a list \<Rightarrow> 'a list option" where
  "strip_suffix p s = map_option rev (strip_prefix (rev p) (rev s))"

lemma strip_suffix_Some: "strip_suffix p s = Some r \<longleftrightarrow> s = r @ p"
proof -
  have "strip_suffix p s = Some r \<longleftrightarrow> strip_prefix (rev p) (rev s) = Some (rev r)"
    by (auto simp: strip_suffix_def)
  then show ?thesis
    by (simp add: strip_prefix_Some) (metis rev_append rev_rev_ident)
qed

definition starts_with :: "'a list \<Rightarrow> 'a list \<Rightarrow> bool" where
  "starts_with p s = (strip_prefix p s \<noteq> None)"

text \<open>\<open>split_once\<close> at the first occurrence of a byte, and \<open>rsplit_once\<close> at the last.\<close>

fun split_once :: "'a \<Rightarrow> 'a list \<Rightarrow> ('a list \<times> 'a list) option" where
  "split_once c [] = None"
| "split_once c (x # xs) =
     (if x = c then Some ([], xs) else map_option (\<lambda>(a, b). (x # a, b)) (split_once c xs))"

lemma split_once_None: "split_once c s = None \<longleftrightarrow> c \<notin> set s"
  by (induction c s rule: split_once.induct) auto

lemma split_once_Some:
  "split_once c s = Some (a, b) \<longleftrightarrow> s = a @ c # b \<and> c \<notin> set a"
proof (induction c s arbitrary: a rule: split_once.induct)
  case (2 c x xs)
  show ?case
  proof (cases a)
    case Nil
    then show ?thesis by auto
  next
    case (Cons y ys)
    then show ?thesis using "2.IH" [of ys] by auto
  qed
qed simp

definition rsplit_once :: "'a \<Rightarrow> 'a list \<Rightarrow> ('a list \<times> 'a list) option" where
  "rsplit_once c s = map_option (\<lambda>(a, b). (rev b, rev a)) (split_once c (rev s))"

lemma rsplit_once_Some:
  "rsplit_once c s = Some (a, b) \<longleftrightarrow> s = a @ c # b \<and> c \<notin> set b"
proof -
  have "rsplit_once c s = Some (a, b) \<longleftrightarrow> split_once c (rev s) = Some (rev b, rev a)"
    by (auto simp: rsplit_once_def)
  also have "\<dots> \<longleftrightarrow> rev s = rev b @ c # rev a \<and> c \<notin> set b"
    by (simp add: split_once_Some)
  also have "rev s = rev b @ c # rev a \<longleftrightarrow> s = a @ c # b"
    by (metis (no_types, lifting) append.assoc append_Cons append_Nil rev.simps(2) rev_append
        rev_rev_ident)
  finally show ?thesis .
qed

lemma filter_split:
  "filter P l = xs @ n # ys \<Longrightarrow> \<exists>us vs. l = us @ n # vs \<and> filter P us = xs \<and> P n"
proof (induction l arbitrary: xs)
  case (Cons x l)
  show ?case
  proof (cases "P x")
    case False
    with Cons obtain us vs where "l = us @ n # vs" "filter P us = xs" "P n" by auto
    with False show ?thesis by (rule_tac x = "x # us" in exI, rule_tac x = vs in exI) simp
  next
    case True
    show ?thesis
    proof (cases xs)
      case Nil
      with True Cons.prems show ?thesis by (rule_tac x = "[]" in exI, rule_tac x = l in exI) simp
    next
      case (Cons y zs)
      with True Cons.prems Cons.IH [of zs] obtain us vs
        where "l = us @ n # vs" "filter P us = zs" "P n" "x = y" by auto
      with True Cons show ?thesis by (rule_tac x = "x # us" in exI, rule_tac x = vs in exI) simp
    qed
  qed
qed simp

section \<open>Ordered maps\<close>

type_synonym ('k, 'v) btmap = "('k \<times> 'v) list"

definition bt_keys :: "('k, 'v) btmap \<Rightarrow> 'k list" where
  "bt_keys m = map fst m"

definition bt_values :: "('k, 'v) btmap \<Rightarrow> 'v list" where
  "bt_values m = map snd m"

definition bt_get :: "('k, 'v) btmap \<Rightarrow> 'k \<Rightarrow> 'v option" where
  "bt_get m k = map_of m k"

fun bt_insert :: "'k::linorder \<Rightarrow> 'v \<Rightarrow> ('k, 'v) btmap \<Rightarrow> ('k, 'v) btmap" where
  "bt_insert k v [] = [(k, v)]"
| "bt_insert k v ((k', v') # m) =
     (if k < k' then (k, v) # (k', v') # m
      else if k = k' then (k, v) # m
      else (k', v') # bt_insert k v m)"

text \<open>Assignment through \<open>get_mut\<close>: the value of a key that is there, in place.\<close>

fun bt_set :: "'k \<Rightarrow> 'v \<Rightarrow> ('k, 'v) btmap \<Rightarrow> ('k, 'v) btmap" where
  "bt_set k v [] = []"
| "bt_set k v ((k', v') # m) = (if k = k' then (k, v) # m else (k', v') # bt_set k v m)"

definition bt_remove :: "'k \<Rightarrow> ('k, 'v) btmap \<Rightarrow> ('k, 'v) btmap" where
  "bt_remove k m = filter (\<lambda>e. fst e \<noteq> k) m"

definition bt_extend :: "('k::linorder, 'v) btmap \<Rightarrow> ('k \<times> 'v) list \<Rightarrow> ('k, 'v) btmap" where
  "bt_extend m es = foldl (\<lambda>acc e. bt_insert (fst e) (snd e) acc) m es"

definition bt_map_values :: "('v \<Rightarrow> 'w) \<Rightarrow> ('k, 'v) btmap \<Rightarrow> ('k, 'w) btmap" where
  "bt_map_values f m = map (\<lambda>(k, v). (k, f v)) m"

definition bt_wf :: "('k::linorder, 'v) btmap \<Rightarrow> bool" where
  "bt_wf m = sorted_wrt (<) (map fst m)"

lemma bt_wf_Nil [simp, bt_intros]: "bt_wf []"
  by (simp add: bt_wf_def)

lemma bt_wf_Cons [simp]: "bt_wf ((k, v) # m) \<longleftrightarrow> (\<forall>k' \<in> fst ` set m. k < k') \<and> bt_wf m"
  by (auto simp: bt_wf_def)

lemma bt_wf_distinct: "bt_wf m \<Longrightarrow> distinct (map fst m)"
  by (simp add: bt_wf_def strict_sorted_iff)

lemma bt_get_Nil [simp]: "bt_get [] k = None"
  by (simp add: bt_get_def)

lemma bt_get_Cons: "bt_get ((k', v) # m) k = (if k = k' then Some v else bt_get m k)"
  by (simp add: bt_get_def)

lemma bt_keys_insert [simp]: "fst ` set (bt_insert k v m) = insert k (fst ` set m)"
  by (induction k v m rule: bt_insert.induct) auto

lemma bt_wf_insert [bt_intros]: "bt_wf m \<Longrightarrow> bt_wf (bt_insert k v m)"
  by (induction k v m rule: bt_insert.induct) auto

lemma bt_get_insert [bt_simps]: "bt_get (bt_insert k v m) x = (if x = k then Some v else bt_get m x)"
  by (induction k v m rule: bt_insert.induct) (auto simp: bt_get_Cons)

lemma bt_set_keys [simp]: "map fst (bt_set k v m) = map fst m"
  by (induction k v m rule: bt_set.induct) auto

lemma bt_wf_set [simp]: "bt_wf (bt_set k v m) = bt_wf m"
  by (simp add: bt_wf_def)

lemma bt_get_set [bt_simps]:
  "bt_get (bt_set k v m) x = (if x = k \<and> bt_get m k \<noteq> None then Some v else bt_get m x)"
  by (induction k v m rule: bt_set.induct) (auto simp: bt_get_Cons)

lemma bt_wf_remove [bt_intros]: "bt_wf m \<Longrightarrow> bt_wf (bt_remove k m)"
  by (induction m) (auto simp: bt_remove_def)

lemma bt_get_remove [bt_simps]: "bt_get (bt_remove k m) x = (if x = k then None else bt_get m x)"
  by (induction m) (auto simp: bt_remove_def bt_get_def)

lemma bt_wf_filter [bt_intros]: "bt_wf m \<Longrightarrow> bt_wf (filter P m)"
  by (induction m) auto

lemma bt_get_dom: "bt_get m k = None \<longleftrightarrow> k \<notin> fst ` set m"
  by (simp add: bt_get_def map_of_eq_None_iff)

lemma bt_get_in: "bt_get m k = Some v \<Longrightarrow> (k, v) \<in> set m"
  by (simp add: bt_get_def map_of_SomeD)

lemma bt_get_eq_iff: "bt_wf m \<Longrightarrow> bt_get m k = Some v \<longleftrightarrow> (k, v) \<in> set m"
  by (simp add: bt_get_def map_of_eq_Some_iff bt_wf_distinct)

lemma bt_get_map_values [bt_simps]: "bt_get (bt_map_values f m) k = map_option f (bt_get m k)"
  by (simp add: bt_get_def bt_map_values_def map_of_map)

lemma bt_wf_map_values [simp]: "bt_wf (bt_map_values f m) = bt_wf m"
  by (simp add: bt_wf_def bt_map_values_def case_prod_beta comp_def)

lemma bt_extend_Nil [simp]: "bt_extend m [] = m"
  by (simp add: bt_extend_def)

lemma bt_extend_Cons [simp]: "bt_extend m ((k, v) # es) = bt_extend (bt_insert k v m) es"
  by (simp add: bt_extend_def)

lemma bt_wf_extend [bt_intros]: "bt_wf m \<Longrightarrow> bt_wf (bt_extend m es)"
  by (induction es arbitrary: m) (auto simp: bt_wf_insert)

text \<open>
  Two maps with the same lookups are the same list of entries: the key order leaves no
  choice, which is what makes \<open>==\<close> on a \<open>BTreeMap\<close> equality of the lists.
\<close>

lemma bt_eqI:
  assumes "bt_wf m" "bt_wf m'" "\<And>k. bt_get m k = bt_get m' k"
  shows "m = m'"
proof -
  have entries: "m = map (\<lambda>k. (k, the (bt_get m k))) (map fst m)" if "bt_wf m"
    for m :: "('a::linorder, 'b) btmap"
  proof -
    have "the (bt_get m (fst e)) = snd e" if "e \<in> set m" for e
      using bt_get_eq_iff [OF \<open>bt_wf m\<close>, of "fst e" "snd e"] that by simp
    then show ?thesis by (simp add: map_idI)
  qed
  have "set (map fst m) = set (map fst m')"
    using assms(3) bt_get_dom [of m] bt_get_dom [of m'] by (metis list.set_map subsetI subset_antisym)
  then have "map fst m = map fst m'"
    using assms(1,2) strict_sorted_equal [of "map fst m" "map fst m'"] by (simp add: bt_wf_def)
  moreover have "bt_get m = bt_get m'" using assms(3) by (rule ext)
  ultimately show ?thesis
    using entries [OF assms(1)] entries [OF assms(2)] by metis
qed

section \<open>The contract of a map\<close>

text \<open>
  What the loaders and the status registry rely on when they fold assignments into a map:
  an insertion is seen by the next lookup of its key, changes no other key and keeps the
  invariant.  Later assignments therefore win, whatever the representation.
\<close>

locale map_contract =
  fixes get :: "'m \<Rightarrow> 'k \<Rightarrow> 'v option"
    and put :: "'k \<Rightarrow> 'v \<Rightarrow> 'm \<Rightarrow> 'm"
    and invar :: "'m \<Rightarrow> bool"
  assumes get_put: "get (put k v m) x = (if x = k then Some v else get m x)"
    and invar_put: "invar m \<Longrightarrow> invar (put k v m)"
begin

definition put_all :: "'m \<Rightarrow> ('k \<times> 'v) list \<Rightarrow> 'm" where
  "put_all m es = foldl (\<lambda>acc e. put (fst e) (snd e) acc) m es"

lemma get_put_all:
  "get (put_all m es) x = (case map_of (rev es) x of None \<Rightarrow> get m x | Some v \<Rightarrow> Some v)"
proof (induction es rule: rev_induct)
  case (snoc e es)
  then show ?case by (cases e) (simp add: put_all_def get_put)
qed (simp add: put_all_def)

lemma invar_put_all: "invar m \<Longrightarrow> invar (put_all m es)"
  by (induction es rule: rev_induct) (simp_all add: put_all_def invar_put)

lemma get_put_all_distinct:
  assumes "distinct (map fst es)"
  shows "get (put_all m es) x = (case map_of es x of None \<Rightarrow> get m x | Some v \<Rightarrow> Some v)"
proof -
  have "map_of (rev es) = map_of es"
    using assms
    by (metis distinct_rev map_of_eq_Some_iff map_of_eqI rev_map set_rev list.set_map option.exhaust)
  then show ?thesis by (simp add: get_put_all)
qed

end

interpretation bt: map_contract bt_get bt_insert bt_wf
  by unfold_locales (auto simp: bt_get_insert bt_wf_insert)

lemma bt_extend_put_all: "bt_extend m es = bt.put_all m es"
  by (simp add: bt_extend_def bt.put_all_def)

lemma bt_get_extend:
  "bt_get (bt_extend m es) x = (case map_of (rev es) x of None \<Rightarrow> bt_get m x | Some v \<Rightarrow> Some v)"
  by (simp add: bt_extend_put_all bt.get_put_all)

lemma bt_get_extend_map [bt_simps]:
  "bt_wf m' \<Longrightarrow> bt_get (bt_extend m m') x = (case bt_get m' x of None \<Rightarrow> bt_get m x | Some v \<Rightarrow> Some v)"
  using bt.get_put_all_distinct [OF bt_wf_distinct]
  by (simp add: bt_extend_put_all bt_get_def)

end
