(* ===== verification/Lifecycle.thy ===== *)
theory Lifecycle
  imports Prelude
begin

text \<open>
  \<open>crates/servicrab-core/src/lifecycle.rs\<close>: the lifecycle state machine of one service and
  the restart bookkeeping.  \<open>service_state\<close>, \<open>exit_reason\<close>, \<open>shutdown_reason\<close> and
  \<open>restart_decision\<close> are the source's enums; \<open>restart_tracker\<close> is \<open>RestartTracker\<close> with its
  \<open>u32\<close> fields as 32-bit words, and \<open>decide\<close> returns the decision with the updated tracker.
  The restart policy is declared in \<open>config.rs\<close> and stands here because it is all that
  this component needs of the configuration.
\<close>

section \<open>The state machine\<close>

datatype service_state =
    Pending | Starting | Running | Backoff | Stopping | Stopped | Exited | Failed

definition can_transition_to :: "service_state \<Rightarrow> service_state \<Rightarrow> bool" where
  "can_transition_to s next = ((s, next) \<in> set
     [(Pending, Starting), (Pending, Stopped),
      (Starting, Running), (Starting, Backoff), (Starting, Exited), (Starting, Failed),
      (Starting, Stopping),
      (Running, Stopping), (Running, Backoff), (Running, Exited), (Running, Failed),
      (Backoff, Starting), (Backoff, Stopped), (Backoff, Failed),
      (Stopping, Backoff), (Stopping, Stopped), (Stopping, Exited), (Stopping, Failed)])"

definition is_terminal :: "service_state \<Rightarrow> bool" where
  "is_terminal s = (s \<in> {Stopped, Exited, Failed})"

fun show_service_state :: "service_state \<Rightarrow> string" where
  "show_service_state Pending = ''pending''"
| "show_service_state Starting = ''starting''"
| "show_service_state Running = ''running''"
| "show_service_state Backoff = ''backoff''"
| "show_service_state Stopping = ''stopping''"
| "show_service_state Stopped = ''stopped''"
| "show_service_state Exited = ''exited''"
| "show_service_state Failed = ''failed''"

record invalid_transition =
  it_from :: service_state
  it_to :: service_state

record state_machine =
  sm_state :: service_state

definition sm_new :: state_machine where
  "sm_new = \<lparr>sm_state = Pending\<rparr>"

definition try_transition ::
  "state_machine \<Rightarrow> service_state \<Rightarrow> state_machine \<times> (invalid_transition + unit)" where
  "try_transition m next =
     (if can_transition_to (sm_state m) next
      then (m\<lparr>sm_state := next\<rparr>, Inr ())
      else (m, Inl \<lparr>it_from = sm_state m, it_to = next\<rparr>))"

section \<open>Why a process stopped, and why it is being stopped\<close>

datatype exit_reason =
    ER_Code int
  | ER_Signal int
  | ER_SpawnFailure bool
  | ER_Unhealthy

definition is_success :: "exit_reason \<Rightarrow> bool" where
  "is_success r = (r = ER_Code 0)"

fun show_exit_reason :: "exit_reason \<Rightarrow> string" where
  "show_exit_reason (ER_Code code) = ''exited with code '' @ show_int code"
| "show_exit_reason (ER_Signal sig) = ''terminated by signal '' @ show_int sig"
| "show_exit_reason (ER_SpawnFailure retryable) =
     ''spawn failed (retryable: '' @ (if retryable then ''true'' else ''false'') @ '')''"
| "show_exit_reason ER_Unhealthy = ''stopped after failing its health check''"

datatype shutdown_reason =
    SR_UserInterrupt | SR_Terminated | SR_HangUp | SR_RestartLimit | SR_StackFailure
  | SR_Unhealthy | SR_Requested

fun is_user_requested :: "shutdown_reason \<Rightarrow> bool" where
  "is_user_requested SR_UserInterrupt = True"
| "is_user_requested SR_Terminated = True"
| "is_user_requested SR_HangUp = True"
| "is_user_requested SR_Requested = True"
| "is_user_requested _ = False"

fun show_shutdown_reason :: "shutdown_reason \<Rightarrow> string" where
  "show_shutdown_reason SR_UserInterrupt = ''interrupted by user''"
| "show_shutdown_reason SR_Terminated = ''supervisor terminated''"
| "show_shutdown_reason SR_HangUp = ''controlling terminal closed''"
| "show_shutdown_reason SR_RestartLimit = ''restart limit exhausted''"
| "show_shutdown_reason SR_StackFailure = ''another service failed''"
| "show_shutdown_reason SR_Requested = ''stopped on request''"
| "show_shutdown_reason SR_Unhealthy = ''failed its health check''"

record process_outcome =
  po_reason :: exit_reason
  po_uptime :: duration

definition process_outcome_new :: "exit_reason \<Rightarrow> duration \<Rightarrow> process_outcome" where
  "process_outcome_new reason uptime = \<lparr>po_reason = reason, po_uptime = uptime\<rparr>"

section \<open>Restart bookkeeping\<close>

datatype restart_policy = Never | OnFailure | Always | UnlessStopped

datatype restart_decision =
    RD_Restart duration u32
  | RD_Stop
  | RD_Fail shutdown_reason

record restart_tracker =
  rt_policy :: restart_policy
  rt_restart_delay :: duration
  rt_restart_max_delay :: duration
  rt_max_restarts :: u32
  rt_stable_after :: duration
  rt_attempts :: u32

definition tracker_new ::
  "restart_policy \<Rightarrow> duration \<Rightarrow> duration \<Rightarrow> u32 \<Rightarrow> duration \<Rightarrow> restart_tracker" where
  "tracker_new policy restart_delay restart_max_delay max_restarts stable_after =
     \<lparr>rt_policy = policy, rt_restart_delay = restart_delay,
      rt_restart_max_delay = restart_max_delay, rt_max_restarts = max_restarts,
      rt_stable_after = stable_after, rt_attempts = 0\<rparr>"

definition with_policy :: "restart_tracker \<Rightarrow> restart_policy \<Rightarrow> restart_tracker" where
  "with_policy t policy = t\<lparr>rt_policy := policy\<rparr>"

text \<open>
  \<open>1u64.checked_shl(attempt).unwrap_or(u64::MAX)\<close>: the shift is defined for amounts below 64.
  The factor is then cut to a \<open>u32\<close> before the checked multiplication.
\<close>

definition backoff_factor :: "u32 \<Rightarrow> nat" where
  "backoff_factor attempt = (if unat attempt < 64 then 2 ^ unat attempt else 2 ^ 64 - 1)"

definition u32_try_from_or_max :: "nat \<Rightarrow> nat" where
  "u32_try_from_or_max n = (if n \<le> 2 ^ 32 - 1 then n else 2 ^ 32 - 1)"

definition backoff_for_attempt :: "restart_tracker \<Rightarrow> u32 \<Rightarrow> duration" where
  "backoff_for_attempt t attempt =
     (let factor = backoff_factor attempt;
          delay = (case dur_checked_mul (rt_restart_delay t) (u32_try_from_or_max factor) of
                     Some d \<Rightarrow> d | None \<Rightarrow> rt_restart_max_delay t)
      in min delay (rt_restart_max_delay t))"

definition budget_left :: "restart_tracker \<Rightarrow> bool" where
  "budget_left t = (rt_max_restarts t = 0 \<or> rt_attempts t < rt_max_restarts t)"

fun should_restart_under :: "restart_policy \<Rightarrow> exit_reason \<Rightarrow> bool" where
  "should_restart_under Never _ = False"
| "should_restart_under Always (ER_SpawnFailure retryable) = retryable"
| "should_restart_under Always _ = True"
| "should_restart_under UnlessStopped (ER_SpawnFailure retryable) = retryable"
| "should_restart_under UnlessStopped _ = True"
| "should_restart_under OnFailure (ER_Code code) = (code \<noteq> 0)"
| "should_restart_under OnFailure (ER_Signal _) = True"
| "should_restart_under OnFailure ER_Unhealthy = True"
| "should_restart_under OnFailure (ER_SpawnFailure retryable) = retryable"

definition should_restart :: "restart_tracker \<Rightarrow> exit_reason \<Rightarrow> bool" where
  "should_restart t reason = should_restart_under (rt_policy t) reason"

definition decide ::
  "restart_tracker \<Rightarrow> process_outcome \<Rightarrow> shutdown_reason option
     \<Rightarrow> restart_tracker \<times> restart_decision" where
  "decide t outcome shutdown =
     (if (case shutdown of Some reason \<Rightarrow> is_user_requested reason | None \<Rightarrow> False)
      then (t, RD_Stop)
      else
        let t1 = (if rt_stable_after t \<le> po_uptime outcome then t\<lparr>rt_attempts := 0\<rparr> else t) in
        if \<not> should_restart t1 (po_reason outcome) then (t1, RD_Stop)
        else if \<not> budget_left t1 then (t1, RD_Fail SR_RestartLimit)
        else
          let delay = backoff_for_attempt t1 (rt_attempts t1);
              t2 = t1\<lparr>rt_attempts := saturating_succ (rt_attempts t1)\<rparr>
          in (t2, RD_Restart delay (rt_attempts t2)))"


section \<open>Lemmas on the state machine\<close>

lemma can_transition_to_simps [simp]:
  "\<not> can_transition_to Stopped t" "\<not> can_transition_to Exited t" "\<not> can_transition_to Failed t"
  "can_transition_to Pending t \<longleftrightarrow> t = Starting \<or> t = Stopped"
  "can_transition_to Starting t \<longleftrightarrow> t \<in> {Running, Backoff, Exited, Failed, Stopping}"
  "can_transition_to Running t \<longleftrightarrow> t \<in> {Stopping, Backoff, Exited, Failed}"
  "can_transition_to Backoff t \<longleftrightarrow> t \<in> {Starting, Stopped, Failed}"
  "can_transition_to Stopping t \<longleftrightarrow> t \<in> {Backoff, Stopped, Exited, Failed}"
  by (auto simp: can_transition_to_def)

lemma try_transition_legal [simp]:
  "can_transition_to (sm_state m) s \<Longrightarrow> try_transition m s = (m\<lparr>sm_state := s\<rparr>, Inr ())"
  by (simp add: try_transition_def)

lemma try_transition_illegal:
  "\<not> can_transition_to (sm_state m) s
   \<Longrightarrow> try_transition m s = (m, Inl \<lparr>it_from = sm_state m, it_to = s\<rparr>)"
  by (simp add: try_transition_def)

text \<open>A sequence of requests made of one machine, whatever the answers were.\<close>

fun request_all :: "state_machine \<Rightarrow> service_state list \<Rightarrow> state_machine" where
  "request_all m [] = m"
| "request_all m (s # ss) = request_all (fst (try_transition m s)) ss"

lemma request_all_terminal: "is_terminal (sm_state m) \<Longrightarrow> request_all m ss = m"
proof (induction ss arbitrary: m)
  case (Cons s ss)
  then have "try_transition m s = (m, Inl \<lparr>it_from = sm_state m, it_to = s\<rparr>)"
    by (intro try_transition_illegal) (auto simp: is_terminal_def)
  with Cons show ?case by simp
qed simp

section \<open>Lemmas on the restart decision\<close>

lemma backoff_le_max: "backoff_for_attempt t a \<le> rt_restart_max_delay t"
  by (simp add: backoff_for_attempt_def Let_def)

lemma u32_factor:
  "u32_try_from_or_max (backoff_factor a) = (if unat a < 32 then 2 ^ unat a else 2 ^ 32 - 1)"
proof (cases "unat a < 32")
  case True
  then have "(2::nat) ^ unat a \<le> 2 ^ 31" by (intro power_increasing) auto
  also have "\<dots> \<le> 2 ^ 32 - 1" by simp
  finally show ?thesis using True by (simp add: u32_try_from_or_max_def backoff_factor_def)
next
  case False
  then have "(2::nat) ^ 32 \<le> 2 ^ unat a" by (intro power_increasing) auto
  then show ?thesis using False by (auto simp: u32_try_from_or_max_def backoff_factor_def)
qed

lemma backoff_formula:
  assumes "rt_restart_max_delay t \<le> rt_restart_delay t * (2 ^ 32 - 1)"
    and "rt_restart_max_delay t \<le> dur_max"
  shows "backoff_for_attempt t a = min (rt_restart_delay t * 2 ^ unat a) (rt_restart_max_delay t)"
proof (cases "unat a < 32")
  case True
  then show ?thesis using assms
    by (auto simp: backoff_for_attempt_def u32_factor dur_checked_mul_def min_def)
next
  case False
  then have "(2::nat) ^ 32 \<le> 2 ^ unat a" by (intro power_increasing) auto
  then have "rt_restart_delay t * (2 ^ 32 - 1) \<le> rt_restart_delay t * 2 ^ unat a"
    by (intro mult_le_mono2) simp
  with assms(1) have "rt_restart_max_delay t \<le> rt_restart_delay t * 2 ^ unat a" by (rule order_trans)
  with False assms(1) show ?thesis
    by (simp add: backoff_for_attempt_def u32_factor dur_checked_mul_def min.absorb2 Let_def)
qed

lemma backoff_first: "rt_restart_delay t \<le> dur_max
  \<Longrightarrow> backoff_for_attempt t 0 = min (rt_restart_delay t) (rt_restart_max_delay t)"
  by (simp add: backoff_for_attempt_def u32_factor dur_checked_mul_def)

lemma decide_requested:
  "is_user_requested r \<Longrightarrow> decide t outcome (Some r) = (t, RD_Stop)"
  by (simp add: decide_def)

lemma decide_no_restart:
  "\<not> should_restart t (po_reason outcome) \<Longrightarrow> snd (decide t outcome sh) = RD_Stop"
  by (auto simp: decide_def should_restart_def Let_def)

lemma decide_unstable:
  assumes "po_uptime outcome < rt_stable_after t" "should_restart t (po_reason outcome)"
  shows "decide t outcome None =
    (if budget_left t
     then (t\<lparr>rt_attempts := saturating_succ (rt_attempts t)\<rparr>,
           RD_Restart (backoff_for_attempt t (rt_attempts t)) (saturating_succ (rt_attempts t)))
     else (t, RD_Fail SR_RestartLimit))"
  using assms by (simp add: decide_def Let_def)

lemma decide_settings [simp]:
  "rt_policy (fst (decide t outcome sh)) = rt_policy t"
  "rt_restart_delay (fst (decide t outcome sh)) = rt_restart_delay t"
  "rt_restart_max_delay (fst (decide t outcome sh)) = rt_restart_max_delay t"
  "rt_max_restarts (fst (decide t outcome sh)) = rt_max_restarts t"
  "rt_stable_after (fst (decide t outcome sh)) = rt_stable_after t"
  by (simp_all add: decide_def Let_def)

lemma budget_left_nat:
  "budget_left t \<longleftrightarrow> rt_max_restarts t = 0 \<or> unat (rt_attempts t) < unat (rt_max_restarts t)"
  by (simp add: budget_left_def word_less_nat_alt)

text \<open>
  The decisions over a series of process runs, as the runner takes them: it goes on to the
  next run only after a \<open>RD_Restart\<close>.
\<close>

fun decide_all :: "restart_tracker \<Rightarrow> process_outcome list \<Rightarrow> restart_decision list" where
  "decide_all t [] = []"
| "decide_all t (oc # ocs) =
     (case decide t oc None of
        (t', RD_Restart d a) \<Rightarrow> RD_Restart d a # decide_all t' ocs
      | (t', d) \<Rightarrow> [d])"

definition crashes :: "restart_tracker \<Rightarrow> process_outcome list \<Rightarrow> bool" where
  "crashes t ocs = (\<forall>oc \<in> set ocs. po_uptime oc < rt_stable_after t \<and> should_restart t (po_reason oc))"

definition scheduled :: "restart_tracker \<Rightarrow> nat \<Rightarrow> restart_decision" where
  "scheduled t i = RD_Restart (min (rt_restart_delay t * 2 ^ i) (rt_restart_max_delay t)) (word_of_nat (Suc i))"

lemma decide_all_schedule:
  assumes "rt_restart_max_delay t \<le> rt_restart_delay t * (2 ^ 32 - 1)"
    and "rt_restart_max_delay t \<le> dur_max" and "rt_max_restarts t \<noteq> 0"
    and "unat (rt_attempts t) \<le> unat (rt_max_restarts t)" and "crashes t ocs"
  shows "decide_all t ocs =
    map (scheduled t) [unat (rt_attempts t) ..<
                       min (unat (rt_max_restarts t)) (unat (rt_attempts t) + length ocs)]
    @ (if unat (rt_max_restarts t) < unat (rt_attempts t) + length ocs
       then [RD_Fail SR_RestartLimit] else [])"
  using assms
proof (induction ocs arbitrary: t)
  case Nil
  then show ?case by simp
next
  case (Cons oc ocs)
  let ?k = "unat (rt_attempts t)" and ?m = "unat (rt_max_restarts t)"
  have unstable: "po_uptime oc < rt_stable_after t" "should_restart t (po_reason oc)"
    using Cons.prems(5) by (simp_all add: crashes_def)
  show ?case
  proof (cases "?k < ?m")
    case False
    then have "\<not> budget_left t" using Cons.prems(3) by (simp add: budget_left_nat)
    with False Cons.prems(4) show ?thesis by (simp add: decide_unstable [OF unstable])
  next
    case True
    let ?t = "t\<lparr>rt_attempts := saturating_succ (rt_attempts t)\<rparr>"
    have succ: "unat (saturating_succ (rt_attempts t)) = Suc ?k"
      using True by (metis unat_saturating_succ word_less_nat_alt word_order.extremum_strict)
    have "decide_all ?t ocs =
      map (scheduled ?t) [Suc ?k ..< min ?m (Suc ?k + length ocs)]
      @ (if ?m < Suc ?k + length ocs then [RD_Fail SR_RestartLimit] else [])"
      using Cons.IH [of ?t] Cons.prems True
      by (simp add: succ crashes_def should_restart_def)
    moreover have "scheduled ?t = scheduled t" by (simp add: scheduled_def fun_eq_iff)
    moreover have "saturating_succ (rt_attempts t) = word_of_nat (Suc ?k)"
      by (simp flip: succ)
    moreover have "[?k ..< min ?m (?k + length (oc # ocs))]
        = ?k # [Suc ?k ..< min ?m (Suc ?k + length ocs)]"
      using True by (simp add: upt_conv_Cons)
    moreover note backoff_formula [OF Cons.prems(1,2), of "rt_attempts t"]
    ultimately show ?thesis using True
      by (simp add: decide_unstable [OF unstable] budget_left_nat scheduled_def)
  qed
qed

section \<open>Properties\<close>

text \<open>The terminal states are exactly the states a machine never leaves, whatever sequence
  of transitions is requested of it afterwards: \<open>is_terminal\<close> and the transition table agree.\<close>

theorem terminal_iff_absorbing:
  "is_terminal s \<longleftrightarrow> (\<forall>reqs. sm_state (request_all \<lparr>sm_state = s\<rparr> reqs) = s)"
proof
  assume "is_terminal s"
  then show "\<forall>reqs. sm_state (request_all \<lparr>sm_state = s\<rparr> reqs) = s"
    by (simp add: request_all_terminal)
next
  assume stuck: "\<forall>reqs. sm_state (request_all \<lparr>sm_state = s\<rparr> reqs) = s"
  have "sm_state (request_all \<lparr>sm_state = s\<rparr> [t]) = t" if "can_transition_to s t" for t
    using that by simp
  with stuck have "\<not> can_transition_to s t \<or> s = t" for t by metis
  then show "is_terminal s" by (cases s) (auto simp: is_terminal_def)
qed

text \<open>The backoff of a tracker is \<open>min(restart_delay * 2^attempt, restart_max_delay)\<close> for
  every \<open>u32\<close> attempt, although the code computes it with a shift that is undefined from 64 on, a
  factor cut to 32 bits and a checked multiplication.  The ranges are those that the
  configuration enforces: a delay of at least 100ms and a ceiling of at most 24h.\<close>

theorem backoff_is_exponential:
  assumes "dur_millis 100 \<le> rt_restart_delay t" and "rt_restart_max_delay t \<le> dur_secs 86400"
  shows "backoff_for_attempt t a = min (rt_restart_delay t * 2 ^ unat a) (rt_restart_max_delay t)"
proof (rule backoff_formula)
  have "rt_restart_max_delay t \<le> dur_millis 100 * (2 ^ 32 - 1)"
    using assms(2) by (simp add: dur_millis_def dur_secs_def nanos_per_sec_def)
  also have "\<dots> \<le> rt_restart_delay t * (2 ^ 32 - 1)"
    using assms(1) by (intro mult_le_mono1)
  finally show "rt_restart_max_delay t \<le> rt_restart_delay t * (2 ^ 32 - 1)" .
  show "rt_restart_max_delay t \<le> dur_max"
    using assms(2) by (simp add: dur_secs_def dur_max_def nanos_per_sec_def)
qed

theorem backoff_is_exponential_witness:
  "backoff_for_attempt (tracker_new Always (dur_secs 1) (dur_secs 30) 5 (dur_secs 60)) 40 = dur_secs 30"
  using backoff_is_exponential [of "tracker_new Always (dur_secs 1) (dur_secs 30) 5 (dur_secs 60)" 40]
  by (simp add: tracker_new_def dur_millis_def dur_secs_def nanos_per_sec_def)

text \<open>C28: A service that keeps crashing before it is stable gets exactly its restart budget: from
  a fresh tracker, \<open>max_restarts\<close> restarts with the attempts numbered from 1 and the delays
  doubling up to the ceiling, and then, at the next crash, the failure \<open>RestartLimit\<close>.  With no
  more crashes than the budget, every one of them is answered by a restart.\<close>

theorem restart_budget_is_exact:
  assumes "dur_millis 100 \<le> delay" and "max_delay \<le> dur_secs 86400" and "budget \<noteq> 0"
    and "crashes (tracker_new policy delay max_delay budget stable_after) ocs"
  shows "decide_all (tracker_new policy delay max_delay budget stable_after) ocs =
    map (\<lambda>i. RD_Restart (min (delay * 2 ^ i) max_delay) (word_of_nat (Suc i)))
        [0 ..< min (unat budget) (length ocs)]
    @ (if unat budget < length ocs then [RD_Fail SR_RestartLimit] else [])"
proof -
  let ?t = "tracker_new policy delay max_delay budget stable_after"
  have "max_delay \<le> dur_millis 100 * (2 ^ 32 - 1)"
    using assms(2) by (simp add: dur_millis_def dur_secs_def nanos_per_sec_def)
  also have "\<dots> \<le> delay * (2 ^ 32 - 1)" using assms(1) by (intro mult_le_mono1)
  finally have "max_delay \<le> delay * (2 ^ 32 - 1)" .
  moreover have "max_delay \<le> dur_max"
    using assms(2) by (simp add: dur_secs_def dur_max_def nanos_per_sec_def)
  ultimately show ?thesis
    using decide_all_schedule [of ?t ocs] assms(3,4)
    by (simp add: tracker_new_def scheduled_def [abs_def])
qed

theorem restart_budget_is_exact_witness:
  "decide_all (tracker_new OnFailure (dur_secs 1) (dur_secs 3) 2 (dur_secs 60))
     (replicate 3 (process_outcome_new (ER_Code 1) 0))
   = [RD_Restart (dur_secs 1) 1, RD_Restart (dur_secs 2) 2, RD_Fail SR_RestartLimit]"
  using restart_budget_is_exact [of "dur_secs 1" "dur_secs 3" 2 OnFailure "dur_secs 60"
      "replicate 3 (process_outcome_new (ER_Code 1) 0)"]
  by (simp add: crashes_def tracker_new_def process_outcome_new_def should_restart_def
      dur_millis_def dur_secs_def nanos_per_sec_def upt_rec)

text \<open>A run that lasted \<open>stable_after\<close> gives the service a fresh budget: when the policy
  restarts its outcome, the decision is a restart with attempt number 1 and the initial delay,
  even if the budget had been used up.\<close>

theorem stable_run_renews_budget:
  assumes "rt_stable_after t \<le> po_uptime outcome" and "should_restart t (po_reason outcome)"
    and "rt_restart_delay t \<le> dur_max"
  shows "decide t outcome None =
    (t\<lparr>rt_attempts := 1\<rparr>, RD_Restart (min (rt_restart_delay t) (rt_restart_max_delay t)) 1)"
  using assms backoff_first [of "t\<lparr>rt_attempts := 0\<rparr>"]
  by (simp add: decide_def should_restart_def budget_left_nat unat_gt_0 saturating_succ_def)

theorem stable_run_renews_budget_witness:
  "snd (decide ((tracker_new Always (dur_secs 1) (dur_secs 30) 1 (dur_secs 10))\<lparr>rt_attempts := 1\<rparr>)
     (process_outcome_new (ER_Code 1) (dur_secs 10)) None) = RD_Restart (dur_secs 1) 1"
  using stable_run_renews_budget
    [of "(tracker_new Always (dur_secs 1) (dur_secs 30) 1 (dur_secs 10))\<lparr>rt_attempts := 1\<rparr>"
        "process_outcome_new (ER_Code 1) (dur_secs 10)"]
  by (simp add: tracker_new_def process_outcome_new_def should_restart_def dur_max_def
      dur_secs_def nanos_per_sec_def)

text \<open>Exactly when the supervisor gives up: a decision is a failure if and only if no user asked
  for the shutdown, the policy wants a restart and a finite budget is used up by runs none of
  which (the last one included) was stable.  In particular an unlimited budget never fails and a
  user's shutdown outranks an exhausted budget.\<close>

theorem decide_fails_iff:
  "(\<exists>r. snd (decide t outcome shutdown) = RD_Fail r) \<longleftrightarrow>
     \<not> (\<exists>r. shutdown = Some r \<and> is_user_requested r)
     \<and> should_restart t (po_reason outcome)
     \<and> po_uptime outcome < rt_stable_after t
     \<and> rt_max_restarts t \<noteq> 0 \<and> rt_max_restarts t \<le> rt_attempts t"
  by (auto simp: decide_def should_restart_def budget_left_def Let_def word_gt_0 not_less
      split: option.splits)

end
