(* ===== verification/Errors.thy ===== *)
theory Errors
  imports Lifecycle
begin

text \<open>
  \<open>crates/servicrab-core/src/error.rs\<close>: configuration errors and warnings and runtime errors.
  Every variant of the source is a constructor with the source's fields.  A \<open>reason: String\<close>
  that the validation layer formats itself is kept as data (one constructor per message, with
  the values it interpolates), so that the model says which message is produced without
  modelling how \<open>{:?}\<close> escapes text.  Messages that come from the operating system or from a
  parser outside the repository are strings.
\<close>

type_synonym path = string
type_synonym service_name = string

section \<open>Reasons\<close>

text \<open>The messages of \<open>validate_name\<close>.\<close>

datatype name_reason =
    NameEmpty
  | NameNotAscii
  | NameTooLong (nr_max: nat) (nr_got: nat)
  | NameBadFirst char
  | NameBadChar char

text \<open>The messages of \<open>parse_duration_field\<close> for a duration outside its range.\<close>

datatype range_reason =
    AtLeast duration duration
  | AtMost duration duration

text \<open>The messages of \<open>build_probe\<close>, \<open>parse_http_url\<close> and \<open>parse_host_port\<close>.\<close>

datatype probe_reason =
    ProbeCommandEmpty
  | ProbeCommandNul
  | HttpsUnsupported
  | NotHttp
  | UrlCredentials
  | UrlNoHost
  | UnterminatedIpv6
  | ExpectedBracketPort
  | ExpectedHostPort
  | HostEmpty
  | PortInvalid string
  | PortZero

text \<open>The messages of \<open>parse_size\<close> and of the range check in \<open>validate_logs\<close>.\<close>

datatype size_reason =
    SizeEmpty
  | SizeNotANumber string
  | SizeNegative
  | SizeUnknownUnit string
  | SizeTooLarge
  | SizeOutOfRange nat

text \<open>\<open>EnvFileError\<close> with the messages of the parser, and the message of \<open>load_env_files\<close>.\<close>

datatype env_syntax_reason =
    ExpectedKeyValue string
  | InvalidKey string
  | DanglingBackslash
  | UnterminatedQuote char
  | TextAfterQuote string

datatype env_file_error =
    EF_Read string
  | EF_Syntax nat env_syntax_reason

datatype env_file_reason =
    EFR_File env_file_error
  | EFR_InvalidEntry string

text \<open>The messages of \<open>validate_watch\<close>.\<close>

datatype watch_reason =
    WatchNoPaths
  | WatchEmptyPath
  | WatchUnreadable path string
  | WatchEmptyIgnore

text \<open>The messages of the \<open>${VAR}\<close> substitution.\<close>

datatype subst_reason =
    MissingBrace string
  | NoName string
  | UnsupportedForm string string

text \<open>The \<open>scope\<close> of an error: \<open>"project"\<close>, \<open>"project.logs"\<close> or \<open>service {name:?}\<close>.\<close>

datatype scope = ScopeProject | ScopeProjectLogs | ScopeService string

section \<open>Configuration errors\<close>

text \<open>
  \<open>ConfigError\<close> has 45 variants.  Those about the value of one field, from
  \<open>InvalidDependencyCondition\<close> on, are the constructors of a datatype of their own, and an
  abbreviation gives each its place among the variants of the source.
\<close>

datatype value_error =
    VE_InvalidDependencyCondition string string string
  | VE_DependencyNotHealthChecked string string
  | VE_DependencyNeverCompletes string string
  | VE_InvalidDuration string string string string
  | VE_DurationOutOfRange string string range_reason
  | VE_RestartMaxDelayTooSmall string duration duration
  | VE_InvalidShutdownSignal string string
  | VE_MissingHealthProbe string
  | VE_ConflictingHealthProbes string string
  | VE_InvalidHealthProbe string string string probe_reason
  | VE_InvalidHealthRetries string
  | VE_InvalidSize string string size_reason
  | VE_InvalidMaxFiles u32
  | VE_InvalidLogDir path string
  | VE_InvalidUnhealthyAction string string
  | VE_InvalidEnvFile scope path env_file_reason
  | VE_UndefinedVariable scope string string
  | VE_InvalidSubstitution scope string subst_reason
  | VE_InvalidWatch string watch_reason

datatype config_error =
    CE_Read path string
  | CE_Parse path string
  | CE_ConfigNotFound path
  | CE_IncludeRead path path string
  | CE_IncludeNotAFragment path path string
  | CE_IncludeCycle string
  | CE_IncludeTwice path path path
  | CE_DuplicateService string path path
  | CE_UnsupportedVersion u32
  | CE_InvalidProjectName string name_reason
  | CE_InvalidServiceName string name_reason
  | CE_InvalidProfileName string string name_reason
  | CE_DuplicateProfile string string
  | CE_NoServices
  | CE_EmptyCommand string
  | CE_InvalidExecutable string
  | CE_NulInCommandArg string
  | CE_InvalidCwd string path
  | CE_InvalidEnvKey string string
  | CE_InvalidProjectEnvKey string
  | CE_NulInEnvValue string string
  | CE_NulInProjectEnvValue string
  | CE_UnknownDependency string string
  | CE_SelfDependency string
  | CE_DuplicateDependency string string
  | CE_DependencyCycle string
  | CE_Value value_error

abbreviation CE_InvalidDependencyCondition where "CE_InvalidDependencyCondition a b c \<equiv> CE_Value (VE_InvalidDependencyCondition a b c)"
abbreviation CE_DependencyNotHealthChecked where "CE_DependencyNotHealthChecked a b \<equiv> CE_Value (VE_DependencyNotHealthChecked a b)"
abbreviation CE_DependencyNeverCompletes where "CE_DependencyNeverCompletes a b \<equiv> CE_Value (VE_DependencyNeverCompletes a b)"
abbreviation CE_InvalidDuration where "CE_InvalidDuration a b c d \<equiv> CE_Value (VE_InvalidDuration a b c d)"
abbreviation CE_DurationOutOfRange where "CE_DurationOutOfRange a b c \<equiv> CE_Value (VE_DurationOutOfRange a b c)"
abbreviation CE_RestartMaxDelayTooSmall where "CE_RestartMaxDelayTooSmall a b c \<equiv> CE_Value (VE_RestartMaxDelayTooSmall a b c)"
abbreviation CE_InvalidShutdownSignal where "CE_InvalidShutdownSignal a b \<equiv> CE_Value (VE_InvalidShutdownSignal a b)"
abbreviation CE_MissingHealthProbe where "CE_MissingHealthProbe a \<equiv> CE_Value (VE_MissingHealthProbe a)"
abbreviation CE_ConflictingHealthProbes where "CE_ConflictingHealthProbes a b \<equiv> CE_Value (VE_ConflictingHealthProbes a b)"
abbreviation CE_InvalidHealthProbe where "CE_InvalidHealthProbe a b c d \<equiv> CE_Value (VE_InvalidHealthProbe a b c d)"
abbreviation CE_InvalidHealthRetries where "CE_InvalidHealthRetries a \<equiv> CE_Value (VE_InvalidHealthRetries a)"
abbreviation CE_InvalidSize where "CE_InvalidSize a b c \<equiv> CE_Value (VE_InvalidSize a b c)"
abbreviation CE_InvalidMaxFiles where "CE_InvalidMaxFiles a \<equiv> CE_Value (VE_InvalidMaxFiles a)"
abbreviation CE_InvalidLogDir where "CE_InvalidLogDir a b \<equiv> CE_Value (VE_InvalidLogDir a b)"
abbreviation CE_InvalidUnhealthyAction where "CE_InvalidUnhealthyAction a b \<equiv> CE_Value (VE_InvalidUnhealthyAction a b)"
abbreviation CE_InvalidEnvFile where "CE_InvalidEnvFile a b c \<equiv> CE_Value (VE_InvalidEnvFile a b c)"
abbreviation CE_UndefinedVariable where "CE_UndefinedVariable a b c \<equiv> CE_Value (VE_UndefinedVariable a b c)"
abbreviation CE_InvalidSubstitution where "CE_InvalidSubstitution a b c \<equiv> CE_Value (VE_InvalidSubstitution a b c)"
abbreviation CE_InvalidWatch where "CE_InvalidWatch a b \<equiv> CE_Value (VE_InvalidWatch a b)"

datatype config_warning =
    CW_ExecutableNotInPath string string
  | CW_RestartSettingsIgnored string string
  | CW_LogsWithoutProjectLogs string
  | CW_UnhealthyRestartWithoutPolicy string

section \<open>Runtime errors\<close>

datatype runtime_error =
    RE_UnknownService string string
  | RE_UnknownProfile string string
  | RE_NothingToStart string
  | RE_SpawnFailed string string string
  | RE_SignalRegistrationFailed string string string
  | RE_SignalDeliveryFailed string string int string
  | RE_WaitFailed string string
  | RE_ProcessGroupSetupFailed string string
  | RE_ForceKillFailed string int duration string
  | RE_RestartLimitExhausted string u32
  | RE_InvalidTransition string invalid_transition
  | RE_UnsupportedPlatform string

end
