(* ===== verification/Config.thy ===== *)
theory Config
  imports Errors
begin

text \<open>
  \<open>crates/servicrab-core/src/config.rs\<close>: the validated configuration.  Every struct is a
  record with the source's fields, every enum a datatype; \<open>PartialEq\<close> of the source, which the
  hot reload uses to decide whether a service has changed, is equality of the records.
\<close>

section \<open>Policy enums and their text\<close>

fun show_restart_policy :: "restart_policy \<Rightarrow> string" where
  "show_restart_policy Never = ''never''"
| "show_restart_policy OnFailure = ''on-failure''"
| "show_restart_policy Always = ''always''"
| "show_restart_policy UnlessStopped = ''unless-stopped''"

datatype shutdown_signal = SS_Term | SS_Int | SS_Quit | SS_Hup

fun show_shutdown_signal :: "shutdown_signal \<Rightarrow> string" where
  "show_shutdown_signal SS_Term = ''term''"
| "show_shutdown_signal SS_Int = ''int''"
| "show_shutdown_signal SS_Quit = ''quit''"
| "show_shutdown_signal SS_Hup = ''hup''"

datatype dependency_condition = ServiceStarted | ServiceHealthy | ServiceCompletedSuccessfully

fun show_dependency_condition :: "dependency_condition \<Rightarrow> string" where
  "show_dependency_condition ServiceStarted = ''service_started''"
| "show_dependency_condition ServiceHealthy = ''service_healthy''"
| "show_dependency_condition ServiceCompletedSuccessfully = ''service_completed_successfully''"

record dependency =
  dep_service :: service_name
  dep_condition :: "dependency_condition option"

section \<open>Project\<close>

record log_settings =
  ls_dir :: path
  ls_max_size :: u64
  ls_max_files :: u32

record project =
  proj_name :: string
  proj_env :: "(string, string) btmap"
  proj_env_files :: "path list"
  proj_logs :: "log_settings option"

section \<open>Health checks\<close>

datatype health_probe =
    HP_Command string "string list"
  | HP_Http string string u16 string
  | HP_Tcp string u16

fun show_health_probe :: "health_probe \<Rightarrow> string" where
  "show_health_probe (HP_Command executable args) =
     ''command '' @ executable @ concat (map (\<lambda>arg. '' '' @ arg) args)"
| "show_health_probe (HP_Http url _ _ _) = ''http '' @ url"
| "show_health_probe (HP_Tcp host port) = ''tcp '' @ host @ '':'' @ show_nat (unat port)"

datatype unhealthy_action = UA_Restart | UA_Ignore

fun show_unhealthy_action :: "unhealthy_action \<Rightarrow> string" where
  "show_unhealthy_action UA_Restart = ''restart''"
| "show_unhealthy_action UA_Ignore = ''ignore''"

record health_check =
  hc_probe :: health_probe
  hc_interval :: duration
  hc_timeout :: duration
  hc_retries :: u32
  hc_start_period :: duration
  hc_on_unhealthy :: unhealthy_action

section \<open>Services\<close>

record watch_settings =
  ws_paths :: "path list"
  ws_ignore :: "string list"
  ws_interval :: duration
  ws_debounce :: duration

record service =
  svc_name :: service_name
  svc_executable :: string
  svc_args :: "string list"
  svc_cwd :: path
  svc_env :: "(string, string) btmap"
  svc_env_files :: "path list"
  svc_depends_on :: "dependency list"
  svc_profiles :: "string list"
  svc_autostart :: bool
  svc_restart :: restart_policy
  svc_restart_delay :: duration
  svc_restart_max_delay :: duration
  svc_max_restarts :: u32
  svc_stable_after :: duration
  svc_shutdown_signal :: shutdown_signal
  svc_shutdown_timeout :: duration
  svc_health :: "health_check option"
  svc_log_to_file :: bool
  svc_watch :: "watch_settings option"

definition condition_for :: "dependency \<Rightarrow> service \<Rightarrow> dependency_condition" where
  "condition_for d target =
     (case dep_condition d of
        Some c \<Rightarrow> c
      | None \<Rightarrow> if svc_health target \<noteq> None then ServiceHealthy else ServiceStarted)"

text \<open>\<open>RestartTracker::from_service\<close> of \<open>lifecycle.rs\<close>.\<close>

definition tracker_from_service :: "service \<Rightarrow> restart_tracker" where
  "tracker_from_service s =
     tracker_new (svc_restart s) (svc_restart_delay s) (svc_restart_max_delay s)
       (svc_max_restarts s) (svc_stable_after s)"

section \<open>The configuration\<close>

record config =
  cfg_source_path :: path
  cfg_source_dir :: path
  cfg_project :: project
  cfg_services :: "(service_name, service) btmap"
  cfg_start_order :: "service_name list"

text \<open>The names a service depends on, in declaration order.\<close>

definition deps_of :: "service \<Rightarrow> service_name list" where
  "deps_of s = map dep_service (svc_depends_on s)"

text \<open>A service for the examples: the default settings, with timings of a few nanoseconds.\<close>

definition plain_service :: "service_name \<Rightarrow> service_name list \<Rightarrow> service" where
  "plain_service name deps =
     \<lparr> svc_name = name, svc_executable = ''sleep'', svc_args = [''1''], svc_cwd = ''/p'', svc_env = [],
       svc_env_files = [], svc_depends_on = map (\<lambda>d. \<lparr> dep_service = d, dep_condition = None \<rparr>) deps,
       svc_profiles = [], svc_autostart = True, svc_restart = Never,
       svc_restart_delay = 1, svc_restart_max_delay = 30, svc_max_restarts = 10,
       svc_stable_after = 60, svc_shutdown_signal = SS_Term,
       svc_shutdown_timeout = 10, svc_health = None, svc_log_to_file = True,
       svc_watch = None \<rparr>"

end
