(* ===== verification/Graph.thy ===== *)
theory Graph
  imports Errors "HOL-Library.Multiset"
begin

text \<open>
  \<open>crates/servicrab-core/src/graph.rs\<close>: Kahn's algorithm for the start order and the depth-first
  search that names a cycle.  A dependency graph is the ordered map from a service to the list
  of the services it depends on.  The two working maps of the source are ordered maps too; the
  \<open>VecDeque\<close> is a list.  \<open>expect("all nodes registered")\<close> and the unsigned \<open>*deg -= 1\<close> are
  possible panics: \<open>visit_successors\<close> returns \<open>None\<close> where one of them would happen, and the
  sort is then \<open>None\<close> as well.
\<close>

type_synonym dep_graph = "(service_name, service_name list) btmap"

section \<open>Kahn's algorithm\<close>

text \<open>\<open>in_degree.entry(name).or_insert(0)\<close> for every key of \<open>deps\<close>.\<close>

definition or_insert :: "'k::linorder \<Rightarrow> 'v \<Rightarrow> ('k, 'v) btmap \<Rightarrow> ('k, 'v) btmap" where
  "or_insert k v m = (case bt_get m k of None \<Rightarrow> bt_insert k v m | Some _ \<Rightarrow> m)"

definition bump :: "service_name \<Rightarrow> (service_name, nat) btmap \<Rightarrow> (service_name, nat) btmap" where
  "bump name m = bt_insert name (Suc (case bt_get m name of None \<Rightarrow> 0 | Some d \<Rightarrow> d)) m"

definition push_adj :: "service_name \<Rightarrow> service_name \<Rightarrow> (service_name, service_name list) btmap
    \<Rightarrow> (service_name, service_name list) btmap" where
  "push_adj dep name m = bt_insert dep ((case bt_get m dep of None \<Rightarrow> [] | Some ns \<Rightarrow> ns) @ [name]) m"

type_synonym kahn_maps = "(service_name, nat) btmap \<times> (service_name, service_name list) btmap"

definition register_keys :: "dep_graph \<Rightarrow> kahn_maps" where
  "register_keys deps =
     fold (\<lambda>name (in_degree, adj). (or_insert name 0 in_degree, or_insert name [] adj))
       (bt_keys deps) ([], [])"

definition add_edges :: "service_name \<Rightarrow> service_name list \<Rightarrow> kahn_maps \<Rightarrow> kahn_maps" where
  "add_edges name service_deps maps =
     fold (\<lambda>dep (in_degree, adj). (bump name in_degree, push_adj dep name adj)) service_deps maps"

definition kahn_init :: "dep_graph \<Rightarrow> kahn_maps" where
  "kahn_init deps =
     fold (\<lambda>(name, service_deps) maps. add_edges name service_deps maps) deps (register_keys deps)"

text \<open>\<open>queue.insert(partition_point(|q| q < successor), successor)\<close>.\<close>

definition queue_insert :: "service_name \<Rightarrow> service_name list \<Rightarrow> service_name list" where
  "queue_insert s queue =
     takeWhile (\<lambda>q. q < s) queue @ s # dropWhile (\<lambda>q. q < s) queue"

fun visit_successors :: "service_name list \<Rightarrow> service_name list \<Rightarrow> (service_name, nat) btmap
    \<Rightarrow> (service_name list \<times> (service_name, nat) btmap) option" where
  "visit_successors [] queue in_degree = Some (queue, in_degree)"
| "visit_successors (s # ss) queue in_degree =
     (case bt_get in_degree s of
        None \<Rightarrow> None
      | Some 0 \<Rightarrow> None
      | Some (Suc deg) \<Rightarrow>
          visit_successors ss (if deg = 0 then queue_insert s queue else queue)
            (bt_set s deg in_degree))"

definition total_degree :: "(service_name, nat) btmap \<Rightarrow> nat" where
  "total_degree m = sum_list (map snd m)"

lemma length_queue_insert [simp]: "length (queue_insert s queue) = Suc (length queue)"
proof -
  have "length (takeWhile (\<lambda>q. q < s) queue @ dropWhile (\<lambda>q. q < s) queue) = length queue" by simp
  then show ?thesis unfolding queue_insert_def by (simp del: takeWhile_dropWhile_id)
qed

lemma set_queue_insert [simp]: "set (queue_insert s queue) = insert s (set queue)"
proof -
  have "set (takeWhile (\<lambda>q. q < s) queue @ dropWhile (\<lambda>q. q < s) queue) = set queue" by simp
  then show ?thesis unfolding queue_insert_def by (auto simp del: takeWhile_dropWhile_id)
qed

lemma total_degree_decrement:
  "bt_get m k = Some (Suc d) \<Longrightarrow> Suc (total_degree (bt_set k d m)) = total_degree m"
  by (induction k d m rule: bt_set.induct)
     (auto simp: total_degree_def bt_get_Cons split: if_splits)

lemma visit_successors_measure:
  "visit_successors ss queue in_degree = Some (queue', in_degree') \<Longrightarrow>
   total_degree in_degree' + length queue' \<le> total_degree in_degree + length queue"
proof (induction ss queue in_degree rule: visit_successors.induct)
  case (2 s ss queue in_degree)
  then obtain deg where deg: "bt_get in_degree s = Some (Suc deg)"
    by (auto split: option.splits nat.splits)
  with 2 total_degree_decrement [OF deg] show ?case by (fastforce split: if_splits)
qed simp

function kahn_loop :: "(service_name, service_name list) btmap \<Rightarrow> service_name list
    \<Rightarrow> (service_name, nat) btmap \<Rightarrow> service_name list
    \<Rightarrow> (service_name list \<times> (service_name, nat) btmap) option" where
  "kahn_loop adj [] in_degree order = Some (order, in_degree)"
| "kahn_loop adj (name # queue) in_degree order =
     (let next = sort (case bt_get adj name of None \<Rightarrow> [] | Some ns \<Rightarrow> ns) in
      case visit_successors next queue in_degree of
        None \<Rightarrow> None
      | Some (queue', in_degree') \<Rightarrow> kahn_loop adj queue' in_degree' (order @ [name]))"
  by pat_completeness auto
termination
  by (relation "measure (\<lambda>(adj, queue, in_degree, order). total_degree in_degree + length queue)")
     (auto dest!: visit_successors_measure simp: less_Suc_eq_le)

section \<open>Naming a cycle\<close>

text \<open>
  The search keeps its path on a stack (\<open>path\<close>, with \<open>on_path\<close> the set of its nodes) and
  restores both before it returns \<open>None\<close>, so they are arguments of the model; \<open>finished\<close> is
  the state that calls share and is passed on.  \<open>dfs\<close> visits one node, \<open>dfs_deps\<close> is the loop
  over the sorted dependencies.  A node is entered only when it is in \<open>remaining\<close> and not on
  the path, which bounds the depth.
\<close>

type_synonym dfs_result = "service_name list option \<times> service_name set"

text \<open>\<open>path[start_idx..]\<close> with the node that closes the loop pushed at the end.\<close>

definition close_cycle :: "service_name \<Rightarrow> service_name list \<Rightarrow> service_name list" where
  "close_cycle node path = dropWhile (\<lambda>n. n \<noteq> node) path @ [node]"

function (sequential) dfs :: "service_name \<Rightarrow> dep_graph \<Rightarrow> service_name list \<Rightarrow> service_name list
    \<Rightarrow> service_name set \<Rightarrow> service_name set \<Rightarrow> dfs_result"
  and dfs_deps :: "service_name list \<Rightarrow> dep_graph \<Rightarrow> service_name list \<Rightarrow> service_name list
    \<Rightarrow> service_name set \<Rightarrow> service_name set \<Rightarrow> dfs_result" where
  "dfs node deps remaining path on_path finished =
     (if node \<in> on_path then (Some (close_cycle node path), finished)
      else if node \<in> finished \<or> node \<notin> set remaining then (None, finished)
      else
        case (case bt_get deps node of
                None \<Rightarrow> (None, finished)
              | Some service_deps \<Rightarrow>
                  dfs_deps (sort service_deps) deps remaining (path @ [node]) (insert node on_path)
                    finished) of
          (Some cycle, finished') \<Rightarrow> (Some cycle, finished')
        | (None, finished') \<Rightarrow> (None, insert node finished'))"
| "dfs_deps [] deps remaining path on_path finished = (None, finished)"
| "dfs_deps (d # ds) deps remaining path on_path finished =
     (case dfs d deps remaining path on_path finished of
        (Some cycle, finished') \<Rightarrow> (Some cycle, finished')
      | (None, finished') \<Rightarrow> dfs_deps ds deps remaining path on_path finished')"
  by pat_completeness auto
termination
proof (relation "measures
    [\<lambda>x. case x of Inl (node, deps, remaining, path, on_path, finished) \<Rightarrow>
                     2 * card (set remaining - on_path)
                 | Inr (ds, deps, remaining, path, on_path, finished) \<Rightarrow>
                     Suc (2 * card (set remaining - on_path)),
     \<lambda>x. case x of Inl _ \<Rightarrow> 0 | Inr (ds, _) \<Rightarrow> length ds]")
  fix node :: service_name and deps remaining path on_path finished service_deps
  assume "\<not> node \<in> on_path" "\<not> (node \<in> finished \<or> node \<notin> set remaining)"
  then have "card (set remaining - insert node on_path) < card (set remaining - on_path)"
    by (intro psubset_card_mono) auto
  then show "(Inr (sort service_deps, deps, remaining, path @ [node], insert node on_path, finished),
      Inl (node, deps, remaining, path, on_path, finished)) \<in> measures
    [\<lambda>x. case x of Inl (node, deps, remaining, path, on_path, finished) \<Rightarrow>
                     2 * card (set remaining - on_path)
                 | Inr (ds, deps, remaining, path, on_path, finished) \<Rightarrow>
                     Suc (2 * card (set remaining - on_path)),
     \<lambda>x. case x of Inl _ \<Rightarrow> 0 | Inr (ds, _) \<Rightarrow> length ds]"
    by simp
qed auto

fun find_cycle_from :: "service_name list \<Rightarrow> dep_graph \<Rightarrow> service_name list
    \<Rightarrow> service_name set \<Rightarrow> service_name list option" where
  "find_cycle_from [] deps remaining finished = None"
| "find_cycle_from (start # starts) deps remaining finished =
     (if start \<in> finished then find_cycle_from starts deps remaining finished
      else case dfs start deps remaining [] {} finished of
             (Some cycle, _) \<Rightarrow> Some cycle
           | (None, finished') \<Rightarrow> find_cycle_from starts deps remaining finished')"

definition find_cycle :: "dep_graph \<Rightarrow> service_name list \<Rightarrow> string" where
  "find_cycle deps remaining =
     join '' -> '' (case find_cycle_from remaining deps remaining {} of
                      Some cycle \<Rightarrow> cycle | None \<Rightarrow> remaining)"

text \<open>
  The \<open>filter\<close> over a \<open>BTreeMap\<close> yields its keys in order, so the \<open>sort\<close> of the initial queue
  is the identity on them.
\<close>

definition topological_sort :: "dep_graph \<Rightarrow> (config_error + service_name list) option" where
  "topological_sort deps =
     (let (in_degree, adj) = kahn_init deps;
          queue = sort (map fst (filter (\<lambda>(_, deg). deg = 0) in_degree)) in
      case kahn_loop adj queue in_degree [] of
        None \<Rightarrow> None
      | Some (order, in_degree') \<Rightarrow>
          if length order \<noteq> length deps
          then Some (Inl (CE_DependencyCycle
                 (find_cycle deps (map fst (filter (\<lambda>(_, deg). deg > 0) in_degree')))))
          else Some (Inr order))"

section \<open>Lemmas on the working maps\<close>

definition deps_at :: "dep_graph \<Rightarrow> service_name \<Rightarrow> service_name list" where
  "deps_at deps n = (case bt_get deps n of None \<Rightarrow> [] | Some ds \<Rightarrow> ds)"

definition adj_at :: "(service_name, service_name list) btmap \<Rightarrow> service_name \<Rightarrow> service_name list" where
  "adj_at adj n = (case bt_get adj n of None \<Rightarrow> [] | Some ns \<Rightarrow> ns)"

lemma bt_get_or_insert: "bt_get (or_insert k v m) x =
    (case bt_get m x of None \<Rightarrow> if x = k then Some v else None | Some w \<Rightarrow> Some w)"
  by (auto simp: or_insert_def bt_get_insert split: option.splits)

lemma bt_wf_or_insert: "bt_wf m \<Longrightarrow> bt_wf (or_insert k v m)"
  by (simp add: or_insert_def bt_wf_insert split: option.splits)

lemma register_keys_fold:
  "fold (\<lambda>name (in_degree, adj). (or_insert name 0 in_degree, or_insert name [] adj)) names (i, a)
   = (i', a') \<Longrightarrow>
   (\<forall>n. bt_get i' n = (case bt_get i n of None \<Rightarrow> if n \<in> set names then Some 0 else None | Some d \<Rightarrow> Some d))
   \<and> adj_at a' = adj_at a \<and> (bt_wf i \<longrightarrow> bt_wf i')"
proof (induction names arbitrary: i a)
  case (Cons name names)
  from Cons.prems have "fold (\<lambda>name (in_degree, adj). (or_insert name 0 in_degree, or_insert name [] adj))
      names (or_insert name 0 i, or_insert name [] a) = (i', a')" by simp
  moreover have "adj_at (or_insert name [] a) = adj_at a"
    by (auto simp: adj_at_def fun_eq_iff bt_get_or_insert split: option.splits)
  ultimately show ?case
    using Cons.IH by (fastforce simp: bt_get_or_insert bt_wf_or_insert split: option.splits)
qed (simp split: option.splits)

lemma adj_at_push: "adj_at (push_adj dep name m) x = (if x = dep then adj_at m dep @ [name] else adj_at m x)"
  by (simp add: adj_at_def push_adj_def bt_get_insert)

lemma add_edges_fold:
  "add_edges name ds (i, a) = (i', a') \<Longrightarrow>
   (\<forall>n. bt_get i' n = (if n = name \<and> ds \<noteq> []
          then Some ((case bt_get i n of None \<Rightarrow> 0 | Some d \<Rightarrow> d) + length ds) else bt_get i n))
   \<and> (\<forall>d. adj_at a' d = adj_at a d @ replicate (count_list ds d) name) \<and> (bt_wf i \<longrightarrow> bt_wf i')"
proof (induction ds arbitrary: i a)
  case (Cons d ds)
  from Cons.prems have "add_edges name ds (bump name i, push_adj d name a) = (i', a')"
    by (simp add: add_edges_def)
  from Cons.IH [OF this] show ?case
    by (auto simp: bump_def bt_get_insert bt_wf_insert adj_at_push replicate_append_same [symmetric]
        split: option.splits)
qed (simp add: add_edges_def)

lemma kahn_init_fold:
  assumes "fold (\<lambda>(name, service_deps) maps. add_edges name service_deps maps) es (i, a) = (i', a')"
    and "distinct (map fst es)"
  shows "(\<forall>n. (case bt_get i' n of None \<Rightarrow> 0 | Some d \<Rightarrow> d) =
            (case bt_get i n of None \<Rightarrow> 0 | Some d \<Rightarrow> d) + (case map_of es n of None \<Rightarrow> 0 | Some ds \<Rightarrow> length ds))
   \<and> (\<forall>n. bt_get i n \<noteq> None \<longrightarrow> bt_get i' n \<noteq> None)
   \<and> (\<forall>n. n \<notin> fst ` set es \<longrightarrow> bt_get i' n = bt_get i n)
   \<and> (\<forall>d. adj_at a' d = adj_at a d @ concat (map (\<lambda>(n, ds). replicate (count_list ds d) n) es))
   \<and> (bt_wf i \<longrightarrow> bt_wf i')"
  using assms
proof (induction es arbitrary: i a)
  case (Cons e es)
  obtain name ds where e: "e = (name, ds)" by fastforce
  obtain i1 a1 where step: "add_edges name ds (i, a) = (i1, a1)" by fastforce
  have "fold (\<lambda>(name, service_deps) maps. add_edges name service_deps maps) es (i1, a1) = (i', a')"
    using Cons.prems(1) by (simp add: e step)
  note IH = Cons.IH [OF this]
  have "name \<notin> fst ` set es" "map_of es name = None" "distinct (map fst es)"
    using Cons.prems(2) by (simp_all add: e map_of_eq_None_iff)
  with IH add_edges_fold [OF step] show ?case
    by (simp add: e split: option.splits)
qed simp

lemma kahn_init_correct:
  assumes "bt_wf deps"
  shows "bt_get (fst (kahn_init deps)) n = map_option length (bt_get deps n)"
    and "adj_at (snd (kahn_init deps)) d = concat (map (\<lambda>(n, ds). replicate (count_list ds d) n) deps)"
    and "bt_wf (fst (kahn_init deps))"
proof -
  obtain i a where reg: "register_keys deps = (i, a)" by fastforce
  obtain i' a' where init: "kahn_init deps = (i', a')" by fastforce
  have R: "bt_get i m = (if m \<in> fst ` set deps then Some 0 else None)" "adj_at a = (\<lambda>_. [])" "bt_wf i" for m
    using register_keys_fold [of "bt_keys deps" "[]" "[]" i a] reg
    by (simp_all add: register_keys_def bt_keys_def adj_at_def fun_eq_iff)
  note I = kahn_init_fold [of deps i a i' a', OF _ bt_wf_distinct [OF assms]]
  have I': "(\<forall>n. (case bt_get i' n of None \<Rightarrow> 0 | Some d \<Rightarrow> d) = (case bt_get deps n of None \<Rightarrow> 0 | Some ds \<Rightarrow> length ds))"
      "\<forall>n. bt_get i n \<noteq> None \<longrightarrow> bt_get i' n \<noteq> None" "\<forall>n. n \<notin> fst ` set deps \<longrightarrow> bt_get i' n = bt_get i n"
      "\<forall>d. adj_at a' d = concat (map (\<lambda>(n, ds). replicate (count_list ds d) n) deps)" "bt_wf i'"
    using I init R by (simp_all add: kahn_init_def reg bt_get_def split: if_splits)
  show "bt_get (fst (kahn_init deps)) n = map_option length (bt_get deps n)"
  proof (cases "n \<in> fst ` set deps")
    case True
    then obtain ds where "bt_get deps n = Some ds" using bt_get_dom [of deps n] by auto
    moreover obtain d where "bt_get i' n = Some d" using I'(2) R(1) True by (metis not_None_eq)
    ultimately show ?thesis using I'(1) by (metis fst_conv init option.simps(5,9))
  next
    case False
    then have "bt_get deps n = None" by (simp add: bt_get_dom)
    then show ?thesis using I'(3) R(1) False by (simp add: init)
  qed
  show "adj_at (snd (kahn_init deps)) d = concat (map (\<lambda>(n, ds). replicate (count_list ds d) n) deps)"
    using I'(4) by (simp add: init)
  show "bt_wf (fst (kahn_init deps))" using I'(5) by (simp add: init)
qed

lemma count_list_replicate [simp]: "count_list (replicate k x) y = (if x = y then k else 0)"
  by (induction k) auto

lemma count_adj:
  assumes "distinct (map fst deps)"
  shows "count_list (concat (map (\<lambda>(n, ds). replicate (count_list ds d) n) deps)) n
    = (case map_of deps n of None \<Rightarrow> 0 | Some ds \<Rightarrow> count_list ds d)"
  using assms
proof (induction deps)
  case (Cons e deps)
  obtain m ds where e: "e = (m, ds)" by fastforce
  with Cons.prems have "map_of deps m = None" by (simp add: map_of_eq_None_iff)
  with e Cons show ?case by (auto split: option.splits)
qed simp

section \<open>The invariant of the sort\<close>

text \<open>The dependencies of \<open>n\<close> that are not scheduled yet, counted as the in-degrees count them.\<close>

definition pending :: "dep_graph \<Rightarrow> service_name list \<Rightarrow> service_name \<Rightarrow> nat" where
  "pending deps order n = length (filter (\<lambda>d. d \<notin> set order) (deps_at deps n))"

definition in_order :: "dep_graph \<Rightarrow> service_name list \<Rightarrow> bool" where
  "in_order deps order = (\<forall>i < length order. set (deps_at deps (order ! i)) \<subseteq> set (take i order))"

text \<open>Every service is scheduled as the least of those that were ready at its turn.\<close>

definition greedy :: "dep_graph \<Rightarrow> service_name list \<Rightarrow> bool" where
  "greedy deps order = (\<forall>i < length order. \<forall>n \<in> fst ` set deps - set (take i order).
     set (deps_at deps n) \<subseteq> set (take i order) \<longrightarrow> order ! i \<le> n)"

definition kahn_inv :: "dep_graph \<Rightarrow> service_name list \<Rightarrow> (service_name, nat) btmap
    \<Rightarrow> service_name list \<Rightarrow> bool" where
  "kahn_inv deps queue in_degree order \<longleftrightarrow>
     bt_wf in_degree
     \<and> (\<forall>n. bt_get in_degree n = map_option (\<lambda>_. pending deps order n) (bt_get deps n))
     \<and> distinct (order @ queue)
     \<and> set queue = {n \<in> fst ` set deps. pending deps order n = 0} - set order
     \<and> set order \<subseteq> fst ` set deps
     \<and> in_order deps order
     \<and> sorted queue \<and> greedy deps order"

lemma pending_snoc:
  assumes "x \<notin> set order"
  shows "pending deps (order @ [x]) n = pending deps order n - count_list (deps_at deps n) x"
    and "count_list (deps_at deps n) x \<le> pending deps order n"
proof -
  have "length (filter (\<lambda>d. d \<notin> set order) ds)
      = length (filter (\<lambda>d. d \<notin> set (order @ [x])) ds) + count_list ds x" for ds
    using assms by (induction ds) auto
  then show "pending deps (order @ [x]) n = pending deps order n - count_list (deps_at deps n) x"
    and "count_list (deps_at deps n) x \<le> pending deps order n"
    by (simp_all add: pending_def)
qed

lemma pending_zero_iff: "pending deps order n = 0 \<longleftrightarrow> set (deps_at deps n) \<subseteq> set order"
  by (auto simp: pending_def filter_empty_conv)

lemma distinct_queue_insert: "distinct queue \<Longrightarrow> s \<notin> set queue \<Longrightarrow> distinct (queue_insert s queue)"
proof -
  assume a: "distinct queue" "s \<notin> set queue"
  have "mset (queue_insert s queue) = mset (s # queue)"
    unfolding queue_insert_def
    by (metis add_mset_add_single mset.simps(2) mset_append takeWhile_dropWhile_id union_mset_add_mset_right)
  then show "distinct (queue_insert s queue)"
    using a by (metis distinct.simps(2) mset_eq_imp_distinct_iff)
qed

lemma sorted_queue_insert: "sorted queue \<Longrightarrow> sorted (queue_insert s queue)"
proof -
  assume q: "sorted queue"
  have "sorted (takeWhile (\<lambda>q. q < s) queue @ dropWhile (\<lambda>q. q < s) queue)" using q by simp
  then have parts: "sorted (takeWhile (\<lambda>q. q < s) queue)" "sorted (dropWhile (\<lambda>q. q < s) queue)"
    by (simp_all only: sorted_append)
  moreover have "s \<le> x" if "x \<in> set (dropWhile (\<lambda>q. q < s) queue)" for x
  proof (cases "dropWhile (\<lambda>q. q < s) queue")
    case (Cons y ys)
    then have "s \<le> y" using hd_dropWhile [of "\<lambda>q. q < s" queue] by simp
    moreover have "y \<le> x" using parts(2) that Cons by auto
    ultimately show ?thesis by (rule order_trans)
  next
    case Nil
    with that have False by (simp only: Nil) simp
    then show ?thesis ..
  qed
  moreover have "x < s" if "x \<in> set (takeWhile (\<lambda>q. q < s) queue)" for x
    using set_takeWhileD [OF that] by simp
  ultimately show ?thesis by (fastforce simp: queue_insert_def sorted_append)
qed

lemma visit_successors_sorted:
  "visit_successors ss q i = Some (q', i') \<Longrightarrow> sorted q \<Longrightarrow> sorted q'"
  by (induction ss q i rule: visit_successors.induct)
     (auto simp: sorted_queue_insert split: option.splits nat.splits if_splits)

lemma visit_successors_correct:
  assumes "\<forall>s \<in> set ss. \<exists>d. bt_get i s = Some d \<and> count_list ss s \<le> d"
  shows "\<exists>q' i'. visit_successors ss q i = Some (q', i')
    \<and> (\<forall>n. bt_get i' n = map_option (\<lambda>d. d - count_list ss n) (bt_get i n))
    \<and> set q' = set q \<union> {s \<in> set ss. bt_get i s = Some (count_list ss s)}
    \<and> (distinct q \<and> set ss \<inter> set q = {} \<longrightarrow> distinct q')
    \<and> (bt_wf i \<longrightarrow> bt_wf i')"
  using assms
proof (induction ss arbitrary: q i)
  case Nil
  then show ?case by (simp add: option.map_ident)
next
  case (Cons s ss)
  obtain d where d: "bt_get i s = Some d" "Suc (count_list ss s) \<le> d"
    using Cons.prems by auto
  then obtain deg where deg: "bt_get i s = Some (Suc deg)" "count_list ss s \<le> deg"
    by (cases d) auto
  let ?i = "bt_set s deg i" and ?q = "if deg = 0 then queue_insert s q else q"
  have get: "bt_get ?i n = (if n = s then Some deg else bt_get i n)" for n
    using deg by (simp add: bt_get_set)
  have "\<forall>x \<in> set ss. \<exists>d. bt_get ?i x = Some d \<and> count_list ss x \<le> d"
    using Cons.prems deg(2) by (auto simp: get)
  from Cons.IH [OF this, of ?q] obtain q' i' where IH:
    "visit_successors ss ?q ?i = Some (q', i')"
    "\<forall>n. bt_get i' n = map_option (\<lambda>d. d - count_list ss n) (bt_get ?i n)"
    "set q' = set ?q \<union> {x \<in> set ss. bt_get ?i x = Some (count_list ss x)}"
    "distinct ?q \<and> set ss \<inter> set ?q = {} \<longrightarrow> distinct q'" "bt_wf ?i \<longrightarrow> bt_wf i'"
    by blast
  have notin: "s \<notin> set ss" if "deg = 0"
    using that deg(2) by (simp add: count_list_0_iff)
  have "visit_successors (s # ss) q i = Some (q', i')" using IH(1) deg by simp
  moreover have "\<forall>n. bt_get i' n = map_option (\<lambda>d. d - count_list (s # ss) n) (bt_get i n)"
    using IH(2) deg by (auto simp: get)
  moreover have "set q' = set q \<union> {x \<in> set (s # ss). bt_get i x = Some (count_list (s # ss) x)}"
  proof -
    have "x \<in> set q' \<longleftrightarrow> x \<in> set q \<or> x \<in> set (s # ss) \<and> bt_get i x = Some (count_list (s # ss) x)" for x
    proof (cases "x = s")
      case True
      have "s \<in> set q' \<longleftrightarrow> s \<in> set q \<or> deg = 0 \<or> s \<in> set ss \<and> deg = count_list ss s"
        by (simp add: IH(3) get)
      also have "\<dots> \<longleftrightarrow> s \<in> set q \<or> deg = count_list ss s"
        using deg(2) count_list_0_iff [of ss s] by (cases "s \<in> set ss") auto
      finally show ?thesis using True deg(1) by simp
    next
      case False
      then show ?thesis by (simp add: IH(3) get)
    qed
    then show ?thesis by blast
  qed
  moreover have "distinct q \<and> set (s # ss) \<inter> set q = {} \<longrightarrow> distinct q'"
    using IH(4) notin by (auto simp: distinct_queue_insert)
  moreover have "bt_wf i \<longrightarrow> bt_wf i'" using IH(5) by simp
  ultimately show ?case by blast
qed

lemma in_order_snoc: "in_order deps order \<Longrightarrow> set (deps_at deps x) \<subseteq> set order \<Longrightarrow> in_order deps (order @ [x])"
  by (auto simp: in_order_def nth_append less_Suc_eq)

lemma greedy_snoc:
  assumes "greedy deps order"
    and "\<And>n. n \<in> fst ` set deps - set order \<Longrightarrow> set (deps_at deps n) \<subseteq> set order \<Longrightarrow> x \<le> n"
  shows "greedy deps (order @ [x])"
  using assms by (auto simp: greedy_def nth_append less_Suc_eq)

lemma in_order_closed: "in_order deps order \<Longrightarrow> n \<in> set order \<Longrightarrow> set (deps_at deps n) \<subseteq> set order"
  by (metis in_order_def in_set_conv_nth set_take_subset subset_trans)

lemma deps_at_unknown: "n \<notin> fst ` set deps \<Longrightarrow> deps_at deps n = []"
  by (simp add: deps_at_def bt_get_dom [THEN iffD2])

lemma kahn_step:
  assumes inv: "kahn_inv deps (x # queue) in_degree order"
    and adj: "\<And>n. count_list (adj_at adj x) n = count_list (deps_at deps n) x"
  shows "\<exists>queue' in_degree'. visit_successors (sort (adj_at adj x)) queue in_degree = Some (queue', in_degree')
    \<and> kahn_inv deps queue' in_degree' (order @ [x])"
proof -
  let ?ss = "sort (adj_at adj x)"
  have count: "count_list ?ss n = count_list (deps_at deps n) x" for n
    by (metis adj count_mset mset_sort)
  have x: "x \<notin> set order" "x \<notin> set queue" "pending deps order x = 0" "x \<in> fst ` set deps"
    using inv by (auto simp: kahn_inv_def)
  have in_ss: "n \<in> set ?ss \<longleftrightarrow> x \<in> set (deps_at deps n)" for n
    using count [of n] by (metis count_list_0_iff)
  have key: "n \<in> fst ` set deps" if "n \<in> set ?ss" for n
    using that in_ss deps_at_unknown by fastforce
  have pend: "pending deps order n \<noteq> 0" if "n \<in> set ?ss" for n
    using that in_ss x(1) by (auto simp: pending_zero_iff)
  have get: "bt_get in_degree n = (if n \<in> fst ` set deps then Some (pending deps order n) else None)" for n
    using inv bt_get_dom [of deps n] by (auto simp: kahn_inv_def)
  have "\<forall>s \<in> set ?ss. \<exists>d. bt_get in_degree s = Some d \<and> count_list ?ss s \<le> d"
    using key pending_snoc(2) [OF x(1)] by (simp add: get count)
  from visit_successors_correct [OF this, of queue] obtain queue' in_degree' where visit:
    "visit_successors ?ss queue in_degree = Some (queue', in_degree')"
    "\<And>n. bt_get in_degree' n = map_option (\<lambda>d. d - count_list ?ss n) (bt_get in_degree n)"
    "set queue' = set queue \<union> {s \<in> set ?ss. bt_get in_degree s = Some (count_list ?ss s)}"
    "distinct queue \<and> set ?ss \<inter> set queue = {} \<longrightarrow> distinct queue'" "bt_wf in_degree \<longrightarrow> bt_wf in_degree'"
    by blast
  have snoc: "pending deps (order @ [x]) n = pending deps order n - count_list ?ss n" for n
    using pending_snoc(1) [OF x(1)] by (simp add: count)
  have queue: "set queue = {n \<in> fst ` set deps. pending deps order n = 0} - set order - {x}"
    using inv by (auto simp: kahn_inv_def)
  have ss_new: "set ?ss \<inter> (set order \<union> {x} \<union> set queue) = {}"
    using pend x(3) queue in_order_closed [of deps order] inv
    by (auto simp: kahn_inv_def pending_zero_iff) (metis pend pending_zero_iff set_sort)+
  have "set queue' = {n \<in> fst ` set deps. pending deps (order @ [x]) n = 0} - set (order @ [x])"
  proof -
    have "n \<in> set queue' \<longleftrightarrow> n \<in> fst ` set deps \<and> pending deps (order @ [x]) n = 0 \<and> n \<notin> set (order @ [x])" for n
    proof (cases "n \<in> set ?ss")
      case True
      with ss_new key [OF True] pending_snoc(2) [OF x(1), of deps n] show ?thesis
        by (auto simp: visit(3) get snoc count)
    next
      case False
      then have "count_list ?ss n = 0" by (simp add: count_list_0_iff)
      with False show ?thesis by (auto simp: visit(3) snoc queue)
    qed
    then show ?thesis by blast
  qed
  moreover have "distinct ((order @ [x]) @ queue')"
  proof -
    have "distinct queue'" using visit(4) ss_new inv by (auto simp: kahn_inv_def)
    with calculation show ?thesis using inv by (auto simp: kahn_inv_def)
  qed
  moreover have "in_order deps (order @ [x])"
    using inv x(3) by (simp add: in_order_snoc kahn_inv_def pending_zero_iff)
  moreover have "sorted queue'"
    using visit_successors_sorted [OF visit(1)] inv by (simp add: kahn_inv_def)
  moreover have "greedy deps (order @ [x])"
  proof (rule greedy_snoc)
    fix n assume "n \<in> fst ` set deps - set order" "set (deps_at deps n) \<subseteq> set order"
    then have "n \<in> set (x # queue)" using inv by (auto simp: kahn_inv_def pending_zero_iff)
    then show "x \<le> n" using inv by (auto simp: kahn_inv_def)
  qed (use inv in \<open>simp add: kahn_inv_def\<close>)
  moreover have "bt_get in_degree' n = map_option (\<lambda>_. pending deps (order @ [x]) n) (bt_get deps n)" for n
    using get [of n] bt_get_dom [of deps n] by (cases "bt_get deps n") (auto simp: visit(2) snoc)
  ultimately have "kahn_inv deps queue' in_degree' (order @ [x])"
    using visit(5) inv x(4) by (simp add: kahn_inv_def)
  with visit(1) show ?thesis by blast
qed

lemma kahn_loop_correct:
  assumes "kahn_inv deps queue in_degree order"
    and "\<And>x n. count_list (adj_at adj x) n = count_list (deps_at deps n) x"
  shows "\<exists>order' in_degree'. kahn_loop adj queue in_degree order = Some (order', in_degree')
    \<and> kahn_inv deps [] in_degree' order'"
  using assms
proof (induction adj queue in_degree order rule: kahn_loop.induct)
  case (2 adj x queue in_degree order)
  from kahn_step [OF "2.prems"(1), of adj] "2.prems"(2)
  obtain queue' in_degree' where
    "visit_successors (sort (adj_at adj x)) queue in_degree = Some (queue', in_degree')"
    "kahn_inv deps queue' in_degree' (order @ [x])" by blast
  with "2.IH" [of "sort (adj_at adj x)" "(queue', in_degree')" queue' in_degree'] "2.prems"(2)
  show ?case by (simp add: adj_at_def)
qed simp

lemma in_order_acyclic:
  assumes "in_order deps order" "set order = fst ` set deps" "distinct order"
  shows "acyclic {(n, d). d \<in> set (deps_at deps n)}"
proof -
  let ?pos = "\<lambda>n. if n \<in> set order then Suc (length (takeWhile (\<lambda>m. m \<noteq> n) order)) else 0"
  have "?pos d < ?pos n" if "d \<in> set (deps_at deps n)" for n d
  proof -
    have "n \<in> set order" using that assms(2) deps_at_unknown by fastforce
    then obtain i where i: "i < length order" "order ! i = n" by (auto simp: in_set_conv_nth)
    then have "d \<in> set (take i order)" using assms(1) that by (auto simp: in_order_def)
    then obtain j where j: "j < i" "order ! j = d" by (auto simp: in_set_conv_nth)
    have pos: "length (takeWhile (\<lambda>m. m \<noteq> order ! k) order) = k" if "k < length order" for k
      using that assms(3)
      by (subst takeWhile_eq_take_P_nth [of k]) (auto simp: nth_eq_iff_index_eq)
    from i j pos [of i] pos [of j] show ?thesis by (auto simp: in_set_conv_nth)
  qed
  then have "{(n, d). d \<in> set (deps_at deps n)} \<subseteq> (measure ?pos)\<inverse>" by auto
  moreover have "acyclic ((measure ?pos)\<inverse>)"
    by (simp only: acyclic_converse wf_acyclic [OF wf_measure])
  ultimately show ?thesis by (rule acyclic_subset [rotated])
qed

lemma topological_sort_run:
  assumes "bt_wf deps"
  shows "\<exists>order in_degree. kahn_inv deps [] in_degree order \<and>
    topological_sort deps =
      Some (if length order \<noteq> length deps
            then Inl (CE_DependencyCycle (find_cycle deps (map fst (filter (\<lambda>(_, deg). deg > 0) in_degree))))
            else Inr order)"
proof -
  obtain i a where init: "kahn_init deps = (i, a)" by fastforce
  note I = kahn_init_correct [OF assms, unfolded init, simplified]
  let ?q = "sort (map fst (filter (\<lambda>(_, deg). deg = 0) i))"
  have pend0: "pending deps [] n = length (deps_at deps n)" for n by (simp add: pending_def)
  have get: "bt_get i n = map_option (\<lambda>_. pending deps [] n) (bt_get deps n)" for n
    by (cases "bt_get deps n") (simp_all add: I(1) pend0 deps_at_def)
  have "(n, 0) \<in> set i \<longleftrightarrow> n \<in> fst ` set deps \<and> pending deps [] n = 0" for n
    using bt_get_eq_iff [OF I(3), of n 0] get [of n] bt_get_dom [of deps n] by auto
  then have "set ?q = {n \<in> fst ` set deps. pending deps [] n = 0} - set []"
    by (force simp: image_iff)
  moreover have "distinct ?q"
    using bt_wf_distinct [OF bt_wf_filter [OF I(3)]] by simp
  ultimately have "kahn_inv deps ?q i []"
    using I(3) get by (simp add: kahn_inv_def in_order_def greedy_def)
  moreover have "count_list (adj_at a x) n = count_list (deps_at deps n) x" for x n
    using count_adj [OF bt_wf_distinct [OF assms], of x n] by (simp add: I(2) deps_at_def bt_get_def split: option.splits)
  ultimately obtain order in_degree where
    "kahn_loop a ?q i [] = Some (order, in_degree)" "kahn_inv deps [] in_degree order"
    using kahn_loop_correct by blast
  then show ?thesis
    by (intro exI [of _ order] exI [of _ in_degree]) (simp add: topological_sort_def init)
qed

lemma kahn_inv_complete:
  assumes "kahn_inv deps [] in_degree order" and "bt_wf deps"
  shows "length order = length deps \<longleftrightarrow> set order = fst ` set deps"
proof -
  have "distinct order" "set order \<subseteq> fst ` set deps" using assms(1) by (auto simp: kahn_inv_def)
  moreover have "card (fst ` set deps) = length deps"
    using bt_wf_distinct [OF assms(2)] by (metis distinct_card length_map list.set_map)
  ultimately show ?thesis
    by (metis List.finite_set card_subset_eq distinct_card finite_imageI)
qed

text \<open>The services left over when the queue ran dry each wait for another of them.\<close>

lemma leftover_no_sink:
  assumes "kahn_inv deps [] in_degree order" and "\<forall>n. set (deps_at deps n) \<subseteq> fst ` set deps"
  defines "remaining \<equiv> map fst (filter (\<lambda>(_, deg). deg > 0) in_degree)"
  shows "set remaining = fst ` set deps - set order"
    and "n \<in> set remaining \<Longrightarrow> \<exists>d \<in> set (deps_at deps n). d \<in> set remaining"
proof -
  have "n \<in> set remaining \<longleftrightarrow> n \<in> fst ` set deps \<and> pending deps order n \<noteq> 0" for n
  proof -
    have "n \<in> set remaining \<longleftrightarrow> (\<exists>d > 0. (n, d) \<in> set in_degree)"
      by (force simp: remaining_def image_iff)
    also have "\<dots> \<longleftrightarrow> (\<exists>d > 0. bt_get in_degree n = Some d)"
      using assms(1) bt_get_eq_iff [of in_degree n] by (auto simp: kahn_inv_def)
    also have "\<dots> \<longleftrightarrow> n \<in> fst ` set deps \<and> pending deps order n \<noteq> 0"
      using assms(1) bt_get_dom [of deps n] by (auto simp: kahn_inv_def)
    finally show ?thesis .
  qed
  moreover have "n \<in> fst ` set deps \<and> pending deps order n = 0 \<longleftrightarrow> n \<in> set order" for n
    using assms(1) in_order_closed [of deps order n] by (auto simp: kahn_inv_def pending_zero_iff)
  ultimately show rem: "set remaining = fst ` set deps - set order" by blast
  assume "n \<in> set remaining"
  then have "\<not> set (deps_at deps n) \<subseteq> set order"
    using \<open>n \<in> set remaining \<longleftrightarrow> _\<close> by (simp add: pending_zero_iff)
  then show "\<exists>d \<in> set (deps_at deps n). d \<in> set remaining" using assms(2) rem by blast
qed

section \<open>The reported cycle is a cycle\<close>

definition is_cycle :: "dep_graph \<Rightarrow> service_name list \<Rightarrow> bool" where
  "is_cycle deps c \<longleftrightarrow> 2 \<le> length c \<and> hd c = last c
     \<and> successively (\<lambda>n d. d \<in> set (deps_at deps n)) c"

lemma close_cycle_is_cycle:
  assumes "node \<in> set path" "successively (\<lambda>n d. d \<in> set (deps_at deps n)) (path @ [node])"
  shows "is_cycle deps (close_cycle node path)"
proof -
  obtain ys zs where split: "path = ys @ node # zs" "node \<notin> set ys"
    using split_list_first [OF assms(1)] by blast
  then have "close_cycle node path = node # zs @ [node]"
    by (simp add: close_cycle_def dropWhile_append)
  moreover have "successively (\<lambda>n d. d \<in> set (deps_at deps n)) (node # zs @ [node])"
    using assms(2) split by (simp add: successively_append_iff)
  ultimately show ?thesis by (simp add: is_cycle_def)
qed

lemma dfs_cycle:
  shows "fst (dfs node deps remaining path on_path finished) = Some c \<Longrightarrow> on_path = set path \<Longrightarrow>
      successively (\<lambda>n d. d \<in> set (deps_at deps n)) (path @ [node]) \<Longrightarrow> is_cycle deps c"
    and "fst (dfs_deps ds deps remaining path on_path finished) = Some c \<Longrightarrow> on_path = set path \<Longrightarrow>
      (\<forall>d \<in> set ds. successively (\<lambda>n d. d \<in> set (deps_at deps n)) (path @ [d])) \<Longrightarrow> is_cycle deps c"
proof (induction node deps remaining path on_path finished and ds deps remaining path on_path finished
    rule: dfs_dfs_deps.induct)
  case (1 node deps remaining path on_path finished)
  show ?case
  proof (cases "node \<in> on_path \<or> node \<in> finished \<or> node \<notin> set remaining")
    case True
    with "1.prems" close_cycle_is_cycle [of node path deps] show ?thesis by (auto split: if_splits)
  next
    case False
    then obtain ds where ds: "bt_get deps node = Some ds"
      "fst (dfs_deps (sort ds) deps remaining (path @ [node]) (insert node on_path) finished) = Some c"
      using "1.prems"(1) by (auto split: option.splits prod.splits)
    then have "\<forall>d \<in> set (sort ds). successively (\<lambda>n d. d \<in> set (deps_at deps n)) ((path @ [node]) @ [d])"
      using "1.prems"(3) by (auto simp: successively_append_iff deps_at_def)
    with "1.IH" False ds "1.prems"(2) show ?thesis by auto
  qed
next
  case (3 d ds deps remaining path on_path finished)
  obtain r f where d: "dfs d deps remaining path on_path finished = (r, f)" by fastforce
  show ?case
  proof (cases r)
    case None
    with 3 d show ?thesis by simp
  next
    case (Some c')
    with d "3.prems"(1) have "c' = c" by simp
    with Some d 3 show ?thesis by simp
  qed
qed simp

lemma dfs_finds:
  shows "\<forall>n \<in> set remaining. \<exists>d \<in> set (deps_at deps n). d \<in> set remaining \<Longrightarrow> finished = {} \<Longrightarrow>
      on_path \<subseteq> set remaining \<Longrightarrow> node \<in> set remaining \<Longrightarrow>
      fst (dfs node deps remaining path on_path finished) \<noteq> None"
    and "\<forall>n \<in> set remaining. \<exists>d \<in> set (deps_at deps n). d \<in> set remaining \<Longrightarrow> finished = {} \<Longrightarrow>
      on_path \<subseteq> set remaining \<Longrightarrow> \<exists>d \<in> set ds. d \<in> set remaining \<Longrightarrow>
      fst (dfs_deps ds deps remaining path on_path finished) \<noteq> None"
proof (induction node deps remaining path on_path finished and ds deps remaining path on_path finished
    rule: dfs_dfs_deps.induct)
  case (1 node deps remaining path on_path finished)
  obtain d where d: "d \<in> set (deps_at deps node)" "d \<in> set remaining"
    using "1.prems"(1,4) by blast
  then obtain ds where ds: "bt_get deps node = Some ds" "d \<in> set (sort ds)"
    by (cases "bt_get deps node") (auto simp: deps_at_def)
  show ?case
  proof (cases "node \<in> on_path")
    case False
    then have "fst (dfs_deps (sort ds) deps remaining (path @ [node]) (insert node on_path) finished) \<noteq> None"
      using "1.IH" [OF False _ ds(1)] "1.prems" ds(2) d(2) by auto
    with False ds(1) "1.prems"(2,4) show ?thesis by (auto split: option.splits prod.splits)
  qed simp
next
  case (3 d ds deps remaining path on_path finished)
  show ?case
  proof (cases "d \<in> set remaining")
    case True
    with 3 show ?thesis by (auto split: option.splits prod.splits)
  next
    case False
    with "3.prems" have "dfs d deps remaining path on_path finished = (None, {})" by auto
    with 3 False show ?thesis by auto
  qed
qed simp

declare dfs.simps [simp del]

lemma find_cycle_from_cycle:
  "find_cycle_from starts deps remaining finished = Some c \<Longrightarrow> is_cycle deps c"
proof (induction starts deps remaining finished rule: find_cycle_from.induct)
  case (2 start starts deps remaining finished)
  then show ?case
    by (auto split: if_splits option.splits prod.splits)
       (metis dfs_cycle(1) append_Nil empty_set fst_conv successively.simps(2))
qed simp

text \<open>
  In a closed graph whose sort did not place every service, the search from the first
  leftover already finds a cycle, so the fallback text of the source is never used.
\<close>

lemma find_cycle_finds:
  assumes "\<forall>n \<in> set remaining. \<exists>d \<in> set (deps_at deps n). d \<in> set remaining" and "remaining \<noteq> []"
  shows "\<exists>c. find_cycle_from remaining deps remaining {} = Some c \<and> is_cycle deps c"
proof -
  obtain r rs where r: "remaining = r # rs" using assms(2) by (cases remaining) auto
  have "fst (dfs r deps remaining [] {} {}) \<noteq> None"
    using dfs_finds(1) [OF assms(1)] r by simp
  then obtain c f where "dfs r deps remaining [] {} {} = (Some c, f)"
    by (cases "dfs r deps remaining [] {} {}") auto
  then have "find_cycle_from remaining deps remaining {} = Some c" using r by simp
  then show ?thesis using find_cycle_from_cycle by blast
qed

lemma cycle_not_acyclic:
  assumes "is_cycle deps c" shows "\<not> acyclic {(n, d). d \<in> set (deps_at deps n)}"
proof -
  let ?R = "{(n, d). d \<in> set (deps_at deps n)}"
  have path: "successively (\<lambda>n d. (n, d) \<in> ?R) xs \<Longrightarrow> 2 \<le> length xs \<Longrightarrow> (hd xs, last xs) \<in> ?R\<^sup>+" for xs
  proof (induction xs)
    case (Cons x xs)
    show ?case
    proof (cases xs)
      case (Cons y ys)
      show ?thesis
      proof (cases ys)
        case Nil
        with \<open>xs = y # ys\<close> Cons.prems show ?thesis by auto
      next
        case (Cons z zs)
        with Cons.IH Cons.prems \<open>xs = y # ys\<close> have "(y, last xs) \<in> ?R\<^sup>+" "(x, y) \<in> ?R" by auto
        with \<open>xs = y # ys\<close> show ?thesis by (metis (no_types, lifting) last_ConsR list.discI list.sel(1) trancl_into_trancl2)
      qed
    qed (use Cons.prems in simp)
  qed simp
  from assms path [of c] show ?thesis by (auto simp: is_cycle_def acyclic_def)
qed

section \<open>The contract of a start order\<close>

text \<open>
  What the planner and the stack rely on when they follow the configured start order: whatever
  computes it, a successful result lists every service once, after the services it depends on.
\<close>

locale start_order =
  fixes sorter :: "dep_graph \<Rightarrow> (config_error + service_name list) option"
  assumes sorted_order: "bt_wf deps \<Longrightarrow> sorter deps = Some (Inr order) \<Longrightarrow>
      distinct order \<and> set order = fst ` set deps \<and> in_order deps order"
begin

lemma dependencies_first:
  assumes "bt_wf deps" "sorter deps = Some (Inr order)" "order = xs @ n # ys"
  shows "set (deps_at deps n) \<subseteq> set xs"
proof -
  have "in_order deps order" using sorted_order [OF assms(1,2)] by blast
  moreover have "length xs < length order" using assms(3) by simp
  ultimately have "set (deps_at deps (order ! length xs)) \<subseteq> set (take (length xs) order)"
    by (simp only: in_order_def)
  then show ?thesis using assms(3) by simp
qed

text \<open>Leaving services out keeps the order right as long as no dependency of the rest is lost.\<close>

lemma restricted_dependencies_first:
  assumes "bt_wf deps" "sorter deps = Some (Inr order)"
    and "\<And>m d. P m \<Longrightarrow> d \<in> set (deps_at deps m) \<Longrightarrow> P d"
    and "filter P order = xs @ n # ys"
  shows "set (deps_at deps n) \<subseteq> set xs"
proof -
  obtain us vs where split: "order = us @ n # vs" "filter P us = xs" "P n"
    using filter_split [OF assms(4)] by blast
  then have "set (deps_at deps n) \<subseteq> set us" using dependencies_first [OF assms(1,2)] by blast
  moreover have "\<forall>d \<in> set (deps_at deps n). P d" using assms(3) split(3) by blast
  ultimately show ?thesis unfolding split(2) [symmetric] by auto
qed

lemma no_cycle:
  "bt_wf deps \<Longrightarrow> sorter deps = Some (Inr order) \<Longrightarrow> acyclic {(n, d). d \<in> set (deps_at deps n)}"
  by (rule in_order_acyclic) (use sorted_order in blast)+

end

interpretation kahn: start_order topological_sort
proof
  fix deps order
  assume wf: "bt_wf deps" and ok: "topological_sort deps = Some (Inr order)"
  then obtain in_degree where "kahn_inv deps [] in_degree order" "length order = length deps"
    using topological_sort_run [OF wf] by (auto split: if_splits)
  then show "distinct order \<and> set order = fst ` set deps \<and> in_order deps order"
    using kahn_inv_complete [OF _ wf] by (auto simp: kahn_inv_def)
qed

section \<open>Properties\<close>

definition closed_graph :: "dep_graph \<Rightarrow> bool" where
  "closed_graph deps = (\<forall>n. set (deps_at deps n) \<subseteq> fst ` set deps)"

text \<open>The sort never panics: on every dependency graph, whatever it refers to, neither the
  \<open>expect("all nodes registered")\<close> nor the unsigned decrement of an in-degree can fail, and the
  sort returns an order or an error.\<close>

theorem topological_sort_total:
  assumes "bt_wf deps"
  shows "\<exists>result. topological_sort deps = Some result"
  using topological_sort_run [OF assms] by blast

theorem topological_sort_total_witness:
  "\<exists>result. topological_sort [(''api'', [''db'', ''ghost'', ''db'']), (''db'', [''db''])] = Some result"
  by (rule topological_sort_total) (simp add: bt_wf_def)

text \<open>C3: A returned start order lists every service exactly once, each after all the services it
  depends on, and every position holds the alphabetically first of the services that were
  startable at that point, which determines the order completely.\<close>

theorem topological_sort_sound:
  assumes "bt_wf deps" and "topological_sort deps = Some (Inr order)"
  shows "distinct order \<and> set order = set (bt_keys deps)
    \<and> (\<forall>i < length order. set (deps_at deps (order ! i)) \<subseteq> set (take i order)
        \<and> (\<forall>n \<in> set (bt_keys deps) - set (take i order).
             set (deps_at deps n) \<subseteq> set (take i order) \<longrightarrow> order ! i \<le> n))"
proof -
  obtain in_degree where "kahn_inv deps [] in_degree order"
    using topological_sort_run [OF assms(1)] assms(2) by (auto split: if_splits)
  then have "greedy deps order" by (simp add: kahn_inv_def)
  with kahn.sorted_order [OF assms] show ?thesis
    by (simp add: bt_keys_def in_order_def greedy_def)
qed

theorem topological_sort_sound_witness:
  "topological_sort [(''a'', []), (''b'', [''d'']), (''c'', [''a'']), (''d'', [''a''])]
     = Some (Inr [''a'', ''c'', ''d'', ''b''])
   \<and> set (deps_at [(''a'', []), (''b'', [''d'']), (''c'', [''a'']), (''d'', [''a''])] ''b'')
     \<subseteq> {''a'', ''c'', ''d''}"
proof -
  let ?g = "[(''a'', []), (''b'', [''d'']), (''c'', [''a'']), (''d'', [''a''])] :: dep_graph"
  have wf: "bt_wf ?g" by (simp add: bt_wf_def)
  have run: "topological_sort ?g = Some (Inr [''a'', ''c'', ''d'', ''b''])" by code_simp
  have "3 < length [''a'', ''c'', ''d'', ''b'']" by simp
  with topological_sort_sound [OF wf run] have "set (deps_at ?g ([''a'', ''c'', ''d'', ''b''] ! 3))
      \<subseteq> set (take 3 [''a'', ''c'', ''d'', ''b''])" by blast
  with run show ?thesis by simp
qed

text \<open>C26: On a graph whose dependencies are all configured services, the sort succeeds if and only
  if the dependency relation has no cycle.\<close>

theorem topological_sort_succeeds_iff_acyclic:
  assumes "bt_wf deps" and "closed_graph deps"
  shows "(\<exists>order. topological_sort deps = Some (Inr order)) \<longleftrightarrow> acyclic {(n, d). d \<in> set (deps_at deps n)}"
proof
  assume "\<exists>order. topological_sort deps = Some (Inr order)"
  then show "acyclic {(n, d). d \<in> set (deps_at deps n)}" using kahn.no_cycle [OF assms(1)] by blast
next
  assume acyclic: "acyclic {(n, d). d \<in> set (deps_at deps n)}"
  obtain order in_degree where run: "kahn_inv deps [] in_degree order"
    "topological_sort deps = Some (if length order \<noteq> length deps
       then Inl (CE_DependencyCycle (find_cycle deps (map fst (filter (\<lambda>(_, deg). deg > 0) in_degree))))
       else Inr order)"
    using topological_sort_run [OF assms(1)] by blast
  let ?rem = "map fst (filter (\<lambda>(_, deg). deg > 0) in_degree)"
  note left = leftover_no_sink [OF run(1) assms(2) [unfolded closed_graph_def]]
  have "?rem = []" using find_cycle_finds [of ?rem deps] left(2) cycle_not_acyclic acyclic by blast
  then have "set order = fst ` set deps" using left(1) run(1) by (auto simp: kahn_inv_def)
  then show "\<exists>order. topological_sort deps = Some (Inr order)"
    using kahn_inv_complete [OF run(1) assms(1)] run(2) by simp
qed

theorem topological_sort_succeeds_iff_acyclic_witness:
  "\<exists>order. topological_sort [(''a'', []), (''b'', [''a''])] = Some (Inr order)"
proof -
  let ?g = "[(''a'', []), (''b'', [''a''])] :: dep_graph"
  have "{(n, d). d \<in> set (deps_at ?g n)} = {(''b'', ''a'')}"
    by (auto simp: deps_at_def bt_get_def split: if_splits option.splits)
  moreover have "acyclic {(''b'', ''a'')}"
    by (simp add: acyclic_insert) (simp add: acyclic_def)
  ultimately show ?thesis
    using topological_sort_succeeds_iff_acyclic [of ?g]
    by (auto simp: bt_wf_def closed_graph_def deps_at_def bt_get_def split: option.splits)
qed

text \<open>The error names a real cycle: on such a graph, a failed sort reports services of which
  each depends on the next and the last is the first again, joined with arrows; the fallback text
  of the source is never produced.\<close>

theorem reported_cycle_is_real:
  assumes "bt_wf deps" and "closed_graph deps" and "topological_sort deps = Some (Inl e)"
  shows "\<exists>c. e = CE_DependencyCycle (join '' -> '' c) \<and> 2 \<le> length c \<and> hd c = last c
    \<and> successively (\<lambda>n d. d \<in> set (deps_at deps n)) c"
proof -
  obtain order in_degree where run: "kahn_inv deps [] in_degree order"
    "e = CE_DependencyCycle (find_cycle deps (map fst (filter (\<lambda>(_, deg). deg > 0) in_degree)))"
    "length order \<noteq> length deps"
    using topological_sort_run [OF assms(1)] assms(3) by (auto split: if_splits)
  let ?rem = "map fst (filter (\<lambda>(_, deg). deg > 0) in_degree)"
  note left = leftover_no_sink [OF run(1) assms(2) [unfolded closed_graph_def]]
  have "set order \<subset> fst ` set deps"
    using run(1,3) kahn_inv_complete [OF run(1) assms(1)] by (auto simp: kahn_inv_def)
  then have "fst ` set deps - set order \<noteq> {}" by blast
  then have "set ?rem \<noteq> {}" by (simp only: left(1) not_False_eq_True)
  then have "?rem \<noteq> []" by (simp only: set_empty not_False_eq_True)
  then obtain c where "find_cycle_from ?rem deps ?rem {} = Some c" "is_cycle deps c"
    using find_cycle_finds [of ?rem deps] left(2) by blast
  then show ?thesis using run(2) by (auto simp: find_cycle_def is_cycle_def)
qed

theorem reported_cycle_is_real_witness:
  "topological_sort [(''a'', [''c'']), (''b'', [''a'']), (''c'', [''b'']), (''d'', [])]
     = Some (Inl (CE_DependencyCycle ''a -> c -> b -> a''))
   \<and> (\<exists>c. ''a -> c -> b -> a'' = join '' -> '' c \<and> hd c = last c)"
proof -
  let ?g = "[(''a'', [''c'']), (''b'', [''a'']), (''c'', [''b'']), (''d'', [])] :: dep_graph"
  have wf: "bt_wf ?g" by (simp add: bt_wf_def)
  have closed: "closed_graph ?g"
    by (auto simp: closed_graph_def deps_at_def bt_get_def split: option.splits if_splits)
  have run: "topological_sort ?g = Some (Inl (CE_DependencyCycle ''a -> c -> b -> a''))" by code_simp
  from reported_cycle_is_real [OF wf closed run] run show ?thesis by auto
qed

end
