(* ===== verification/Raw.thy ===== *)
theory Raw
  imports Config
begin

text \<open>
  \<open>crates/servicrab-core/src/raw.rs\<close>: the configuration as TOML gives it, before validation.
  The deserialisation itself belongs to the \<open>toml\<close> and \<open>serde\<close> crates; the types it produces,
  with the defaults the source declares for absent keys, are modelled here.
\<close>

section \<open>One path or several\<close>

datatype raw_include = RI_One string | RI_Many "string list"

fun include_paths :: "raw_include \<Rightarrow> string list" where
  "include_paths (RI_One p) = [p]"
| "include_paths (RI_Many ps) = ps"

datatype raw_env_file = REF_One string | REF_Many "string list"

fun env_file_paths :: "raw_env_file \<Rightarrow> string list" where
  "env_file_paths (REF_One p) = [p]"
| "env_file_paths (REF_Many ps) = ps"

section \<open>Project\<close>

record raw_logs =
  rl_dir :: "string option"
  rl_max_size :: "string option"
  rl_max_files :: "u32 option"

record raw_project =
  rp_name :: string
  rp_env :: "(string, string) btmap"
  rp_env_file :: "raw_env_file option"
  rp_logs :: "raw_logs option"

section \<open>Dependencies\<close>

record raw_dependency =
  rd_condition :: "string option"

datatype raw_depends_on = RD_Names "string list" | RD_Detailed "(string, raw_dependency) btmap"

fun depends_on_entries :: "raw_depends_on \<Rightarrow> (string \<times> string option) list" where
  "depends_on_entries (RD_Names names) = map (\<lambda>n. (n, None)) names"
| "depends_on_entries (RD_Detailed m) = map (\<lambda>(name, dep). (name, rd_condition dep)) m"

section \<open>Services\<close>

record raw_service_logs =
  rsl_enabled :: bool

record raw_watch =
  rw_paths :: "string list"
  rw_ignore :: "string list"
  rw_interval :: "string option"
  rw_debounce :: "string option"

record raw_health_check =
  rh_command :: "string list option"
  rh_http :: "string option"
  rh_tcp :: "string option"
  rh_interval :: "string option"
  rh_timeout :: "string option"
  rh_retries :: "u32 option"
  rh_start_period :: "string option"
  rh_on_unhealthy :: "string option"

datatype raw_restart_policy = RawNever | RawOnFailure | RawAlways | RawUnlessStopped

record raw_service =
  rs_origin :: "path option"
  rs_command :: "string list"
  rs_cwd :: "string option"
  rs_env :: "(string, string) btmap"
  rs_env_file :: "raw_env_file option"
  rs_depends_on :: "raw_depends_on option"
  rs_profiles :: "string list"
  rs_autostart :: bool
  rs_restart :: raw_restart_policy
  rs_restart_delay :: "string option"
  rs_restart_max_delay :: "string option"
  rs_max_restarts :: "u32 option"
  rs_stable_after :: "string option"
  rs_shutdown_signal :: "string option"
  rs_shutdown_timeout :: "string option"
  rs_health :: "raw_health_check option"
  rs_logs :: "raw_service_logs option"
  rs_watch :: "raw_watch option"

text \<open>A service of which the file gives only the command: the \<open>#[serde(default)]\<close> of each field.\<close>

definition default_true :: bool where
  "default_true = True"

definition raw_service_default :: "string list \<Rightarrow> raw_service" where
  "raw_service_default command =
     \<lparr> rs_origin = None, rs_command = command, rs_cwd = None, rs_env = [], rs_env_file = None,
       rs_depends_on = None, rs_profiles = [], rs_autostart = default_true,
       rs_restart = RawNever, rs_restart_delay = None, rs_restart_max_delay = None,
       rs_max_restarts = None, rs_stable_after = None, rs_shutdown_signal = None,
       rs_shutdown_timeout = None, rs_health = None, rs_logs = None, rs_watch = None \<rparr>"

section \<open>Files\<close>

record raw_config =
  raw_version :: u32
  raw_include :: "raw_include option"
  raw_project :: raw_project
  raw_services :: "(string, raw_service) btmap"

text \<open>\<open>version\<close> and \<open>project\<close> of an included file matter only by being there.\<close>

record raw_fragment =
  frag_include :: "raw_include option"
  frag_services :: "(string, raw_service) btmap"
  frag_version :: "unit option"
  frag_project :: "unit option"

end
