(* ===== verification/Subst.thy ===== *)
theory Subst
  imports Raw "HOL-Library.State_Monad"
begin

text \<open>
  \<open>crates/servicrab-core/src/subst.rs\<close>: the \<open>${VAR}\<close> substitution.  \<open>expand\<close> expands one
  value; its loop over the rest of the input and the recursion into a default are one mutual
  recursion on the length of the input.  The methods of \<open>Expander\<close>, which push on the same
  list of errors, are computations of the state monad on that list.

  The bytes the code looks for are ASCII, and no byte of a longer UTF-8 sequence is, so walking
  over bytes and walking over characters (\<open>char_indices\<close>) find the same positions.
\<close>

section \<open>Expanding one value\<close>

type_synonym vars = "(string, string) btmap"

datatype subst_error = Undefined string | Malformed subst_reason

text \<open>\<open>rest.find("${")\<close> with \<open>split_at\<close>: what is before the opener and what follows it.\<close>

fun find_opener :: "string \<Rightarrow> (string \<times> string) option" where
  "find_opener (c # d # s) =
     (if c = CHR ''$'' \<and> d = CHR ''{'' then Some ([], s)
      else map_option (\<lambda>(before, after). (c # before, after)) (find_opener (d # s)))"
| "find_opener _ = None"

lemma find_opener_Some:
  "find_opener s = Some (before, after) \<Longrightarrow> s = before @ ''${'' @ after"
  by (induction s arbitrary: before rule: find_opener.induct) (auto split: if_splits)

text \<open>The loop of \<open>split_braced\<close>: \<open>depth\<close> is \<open>depth - 1\<close> of the source, the braces still open
  inside the reference.\<close>

fun split_braced_from :: "nat \<Rightarrow> string \<Rightarrow> (string \<times> string) option" where
  "split_braced_from depth [] = None"
| "split_braced_from depth (c # s) =
     (if c = CHR ''{'' then map_option (\<lambda>(b, t). (c # b, t)) (split_braced_from (Suc depth) s)
      else if c = CHR ''}'' then
        (case depth of
           0 \<Rightarrow> Some ([], s)
         | Suc d \<Rightarrow> map_option (\<lambda>(b, t). (c # b, t)) (split_braced_from d s))
      else if c = CHR ''$'' then
        (case s of
           e # s' \<Rightarrow>
             if e = CHR ''$''
             then map_option (\<lambda>(b, t). (c # e # b, t)) (split_braced_from depth s')
             else map_option (\<lambda>(b, t). (c # b, t)) (split_braced_from depth s)
         | [] \<Rightarrow> None)
      else map_option (\<lambda>(b, t). (c # b, t)) (split_braced_from depth s))"

definition split_braced :: "string \<Rightarrow> subst_error + string \<times> string" where
  "split_braced input =
     (case split_braced_from 0 input of
        Some r \<Rightarrow> Inr r
      | None \<Rightarrow> Inl (Malformed (MissingBrace input)))"

declare split_braced_from.simps(2) [simp del]

lemma map_option_pair_Some:
  "map_option (\<lambda>(b, t). (f b, t)) x = Some (b', t') \<Longrightarrow> \<exists>b. x = Some (b, t') \<and> b' = f b"
  by auto

lemma split_braced_from_Some:
  "split_braced_from depth s = Some (b, t) \<Longrightarrow> s = b @ CHR ''}'' # t"
proof (induction depth s arbitrary: b rule: split_braced_from.induct)
  case (2 depth c s)
  note step = split_braced_from.simps(2)
  consider (obrace) "c = CHR ''{''" | (closing) "c = CHR ''}''" | (dollar) "c = CHR ''$''"
    | (other) "c \<noteq> CHR ''{''" "c \<noteq> CHR ''}''" "c \<noteq> CHR ''$''" by blast
  then show ?case
  proof cases
    case obrace
    then show ?thesis using "2.IH"(1) "2.prems" by (auto simp: step dest!: map_option_pair_Some)
  next
    case closing
    then show ?thesis using "2.IH"(2) "2.prems"
      by (cases depth) (auto simp: step dest!: map_option_pair_Some)
  next
    case dollar
    show ?thesis
    proof (cases s)
      case Nil
      with dollar "2.prems" show ?thesis by (simp add: step)
    next
      case (Cons e s')
      then show ?thesis using dollar "2.IH"(3,4) [OF _ _ _ Cons] "2.prems"
        by (cases "e = CHR ''$''") (auto simp: step dest!: map_option_pair_Some)
    qed
  next
    case other
    then show ?thesis using "2.IH"(5) "2.prems" by (auto simp: step dest!: map_option_pair_Some)
  qed
qed simp

lemma split_braced_Inr: "split_braced s = Inr (b, t) \<Longrightarrow> s = b @ CHR ''}'' # t"
  by (auto simp: split_braced_def split_braced_from_Some split: option.splits)

definition is_ascii_digit :: "char \<Rightarrow> bool" where
  "is_ascii_digit c = (CHR ''0'' \<le> c \<and> c \<le> CHR ''9'')"

text \<open>Letters of either case.\<close>

definition is_ascii_alphabetic :: "char \<Rightarrow> bool" where
  "is_ascii_alphabetic c = (CHR ''A'' \<le> c \<and> c \<le> CHR ''Z'' \<or> CHR ''a'' \<le> c \<and> c \<le> CHR ''z'')"

definition is_ascii_alphanumeric :: "char \<Rightarrow> bool" where
  "is_ascii_alphanumeric c = (is_ascii_alphabetic c \<or> is_ascii_digit c)"

definition name_start :: "char \<Rightarrow> bool" where
  "name_start c = (is_ascii_alphabetic c \<or> c = CHR ''_'')"

definition name_rest :: "char \<Rightarrow> bool" where
  "name_rest c = (is_ascii_alphanumeric c \<or> c = CHR ''_'')"

fun name_length :: "string \<Rightarrow> nat" where
  "name_length [] = 0"
| "name_length (c # s) = (if name_start c then Suc (length (takeWhile name_rest s)) else 0)"

definition lookup :: "string \<Rightarrow> vars \<Rightarrow> subst_error + string" where
  "lookup name vars = (case bt_get vars name of Some v \<Rightarrow> Inr v | None \<Rightarrow> Inl (Undefined name))"

text \<open>The modifier after the name: the default and whether an empty value counts as unset.\<close>

datatype modifier = NoModifier | Default string bool | BadModifier

definition modifier_of :: "string \<Rightarrow> modifier" where
  "modifier_of m =
     (if m = [] then NoModifier
      else case strip_prefix '':-'' m of
        Some d \<Rightarrow> Default d True
      | None \<Rightarrow> (case strip_prefix ''-'' m of
          Some d \<Rightarrow> Default d False
        | None \<Rightarrow> BadModifier))"

lemma modifier_of_shorter: "modifier_of m = Default d e \<Longrightarrow> length d < length m"
  by (auto simp: modifier_of_def strip_prefix_Some split: if_splits option.splits)

function (sequential) expand_loop :: "vars \<Rightarrow> string \<Rightarrow> string \<Rightarrow> subst_error + string"
  and resolve :: "vars \<Rightarrow> string \<Rightarrow> subst_error + string" where
  "expand_loop vars out rest =
     (case find_opener rest of
        None \<Rightarrow> Inr (out @ rest)
      | Some (before, after) \<Rightarrow>
          (case strip_suffix ''$'' before of
             Some before' \<Rightarrow> expand_loop vars (out @ before' @ ''${'') after
           | None \<Rightarrow>
               (case split_braced after of
                  Inl e \<Rightarrow> Inl e
                | Inr (body, tail) \<Rightarrow>
                    (case resolve vars body of
                       Inl e \<Rightarrow> Inl e
                     | Inr v \<Rightarrow> expand_loop vars (out @ before @ v) tail))))"
| "resolve vars body =
     (let name = take (name_length body) body; m = drop (name_length body) body in
      if name = [] then Inl (Malformed (NoName body))
      else case modifier_of m of
        NoModifier \<Rightarrow> lookup name vars
      | BadModifier \<Rightarrow> Inl (Malformed (UnsupportedForm body name))
      | Default d empty_counts \<Rightarrow>
          (case bt_get vars name of
             Some v \<Rightarrow> if v \<noteq> [] \<or> \<not> empty_counts then Inr v else expand_loop vars [] d
           | None \<Rightarrow> expand_loop vars [] d))"
  by pat_completeness auto
termination
proof (relation "measure (\<lambda>x. case x of Inl (_, _, rest) \<Rightarrow> length rest | Inr (_, body) \<Rightarrow> length body)", goal_cases)
  case 1
  show ?case by simp
next
  case (2 vars out rest p before after r body tail)
  then show ?case
    using find_opener_Some [of rest before after] split_braced_Inr [of after body tail] by simp
next
  case (3 vars out rest p before after r body tail v)
  then show ?case
    using find_opener_Some [of rest before after] split_braced_Inr [of after body tail] by simp
next
  case (4 vars out rest p before after before')
  then show ?case using find_opener_Some [of rest before after] by simp
next
  case (5 vars body name m d e)
  then have "length d < length m" by (auto dest: modifier_of_shorter)
  with 5 show ?case by simp
next
  case (6 vars body name m d e v)
  then have "length d < length m" by (auto dest: modifier_of_shorter)
  with 6 show ?case by simp
qed

definition expand :: "string \<Rightarrow> vars \<Rightarrow> subst_error + string" where
  "expand input vars = expand_loop vars [] input"

declare expand_loop.simps [simp del] resolve.simps [simp del]

section \<open>Every value of a configuration\<close>

text \<open>\<open>Expander\<close>: a computation that pushes on \<open>self.errors\<close>.\<close>

type_synonym 'a expander = "(config_error list, 'a) state"

definition to_config_error :: "subst_error \<Rightarrow> scope \<Rightarrow> string \<Rightarrow> config_error" where
  "to_config_error err scope field =
     (case err of
        Undefined variable \<Rightarrow> CE_UndefinedVariable scope field variable
      | Malformed reason \<Rightarrow> CE_InvalidSubstitution scope field reason)"

definition push_error :: "config_error \<Rightarrow> unit expander" where
  "push_error e = State_Monad.update (\<lambda>errors. errors @ [e])"

definition sub_one :: "vars \<Rightarrow> scope \<Rightarrow> string \<Rightarrow> string \<Rightarrow> string expander" where
  "sub_one vars scope field value =
     (case expand value vars of
        Inr expanded \<Rightarrow> State_Monad.return expanded
      | Inl err \<Rightarrow> do { push_error (to_config_error err scope field); State_Monad.return value })"

fun sub_maybe :: "vars \<Rightarrow> scope \<Rightarrow> string \<Rightarrow> string option \<Rightarrow> string option expander" where
  "sub_maybe vars scope field None = State_Monad.return None"
| "sub_maybe vars scope field (Some v) =
     do { v' \<leftarrow> sub_one vars scope field v; State_Monad.return (Some v') }"

fun sub_list_from :: "vars \<Rightarrow> scope \<Rightarrow> string \<Rightarrow> nat \<Rightarrow> string list \<Rightarrow> string list expander" where
  "sub_list_from vars scope field index [] = State_Monad.return []"
| "sub_list_from vars scope field index (v # vs) =
     do { v' \<leftarrow> sub_one vars scope (field @ ''['' @ show_nat index @ '']'') v;
          vs' \<leftarrow> sub_list_from vars scope field (Suc index) vs;
          State_Monad.return (v' # vs') }"

definition sub_list :: "vars \<Rightarrow> scope \<Rightarrow> string \<Rightarrow> string list \<Rightarrow> string list expander" where
  "sub_list vars scope field values = sub_list_from vars scope field 0 values"

fun sub_maybe_list :: "vars \<Rightarrow> scope \<Rightarrow> string \<Rightarrow> string list option \<Rightarrow> string list option expander" where
  "sub_maybe_list vars scope field None = State_Monad.return None"
| "sub_maybe_list vars scope field (Some vs) =
     do { vs' \<leftarrow> sub_list vars scope field vs; State_Monad.return (Some vs') }"

fun sub_map_values ::
  "vars \<Rightarrow> scope \<Rightarrow> string \<Rightarrow> (string, string) btmap \<Rightarrow> (string, string) btmap expander" where
  "sub_map_values vars scope field [] = State_Monad.return []"
| "sub_map_values vars scope field ((key, v) # m) =
     do { v' \<leftarrow> sub_one vars scope (field @ ''.'' @ key) v;
          m' \<leftarrow> sub_map_values vars scope field m;
          State_Monad.return ((key, v') # m') }"

fun sub_env_file :: "vars \<Rightarrow> scope \<Rightarrow> raw_env_file option \<Rightarrow> raw_env_file option expander" where
  "sub_env_file vars scope None = State_Monad.return None"
| "sub_env_file vars scope (Some (REF_One p)) =
     do { p' \<leftarrow> sub_one vars scope ''env_file'' p; State_Monad.return (Some (REF_One p')) }"
| "sub_env_file vars scope (Some (REF_Many ps)) =
     do { ps' \<leftarrow> sub_list vars scope ''env_file'' ps; State_Monad.return (Some (REF_Many ps')) }"

definition sub_logs :: "vars \<Rightarrow> raw_logs \<Rightarrow> raw_logs expander" where
  "sub_logs vars logs =
     do { d \<leftarrow> sub_maybe vars ScopeProjectLogs ''dir'' (rl_dir logs);
          s \<leftarrow> sub_maybe vars ScopeProjectLogs ''max_size'' (rl_max_size logs);
          State_Monad.return (logs\<lparr> rl_dir := d, rl_max_size := s \<rparr>) }"

definition sub_watch :: "vars \<Rightarrow> scope \<Rightarrow> raw_watch \<Rightarrow> raw_watch expander" where
  "sub_watch vars scope w =
     do { paths \<leftarrow> sub_list vars scope ''watch.paths'' (rw_paths w);
          ign \<leftarrow> sub_list vars scope ''watch.ignore'' (rw_ignore w);
          i \<leftarrow> sub_maybe vars scope ''watch.interval'' (rw_interval w);
          d \<leftarrow> sub_maybe vars scope ''watch.debounce'' (rw_debounce w);
          State_Monad.return
            (w\<lparr> rw_paths := paths, rw_ignore := ign, rw_interval := i, rw_debounce := d \<rparr>) }"

definition sub_health :: "vars \<Rightarrow> scope \<Rightarrow> raw_health_check \<Rightarrow> raw_health_check expander" where
  "sub_health vars scope h =
     do { c \<leftarrow> sub_maybe_list vars scope ''health.command'' (rh_command h);
          http \<leftarrow> sub_maybe vars scope ''health.http'' (rh_http h);
          tcp \<leftarrow> sub_maybe vars scope ''health.tcp'' (rh_tcp h);
          i \<leftarrow> sub_maybe vars scope ''health.interval'' (rh_interval h);
          t \<leftarrow> sub_maybe vars scope ''health.timeout'' (rh_timeout h);
          p \<leftarrow> sub_maybe vars scope ''health.start_period'' (rh_start_period h);
          u \<leftarrow> sub_maybe vars scope ''health.on_unhealthy'' (rh_on_unhealthy h);
          State_Monad.return
            (h\<lparr> rh_command := c, rh_http := http, rh_tcp := tcp, rh_interval := i, rh_timeout := t,
                rh_start_period := p, rh_on_unhealthy := u \<rparr>) }"

definition sub_option :: "('a \<Rightarrow> 'a expander) \<Rightarrow> 'a option \<Rightarrow> 'a option expander" where
  "sub_option f x =
     (case x of
        None \<Rightarrow> State_Monad.return None
      | Some v \<Rightarrow> do { v' \<leftarrow> f v; State_Monad.return (Some v') })"

definition sub_service :: "vars \<Rightarrow> scope \<Rightarrow> raw_service \<Rightarrow> raw_service expander" where
  "sub_service vars scope s =
     do { command \<leftarrow> sub_list vars scope ''command'' (rs_command s);
          cwd \<leftarrow> sub_maybe vars scope ''cwd'' (rs_cwd s);
          env \<leftarrow> sub_map_values vars scope ''env'' (rs_env s);
          env_file \<leftarrow> sub_env_file vars scope (rs_env_file s);
          restart_delay \<leftarrow> sub_maybe vars scope ''restart_delay'' (rs_restart_delay s);
          restart_max_delay \<leftarrow> sub_maybe vars scope ''restart_max_delay'' (rs_restart_max_delay s);
          stable_after \<leftarrow> sub_maybe vars scope ''stable_after'' (rs_stable_after s);
          shutdown_signal \<leftarrow> sub_maybe vars scope ''shutdown_signal'' (rs_shutdown_signal s);
          shutdown_timeout \<leftarrow> sub_maybe vars scope ''shutdown_timeout'' (rs_shutdown_timeout s);
          health \<leftarrow> sub_option (sub_health vars scope) (rs_health s);
          watch \<leftarrow> sub_option (sub_watch vars scope) (rs_watch s);
          State_Monad.return
            (s\<lparr> rs_command := command, rs_cwd := cwd, rs_env := env, rs_env_file := env_file,
                rs_restart_delay := restart_delay, rs_restart_max_delay := restart_max_delay,
                rs_stable_after := stable_after, rs_shutdown_signal := shutdown_signal,
                rs_shutdown_timeout := shutdown_timeout, rs_health := health, rs_watch := watch \<rparr>) }"

fun sub_services :: "vars \<Rightarrow> (string, raw_service) btmap \<Rightarrow> (string, raw_service) btmap expander" where
  "sub_services vars [] = State_Monad.return []"
| "sub_services vars ((name, s) # m) =
     do { s' \<leftarrow> sub_service vars (ScopeService name) s;
          m' \<leftarrow> sub_services vars m;
          State_Monad.return ((name, s') # m') }"

definition sub_raw :: "vars \<Rightarrow> raw_config \<Rightarrow> raw_config expander" where
  "sub_raw vars raw =
     do { env \<leftarrow> sub_map_values vars ScopeProject ''env'' (rp_env (raw_project raw));
          env_file \<leftarrow> sub_env_file vars ScopeProject (rp_env_file (raw_project raw));
          logs \<leftarrow> sub_option (sub_logs vars) (rp_logs (raw_project raw));
          services \<leftarrow> sub_services vars (raw_services raw);
          State_Monad.return
            (raw\<lparr> raw_project := (raw_project raw)\<lparr> rp_env := env, rp_env_file := env_file, rp_logs := logs \<rparr>,
                  raw_services := services \<rparr>) }"

definition expand_raw :: "raw_config \<Rightarrow> vars \<Rightarrow> raw_config \<times> config_error list" where
  "expand_raw raw vars = run_state (sub_raw vars raw) []"


section \<open>The braces of a reference\<close>

text \<open>\<open>split_braced\<close> without its arm for \<open>$$\<close>: a counter of braces and nothing else.\<close>

fun closing_brace :: "nat \<Rightarrow> string \<Rightarrow> (string \<times> string) option" where
  "closing_brace depth [] = None"
| "closing_brace depth (c # s) =
     (if c = CHR ''{'' then map_option (\<lambda>(b, t). (c # b, t)) (closing_brace (Suc depth) s)
      else if c = CHR ''}'' then
        (case depth of
           0 \<Rightarrow> Some ([], s)
         | Suc d \<Rightarrow> map_option (\<lambda>(b, t). (c # b, t)) (closing_brace d s))
      else map_option (\<lambda>(b, t). (c # b, t)) (closing_brace depth s))"

text \<open>The arm for \<open>$$\<close> skips a dollar, never a brace, so it changes nothing.\<close>

lemma split_braced_from_eq: "split_braced_from depth s = closing_brace depth s"
proof (induction depth s rule: split_braced_from.induct)
  case (2 depth c s)
  note step = split_braced_from.simps(2)
  consider (obrace) "c = CHR ''{''" | (cbrace) "c = CHR ''}''" | (dollar) "c = CHR ''$''"
    | (other) "c \<noteq> CHR ''{''" "c \<noteq> CHR ''}''" "c \<noteq> CHR ''$''" by blast
  then show ?case
  proof cases
    case obrace
    then show ?thesis using "2.IH"(1) by (simp add: step)
  next
    case cbrace
    then show ?thesis using "2.IH"(2) by (cases depth) (simp_all add: step)
  next
    case dollar
    show ?thesis
    proof (cases s)
      case Nil
      with dollar show ?thesis by (simp add: step)
    next
      case (Cons e s')
      then show ?thesis using dollar "2.IH"(3,4) [OF _ _ _ Cons]
        by (cases "e = CHR ''$''") (simp_all add: step option.map_comp comp_def case_prod_unfold)
    qed
  next
    case other
    then show ?thesis using "2.IH"(5) by (simp add: step)
  qed
qed simp

definition no_braces :: "string \<Rightarrow> bool" where
  "no_braces s = (CHR ''{'' \<notin> set s \<and> CHR ''}'' \<notin> set s)"

definition prepend :: "string \<Rightarrow> (string \<times> string) option \<Rightarrow> (string \<times> string) option" where
  "prepend s r = map_option (\<lambda>(b, t). (s @ b, t)) r"

lemma prepend_prepend: "prepend s (prepend t r) = prepend (s @ t) r"
  by (cases r) (auto simp: prepend_def)

lemma prepend_Nil: "prepend [] r = r"
  by (cases r) (simp_all add: prepend_def)

lemma prepend_Some: "prepend s (Some (b, t)) = Some (s @ b, t)"
  by (simp add: prepend_def)

lemma closing_brace_text: "no_braces s \<Longrightarrow> closing_brace d (s @ r) = prepend s (closing_brace d r)"
proof (induction s)
  case (Cons c s)
  then have "closing_brace d ((c # s) @ r) = prepend [c] (closing_brace d (s @ r))"
    by (auto simp: no_braces_def prepend_def)
  with Cons show ?case by (simp add: prepend_prepend no_braces_def)
qed (simp add: prepend_Nil)

lemma closing_brace_Cons:
  "closing_brace d (CHR ''{'' # s) = prepend ''{'' (closing_brace (Suc d) s)"
  "closing_brace (Suc d) (CHR ''}'' # s) = prepend ''}'' (closing_brace d s)"
  "closing_brace 0 (CHR ''}'' # s) = Some ([], s)"
  "closing_brace d (CHR ''$'' # s) = prepend ''$'' (closing_brace d s)"
  by (simp_all add: prepend_def)

declare closing_brace.simps(2) [simp del]

section \<open>Templates\<close>

text \<open>
  The abstract syntax of a value, as the table at the head of the module gives it: text, a
  literal \<open>${\<dots>}\<close>, a reference, and a reference with a default for an unset or empty and for an
  unset variable.
\<close>

datatype part =
    Text string
  | Literal string
  | Ref string
  | RefOrEmpty string "part list"
  | RefOrUnset string "part list"

fun render_part :: "part \<Rightarrow> string" and render :: "part list \<Rightarrow> string" where
  "render_part (Text s) = s"
| "render_part (Literal s) = ''$${'' @ s @ ''}''"
| "render_part (Ref n) = ''${'' @ n @ ''}''"
| "render_part (RefOrEmpty n d) = ''${'' @ n @ '':-'' @ render d @ ''}''"
| "render_part (RefOrUnset n d) = ''${'' @ n @ ''-'' @ render d @ ''}''"
| "render [] = []"
| "render (p # ps) = render_part p @ render ps"

fun part_value :: "vars \<Rightarrow> part \<Rightarrow> subst_error + string"
  and parts_value :: "vars \<Rightarrow> part list \<Rightarrow> subst_error + string" where
  "part_value vars (Text s) = Inr s"
| "part_value vars (Literal s) = Inr (''${'' @ s @ ''}'')"
| "part_value vars (Ref n) =
     (case bt_get vars n of Some v \<Rightarrow> Inr v | None \<Rightarrow> Inl (Undefined n))"
| "part_value vars (RefOrEmpty n d) =
     (case bt_get vars n of
        Some v \<Rightarrow> if v \<noteq> [] then Inr v else parts_value vars d
      | None \<Rightarrow> parts_value vars d)"
| "part_value vars (RefOrUnset n d) =
     (case bt_get vars n of Some v \<Rightarrow> Inr v | None \<Rightarrow> parts_value vars d)"
| "parts_value vars [] = Inr []"
| "parts_value vars (p # ps) =
     (case part_value vars p of
        Inl e \<Rightarrow> Inl e
      | Inr v \<Rightarrow> (case parts_value vars ps of Inl e \<Rightarrow> Inl e | Inr w \<Rightarrow> Inr (v @ w)))"

definition plain_text :: "string \<Rightarrow> bool" where
  "plain_text s = (CHR ''$'' \<notin> set s \<and> no_braces s)"

fun is_name :: "string \<Rightarrow> bool" where
  "is_name [] = False"
| "is_name (c # s) = (name_start c \<and> (\<forall>x\<in>set s. name_rest x))"

fun wf_part :: "part \<Rightarrow> bool" and wf_parts :: "part list \<Rightarrow> bool" where
  "wf_part (Text s) = plain_text s"
| "wf_part (Literal s) = plain_text s"
| "wf_part (Ref n) = is_name n"
| "wf_part (RefOrEmpty n d) = (is_name n \<and> wf_parts d)"
| "wf_part (RefOrUnset n d) = (is_name n \<and> wf_parts d)"
| "wf_parts [] = True"
| "wf_parts (p # ps) = (wf_part p \<and> wf_parts ps)"

lemma name_rest_plain:
  "name_rest c \<Longrightarrow> c \<noteq> CHR ''{'' \<and> c \<noteq> CHR ''}'' \<and> c \<noteq> CHR ''$'' \<and> c \<noteq> CHR '':'' \<and> c \<noteq> CHR ''-''"
  by (auto simp: name_rest_def is_ascii_alphanumeric_def is_ascii_alphabetic_def is_ascii_digit_def
      less_eq_char_def)

lemma name_start_rest: "name_start c \<Longrightarrow> name_rest c"
  by (auto simp: name_start_def name_rest_def is_ascii_alphanumeric_def)

lemma is_name_plain: "is_name n \<Longrightarrow> plain_text n"
  by (cases n) (auto simp: plain_text_def no_braces_def dest: name_rest_plain name_start_rest)

lemma name_length_append:
  assumes "is_name n" and "s = [] \<or> \<not> name_rest (hd s)"
  shows "name_length (n @ s) = length n"
proof (cases n)
  case (Cons c n')
  have "takeWhile name_rest (n' @ s) = n'"
    using assms Cons by (cases s) (simp_all add: takeWhile_append1 takeWhile_append2)
  with assms Cons show ?thesis by simp
qed (use assms in simp)

lemma closing_brace_render:
  "wf_part p \<Longrightarrow> closing_brace d (render_part p @ r) = prepend (render_part p) (closing_brace d r)"
  "wf_parts ps \<Longrightarrow> closing_brace d (render ps @ r) = prepend (render ps) (closing_brace d r)"
proof (induction p and ps arbitrary: d r and d r rule: render_part_render.induct)
  case (1 s)
  then show ?case by (simp add: plain_text_def closing_brace_text)
next
  case (2 s)
  then show ?case
    by (simp add: plain_text_def closing_brace_Cons closing_brace_text prepend_prepend)
next
  case (3 n)
  then show ?case using is_name_plain [of n]
    by (simp add: plain_text_def closing_brace_Cons closing_brace_text prepend_prepend)
next
  case (4 n ds)
  then have n: "no_braces n" "no_braces (n @ '':-'')"
    using is_name_plain [of n] by (simp_all add: plain_text_def no_braces_def)
  with 4 show ?case
    using closing_brace_text [OF n(2), of "Suc d"]
    by (simp add: closing_brace_Cons prepend_prepend)
next
  case (5 n ds)
  then have n: "no_braces n" "no_braces (n @ ''-'')"
    using is_name_plain [of n] by (simp_all add: plain_text_def no_braces_def)
  with 5 show ?case
    using closing_brace_text [OF n(2), of "Suc d"]
    by (simp add: closing_brace_Cons prepend_prepend)
qed (simp_all add: prepend_Nil prepend_prepend)

lemma split_braced_render:
  "closing_brace 0 (s @ ''}'' @ r) = prepend s (closing_brace 0 (''}'' @ r)) \<Longrightarrow>
   split_braced (s @ CHR ''}'' # r) = Inr (s, r)"
  by (simp add: split_braced_def split_braced_from_eq closing_brace_Cons prepend_Some)

lemma find_opener_text:
  "CHR ''$'' \<notin> set t \<Longrightarrow> find_opener (t @ r) = prepend t (find_opener r)"
proof (induction t)
  case (Cons c t)
  then have "find_opener (c # (t @ r)) = map_option (\<lambda>(b, a). (c # b, a)) (find_opener (t @ r))"
    by (cases "t @ r") auto
  with Cons show ?case by (simp add: prepend_def option.map_comp comp_def case_prod_unfold)
qed (simp add: prepend_Nil)

lemma strip_suffix_dollar:
  "strip_suffix ''$'' b = (if b \<noteq> [] \<and> last b = CHR ''$'' then Some (butlast b) else None)"
proof (cases "b = []")
  case False
  then obtain b' c where "b = b' @ [c]" by (meson rev_exhaust)
  then show ?thesis by (simp add: strip_suffix_def)
qed (simp add: strip_suffix_def)

lemma expand_loop_text:
  assumes "CHR ''$'' \<notin> set t"
  shows "expand_loop vars out (t @ r) = expand_loop vars (out @ t) r"
proof (cases "find_opener r")
  case None
  then show ?thesis
    using find_opener_text [OF assms, of r]
    by (simp add: expand_loop.simps [of vars out] expand_loop.simps [of vars "out @ t"] prepend_def)
next
  case (Some p)
  obtain b a where p: "p = (b, a)" by (cases p)
  have f: "find_opener (t @ r) = Some (t @ b, a)"
    using find_opener_text [OF assms, of r] Some p by (simp add: prepend_def)
  have "strip_suffix ''$'' (t @ b) = map_option (\<lambda>b'. t @ b') (strip_suffix ''$'' b)"
    using assms by (cases b rule: rev_cases; cases t rule: rev_cases)
      (auto simp: strip_suffix_dollar butlast_append)
  with f Some p show ?thesis
    by (simp add: expand_loop.simps [of vars out] expand_loop.simps [of vars "out @ t"]
        split: option.split sum.split)
qed

lemma expand_loop_escape: "expand_loop vars out (''$${'' @ r) = expand_loop vars (out @ ''${'') r"
  by (simp add: expand_loop.simps [of vars out] strip_suffix_dollar)

lemma expand_loop_ref:
  assumes "split_braced s = Inr (body, tail)"
  shows "expand_loop vars out (''${'' @ s) =
           (case resolve vars body of Inl e \<Rightarrow> Inl e | Inr v \<Rightarrow> expand_loop vars (out @ v) tail)"
  using assms by (simp add: expand_loop.simps [of vars out] strip_suffix_dollar split: sum.split)

lemma expand_loop_Nil: "expand_loop vars out [] = Inr out"
  by (simp add: expand_loop.simps)

lemma expand_rest_Nil:
  "(case x of Inl e \<Rightarrow> Inl e | Inr v \<Rightarrow> expand_loop vars ([] @ v) []) = x"
  by (cases x) (simp_all add: expand_loop_Nil)

lemma resolve_default:
  assumes "is_name n" and "modifier_of m = Default d e" and "\<not> name_rest (hd m)"
  shows "resolve vars (n @ m) =
           (case bt_get vars n of
              Some v \<Rightarrow> if v \<noteq> [] \<or> \<not> e then Inr v else expand_loop vars [] d
            | None \<Rightarrow> expand_loop vars [] d)"
proof -
  have "n \<noteq> []" using assms by auto
  with assms show ?thesis by (simp add: resolve.simps name_length_append)
qed

lemma resolve_name: "is_name n \<Longrightarrow> resolve vars n = lookup n vars"
  using name_length_append [of n "[]"] by (cases n) (simp_all add: resolve.simps modifier_of_def)

lemma expand_loop_render:
  "wf_part p \<Longrightarrow> expand_loop vars out (render_part p @ r) =
     (case part_value vars p of Inl e \<Rightarrow> Inl e | Inr v \<Rightarrow> expand_loop vars (out @ v) r)"
  "wf_parts ps \<Longrightarrow> expand_loop vars out (render ps @ r) =
     (case parts_value vars ps of Inl e \<Rightarrow> Inl e | Inr v \<Rightarrow> expand_loop vars (out @ v) r)"
proof (induction vars p and vars ps arbitrary: out r and out r rule: part_value_parts_value.induct)
  case (1 vars s)
  then show ?case by (simp add: plain_text_def expand_loop_text)
next
  case (2 vars s)
  have t: "CHR ''$'' \<notin> set (s @ ''}'')" using 2 by (simp add: plain_text_def)
  show ?case
    using expand_loop_escape [of vars out "s @ ''}'' @ r"]
      expand_loop_text [OF t, of vars "out @ ''${''" r]
    by simp
next
  case (3 vars n)
  have "split_braced (n @ CHR ''}'' # r) = Inr (n, r)"
    using 3 closing_brace_text [of n 0 "''}'' @ r"] is_name_plain [of n]
    by (intro split_braced_render) (simp add: plain_text_def)
  from expand_loop_ref [OF this] 3 show ?case
    by (simp add: resolve_name lookup_def split: option.split)
next
  case (4 vars n d)
  let ?body = "n @ '':-'' @ render d"
  have "closing_brace 0 (?body @ ''}'' @ r) = prepend ?body (closing_brace 0 (''}'' @ r))"
    using closing_brace_text [of "n @ '':-''" 0 "render d @ ''}'' @ r"] 4(3) is_name_plain [of n]
      closing_brace_render(2) [of d 0 "''}'' @ r"]
    by (simp add: plain_text_def no_braces_def prepend_prepend)
  from expand_loop_ref [OF split_braced_render [OF this]]
  have "expand_loop vars out (render_part (RefOrEmpty n d) @ r) =
     (case resolve vars ?body of Inl e \<Rightarrow> Inl e | Inr v \<Rightarrow> expand_loop vars (out @ v) r)" by simp
  moreover have "resolve vars ?body = part_value vars (RefOrEmpty n d)"
    using resolve_default [of n "'':-'' @ render d" "render d" True vars] 4(3)
      "4.IH"(1) [where out = "[]" and r = "[]"] "4.IH"(2) [where out = "[]" and r = "[]"]
    by (auto simp: modifier_of_def name_rest_def is_ascii_alphanumeric_def is_ascii_alphabetic_def
        is_ascii_digit_def less_eq_char_def expand_rest_Nil split: option.split)
  ultimately show ?case by simp
next
  case (5 vars n d)
  let ?body = "n @ ''-'' @ render d"
  have "closing_brace 0 (?body @ ''}'' @ r) = prepend ?body (closing_brace 0 (''}'' @ r))"
    using closing_brace_text [of "n @ ''-''" 0 "render d @ ''}'' @ r"] 5(2) is_name_plain [of n]
      closing_brace_render(2) [of d 0 "''}'' @ r"]
    by (simp add: plain_text_def no_braces_def prepend_prepend)
  from expand_loop_ref [OF split_braced_render [OF this]]
  have "expand_loop vars out (render_part (RefOrUnset n d) @ r) =
     (case resolve vars ?body of Inl e \<Rightarrow> Inl e | Inr v \<Rightarrow> expand_loop vars (out @ v) r)" by simp
  moreover have "resolve vars ?body = part_value vars (RefOrUnset n d)"
    using resolve_default [of n "''-'' @ render d" "render d" False vars] 5(2)
      "5.IH" [where out = "[]" and r = "[]"]
    by (auto simp: modifier_of_def name_rest_def is_ascii_alphanumeric_def is_ascii_alphabetic_def
        is_ascii_digit_def less_eq_char_def expand_rest_Nil split: option.split)
  ultimately show ?case by simp
next
  case (6 vars)
  then show ?case by simp
next
  case (7 vars p ps)
  then show ?case by (cases "part_value vars p"; cases "parts_value vars ps") simp_all
qed

text \<open>C29: The substitution implements the syntax of the module's table.  For every template built
  from text without braces, literal \<open>$${\<dots>}\<close>, references and references with (nested) defaults,
  expanding its written form gives the value the table promises: the value of each variable,
  inserted without being expanded again, the default when the variable is unset (or empty, for
  \<open>:-\<close>), and the error of the first unset variable otherwise.\<close>

theorem expand_implements_templates:
  assumes "wf_parts ps"
  shows "expand (render ps) vars = parts_value vars ps"
  using expand_loop_render(2) [OF assms, of vars "[]" "[]"] by (simp add: expand_def expand_rest_Nil)

theorem expand_implements_templates_witness:
  "expand ''a-${X:-$${Y}${Z-z}}'' [(''X'', '''')] = Inr ''a-${Y}z''"
proof -
  have "wf_parts [Text ''a-'', RefOrEmpty ''X'' [Literal ''Y'', RefOrUnset ''Z'' [Text ''z'']]]"
    by code_simp
  from expand_implements_templates [OF this, of "[(''X'', '''')]"] show ?thesis
    by (simp add: bt_get_def)
qed

section \<open>Escaping\<close>

fun escape :: "string \<Rightarrow> string" where
  "escape (c # d # s) =
     (if c = CHR ''$'' \<and> d = CHR ''{'' then ''$${'' @ escape s else c # escape (d # s))"
| "escape s = s"

lemma escape_None: "find_opener s = None \<Longrightarrow> escape s = s"
  by (induction s rule: escape.induct) (auto split: if_splits)

lemma escape_Some: "find_opener s = Some (b, a) \<Longrightarrow> escape s = b @ ''$${'' @ escape a"
  by (induction s arbitrary: b rule: escape.induct) (auto split: if_splits)

lemma find_opener_escaped:
  "find_opener s = Some (b, a) \<Longrightarrow> find_opener (b @ ''$${'' @ x) = Some (b @ ''$'', x)"
proof (induction s arbitrary: b rule: find_opener.induct)
  case (1 c d s)
  show ?case
  proof (cases "c = CHR ''$'' \<and> d = CHR ''{''")
    case False
    with "1.prems" obtain b' where b: "b = c # b'" "find_opener (d # s) = Some (b', a)" by auto
    have "b' = [] \<or> hd b' = d"
      using find_opener_Some [OF b(2)] by (cases b') auto
    with False have "\<not> (c = CHR ''$'' \<and> hd (b' @ ''$${'' @ x) = CHR ''{'')" by (cases b') auto
    moreover have "find_opener (b' @ ''$${'' @ x) = Some (b' @ ''$'', x)"
      using "1.IH" False b(2) by blast
    ultimately show ?thesis using b(1) by (cases "b' @ ''$${'' @ x") auto
  qed (use "1.prems" in auto)
qed auto

lemma expand_loop_escaped: "expand_loop vars out (escape s) = Inr (out @ s)"
proof (induction s arbitrary: out rule: length_induct)
  case (1 s)
  show ?case
  proof (cases "find_opener s")
    case None
    then show ?thesis by (simp add: escape_None expand_loop.simps)
  next
    case (Some p)
    obtain b a where p: "p = (b, a)" by (cases p)
    have s: "s = b @ ''${'' @ a" using Some p find_opener_Some [of s b a] by simp
    then have IH: "expand_loop vars out' (escape a) = Inr (out' @ a)" for out' using "1.IH" by simp
    have "strip_suffix ''$'' (b @ ''$'') = Some b" by (simp add: strip_suffix_dollar)
    then show ?thesis
      using find_opener_escaped [of s b a "escape a"] Some p IH
      by (simp add: escape_Some expand_loop.simps [of vars out] s)
  qed
qed

text \<open>Every string can be written in a configuration: doubling the dollar of each \<open>${\<close> and
  expanding the result gives the string back, whatever the environment holds.\<close>

theorem expand_escape: "expand (escape s) vars = Inr s"
  by (simp add: expand_def expand_loop_escaped)


section \<open>The substitution of a whole configuration\<close>

text \<open>What the substitution is meant to do, without the threading of the errors: the function
  \<open>f\<close> on every value, and nothing else.\<close>

definition map_logs :: "(string \<Rightarrow> string) \<Rightarrow> raw_logs \<Rightarrow> raw_logs" where
  "map_logs f l = l\<lparr> rl_dir := map_option f (rl_dir l), rl_max_size := map_option f (rl_max_size l) \<rparr>"

fun map_env_file :: "(string \<Rightarrow> string) \<Rightarrow> raw_env_file \<Rightarrow> raw_env_file" where
  "map_env_file f (REF_One p) = REF_One (f p)"
| "map_env_file f (REF_Many ps) = REF_Many (map f ps)"

definition map_watch :: "(string \<Rightarrow> string) \<Rightarrow> raw_watch \<Rightarrow> raw_watch" where
  "map_watch f w =
     w\<lparr> rw_paths := map f (rw_paths w), rw_ignore := map f (rw_ignore w),
        rw_interval := map_option f (rw_interval w), rw_debounce := map_option f (rw_debounce w) \<rparr>"

definition map_health :: "(string \<Rightarrow> string) \<Rightarrow> raw_health_check \<Rightarrow> raw_health_check" where
  "map_health f h =
     h\<lparr> rh_command := map_option (map f) (rh_command h), rh_http := map_option f (rh_http h),
        rh_tcp := map_option f (rh_tcp h), rh_interval := map_option f (rh_interval h),
        rh_timeout := map_option f (rh_timeout h),
        rh_start_period := map_option f (rh_start_period h),
        rh_on_unhealthy := map_option f (rh_on_unhealthy h) \<rparr>"

definition map_service :: "(string \<Rightarrow> string) \<Rightarrow> raw_service \<Rightarrow> raw_service" where
  "map_service f s =
     s\<lparr> rs_command := map f (rs_command s), rs_cwd := map_option f (rs_cwd s),
        rs_env := bt_map_values f (rs_env s), rs_env_file := map_option (map_env_file f) (rs_env_file s),
        rs_restart_delay := map_option f (rs_restart_delay s),
        rs_restart_max_delay := map_option f (rs_restart_max_delay s),
        rs_stable_after := map_option f (rs_stable_after s),
        rs_shutdown_signal := map_option f (rs_shutdown_signal s),
        rs_shutdown_timeout := map_option f (rs_shutdown_timeout s),
        rs_health := map_option (map_health f) (rs_health s),
        rs_watch := map_option (map_watch f) (rs_watch s) \<rparr>"

definition map_raw :: "(string \<Rightarrow> string) \<Rightarrow> raw_config \<Rightarrow> raw_config" where
  "map_raw f raw =
     raw\<lparr> raw_project := (raw_project raw)
            \<lparr> rp_env := bt_map_values f (rp_env (raw_project raw)),
              rp_env_file := map_option (map_env_file f) (rp_env_file (raw_project raw)),
              rp_logs := map_option (map_logs f) (rp_logs (raw_project raw)) \<rparr>,
          raw_services := bt_map_values (map_service f) (raw_services raw) \<rparr>"

text \<open>The values of a configuration that are expanded, in the order of the walk.\<close>

definition opt_list :: "'a option \<Rightarrow> 'a list" where
  "opt_list x = (case x of None \<Rightarrow> [] | Some v \<Rightarrow> [v])"

definition opt_values :: "('a \<Rightarrow> string list) \<Rightarrow> 'a option \<Rightarrow> string list" where
  "opt_values f x = (case x of None \<Rightarrow> [] | Some v \<Rightarrow> f v)"

definition logs_values :: "raw_logs \<Rightarrow> string list" where
  "logs_values l = opt_list (rl_dir l) @ opt_list (rl_max_size l)"

definition watch_values :: "raw_watch \<Rightarrow> string list" where
  "watch_values w = rw_paths w @ rw_ignore w @ opt_list (rw_interval w) @ opt_list (rw_debounce w)"

definition health_values :: "raw_health_check \<Rightarrow> string list" where
  "health_values h =
     opt_values id (rh_command h) @ opt_list (rh_http h) @ opt_list (rh_tcp h) @
     opt_list (rh_interval h) @ opt_list (rh_timeout h) @ opt_list (rh_start_period h) @
     opt_list (rh_on_unhealthy h)"

definition service_values :: "raw_service \<Rightarrow> string list" where
  "service_values s =
     rs_command s @ opt_list (rs_cwd s) @ bt_values (rs_env s) @
     opt_values env_file_paths (rs_env_file s) @ opt_list (rs_restart_delay s) @
     opt_list (rs_restart_max_delay s) @ opt_list (rs_stable_after s) @
     opt_list (rs_shutdown_signal s) @ opt_list (rs_shutdown_timeout s) @
     opt_values health_values (rs_health s) @ opt_values watch_values (rs_watch s)"

definition raw_values :: "raw_config \<Rightarrow> string list" where
  "raw_values raw =
     bt_values (rp_env (raw_project raw)) @ opt_values env_file_paths (rp_env_file (raw_project raw)) @
     opt_values logs_values (rp_logs (raw_project raw)) @
     concat (map service_values (bt_values (raw_services raw)))"

definition expanded :: "vars \<Rightarrow> string \<Rightarrow> string" where
  "expanded vars v = (case expand v vars of Inr x \<Rightarrow> x | Inl _ \<Rightarrow> v)"

definition fails :: "vars \<Rightarrow> string \<Rightarrow> bool" where
  "fails vars v = (case expand v vars of Inr _ \<Rightarrow> False | Inl _ \<Rightarrow> True)"

text \<open>\<open>m\<close> returns \<open>x\<close> and pushes one error for each of \<open>values\<close> that fails, in order.\<close>

definition reports_one :: "vars \<Rightarrow> config_error \<Rightarrow> string \<Rightarrow> bool" where
  "reports_one vars err v =
     (\<exists>e scope field. expand v vars = Inl e \<and> err = to_config_error e scope field)"

definition expands :: "vars \<Rightarrow> 'a expander \<Rightarrow> string list \<Rightarrow> 'a \<Rightarrow> bool" where
  "expands vars m values x =
     (\<forall>errors. \<exists>new. run_state m errors = (x, errors @ new) \<and>
        list_all2 (reports_one vars) new (filter (fails vars) values))"

named_theorems expands_intros \<open>what each step of the substitution expands\<close>

lemma expands_return [expands_intros]: "expands vars (State_Monad.return x) [] x"
  by (simp add: expands_def)

lemma expands_bind:
  assumes "expands vars m vs x" and "expands vars (f x) ws y"
  shows "expands vars (State_Monad.bind m f) (vs @ ws) y"
  unfolding expands_def
proof
  fix errors
  from assms(1) obtain n1 where 1: "run_state m errors = (x, errors @ n1)"
    "list_all2 (reports_one vars) n1 (filter (fails vars) vs)" unfolding expands_def by blast
  from assms(2) obtain n2 where 2: "run_state (f x) (errors @ n1) = (y, (errors @ n1) @ n2)"
    "list_all2 (reports_one vars) n2 (filter (fails vars) ws)" unfolding expands_def by blast
  have "list_all2 (reports_one vars) (n1 @ n2) (filter (fails vars) (vs @ ws))"
    using 1(2) 2(2) by (simp add: list_all2_appendI)
  then show "\<exists>new. run_state (State_Monad.bind m f) errors = (y, errors @ new) \<and>
      list_all2 (reports_one vars) new (filter (fails vars) (vs @ ws))"
    using 1(1) 2(1) by auto
qed

lemma expands_eq: "expands vars m vs x \<Longrightarrow> vs = ws \<Longrightarrow> x = y \<Longrightarrow> expands vars m ws y"
  by simp

lemma expands_one [expands_intros]: "expands vars (sub_one vars scope field v) [v] (expanded vars v)"
proof (cases "expand v vars")
  case (Inl e)
  then have "reports_one vars (to_config_error e scope field) v" by (auto simp: reports_one_def)
  with Inl show ?thesis
    by (simp add: expands_def sub_one_def expanded_def fails_def push_error_def State_Monad.update_def)
next
  case (Inr x)
  then show ?thesis by (simp add: expands_def sub_one_def expanded_def fails_def)
qed

lemma expands_maybe [expands_intros]:
  "expands vars (sub_maybe vars scope field v) (opt_list v) (map_option (expanded vars) v)"
proof (cases v)
  case (Some x)
  then show ?thesis
    using expands_bind [OF expands_one expands_return, of vars scope field x Some]
    by (simp add: opt_list_def)
qed (simp add: opt_list_def expands_return)

lemma expands_list_from: "expands vars (sub_list_from vars scope field i vs) vs (map (expanded vars) vs)"
proof (induction vs arbitrary: i)
  case (Cons v vs)
  have "expands vars (sub_list_from vars scope field i (v # vs)) ([v] @ vs @ [])
      (expanded vars v # map (expanded vars) vs)"
    unfolding sub_list_from.simps by (rule expands_bind expands_one Cons.IH expands_return)+
  then show ?case by simp
qed (simp add: expands_return)

lemma expands_list [expands_intros]:
  "expands vars (sub_list vars scope field vs) vs (map (expanded vars) vs)"
  by (simp add: sub_list_def expands_list_from)

lemma expands_option:
  assumes "\<And>x. expands vars (f x) (vals x) (g x)"
  shows "expands vars (sub_option f v) (opt_values vals v) (map_option g v)"
proof (cases v)
  case (Some x)
  then show ?thesis
    using expands_bind [OF assms expands_return, of x Some]
    by (simp add: sub_option_def opt_values_def)
qed (simp add: sub_option_def opt_values_def expands_return)

lemma sub_maybe_list_option: "sub_maybe_list vars scope field v = sub_option (sub_list vars scope field) v"
  by (cases v) (simp_all add: sub_option_def)

lemma expands_maybe_list [expands_intros]:
  "expands vars (sub_maybe_list vars scope field v) (opt_values id v) (map_option (map (expanded vars)) v)"
  unfolding sub_maybe_list_option by (rule expands_option) (simp add: expands_list)

lemma expands_map_values [expands_intros]:
  "expands vars (sub_map_values vars scope field m) (bt_values m) (bt_map_values (expanded vars) m)"
proof (induction m)
  case (Cons e m)
  obtain k v where e: "e = (k, v)" by (cases e)
  have "expands vars (sub_map_values vars scope field ((k, v) # m)) ([v] @ bt_values m @ [])
     ((k, expanded vars v) # bt_map_values (expanded vars) m)"
    unfolding sub_map_values.simps by (rule expands_bind expands_one Cons.IH expands_return)+
  then show ?case by (simp add: e bt_values_def bt_map_values_def)
qed (simp add: expands_return bt_values_def bt_map_values_def)

lemma expands_env_file [expands_intros]:
  "expands vars (sub_env_file vars scope e) (opt_values env_file_paths e)
     (map_option (map_env_file (expanded vars)) e)"
proof (cases e)
  case (Some p)
  have "expands vars (sub_env_file vars scope (Some p)) (env_file_paths p @ [])
     (Some (map_env_file (expanded vars) p))"
  proof (cases p)
    case (REF_One x)
    show ?thesis unfolding REF_One sub_env_file.simps env_file_paths.simps map_env_file.simps
      by (rule expands_bind expands_one expands_return)+
  next
    case (REF_Many xs)
    show ?thesis unfolding REF_Many sub_env_file.simps env_file_paths.simps map_env_file.simps
      by (rule expands_bind expands_list expands_return)+
  qed
  with Some show ?thesis by (simp add: opt_values_def)
qed (simp add: opt_values_def expands_return)

lemma expands_logs: "expands vars (sub_logs vars l) (logs_values l) (map_logs (expanded vars) l)"
  unfolding sub_logs_def logs_values_def map_logs_def
  by (rule expands_eq, (rule expands_bind expands_intros)+) simp_all

lemma expands_watch: "expands vars (sub_watch vars scope w) (watch_values w) (map_watch (expanded vars) w)"
  unfolding sub_watch_def watch_values_def map_watch_def
  by (rule expands_eq, (rule expands_bind expands_intros)+) simp_all

lemma expands_health: "expands vars (sub_health vars scope h) (health_values h) (map_health (expanded vars) h)"
  unfolding sub_health_def health_values_def map_health_def
  by (rule expands_eq, (rule expands_bind expands_intros)+) simp_all

lemma expands_service:
  "expands vars (sub_service vars scope s) (service_values s) (map_service (expanded vars) s)"
  unfolding sub_service_def service_values_def map_service_def
  by (rule expands_eq, (rule expands_bind expands_option expands_health expands_watch expands_intros)+)
    simp_all

lemma expands_services:
  "expands vars (sub_services vars m) (concat (map service_values (bt_values m)))
     (bt_map_values (map_service (expanded vars)) m)"
proof (induction m)
  case (Cons e m)
  obtain k s where e: "e = (k, s)" by (cases e)
  have "expands vars (sub_services vars ((k, s) # m))
     (service_values s @ concat (map service_values (bt_values m)) @ [])
     ((k, map_service (expanded vars) s) # bt_map_values (map_service (expanded vars)) m)"
    unfolding sub_services.simps by (rule expands_bind expands_service Cons.IH expands_return)+
  then show ?case by (simp add: e bt_values_def bt_map_values_def)
qed (simp add: expands_return bt_values_def bt_map_values_def)

lemma expands_raw: "expands vars (sub_raw vars raw) (raw_values raw) (map_raw (expanded vars) raw)"
  unfolding sub_raw_def raw_values_def map_raw_def
  by (rule expands_eq, (rule expands_bind expands_option expands_services expands_logs expands_intros)+)
    simp_all

text \<open>\<open>expand_raw\<close> expands every value of the configuration in place and nothing else: names,
  keys, \<open>depends_on\<close>, \<open>profiles\<close> and numbers are untouched, values that fail stay as written, and
  exactly one error is reported for each value that fails, in the order of the walk, carrying the
  reason that value fails for.\<close>

theorem expand_raw_refines_map:
  "fst (expand_raw raw vars) = map_raw (expanded vars) raw \<and>
   list_all2 (reports_one vars) (snd (expand_raw raw vars)) (filter (fails vars) (raw_values raw))"
  using expands_raw [of vars raw] unfolding expands_def expand_raw_def
  by (metis append_Nil fst_conv snd_conv)

end
