(* ===== verification/Plan.thy ===== *)
theory Plan
  imports Config Graph
begin

text \<open>
  \<open>crates/servicrab-core/src/runtime/plan.rs\<close>: which services a stack command starts.  A
  \<open>BTreeSet\<close> that is only inserted into and asked for membership is a set; the messages list
  their names in the order of the map or the sorted set.
\<close>

section \<open>Looking services up\<close>

definition known_services :: "config \<Rightarrow> string" where
  "known_services config =
     (if cfg_services config = [] then ''(none)'' else join '', '' (bt_keys (cfg_services config)))"

definition known_profiles :: "config \<Rightarrow> string" where
  "known_profiles config =
     (let profiles = sort (remdups (concat (map svc_profiles (bt_values (cfg_services config)))))
      in if profiles = [] then ''(none)'' else join '', '' profiles)"

definition lookup_service :: "config \<Rightarrow> string \<Rightarrow> runtime_error + service" where
  "lookup_service config requested =
     (case find (\<lambda>(name, _). name = requested) (cfg_services config) of
        Some (_, service) \<Rightarrow> Inr service
      | None \<Rightarrow> Inl (RE_UnknownService requested (known_services config)))"

section \<open>Selecting\<close>

record selection =
  sel_services :: "string list"
  sel_profiles :: "string list"

definition selection_services :: "string list \<Rightarrow> selection" where
  "selection_services services = \<lparr> sel_services = services, sel_profiles = [] \<rparr>"

definition sel_enabled :: "selection \<Rightarrow> service \<Rightarrow> bool" where
  "sel_enabled sel s =
     (svc_profiles s = [] \<or> list_ex (\<lambda>profile. profile \<in> set (sel_profiles sel)) (svc_profiles s))"

text \<open>
  \<open>collect_with_dependencies\<close> on one name and its loop over the dependencies of a service.  The
  set that is passed on only grows, and a call that inserts a configured service leaves fewer of
  them out.
\<close>

function (sequential) collect_with_dependencies :: "config \<Rightarrow> service_name \<Rightarrow> service_name set \<Rightarrow> service_name set"
  and collect_all :: "config \<Rightarrow> service_name list \<Rightarrow> service_name set \<Rightarrow> service_name set" where
  "collect_with_dependencies config name selected =
     (if name \<in> selected then selected
      else case bt_get (cfg_services config) name of
             None \<Rightarrow> insert name selected
           | Some service \<Rightarrow> collect_all config (deps_of service) (insert name selected))"
| "collect_all config [] selected = selected"
| "collect_all config (d # ds) selected =
     collect_all config ds (collect_with_dependencies config d selected)"
  by pat_completeness auto

lemma collect_grows:
  "collect_with_dependencies_collect_all_dom (Inl (config, name, selected)) \<Longrightarrow>
     selected \<subseteq> collect_with_dependencies config name selected"
  "collect_with_dependencies_collect_all_dom (Inr (config, ds, selected)) \<Longrightarrow>
     selected \<subseteq> collect_all config ds selected"
proof (induction config name selected and config ds selected
    rule: collect_with_dependencies_collect_all.pinduct)
  case (1 config name selected)
  then show ?case
    by (auto simp: collect_with_dependencies.psimps split: option.splits)
next
  case (2 config selected)
  then show ?case by (simp add: collect_all.psimps)
next
  case (3 config d ds selected)
  then show ?case by (auto simp: collect_all.psimps)
qed

definition left_out :: "config \<Rightarrow> service_name set \<Rightarrow> nat" where
  "left_out config selected = card (fst ` set (cfg_services config) - selected)"

lemma left_out_insert:
  "bt_get (cfg_services config) name = Some s \<Longrightarrow> name \<notin> selected \<Longrightarrow>
     left_out config (insert name selected) < left_out config selected"
proof -
  assume known: "bt_get (cfg_services config) name = Some s" and new: "name \<notin> selected"
  from known have "name \<in> fst ` set (cfg_services config)" using bt_get_dom [of "cfg_services config" name] by simp
  with new show ?thesis unfolding left_out_def by (intro psubset_card_mono) auto
qed

lemma left_out_mono: "A \<subseteq> B \<Longrightarrow> left_out config B \<le> left_out config A"
  unfolding left_out_def by (intro card_mono) auto

termination collect_with_dependencies
proof (relation "measures
    [\<lambda>x. case x of Inl (config, name, selected) \<Rightarrow> left_out config selected
                 | Inr (config, ds, selected) \<Rightarrow> left_out config selected,
     \<lambda>x. case x of Inl _ \<Rightarrow> 0 | Inr (config, ds, selected) \<Rightarrow> Suc (length ds)]", goal_cases)
  case 1
  show ?case by simp
next
  case (2 config name selected s)
  then show ?case by (simp add: left_out_insert)
next
  case (3 config d ds selected)
  show ?case by simp
next
  case (4 config d ds selected)
  then have "left_out config (collect_with_dependencies config d selected) \<le> left_out config selected"
    by (intro left_out_mono collect_grows(1))
  then show ?case by (simp add: le_less)
qed

declare collect_with_dependencies.simps [simp del]

section \<open>The plan\<close>

text \<open>\<open>profile "dev"\<close> or \<open>profiles dev, test\<close>; \<open>{one:?}\<close> is the name in quotes, as profile names
  hold nothing that is escaped.\<close>

definition list_profiles :: "string list \<Rightarrow> string" where
  "list_profiles profiles =
     (case profiles of
        [one] \<Rightarrow> ''profile \"'' @ one @ ''\"''
      | many \<Rightarrow> ''profiles '' @ join '', '' many)"

definition nothing_to_start :: "config \<Rightarrow> selection \<Rightarrow> runtime_error" where
  "nothing_to_start config sel =
     RE_NothingToStart
       (if sel_profiles sel \<noteq> []
        then ''no service with autostart = true is in '' @ list_profiles (sel_profiles sel)
        else if list_ex (\<lambda>s. svc_profiles s \<noteq> []) (bt_values (cfg_services config))
        then ''every service with autostart = true is behind a profile; enable one with --profile (declared: ''
             @ known_profiles config @ '')''
        else ''none of the configured services have autostart = true'')"

fun check_profiles :: "config \<Rightarrow> string list \<Rightarrow> runtime_error + unit" where
  "check_profiles config [] = Inr ()"
| "check_profiles config (profile # ps) =
     (if \<not> list_ex (\<lambda>s. profile \<in> set (svc_profiles s)) (bt_values (cfg_services config))
      then Inl (RE_UnknownProfile profile (known_profiles config))
      else check_profiles config ps)"

fun select_autostart :: "config \<Rightarrow> selection \<Rightarrow> (service_name \<times> service) list \<Rightarrow> service_name set
    \<Rightarrow> service_name set" where
  "select_autostart config sel [] selected = selected"
| "select_autostart config sel ((name, s) # rest) selected =
     select_autostart config sel rest
       (if svc_autostart s \<and> sel_enabled sel s
        then collect_with_dependencies config name selected else selected)"

fun select_named :: "config \<Rightarrow> string list \<Rightarrow> service_name set \<Rightarrow> runtime_error + service_name set" where
  "select_named config [] selected = Inr selected"
| "select_named config (name # names) selected =
     (case lookup_service config name of
        Inl e \<Rightarrow> Inl e
      | Inr s \<Rightarrow> select_named config names (collect_with_dependencies config (svc_name s) selected))"

definition plan_stack :: "config \<Rightarrow> selection \<Rightarrow> runtime_error + service_name list" where
  "plan_stack config sel =
     (case check_profiles config (sel_profiles sel) of
        Inl e \<Rightarrow> Inl e
      | Inr _ \<Rightarrow>
          (case (if sel_services sel = []
                 then Inr (select_autostart config sel (cfg_services config) {})
                 else select_named config (sel_services sel) {}) of
             Inl e \<Rightarrow> Inl e
           | Inr selected \<Rightarrow>
               if selected = {} then Inl (nothing_to_start config sel)
               else Inr (filter (\<lambda>name. name \<in> selected) (cfg_start_order config))))"

fun hold_dependents :: "config \<Rightarrow> service_name list \<Rightarrow> service_name set \<Rightarrow> service_name set" where
  "hold_dependents config [] held = held"
| "hold_dependents config (name # plan) held =
     hold_dependents config plan
       (case bt_get (cfg_services config) name of
          None \<Rightarrow> held
        | Some s \<Rightarrow> if list_ex (\<lambda>d. d \<in> held) (deps_of s) then insert name held else held)"

definition with_dependents :: "config \<Rightarrow> service_name list \<Rightarrow> service_name set \<Rightarrow> service_name set" where
  "with_dependents config plan seeds =
     hold_dependents config plan {name \<in> seeds. name \<in> set plan}"


section \<open>The closure under dependencies\<close>

text \<open>The dependency relation of a configuration: from a service to what it depends on.\<close>

definition graph_of :: "config \<Rightarrow> dep_graph" where
  "graph_of config = bt_map_values deps_of (cfg_services config)"

definition depends :: "config \<Rightarrow> (service_name \<times> service_name) set" where
  "depends config = {(n, d). d \<in> set (deps_at (graph_of config) n)}"

lemma deps_at_graph: "deps_at (graph_of config) n =
    (case bt_get (cfg_services config) n of None \<Rightarrow> [] | Some s \<Rightarrow> deps_of s)"
  by (simp add: deps_at_def graph_of_def bt_get_map_values split: option.split)

definition closed_set :: "config \<Rightarrow> service_name set \<Rightarrow> bool" where
  "closed_set config A = (\<forall>m \<in> A. set (deps_at (graph_of config) m) \<subseteq> A)"

lemma closed_set_Image: "closed_set config A \<Longrightarrow> B \<subseteq> A \<Longrightarrow> (depends config)\<^sup>* `` B \<subseteq> A"
proof
  fix x assume closed: "closed_set config A" and "B \<subseteq> A" "x \<in> (depends config)\<^sup>* `` B"
  then obtain b where "(b, x) \<in> (depends config)\<^sup>*" "b \<in> A" by blast
  then show "x \<in> A"
    by (induction rule: rtrancl_induct) (use closed in \<open>auto simp: closed_set_def depends_def\<close>)
qed

lemma insert_Un_subset: "R \<subseteq> insert n S \<union> Y \<Longrightarrow> Y \<subseteq> X \<Longrightarrow> n \<in> X \<Longrightarrow> R \<subseteq> S \<union> X"
  by blast

text \<open>A call adds only what is reachable, and everything the added services depend on.\<close>

lemma collect_correct:
  "name \<in> collect_with_dependencies config name selected
   \<and> selected \<subseteq> collect_with_dependencies config name selected
   \<and> collect_with_dependencies config name selected \<subseteq> selected \<union> (depends config)\<^sup>* `` {name}
   \<and> (\<forall>m \<in> collect_with_dependencies config name selected - selected.
        set (deps_at (graph_of config) m) \<subseteq> collect_with_dependencies config name selected)"
  "set ds \<subseteq> collect_all config ds selected
   \<and> selected \<subseteq> collect_all config ds selected
   \<and> collect_all config ds selected \<subseteq> selected \<union> (depends config)\<^sup>* `` set ds
   \<and> (\<forall>m \<in> collect_all config ds selected - selected.
        set (deps_at (graph_of config) m) \<subseteq> collect_all config ds selected)"
proof (induction config name selected and config ds selected
    rule: collect_with_dependencies_collect_all.induct)
  case (1 config name selected)
  show ?case
  proof (cases "name \<in> selected")
    case True
    then show ?thesis by (auto simp: collect_with_dependencies.simps)
  next
    case new: False
    show ?thesis
    proof (cases "bt_get (cfg_services config) name")
      case None
      with new show ?thesis
        by (auto simp: collect_with_dependencies.simps deps_at_graph)
    next
      case (Some s)
      let ?R = "collect_all config (deps_of s) (insert name selected)"
      have eq: "collect_with_dependencies config name selected = ?R"
        using new Some by (simp add: collect_with_dependencies.simps)
      have deps: "deps_at (graph_of config) name = deps_of s" using Some by (simp add: deps_at_graph)
      note IH = "1.IH" [OF new Some]
      have "?R \<subseteq> insert name selected \<union> (depends config)\<^sup>* `` set (deps_of s)"
        using IH by simp
      moreover have "(depends config)\<^sup>* `` set (deps_of s) \<subseteq> (depends config)\<^sup>* `` {name}"
        using deps by (auto simp: depends_def intro: converse_rtrancl_into_rtrancl)
      moreover have "name \<in> (depends config)\<^sup>* `` {name}" by simp
      ultimately have "?R \<subseteq> selected \<union> (depends config)\<^sup>* `` {name}"
        by (rule insert_Un_subset)
      moreover have "set (deps_at (graph_of config) m) \<subseteq> ?R" if "m \<in> ?R - selected" for m
      proof (cases "m = name")
        case True
        then show ?thesis using IH deps by simp
      next
        case False
        then show ?thesis using IH that by simp
      qed
      moreover have "insert name selected \<subseteq> ?R" using IH by simp
      ultimately show ?thesis unfolding eq by simp
    qed
  qed
next
  case (2 config selected)
  then show ?case by simp
next
  case (3 config d ds selected)
  let ?S = "collect_with_dependencies config d selected"
  let ?R = "collect_all config ds ?S"
  have "?R \<subseteq> selected \<union> (depends config)\<^sup>* `` {d} \<union> (depends config)\<^sup>* `` set ds"
    using "3.IH" by blast
  moreover have "\<forall>m \<in> ?R - selected. set (deps_at (graph_of config) m) \<subseteq> ?R"
    using "3.IH" by blast
  ultimately show ?case using "3.IH" by auto
qed

lemma collect_closure:
  assumes "closed_set config selected"
  shows "collect_with_dependencies config name selected = selected \<union> (depends config)\<^sup>* `` {name}"
    and "closed_set config (collect_with_dependencies config name selected)"
proof -
  let ?R = "collect_with_dependencies config name selected"
  note C = collect_correct(1) [of name config selected]
  show closed: "closed_set config ?R"
    using C assms unfolding closed_set_def by blast
  have "(depends config)\<^sup>* `` {name} \<subseteq> ?R"
    using closed_set_Image [OF closed] C by blast
  then show "?R = selected \<union> (depends config)\<^sup>* `` {name}" using C by blast
qed

section \<open>The selection\<close>

definition auto_seeds :: "config \<Rightarrow> selection \<Rightarrow> service_name set" where
  "auto_seeds config sel =
     {name. \<exists>s. (name, s) \<in> set (cfg_services config) \<and> svc_autostart s \<and> sel_enabled sel s}"

lemma select_autostart_closure:
  assumes "closed_set config selected"
  shows "select_autostart config sel entries selected =
           selected \<union> (depends config)\<^sup>* `` {name. \<exists>s. (name, s) \<in> set entries \<and> svc_autostart s \<and> sel_enabled sel s}
         \<and> closed_set config (select_autostart config sel entries selected)"
  using assms
proof (induction entries arbitrary: selected)
  case (Cons e entries)
  obtain n s where e: "e = (n, s)" by (cases e)
  show ?case
  proof (cases "svc_autostart s \<and> sel_enabled sel s")
    case True
    define A where "A = {name. \<exists>s. (name, s) \<in> set entries \<and> svc_autostart s \<and> sel_enabled sel s}"
    have split: "{name. \<exists>s. (name, s) \<in> set (e # entries) \<and> svc_autostart s \<and> sel_enabled sel s} = {n} \<union> A"
      using True e by (auto simp: A_def)
    have step: "select_autostart config sel (e # entries) selected
      = select_autostart config sel entries (collect_with_dependencies config n selected)"
      by (simp add: e True)
    show ?thesis
      unfolding split Image_Un step
      using Cons.IH [OF collect_closure(2) [OF Cons.prems, of n], folded A_def]
      unfolding collect_closure(1) [OF Cons.prems, of n] Un_assoc by assumption
  next
    case False
    have split: "{name. \<exists>s. (name, s) \<in> set (e # entries) \<and> svc_autostart s \<and> sel_enabled sel s}
      = {name. \<exists>s. (name, s) \<in> set entries \<and> svc_autostart s \<and> sel_enabled sel s}"
      using e False by auto
    have step: "select_autostart config sel (e # entries) selected = select_autostart config sel entries selected"
      using False by (auto simp: e)
    show ?thesis unfolding split step by (rule Cons.IH [OF Cons.prems])
  qed
qed simp

definition names_consistent :: "config \<Rightarrow> bool" where
  "names_consistent config = (\<forall>(name, s) \<in> set (cfg_services config). svc_name s = name)"

lemma find_SomeD: "find P xs = Some e \<Longrightarrow> e \<in> set xs \<and> P e"
  by (induction xs) (auto split: if_splits)

lemma lookup_service_Inr:
  assumes "names_consistent config" and "lookup_service config requested = Inr s"
  shows "svc_name s = requested \<and> requested \<in> fst ` set (cfg_services config)"
proof -
  obtain e where e: "find (\<lambda>(name, _). name = requested) (cfg_services config) = Some e" "snd e = s"
    using assms(2) by (auto simp: lookup_service_def split: option.splits)
  then have "e \<in> set (cfg_services config)" "fst e = requested"
    using find_SomeD [OF e(1)] by auto
  moreover have "svc_name (snd e) = fst e"
    using assms(1) \<open>e \<in> set (cfg_services config)\<close> by (auto simp: names_consistent_def)
  ultimately show ?thesis using e(2) by force
qed

lemma select_named_closure:
  assumes "names_consistent config" and "closed_set config selected"
    and "select_named config names selected = Inr result"
  shows "result = selected \<union> (depends config)\<^sup>* `` set names \<and> closed_set config result
    \<and> set names \<subseteq> fst ` set (cfg_services config)"
  using assms(2,3)
proof (induction names arbitrary: selected)
  case (Cons n names)
  then obtain s where s: "lookup_service config n = Inr s"
    and rest: "select_named config names (collect_with_dependencies config n selected) = Inr result"
    using lookup_service_Inr [OF assms(1)] by (auto split: sum.splits)
  from Cons.IH [OF collect_closure(2) [OF Cons.prems(1)] rest]
  show ?case
    using collect_closure(1) [OF Cons.prems(1), of n] lookup_service_Inr [OF assms(1) s]
    by auto
qed simp

text \<open>What the configuration layer promises: a map of services under their own names, closed under
  \<open>depends_on\<close>, with the start order that the sort returned.\<close>

definition planned_config :: "config \<Rightarrow> bool" where
  "planned_config config =
     (bt_wf (cfg_services config) \<and> names_consistent config \<and> closed_graph (graph_of config)
      \<and> topological_sort (graph_of config) = Some (Inr (cfg_start_order config)))"

definition seeds_of :: "config \<Rightarrow> selection \<Rightarrow> service_name set" where
  "seeds_of config sel =
     (if sel_services sel = [] then auto_seeds config sel else set (sel_services sel))"

lemma graph_of_wf: "planned_config config \<Longrightarrow> bt_wf (graph_of config)"
  by (simp add: planned_config_def graph_of_def)

lemma graph_of_keys: "fst ` set (graph_of config) = fst ` set (cfg_services config)"
  by (force simp: graph_of_def bt_map_values_def)

lemma plan_stack_selected:
  assumes "planned_config config" and "plan_stack config sel = Inr plan"
  shows "plan = filter (\<lambda>n. n \<in> (depends config)\<^sup>* `` seeds_of config sel) (cfg_start_order config)
    \<and> seeds_of config sel \<noteq> {} \<and> seeds_of config sel \<subseteq> fst ` set (cfg_services config)"
proof -
  have closed: "closed_set config {}" by (simp add: closed_set_def)
  obtain selected where sel: "(if sel_services sel = []
       then Inr (select_autostart config sel (cfg_services config) {})
       else select_named config (sel_services sel) {}) = Inr selected"
    and ne: "selected \<noteq> {}" and plan: "plan = filter (\<lambda>n. n \<in> selected) (cfg_start_order config)"
    using assms(2) unfolding plan_stack_def by (auto split: sum.splits if_splits)
  have "selected = (depends config)\<^sup>* `` seeds_of config sel \<and> seeds_of config sel \<subseteq> fst ` set (cfg_services config)"
  proof (cases "sel_services sel = []")
    case True
    then have "selected = select_autostart config sel (cfg_services config) {}" using sel by simp
    with True select_autostart_closure [OF closed, of sel "cfg_services config"] show ?thesis
      by (auto simp: seeds_of_def auto_seeds_def intro: rev_image_eqI)
  next
    case False
    with sel select_named_closure [OF _ closed, of "sel_services sel" selected] assms(1) show ?thesis
      by (simp add: seeds_of_def planned_config_def)
  qed
  with plan ne show ?thesis by auto
qed

lemma reachable_known:
  assumes "planned_config config" and "n \<in> fst ` set (cfg_services config)" and "(n, m) \<in> (depends config)\<^sup>*"
  shows "m \<in> fst ` set (cfg_services config)"
  using assms(3,2)
proof (induction rule: rtrancl_induct)
  case (step y z)
  then have "z \<in> set (deps_at (graph_of config) y)" by (simp add: depends_def)
  then show ?case using assms(1) graph_of_keys [of config]
    by (auto simp: planned_config_def closed_graph_def)
qed

lemma set_filter_mem: "A \<subseteq> set xs \<Longrightarrow> set (filter (\<lambda>n. n \<in> A) xs) = A"
  by auto

lemma plan_closure:
  assumes "planned_config config" and "plan_stack config sel = Inr plan"
  shows "set plan = (depends config)\<^sup>* `` seeds_of config sel
    \<and> distinct plan \<and> plan \<noteq> []
    \<and> plan = filter (\<lambda>n. n \<in> (depends config)\<^sup>* `` seeds_of config sel) (cfg_start_order config)
    \<and> (\<forall>xs n ys. plan = xs @ n # ys \<longrightarrow> set (deps_at (graph_of config) n) \<subseteq> set xs)"
proof -
  let ?R = "(depends config)\<^sup>* `` seeds_of config sel"
  have sorted: "topological_sort (graph_of config) = Some (Inr (cfg_start_order config))"
    using assms(1) by (simp add: planned_config_def)
  note order = kahn.sorted_order [OF graph_of_wf [OF assms(1)] sorted]
  have plan: "plan = filter (\<lambda>n. n \<in> ?R) (cfg_start_order config)"
    and seeds: "seeds_of config sel \<noteq> {}" "seeds_of config sel \<subseteq> fst ` set (cfg_services config)"
    using plan_stack_selected [OF assms] by blast+
  have "?R \<subseteq> set (cfg_start_order config)"
  proof
    fix m assume "m \<in> ?R"
    then obtain s where "s \<in> seeds_of config sel" "(s, m) \<in> (depends config)\<^sup>*" by (rule ImageE)
    then have "m \<in> fst ` set (cfg_services config)" using reachable_known [OF assms(1)] seeds(2) by blast
    then show "m \<in> set (cfg_start_order config)" using order graph_of_keys [of config] by simp
  qed
  then have set: "set plan = ?R" unfolding plan by (rule set_filter_mem)
  moreover have "seeds_of config sel \<subseteq> ?R" by auto
  then have "plan \<noteq> []" using set seeds(1) by auto
  moreover have "set (deps_at (graph_of config) n) \<subseteq> set xs" if "plan = xs @ n # ys" for xs n ys
  proof (rule kahn.restricted_dependencies_first [OF graph_of_wf [OF assms(1)] sorted, where P = "\<lambda>n. n \<in> ?R"])
    show "filter (\<lambda>n. n \<in> ?R) (cfg_start_order config) = xs @ n # ys" using that plan by simp
    show "\<And>m d. m \<in> ?R \<Longrightarrow> d \<in> set (deps_at (graph_of config) m) \<Longrightarrow> d \<in> ?R"
      by (auto simp: depends_def intro: rtrancl_into_rtrancl)
  qed
  moreover have "distinct plan" using plan order by simp
  ultimately show ?thesis using plan by blast
qed

text \<open>C2: A stack command starts exactly the transitive closure of what it was asked for: the plan is
  the configured start order restricted to the services reachable from the seeds along
  \<open>depends_on\<close>, where the seeds are the named services or, with none named, those with
  \<open>autostart\<close> that the enabled profiles allow.  It is never empty, repeats nothing, and every
  service comes after all the services it depends on.\<close>

theorem plan_is_dependency_closure:
  assumes "planned_config config" and "plan_stack config sel = Inr plan"
  shows "set plan = (depends config)\<^sup>* `` seeds_of config sel
    \<and> distinct plan \<and> plan \<noteq> []
    \<and> plan = filter (\<lambda>n. n \<in> (depends config)\<^sup>* `` seeds_of config sel) (cfg_start_order config)
    \<and> (\<forall>xs n ys. plan = xs @ n # ys \<longrightarrow> set (deps_at (graph_of config) n) \<subseteq> set xs)"
  using plan_closure [OF assms] .

section \<open>Dependents\<close>

lemma hold_dependents_correct:
  assumes "\<And>xs n ys. plan = xs @ n # ys \<Longrightarrow> set (deps_at (graph_of config) n) \<subseteq> set (pre @ xs)"
    and "distinct (pre @ plan)"
    and "\<And>m. m \<in> set pre \<Longrightarrow> m \<in> held \<longleftrightarrow> (\<exists>s \<in> seeds. (m, s) \<in> (depends config)\<^sup>*)"
    and "\<And>m. m \<notin> set pre \<Longrightarrow> m \<in> held \<longleftrightarrow> m \<in> seeds"
    and "seeds \<subseteq> set (pre @ plan)"
  shows "hold_dependents config plan held =
     {m \<in> set (pre @ plan). \<exists>s \<in> seeds. (m, s) \<in> (depends config)\<^sup>*}"
  using assms
proof (induction plan arbitrary: pre held)
  case Nil
  then show ?case by auto
next
  case (Cons n plan)
  define held' where "held' = (case bt_get (cfg_services config) n of
          None \<Rightarrow> held
        | Some s \<Rightarrow> if list_ex (\<lambda>d. d \<in> held) (deps_of s) then insert n held else held)"
  have deps: "set (deps_at (graph_of config) n) \<subseteq> set pre" using Cons.prems(1) [of "[]" n plan] by simp
  have held': "held' = (if \<exists>d \<in> set (deps_at (graph_of config) n). d \<in> held then insert n held else held)"
    by (auto simp: held'_def deps_at_graph list_ex_iff split: option.splits)
  have n: "n \<notin> set pre" using Cons.prems(2) by simp
  have own: "n \<in> held' \<longleftrightarrow> (\<exists>s \<in> seeds. (n, s) \<in> (depends config)\<^sup>*)"
  proof -
    have "n \<in> held' \<longleftrightarrow> n \<in> seeds \<or> (\<exists>d \<in> set (deps_at (graph_of config) n). d \<in> held)"
      using Cons.prems(4) [OF n] by (auto simp: held')
    also have "\<dots> \<longleftrightarrow> n \<in> seeds \<or> (\<exists>d. (n, d) \<in> depends config \<and> (\<exists>s \<in> seeds. (d, s) \<in> (depends config)\<^sup>*))"
      using Cons.prems(3) deps by (auto simp: depends_def)
    also have "\<dots> \<longleftrightarrow> (\<exists>s \<in> seeds. (n, s) \<in> (depends config)\<^sup>*)"
      by (metis converse_rtranclE converse_rtrancl_into_rtrancl rtrancl.rtrancl_refl)
    finally show ?thesis .
  qed
  have other: "m \<in> held' \<longleftrightarrow> m \<in> held" if "m \<noteq> n" for m using that by (simp add: held')
  have "hold_dependents config plan held' =
     {m \<in> set ((pre @ [n]) @ plan). \<exists>s \<in> seeds. (m, s) \<in> (depends config)\<^sup>*}"
  proof (intro Cons.IH)
    show "set (deps_at (graph_of config) k) \<subseteq> set ((pre @ [n]) @ xs)" if "plan = xs @ k # ys" for xs k ys
      using Cons.prems(1) [of "n # xs" k ys] that by simp
    show "distinct ((pre @ [n]) @ plan)" "seeds \<subseteq> set ((pre @ [n]) @ plan)" using Cons.prems by auto
    show "m \<in> held' \<longleftrightarrow> (\<exists>s \<in> seeds. (m, s) \<in> (depends config)\<^sup>*)" if "m \<in> set (pre @ [n])" for m
      using that own other Cons.prems(3) by (cases "m = n") auto
    show "m \<in> held' \<longleftrightarrow> m \<in> seeds" if "m \<notin> set (pre @ [n])" for m
      using that other Cons.prems(4) by auto
  qed
  then show ?case by (simp add: held'_def)
qed

lemma transitive_dependents:
  assumes "planned_config config" and "plan_stack config sel = Inr plan"
  shows "with_dependents config plan seeds =
     {n \<in> set plan. \<exists>s \<in> seeds \<inter> set plan. (n, s) \<in> (depends config)\<^sup>*}"
proof -
  note P = plan_closure [OF assms]
  have "hold_dependents config plan {name \<in> seeds. name \<in> set plan} =
     {m \<in> set ([] @ plan). \<exists>s \<in> {name \<in> seeds. name \<in> set plan}. (m, s) \<in> (depends config)\<^sup>*}"
  proof (rule hold_dependents_correct [where pre = "[]" and seeds = "{name \<in> seeds. name \<in> set plan}"])
    show "set (deps_at (graph_of config) n) \<subseteq> set ([] @ xs)" if "plan = xs @ n # ys" for xs n ys
      using P [THEN conjunct2, THEN conjunct2, THEN conjunct2, THEN conjunct2] that unfolding append_Nil by blast
    show "distinct ([] @ plan)" using P unfolding append_Nil by blast
  qed auto
  then show ?thesis by (simp add: with_dependents_def Int_def)
qed

text \<open>One pass over a plan in start order finds every dependent: holding services back holds back
  exactly the planned services from which one of them is reachable along \<open>depends_on\<close>, at any
  distance.  Seeds outside the plan have no effect.\<close>

theorem with_dependents_is_transitive:
  assumes "planned_config config" and "plan_stack config sel = Inr plan"
  shows "with_dependents config plan seeds =
     {n \<in> set plan. \<exists>s \<in> seeds \<inter> set plan. (n, s) \<in> (depends config)\<^sup>*}"
  by (rule transitive_dependents [OF assms])

section \<open>Examples\<close>

definition example_stack :: config where
  "example_stack =
     \<lparr> cfg_source_path = ''/p/servicrab.toml'', cfg_source_dir = ''/p'',
       cfg_project = \<lparr> proj_name = ''p'', proj_env = [], proj_env_files = [], proj_logs = None \<rparr>,
       cfg_services = [(''api'', plain_service ''api'' [''db'']), (''db'', plain_service ''db'' []),
         (''tool'', (plain_service ''tool'' [''db''])\<lparr> svc_autostart := False \<rparr>),
         (''web'', plain_service ''web'' [''api''])],
       cfg_start_order = [''db'', ''api'', ''tool'', ''web''] \<rparr>"

lemma graph_example: "graph_of example_stack = [(''api'', [''db'']), (''db'', []), (''tool'', [''db'']), (''web'', [''api''])]"
  by code_simp

lemma deps_at_none: "bt_get g n = None \<Longrightarrow> deps_at g n = []"
  by (simp add: deps_at_def)

lemma planned_example: "planned_config example_stack"
proof -
  have "bt_wf (cfg_services example_stack)" "names_consistent example_stack"
    "topological_sort (graph_of example_stack) = Some (Inr (cfg_start_order example_stack))"
    by code_simp+
  moreover have "closed_graph (graph_of example_stack)"
    unfolding closed_graph_def graph_example
    by (auto simp: deps_at_def bt_get_Cons split: if_splits)
  ultimately show ?thesis by (simp add: planned_config_def)
qed

lemma plan_example: "plan_stack example_stack (selection_services [''web'']) = Inr [''db'', ''api'', ''web'']"
  by code_simp

theorem plan_is_dependency_closure_witness:
  "(depends example_stack)\<^sup>* `` seeds_of example_stack (selection_services [''web'']) = {''db'', ''api'', ''web''}"
  using plan_is_dependency_closure [OF planned_example plan_example] by auto

theorem with_dependents_is_transitive_witness:
  "(''web'', ''db'') \<in> (depends example_stack)\<^sup>*"
proof -
  have "with_dependents example_stack [''db'', ''api'', ''web''] {''db''} = {''db'', ''api'', ''web''}"
    by code_simp
  with with_dependents_is_transitive [OF planned_example plan_example, of "{''db''}"]
  have "''web'' \<in> {n \<in> set [''db'', ''api'', ''web'']. \<exists>s \<in> {''db''} \<inter> set [''db'', ''api'', ''web'']. (n, s) \<in> (depends example_stack)\<^sup>*}"
    by blast
  then show ?thesis by auto
qed

end
