(* ===== verification/Event.thy ===== *)
theory Event
  imports Config "HOL-Library.Sublist"
begin

text \<open>
  \<open>crates/servicrab-core/src/runtime/event.rs\<close>: the event stream with its allowance for log
  lines.  The channel is the queue of the events handed over and not taken yet, with whether its
  receiver is still there; the two atomic counters of \<open>LogBudget\<close> are fields beside it.  Every
  operation is one step on that state: the steps of concurrent senders and the receiver
  interleave at the granularity of \<open>send\<close> and \<open>recv\<close>.  The \<open>u64\<close> and \<open>usize\<close> counters stay
  below their widths (one count per event ever sent) and are natural numbers.
\<close>

section \<open>Events\<close>

datatype log_stream = Stdout | Stderr

fun show_stream :: "log_stream \<Rightarrow> string" where
  "show_stream Stdout = ''stdout''"
| "show_stream Stderr = ''stderr''"

datatype event_kind =
    EK_State service_state
  | EK_Started int
  | EK_Log log_stream string
  | EK_Exited exit_reason duration
  | EK_Backoff duration u32
  | EK_Skipped service_name
  | EK_Stopping shutdown_reason
  | EK_Finished string
  | EK_Healthy
  | EK_HealthProbeFailed string u32 u32
  | EK_Unhealthy string
  | EK_WatchTriggered path nat
  | EK_WatchFailed string
  | EK_WatchTruncated nat
  | EK_LogLinesDropped nat
  | EK_Failed string

record service_event =
  ev_service :: service_name
  ev_kind :: event_kind

definition service_event_new :: "service_name \<Rightarrow> event_kind \<Rightarrow> service_event" where
  "service_event_new service kind = \<lparr> ev_service = service, ev_kind = kind \<rparr>"

definition is_log :: "service_event \<Rightarrow> bool" where
  "is_log e = (case ev_kind e of EK_Log _ _ \<Rightarrow> True | _ \<Rightarrow> False)"

section \<open>The channel\<close>

definition max_queued_log_lines :: nat where
  "max_queued_log_lines = 1024"

definition report_drops_every :: nat where
  "report_drops_every = 1024"

definition flood_over_below :: nat where
  "flood_over_below = max_queued_log_lines div 2"

record event_channel =
  ch_queue :: "service_event list"
  ch_open :: bool
  ch_queued :: nat
  ch_dropped :: nat

text \<open>\<open>event_channel()\<close>.\<close>

definition channel_new :: event_channel where
  "channel_new = \<lparr> ch_queue = [], ch_open = True, ch_queued = 0, ch_dropped = 0 \<rparr>"

text \<open>\<open>UnboundedSender::send\<close>: the event comes back when the receiver is gone.\<close>

definition inner_send :: "service_event \<Rightarrow> event_channel \<Rightarrow> (service_event + unit) \<times> event_channel" where
  "inner_send e ch =
     (if ch_open ch then (Inr (), ch\<lparr> ch_queue := ch_queue ch @ [e] \<rparr>) else (Inl e, ch))"

definition report_drops :: "service_name \<Rightarrow> event_channel \<Rightarrow> event_channel" where
  "report_drops service ch =
     (let count = ch_dropped ch; ch = ch\<lparr> ch_dropped := 0 \<rparr> in
      if count = 0 then ch
      else snd (inner_send (service_event_new service (EK_LogLinesDropped count)) ch))"

definition ch_send :: "service_event \<Rightarrow> event_channel \<Rightarrow> (service_event + unit) \<times> event_channel" where
  "ch_send e ch =
     (if \<not> is_log e then inner_send e ch
      else
        let queued = ch_queued ch; ch = ch\<lparr> ch_queued := ch_queued ch + 1 \<rparr> in
        if max_queued_log_lines \<le> queued then
          let ch = ch\<lparr> ch_queued := ch_queued ch - 1 \<rparr>;
              dropped = ch_dropped ch + 1;
              ch = ch\<lparr> ch_dropped := dropped \<rparr>
          in (Inr (), if dropped mod report_drops_every = 0 then report_drops (ev_service e) ch else ch)
        else
          let ch = (if queued < flood_over_below \<and> 0 < ch_dropped ch
                    then report_drops (ev_service e) ch else ch)
          in case inner_send e ch of
               (Inr _, ch) \<Rightarrow> (Inr (), ch)
             | (Inl e, ch) \<Rightarrow> (Inl e, ch\<lparr> ch_queued := ch_queued ch - 1 \<rparr>))"

definition ch_release :: "service_event \<Rightarrow> event_channel \<Rightarrow> event_channel" where
  "ch_release e ch = (if is_log e then ch\<lparr> ch_queued := ch_queued ch - 1 \<rparr> else ch)"

text \<open>\<open>try_recv\<close>; \<open>recv\<close> is the same once an event is there.\<close>

definition ch_recv :: "event_channel \<Rightarrow> service_event option \<times> event_channel" where
  "ch_recv ch =
     (case ch_queue ch of
        [] \<Rightarrow> (None, ch)
      | e # q \<Rightarrow> (Some e, ch_release e (ch\<lparr> ch_queue := q \<rparr>)))"

text \<open>Dropping the receiver: what is queued is lost and every later send fails.\<close>

definition ch_close :: "event_channel \<Rightarrow> event_channel" where
  "ch_close ch = ch\<lparr> ch_open := False, ch_queue := [] \<rparr>"

text \<open>\<open>EventSink\<close>: an optional sender.\<close>

definition sink_none :: "event_channel option" where
  "sink_none = None"

definition sink_new :: "event_channel \<Rightarrow> event_channel option" where
  "sink_new ch = Some ch"

definition sink_is_active :: "event_channel option \<Rightarrow> bool" where
  "sink_is_active s = (s \<noteq> None)"

definition sink_emit :: "service_name \<Rightarrow> event_kind \<Rightarrow> event_channel option \<Rightarrow> event_channel option" where
  "sink_emit service kind s = map_option (\<lambda>ch. snd (ch_send (service_event_new service kind) ch)) s"


section \<open>Reachable channels\<close>

text \<open>
  A channel with the history of what was sent into it and taken out of it.  \<open>sent\<close> are all the
  events handed to \<open>send\<close>, whether or not they were queued.
\<close>

inductive ch_reach :: "event_channel \<Rightarrow> service_event list \<Rightarrow> service_event list \<Rightarrow> bool" where
  reach_new: "ch_reach channel_new [] []"
| reach_send: "ch_reach ch sent delivered \<Longrightarrow> ch_send e ch = (r, ch') \<Longrightarrow> ch_reach ch' (sent @ [e]) delivered"
| reach_recv: "ch_reach ch sent delivered \<Longrightarrow> ch_recv ch = (Some e, ch') \<Longrightarrow> ch_reach ch' sent (delivered @ [e])"

definition dropped_count :: "service_event \<Rightarrow> nat" where
  "dropped_count e = (case ev_kind e of EK_LogLinesDropped n \<Rightarrow> n | _ \<Rightarrow> 0)"

definition is_report :: "service_event \<Rightarrow> bool" where
  "is_report e = (case ev_kind e of EK_LogLinesDropped _ \<Rightarrow> True | _ \<Rightarrow> False)"

text \<open>The lines an event accounts for: its own, or the dropped ones it reports.\<close>

definition lines_of :: "service_event list \<Rightarrow> nat" where
  "lines_of es = sum_list (map (\<lambda>e. (if is_log e then 1 else 0) + dropped_count e) es)"

definition log_count :: "service_event list \<Rightarrow> nat" where
  "log_count es = length (filter is_log es)"

definition report_count :: "service_event list \<Rightarrow> nat" where
  "report_count es = length (filter is_report es)"

lemma counts_append [simp]:
  "lines_of (xs @ ys) = lines_of xs + lines_of ys"
  "log_count (xs @ ys) = log_count xs + log_count ys"
  "report_count (xs @ ys) = report_count xs + report_count ys"
  by (simp_all add: lines_of_def log_count_def report_count_def)

lemma counts_Cons [simp]:
  "lines_of (e # es) = (if is_log e then 1 else 0) + dropped_count e + lines_of es"
  "log_count (e # es) = (if is_log e then Suc (log_count es) else log_count es)"
  "report_count (e # es) = (if is_report e then Suc (report_count es) else report_count es)"
  "lines_of [] = 0" "log_count [] = 0" "report_count [] = 0"
  by (simp_all add: lines_of_def log_count_def report_count_def)

abbreviation report_event :: "service_name \<Rightarrow> nat \<Rightarrow> service_event" where
  "report_event service n \<equiv> service_event_new service (EK_LogLinesDropped n)"

lemma report_event_simps [simp]:
  "\<not> is_log (report_event service n)" "is_report (report_event service n)"
  "dropped_count (report_event service n) = n"
  by (simp_all add: is_log_def is_report_def dropped_count_def service_event_new_def)

lemma log_not_report: "is_log e \<Longrightarrow> \<not> is_report e \<and> dropped_count e = 0"
  by (simp add: is_log_def is_report_def dropped_count_def split: event_kind.splits)

text \<open>What one \<open>send\<close> does to an open channel, case by case.\<close>

datatype send_case = Plain | DroppedQuietly | DroppedReported | Queued | ReportedAndQueued

definition send_case_of :: "service_event \<Rightarrow> event_channel \<Rightarrow> send_case" where
  "send_case_of e ch =
     (if \<not> is_log e then Plain
      else if max_queued_log_lines \<le> ch_queued ch then
        (if Suc (ch_dropped ch) mod report_drops_every = 0 then DroppedReported else DroppedQuietly)
      else if ch_queued ch < flood_over_below \<and> 0 < ch_dropped ch then ReportedAndQueued
      else Queued)"

lemma ch_send_open:
  assumes "ch_open ch"
  shows "ch_send e ch = (Inr (),
     (case send_case_of e ch of
        Plain \<Rightarrow> ch\<lparr> ch_queue := ch_queue ch @ [e] \<rparr>
      | DroppedQuietly \<Rightarrow> ch\<lparr> ch_dropped := Suc (ch_dropped ch) \<rparr>
      | DroppedReported \<Rightarrow>
          ch\<lparr> ch_queue := ch_queue ch @ [report_event (ev_service e) (Suc (ch_dropped ch))], ch_dropped := 0 \<rparr>
      | Queued \<Rightarrow> ch\<lparr> ch_queue := ch_queue ch @ [e], ch_queued := Suc (ch_queued ch) \<rparr>
      | ReportedAndQueued \<Rightarrow>
          ch\<lparr> ch_queue := ch_queue ch @ [report_event (ev_service e) (ch_dropped ch), e],
              ch_queued := Suc (ch_queued ch), ch_dropped := 0 \<rparr>))"
  using assms
  by (simp add: ch_send_def send_case_of_def inner_send_def report_drops_def Let_def)

lemma ch_recv_Some:
  assumes "ch_recv ch = (Some e, ch')"
  shows "ch_queue ch = e # ch_queue ch' \<and> ch_open ch' = ch_open ch \<and> ch_dropped ch' = ch_dropped ch
    \<and> ch_queued ch' = (if is_log e then ch_queued ch - 1 else ch_queued ch)"
  using assms by (auto simp: ch_recv_def ch_release_def split: list.splits if_splits)

lemma send_case_bounds:
  "send_case_of e ch \<in> {Queued, ReportedAndQueued} \<Longrightarrow> ch_queued ch < max_queued_log_lines"
  "send_case_of e ch \<in> {DroppedQuietly, DroppedReported} \<Longrightarrow> max_queued_log_lines \<le> ch_queued ch"
  "send_case_of e ch = Plain \<longleftrightarrow> \<not> is_log e"
  by (auto simp: send_case_of_def split: if_splits)

definition ch_inv :: "event_channel \<Rightarrow> bool" where
  "ch_inv ch = (ch_open ch \<and> ch_queued ch = log_count (ch_queue ch) \<and> ch_queued ch \<le> max_queued_log_lines)"

lemma ch_inv_send: "ch_inv ch \<Longrightarrow> ch_send e ch = (r, ch') \<Longrightarrow> ch_inv ch'"
  using send_case_bounds [of e ch]
  by (cases "send_case_of e ch") (auto simp: ch_inv_def ch_send_open)

lemma ch_inv_recv: "ch_inv ch \<Longrightarrow> ch_recv ch = (Some e, ch') \<Longrightarrow> ch_inv ch'"
  using ch_recv_Some [of ch e ch'] by (auto simp: ch_inv_def split: if_splits)

lemma reach_inv: "ch_reach ch sent delivered \<Longrightarrow> ch_inv ch"
proof (induction rule: ch_reach.induct)
  case reach_new
  show ?case by (simp add: ch_inv_def channel_new_def)
next
  case (reach_send ch sent delivered e r ch')
  then show ?case by (blast intro: ch_inv_send)
next
  case (reach_recv ch sent delivered e ch')
  then show ?case by (blast intro: ch_inv_recv)
qed

lemma reach_open: "ch_reach ch sent delivered \<Longrightarrow> ch_open ch"
  using reach_inv by (simp add: ch_inv_def)

text \<open>The allowance holds: whatever senders and receiver do, at most 1024 log lines are queued on
  a channel, and the atomic counter is exactly the number of queued log lines, so giving a line's
  allowance back never makes it wrap.\<close>

theorem queued_log_lines_bounded:
  assumes "ch_reach ch sent delivered"
  shows "log_count (ch_queue ch) \<le> 1024 \<and> ch_queued ch = log_count (ch_queue ch)"
  using reach_inv [OF assms] by (simp add: ch_inv_def max_queued_log_lines_def)

text \<open>Nothing else is lost: what was sent, in order, is what was delivered and is still queued,
  except for the dropped log lines and the reports the channel adds itself.\<close>

definition own :: "service_event \<Rightarrow> bool" where
  "own e = (\<not> is_report e)"

lemma subseq_snoc: "subseq (xs @ ys) zs \<Longrightarrow> subseq (xs @ ys @ [e]) (zs @ [e])"
  using subseq_append [of "xs @ ys" "[e]" zs] by simp

lemma reach_order:
  "ch_reach ch sent delivered \<Longrightarrow>
     subseq (filter own (delivered @ ch_queue ch)) (filter own sent)
   \<and> filter (\<lambda>e. own e \<and> \<not> is_log e) (delivered @ ch_queue ch)
       = filter (\<lambda>e. own e \<and> \<not> is_log e) sent"
proof (induction rule: ch_reach.induct)
  case reach_new
  show ?case by (simp add: channel_new_def)
next
  case (reach_send ch sent delivered e r ch')
  have "ch_open ch" using reach_send(1) by (rule reach_open)
  from ch_send_open [OF this, of e] reach_send(2)
  show ?case
    using reach_send.IH send_case_bounds(3) [of e ch]
    by (cases "send_case_of e ch")
      (auto simp: own_def log_not_report intro: subseq_snoc list_emb_prefix)
next
  case (reach_recv ch sent delivered e ch')
  then show ?case using ch_recv_Some [OF reach_recv(2)] by simp
qed

lemma reach_account:
  "ch_reach ch sent delivered \<Longrightarrow>
     lines_of (delivered @ ch_queue ch) + ch_dropped ch = lines_of sent"
proof (induction rule: ch_reach.induct)
  case reach_new
  show ?case by (simp add: channel_new_def)
next
  case (reach_send ch sent delivered e r ch')
  have "ch_open ch" using reach_send(1) by (rule reach_open)
  from ch_send_open [OF this, of e] reach_send(2)
  show ?case
    using reach_send.IH send_case_bounds(3) [of e ch] log_not_report [of e]
    by (cases "send_case_of e ch") auto
next
  case (reach_recv ch sent delivered e ch')
  then show ?case using ch_recv_Some [OF reach_recv(2)] by simp
qed

text \<open>C27: No loss is silent and no order is disturbed: every line that was sent is delivered, still
  queued, counted in a report (delivered or queued) or counted as dropped since the last report;
  the events that are not log lines all arrive, in order; and the log lines that arrive do so in
  the order in which they were sent.\<close>

theorem channel_accounts_for_every_line:
  assumes "ch_reach ch sent delivered"
  shows "lines_of delivered + lines_of (ch_queue ch) + ch_dropped ch = lines_of sent
    \<and> filter (\<lambda>e. own e \<and> \<not> is_log e) (delivered @ ch_queue ch)
       = filter (\<lambda>e. own e \<and> \<not> is_log e) sent
    \<and> subseq (filter own (delivered @ ch_queue ch)) (filter own sent)"
  using reach_account [OF assms] reach_order [OF assms] by simp

lemma reach_rate:
  "ch_reach ch sent delivered \<Longrightarrow> \<forall>e \<in> set sent. own e \<Longrightarrow>
     512 * report_count (delivered @ ch_queue ch) \<le> log_count sent
   \<and> (if ch_dropped ch = 0
      then 512 * report_count (delivered @ ch_queue ch) + ch_queued ch \<le> log_count sent + 512
      else 512 * Suc (report_count (delivered @ ch_queue ch)) + ch_dropped ch \<le> log_count sent)"
proof (induction rule: ch_reach.induct)
  case reach_new
  show ?case by (simp add: channel_new_def)
next
  case (reach_send ch sent delivered e r ch')
  have "own e" "\<forall>e \<in> set sent. own e" using reach_send.prems by auto
  note IH = reach_send.IH [OF this(2)]
  have op: "ch_open ch" using reach_send(1) by (rule reach_open)
  have limit: "ch_queued ch \<le> 1024" using reach_inv [OF reach_send(1)] by (simp add: ch_inv_def max_queued_log_lines_def)
  note S = ch_send_open [OF op, of e]
  show ?case
  proof (cases "send_case_of e ch")
    case Plain
    then show ?thesis using S reach_send(2) IH \<open>own e\<close> send_case_bounds(3) [of e ch]
      by (auto simp: own_def split: if_splits)
  next
    case DroppedQuietly
    then have "1024 \<le> ch_queued ch" "is_log e"
      using send_case_bounds(2,3) [of e ch] by (simp_all add: max_queued_log_lines_def)
    then show ?thesis using S reach_send(2) IH DroppedQuietly by (auto split: if_splits)
  next
    case DroppedReported
    then have full: "1024 \<le> ch_queued ch" "is_log e"
      using send_case_bounds(2,3) [of e ch] by (simp_all add: max_queued_log_lines_def)
    have "Suc (ch_dropped ch) mod 1024 = 0"
      using DroppedReported by (auto simp: send_case_of_def report_drops_every_def split: if_splits)
    then have "1024 dvd Suc (ch_dropped ch)" by (simp add: mod_eq_0_iff_dvd)
    then have "1024 \<le> Suc (ch_dropped ch)" by (rule dvd_imp_le) simp
    with full show ?thesis using S reach_send(2) IH DroppedReported limit by (auto split: if_splits)
  next
    case Queued
    then have "is_log e" using send_case_bounds(3) [of e ch] by simp
    then show ?thesis using S reach_send(2) IH Queued by (auto simp: log_not_report split: if_splits)
  next
    case ReportedAndQueued
    then have "is_log e" "ch_queued ch < 512" "0 < ch_dropped ch"
      by (auto simp: send_case_of_def flood_over_below_def max_queued_log_lines_def split: if_splits)
    then show ?thesis using S reach_send(2) IH ReportedAndQueued
      by (auto simp: log_not_report split: if_splits)
  qed
next
  case (reach_recv ch sent delivered e ch')
  note R = ch_recv_Some [OF reach_recv(2)]
  have "report_count ((delivered @ [e]) @ ch_queue ch') = report_count (delivered @ ch_queue ch)"
    using R by (simp only: append_assoc append_Cons append_Nil)
  moreover have "ch_queued ch' \<le> ch_queued ch" "ch_dropped ch' = ch_dropped ch" using R by auto
  ultimately show ?case using reach_recv.IH [OF reach_recv.prems] by (cases "ch_dropped ch = 0") simp_all
qed

text \<open>Announcing the loss does not undo the bound: a service that prints as fast as it can gets at
  most one report per 512 lines it prints, however its sends interleave with the receiver.\<close>

theorem reports_are_rare:
  assumes "ch_reach ch sent delivered" and "\<forall>e \<in> set sent. own e"
  shows "512 * report_count (delivered @ ch_queue ch) \<le> log_count sent"
  using reach_rate [OF assms] by blast

section \<open>Examples\<close>

fun send_all :: "service_event list \<Rightarrow> event_channel \<Rightarrow> event_channel" where
  "send_all [] ch = ch"
| "send_all (e # es) ch = send_all es (snd (ch_send e ch))"

lemma reach_send_all: "ch_reach ch sent delivered \<Longrightarrow> ch_reach (send_all es ch) (sent @ es) delivered"
proof (induction es arbitrary: ch sent)
  case (Cons e es)
  have "ch_reach (snd (ch_send e ch)) (sent @ [e]) delivered"
    by (rule reach_send [OF Cons.prems, of _ "fst (ch_send e ch)"]) simp
  from Cons.IH [OF this] show ?case by simp
qed simp

abbreviation example_log :: "string \<Rightarrow> service_event" where
  "example_log line \<equiv> service_event_new ''api'' (EK_Log Stdout line)"

lemma example_reach:
  "ch_reach (send_all [example_log ''a'', service_event_new ''api'' EK_Healthy, example_log ''b''] channel_new)
     [example_log ''a'', service_event_new ''api'' EK_Healthy, example_log ''b''] []"
  using reach_send_all [OF reach_new, of "[example_log ''a'', service_event_new ''api'' EK_Healthy, example_log ''b'']"]
  by (simp only: append_Nil)

theorem queued_log_lines_bounded_witness:
  "ch_queued (send_all [example_log ''a'', service_event_new ''api'' EK_Healthy, example_log ''b''] channel_new) = 2"
  using queued_log_lines_bounded [OF example_reach]
  by (simp add: ch_send_def is_log_def service_event_new_def inner_send_def channel_new_def
      max_queued_log_lines_def flood_over_below_def Let_def)

theorem channel_accounts_for_every_line_witness:
  "lines_of (ch_queue (send_all [example_log ''a'', service_event_new ''api'' EK_Healthy, example_log ''b''] channel_new)) = 2"
  using channel_accounts_for_every_line [OF example_reach, THEN conjunct1]
  by (simp add: ch_send_def is_log_def service_event_new_def inner_send_def channel_new_def
      max_queued_log_lines_def flood_over_below_def Let_def dropped_count_def)

theorem reports_are_rare_witness:
  "512 * report_count (ch_queue (send_all [example_log ''a'', service_event_new ''api'' EK_Healthy, example_log ''b''] channel_new)) \<le> 2"
  using reports_are_rare [OF example_reach]
  by (simp add: own_def is_report_def is_log_def service_event_new_def)

text \<open>A full channel whose receiver is gone still accepts log lines: the allowance of the lines that
  were lost with it is never given back, so the line is counted as dropped and \<open>send\<close> reports no
  error.\<close>

lemma closed_full_channel_accepts_log:
  assumes "\<not> ch_open ch" and "max_queued_log_lines \<le> ch_queued ch" and "is_log e"
  shows "fst (ch_send e ch) = Inr ()"
  using assms by (simp add: ch_send_def Let_def)

end
