(* ===== verification/Paths.thy ===== *)
theory Paths
  imports Prelude
begin

text \<open>
  What the program uses of \<open>std::path\<close>, for Unix paths.  \<open>Path\<close> compares, orders and hashes by
  components, so the component list is the value of a path; \<open>show_path\<close> writes it back.
  \<open>component\<close> has the order that \<open>Ord for Component\<close> derives, and a list of components the
  lexicographic order of \<open>Ord for Path\<close>.
\<close>

datatype component = RootDir | CurDir | ParentDir | Normal string

fun component_rank :: "component \<Rightarrow> nat \<times> string" where
  "component_rank RootDir = (0, [])"
| "component_rank CurDir = (1, [])"
| "component_rank ParentDir = (2, [])"
| "component_rank (Normal s) = (3, s)"

lemma component_rank_inj: "component_rank a = component_rank b \<longleftrightarrow> a = b"
  by (cases a; cases b) auto

instantiation component :: linorder
begin

definition less_eq_component :: "component \<Rightarrow> component \<Rightarrow> bool" where
  "less_eq_component a b =
     (fst (component_rank a) < fst (component_rank b)
      \<or> fst (component_rank a) = fst (component_rank b) \<and> snd (component_rank a) \<le> snd (component_rank b))"

definition less_component :: "component \<Rightarrow> component \<Rightarrow> bool" where
  "less_component a b = (a \<le> b \<and> \<not> b \<le> (a :: component))"

instance
proof
  fix a b c :: component
  show "a < b \<longleftrightarrow> a \<le> b \<and> \<not> b \<le> a" by (simp add: less_component_def)
  show "a \<le> a" by (simp add: less_eq_component_def)
  show "a \<le> c" if "a \<le> b" "b \<le> c"
    using that by (auto simp: less_eq_component_def)
  show "a = b" if "a \<le> b" "b \<le> a"
    using that component_rank_inj [of a b] by (auto simp: less_eq_component_def prod_eq_iff)
  show "a \<le> b \<or> b \<le> a" by (auto simp: less_eq_component_def)
qed

end

text \<open>The text between the separators.\<close>

fun segments :: "string \<Rightarrow> string list" where
  "segments [] = [[]]"
| "segments (c # s) =
     (if c = CHR ''/'' then [] # segments s
      else (case segments s of [] \<Rightarrow> [[c]] | seg # segs \<Rightarrow> (c # seg) # segs))"

definition component_of :: "string \<Rightarrow> component" where
  "component_of s = (if s = ''..'' then ParentDir else Normal s)"

definition is_absolute :: "string \<Rightarrow> bool" where
  "is_absolute p = starts_with ''/'' p"

text \<open>\<open>Path::components\<close>: empty and \<open>.\<close> segments are skipped, a leading \<open>.\<close> is kept.\<close>

definition components :: "string \<Rightarrow> component list" where
  "components p =
     (if is_absolute p then [RootDir] else if hd (segments p) = ''.'' then [CurDir] else [])
     @ map component_of (filter (\<lambda>s. s \<noteq> [] \<and> s \<noteq> ''.'') (segments p))"

fun component_text :: "component \<Rightarrow> string" where
  "component_text RootDir = ''/''"
| "component_text CurDir = ''.''"
| "component_text ParentDir = ''..''"
| "component_text (Normal s) = s"

fun show_path :: "component list \<Rightarrow> string" where
  "show_path (RootDir # cs) = CHR ''/'' # join ''/'' (map component_text cs)"
| "show_path cs = join ''/'' (map component_text cs)"

definition comps_file_name :: "component list \<Rightarrow> string option" where
  "comps_file_name cs =
     (if cs = [] then None else case last cs of Normal s \<Rightarrow> Some s | _ \<Rightarrow> None)"

definition path_file_name :: "string \<Rightarrow> string option" where
  "path_file_name p = comps_file_name (components p)"

text \<open>\<open>Path::extension\<close>: what follows the last dot of the file name, when something precedes it.\<close>

definition comps_extension :: "component list \<Rightarrow> string option" where
  "comps_extension cs =
     (case comps_file_name cs of
        None \<Rightarrow> None
      | Some s \<Rightarrow> (case rsplit_once (CHR ''.'') s of
                    Some (before, after) \<Rightarrow> if before = [] then None else Some after
                  | None \<Rightarrow> None))"

text \<open>\<open>Path::parent\<close>; the result is the same path as the one the library returns, written with
  single separators.\<close>

definition path_parent :: "string \<Rightarrow> string option" where
  "path_parent p =
     (let cs = components p in
      if cs = [] \<or> last cs = RootDir then None else Some (show_path (butlast cs)))"

text \<open>\<open>Path::join\<close>.\<close>

definition path_join :: "string \<Rightarrow> string \<Rightarrow> string" where
  "path_join base p =
     (if is_absolute p then p
      else if base = [] \<or> last base = CHR ''/'' then base @ p
      else base @ ''/'' @ p)"

text \<open>\<open>Path::starts_with\<close> and \<open>Path::strip_prefix\<close> on components.\<close>

definition comps_starts_with :: "component list \<Rightarrow> component list \<Rightarrow> bool" where
  "comps_starts_with cs base = starts_with base cs"

lemma segments_nonempty [simp]: "segments p \<noteq> []"
  by (induction p) (auto split: list.splits)

lemma segments_plain: "CHR ''/'' \<notin> set s \<Longrightarrow> segments s = [s]"
  by (induction s) auto

lemma segments_append: "CHR ''/'' \<notin> set s \<Longrightarrow> segments (s @ CHR ''/'' # p) = s # segments p"
  by (induction s) auto

text \<open>\<open>c\<close> is a component that a segment in the middle of a path can give.\<close>

fun inner_component :: "component \<Rightarrow> bool" where
  "inner_component RootDir = False"
| "inner_component CurDir = False"
| "inner_component ParentDir = True"
| "inner_component (Normal s) = (s \<noteq> [] \<and> CHR ''/'' \<notin> set s \<and> s \<noteq> ''.'' \<and> s \<noteq> ''..'')"

lemma inner_component_text:
  "inner_component c \<Longrightarrow> component_text c \<noteq> [] \<and> CHR ''/'' \<notin> set (component_text c)
     \<and> component_text c \<noteq> ''.'' \<and> component_of (component_text c) = c"
  by (cases c) (auto simp: component_of_def)

lemma segments_join:
  "\<forall>c \<in> set cs. inner_component c \<Longrightarrow> cs \<noteq> [] \<Longrightarrow>
     segments (join ''/'' (map component_text cs)) = map component_text cs"
proof (induction cs)
  case (Cons c cs)
  then show ?case
    using inner_component_text [of c]
    by (cases cs) (simp_all add: segments_plain segments_append)
qed simp

lemma filter_inner:
  "\<forall>c \<in> set cs. inner_component c \<Longrightarrow>
     map component_of (filter (\<lambda>s. s \<noteq> [] \<and> s \<noteq> ''.'') (map component_text cs)) = cs"
  using inner_component_text by (induction cs) auto

text \<open>Writing an absolute path and reading it back.\<close>

lemma components_show_path:
  assumes "\<forall>c \<in> set cs. inner_component c"
  shows "components (show_path (RootDir # cs)) = RootDir # cs"
proof (cases "cs = []")
  case True
  then show ?thesis by (simp add: components_def is_absolute_def starts_with_def)
next
  case False
  then show ?thesis
    using segments_join [OF assms False] filter_inner [OF assms]
    by (simp add: components_def is_absolute_def starts_with_def)
qed

end
