(* ===== verification/Status.thy ===== *)
theory Status
  imports Event Paths
begin

text \<open>
  \<open>crates/servicrab-core/src/runtime/status.rs\<close>: the registry that folds the event stream into a
  report per service.  The registry's clock is an argument: \<open>now\<close> is the value \<open>Instant::now\<close>
  returns, as nanoseconds since a fixed start.
\<close>

type_synonym instant = nat

datatype health = HealthNone | HealthStarting | HealthHealthy | HealthUnhealthy

record service_status =
  st_name :: service_name
  st_state :: service_state
  st_pid :: "int option"
  st_uptime :: "duration option"
  st_restarts :: u32
  st_health :: health
  st_message :: "string option"

record entry =
  en_state :: service_state
  en_pid :: "int option"
  en_started_at :: "instant option"
  en_restarts :: u32
  en_health :: health
  en_message :: "string option"

record status_registry =
  sr_services :: "(service_name, entry) btmap"
  sr_order :: "service_name list"

definition entry_new :: "bool \<Rightarrow> entry" where
  "entry_new has_health =
     \<lparr> en_state = Pending, en_pid = None, en_started_at = None, en_restarts = 0,
       en_health = (if has_health then HealthStarting else HealthNone), en_message = None \<rparr>"

definition registry_new :: "(service_name \<times> bool) list \<Rightarrow> status_registry" where
  "registry_new services =
     foldl (\<lambda>r (name, has_health).
         \<lparr> sr_services = bt_insert name (entry_new has_health) (sr_services r),
           sr_order = sr_order r @ [name] \<rparr>)
       \<lparr> sr_services = [], sr_order = [] \<rparr> services"

text \<open>\<open>entry(name).or_insert_with(\<dots>)\<close>.\<close>

definition or_insert_entry :: "service_name \<Rightarrow> bool \<Rightarrow> (service_name, entry) btmap \<Rightarrow> (service_name, entry) btmap" where
  "or_insert_entry name has_health m =
     (if bt_get m name = None then bt_insert name (entry_new has_health) m else m)"

definition registry_sync :: "(service_name \<times> bool) list \<Rightarrow> status_registry \<Rightarrow> status_registry" where
  "registry_sync services r =
     (let (m, order) = foldl (\<lambda>(m, order) (name, has_health).
            (or_insert_entry name has_health m, order @ [name])) (sr_services r, []) services
      in \<lparr> sr_services = filter (\<lambda>(name, _). name \<in> set order) m, sr_order = order \<rparr>)"

text \<open>The fields of an entry after one event.  A watcher reports at least one changed path, so
  \<open>changed - 1\<close> does not wrap.\<close>

fun apply_kind :: "instant \<Rightarrow> event_kind \<Rightarrow> entry \<Rightarrow> entry" where
  "apply_kind now (EK_State s) en =
     (let en = en\<lparr> en_state := s \<rparr>;
          en = (if s \<noteq> Running then en\<lparr> en_pid := None, en_started_at := None \<rparr> else en)
      in if s = Starting
         then let en = en\<lparr> en_message := None \<rparr>
              in if en_health en \<noteq> HealthNone then en\<lparr> en_health := HealthStarting \<rparr> else en
         else en)"
| "apply_kind now (EK_Started pgid) en =
     en\<lparr> en_pid := Some pgid, en_started_at := Some now \<rparr>"
| "apply_kind now (EK_Backoff _ attempt) en = en\<lparr> en_restarts := attempt \<rparr>"
| "apply_kind now (EK_Skipped dependency) en =
     en\<lparr> en_message := Some (''skipped: '' @ dependency @ '' never became available'') \<rparr>"
| "apply_kind now EK_Healthy en = en\<lparr> en_health := HealthHealthy \<rparr>"
| "apply_kind now (EK_Unhealthy message) en =
     en\<lparr> en_health := HealthUnhealthy, en_message := Some (''unhealthy: '' @ message) \<rparr>"
| "apply_kind now (EK_HealthProbeFailed message consecutive retries) en =
     en\<lparr> en_message := Some (''probe failed ('' @ show_nat (unat consecutive) @ ''/''
           @ show_nat (unat retries) @ ''): '' @ message) \<rparr>"
| "apply_kind now (EK_Failed message) en = en\<lparr> en_message := Some message \<rparr>"
| "apply_kind now (EK_Finished summary) en = en\<lparr> en_message := Some summary \<rparr>"
| "apply_kind now (EK_WatchTriggered p changed) en =
     (let name = (case path_file_name p of Some n \<Rightarrow> n | None \<Rightarrow> p)
      in en\<lparr> en_message := Some
              (if changed = 1 then ''restarting: '' @ name @ '' changed''
               else ''restarting: '' @ name @ '' and '' @ show_nat (changed - 1) @ '' more changed'') \<rparr>)"
| "apply_kind now (EK_WatchFailed message) en =
     en\<lparr> en_message := Some (''watch: '' @ message) \<rparr>"
| "apply_kind now (EK_WatchTruncated limit) en =
     en\<lparr> en_message := Some (''watch: more than '' @ show_nat limit
           @ '' files; narrow `paths` or add `ignore` entries'') \<rparr>"
| "apply_kind now (EK_LogLinesDropped count) en =
     en\<lparr> en_message := Some (''dropped '' @ show_nat count @ '' output line(s)'') \<rparr>"
| "apply_kind now (EK_Log _ _) en = en"
| "apply_kind now (EK_Exited _ _) en = en"
| "apply_kind now (EK_Stopping _) en = en"

definition registry_apply :: "instant \<Rightarrow> service_event \<Rightarrow> status_registry \<Rightarrow> status_registry" where
  "registry_apply now e r =
     (case bt_get (sr_services r) (ev_service e) of
        None \<Rightarrow> r
      | Some en \<Rightarrow>
          r\<lparr> sr_services := bt_set (ev_service e) (apply_kind now (ev_kind e) en) (sr_services r) \<rparr>)"

definition status_of :: "instant \<Rightarrow> service_name \<Rightarrow> entry \<Rightarrow> service_status" where
  "status_of now name en =
     \<lparr> st_name = name, st_state = en_state en, st_pid = en_pid en,
       st_uptime = map_option (\<lambda>at. now - at) (en_started_at en),
       st_restarts = en_restarts en, st_health = en_health en, st_message = en_message en \<rparr>"

definition registry_snapshot :: "instant \<Rightarrow> status_registry \<Rightarrow> service_status list" where
  "registry_snapshot now r =
     List.map_filter (\<lambda>name. map_option (status_of now name) (bt_get (sr_services r) name)) (sr_order r)"


section \<open>The registry's invariant\<close>

text \<open>Every service that is reported has an entry, every entry is reported.\<close>

definition registry_wf :: "status_registry \<Rightarrow> bool" where
  "registry_wf r = (bt_wf (sr_services r) \<and> fst ` set (sr_services r) = set (sr_order r))"

lemma registry_new_fold:
  "bt_wf (sr_services r) \<Longrightarrow>
   (let r' = foldl (\<lambda>r (name, has_health).
         \<lparr> sr_services = bt_insert name (entry_new has_health) (sr_services r),
           sr_order = sr_order r @ [name] \<rparr>) r services
    in bt_wf (sr_services r') \<and> sr_order r' = sr_order r @ map fst services
     \<and> fst ` set (sr_services r') = fst ` set (sr_services r) \<union> fst ` set services
     \<and> (\<forall>n. bt_get (sr_services r') n =
          (case map_of (rev services) n of Some h \<Rightarrow> Some (entry_new h) | None \<Rightarrow> bt_get (sr_services r) n)))"
proof (induction services arbitrary: r)
  case (Cons e services)
  obtain n h where e: "e = (n, h)" by (cases e)
  show ?case
    using Cons.IH [of "\<lparr> sr_services = bt_insert n (entry_new h) (sr_services r), sr_order = sr_order r @ [n] \<rparr>"]
      Cons.prems
    by (auto simp: e Let_def bt_wf_insert bt_get_insert map_add_def split: option.splits)
qed (simp add: Let_def)

lemma registry_new_wf: "registry_wf (registry_new services)"
  and registry_new_order: "sr_order (registry_new services) = map fst services"
  and registry_new_get: "bt_get (sr_services (registry_new services)) n =
     map_option entry_new (map_of (rev services) n)"
  using registry_new_fold [of "\<lparr> sr_services = [], sr_order = [] \<rparr>" services]
  by (auto simp: registry_new_def registry_wf_def Let_def split: option.split)

lemma sync_fold:
  "bt_wf m \<Longrightarrow>
   (let (m', order') = foldl (\<lambda>(m, order) (name, has_health).
            (or_insert_entry name has_health m, order @ [name])) (m, order) services
    in bt_wf m' \<and> order' = order @ map fst services
     \<and> fst ` set m' = fst ` set m \<union> fst ` set services
     \<and> (\<forall>n. bt_get m' n = (case bt_get m n of Some en \<Rightarrow> Some en
            | None \<Rightarrow> map_option entry_new (map_of services n))))"
proof (induction services arbitrary: m order)
  case (Cons e services)
  obtain n h where e: "e = (n, h)" by (cases e)
  have m: "bt_wf (or_insert_entry n h m)" "fst ` set (or_insert_entry n h m) = insert n (fst ` set m)"
    using Cons.prems bt_get_dom [of m n] by (auto simp: or_insert_entry_def bt_wf_insert)
  have get: "bt_get (or_insert_entry n h m) k = (case bt_get m k of Some en \<Rightarrow> Some en
      | None \<Rightarrow> if k = n then Some (entry_new h) else None)" for k
    by (auto simp: or_insert_entry_def bt_get_insert split: option.split)
  obtain m' order' where f: "foldl (\<lambda>(m, order) (name, has_health).
            (or_insert_entry name has_health m, order @ [name])) (or_insert_entry n h m, order @ [n]) services = (m', order')"
    by fastforce
  have IH: "bt_wf m'" "order' = (order @ [n]) @ map fst services"
    "fst ` set m' = fst ` set (or_insert_entry n h m) \<union> fst ` set services"
    "\<And>k. bt_get m' k = (case bt_get (or_insert_entry n h m) k of Some en \<Rightarrow> Some en
            | None \<Rightarrow> map_option entry_new (map_of services k))"
    using Cons.IH [OF m(1), of "order @ [n]"] f by (auto simp: Let_def)
  have "bt_get m' k = (case bt_get m k of Some en \<Rightarrow> Some en
            | None \<Rightarrow> map_option entry_new (map_of (e # services) k))" for k
    by (simp add: IH(4) get e split: option.split)
  then show ?case using IH(1-3) m(2) f by (simp add: e Let_def)
qed (auto simp: Let_def split: option.split)

lemma bt_get_filter_key: "bt_get (filter (\<lambda>(k, _). P k) m) n = (if P n then bt_get m n else None)"
  by (induction m) (auto simp: bt_get_def)

lemma registry_sync_spec:
  assumes "registry_wf r"
  shows "registry_wf (registry_sync services r) \<and> sr_order (registry_sync services r) = map fst services"
    and "bt_get (sr_services (registry_sync services r)) n =
      (if n \<in> fst ` set services
       then (case bt_get (sr_services r) n of Some en \<Rightarrow> Some en
             | None \<Rightarrow> map_option entry_new (map_of services n))
       else None)"
proof -
  obtain m order where f: "foldl (\<lambda>(m, order) (name, has_health).
            (or_insert_entry name has_health m, order @ [name])) (sr_services r, []) services = (m, order)"
    by fastforce
  have F: "bt_wf m" "order = map fst services" "fst ` set m = fst ` set (sr_services r) \<union> fst ` set services"
    "\<And>n. bt_get m n = (case bt_get (sr_services r) n of Some en \<Rightarrow> Some en
            | None \<Rightarrow> map_option entry_new (map_of services n))"
    using sync_fold [of "sr_services r" "[]" services] assms f by (auto simp: registry_wf_def)
  have r: "registry_sync services r = \<lparr> sr_services = filter (\<lambda>(name, _). name \<in> set order) m, sr_order = order \<rparr>"
    by (simp add: registry_sync_def f)
  have "fst ` {x \<in> set m. fst x \<in> fst ` set services} = fst ` set services"
  proof
    show "fst ` set services \<subseteq> fst ` {x \<in> set m. fst x \<in> fst ` set services}"
    proof
      fix n assume n: "n \<in> fst ` set services"
      then have "n \<in> fst ` set m" by (simp add: F(3))
      then obtain x where "n = fst x" "x \<in> set m" by (rule imageE)
      then show "n \<in> fst ` {x \<in> set m. fst x \<in> fst ` set services}"
        using n by (intro image_eqI [of _ _ x]) simp_all
    qed
  qed auto
  then show "registry_wf (registry_sync services r) \<and> sr_order (registry_sync services r) = map fst services"
    using F(1,2) bt_wf_filter [OF F(1)] by (simp add: r registry_wf_def case_prod_unfold)
  show "bt_get (sr_services (registry_sync services r)) n =
      (if n \<in> fst ` set services
       then (case bt_get (sr_services r) n of Some en \<Rightarrow> Some en
             | None \<Rightarrow> map_option entry_new (map_of services n))
       else None)"
    using F(4) by (simp add: r bt_get_filter_key F(2))
qed

lemma registry_apply_spec:
  "sr_order (registry_apply now e r) = sr_order r"
  "map fst (sr_services (registry_apply now e r)) = map fst (sr_services r)"
  "bt_get (sr_services (registry_apply now e r)) n =
     (if n = ev_service e then map_option (apply_kind now (ev_kind e)) (bt_get (sr_services r) n)
      else bt_get (sr_services r) n)"
  by (auto simp: registry_apply_def bt_get_set split: option.split)

lemma registry_apply_wf: "registry_wf r \<Longrightarrow> registry_wf (registry_apply now e r)"
  unfolding registry_wf_def bt_wf_def list.set_map [symmetric] registry_apply_spec(1,2) .

text \<open>A run of the registry: the events with the time each was folded in.\<close>

definition registry_run :: "(instant \<times> service_event) list \<Rightarrow> status_registry \<Rightarrow> status_registry" where
  "registry_run es r = foldl (\<lambda>r (now, e). registry_apply now e r) r es"

definition entry_run :: "service_name \<Rightarrow> (instant \<times> service_event) list \<Rightarrow> entry \<Rightarrow> entry" where
  "entry_run n es en =
     foldl (\<lambda>en (now, e). apply_kind now (ev_kind e) en) en (filter (\<lambda>(_, e). ev_service e = n) es)"

lemma entry_run_Nil: "entry_run n [] = (\<lambda>en. en)"
  by (rule ext) (simp add: entry_run_def)

lemma registry_run_spec:
  "sr_order (registry_run es r) = sr_order r
   \<and> bt_get (sr_services (registry_run es r)) n = map_option (entry_run n es) (bt_get (sr_services r) n)"
proof (induction es arbitrary: r)
  case (Cons e es)
  obtain now ev where e: "e = (now, ev)" by (cases e)
  show ?case
    using Cons.IH [of "registry_apply now ev r"]
    by (auto simp: e registry_run_def entry_run_def registry_apply_spec option.map_comp comp_def)
qed (simp add: registry_run_def entry_run_Nil option.map_ident)

lemma snapshot_map:
  "\<forall>n \<in> set ns. bt_get m n = Some (f n) \<Longrightarrow>
     List.map_filter (\<lambda>n. map_option (g n) (bt_get m n)) ns = map (\<lambda>n. g n (f n)) ns"
  by (induction ns) (auto simp: map_filter_simps)

text \<open>The status report is a faithful fold of the event stream: after any events, \<open>snapshot\<close> lists
  every service of the registry once, in start order, and each report is what the events of that
  service alone, in order, make of a fresh entry.  Events of other services and of services the
  registry does not know change nothing.\<close>

theorem snapshot_folds_the_events:
  assumes "distinct (map fst services)"
  shows "registry_snapshot now (registry_run es (registry_new services)) =
     map (\<lambda>(n, has_health). status_of now n (entry_run n es (entry_new has_health))) services"
proof -
  let ?r = "registry_run es (registry_new services)"
  have "map_of (rev services) = map_of services"
    using assms map_of_eq_Some_iff [of services] map_of_eq_Some_iff [of "rev services"]
    by (intro ext) (metis distinct_rev not_Some_eq rev_map set_rev)
  then have "bt_get (sr_services ?r) n = Some (entry_run n es (entry_new (the (map_of services n))))"
    if "n \<in> set (map fst services)" for n
    using that registry_run_spec [of es "registry_new services" n] registry_new_get [of services n]
    by (cases "map_of services n") (auto simp: map_of_eq_None_iff)
  then have "List.map_filter (\<lambda>n. map_option (status_of now n) (bt_get (sr_services ?r) n)) (map fst services)
     = map (\<lambda>n. status_of now n (entry_run n es (entry_new (the (map_of services n))))) (map fst services)"
    by (intro snapshot_map) blast
  moreover have "sr_order ?r = map fst services"
    using registry_run_spec registry_new_order by simp
  ultimately have "registry_snapshot now ?r =
     map (\<lambda>n. status_of now n (entry_run n es (entry_new (the (map_of services n))))) (map fst services)"
    by (simp only: registry_snapshot_def)
  also have "\<dots> = map (\<lambda>(n, has_health). status_of now n (entry_run n es (entry_new has_health))) services"
    using assms by (auto simp: map_of_is_SomeI)
  finally show ?thesis .
qed

text \<open>A reload keeps what it does not touch: after \<open>sync\<close> the registry reports exactly the
  services it was given, in their order; one that was there before keeps its state, uptime,
  restart count and message whatever the new configuration says, and a new one starts fresh.\<close>

theorem sync_keeps_present_services:
  assumes "registry_wf r"
  shows "registry_wf (registry_sync services r)
    \<and> sr_order (registry_sync services r) = map fst services
    \<and> bt_get (sr_services (registry_sync services r)) n =
      (if n \<in> fst ` set services
       then (case bt_get (sr_services r) n of Some en \<Rightarrow> Some en
             | None \<Rightarrow> map_option entry_new (map_of services n))
       else None)"
  using registry_sync_spec [OF assms] by simp

theorem snapshot_folds_the_events_witness:
  "map st_state (registry_snapshot 9 (registry_run
      [(1, service_event_new ''db'' (EK_State Starting)), (2, service_event_new ''db'' (EK_Started 7)),
       (3, service_event_new ''ghost'' (EK_State Failed))]
      (registry_new [(''db'', True), (''api'', False)]))) = [Starting, Pending]"
  by (subst snapshot_folds_the_events)
    (simp_all add: entry_run_def status_of_def entry_new_def service_event_new_def)

theorem sync_keeps_present_services_witness:
  "bt_get (sr_services (registry_sync [(''web'', False), (''db'', False)] (registry_new [(''db'', True)]))) ''db''
     = Some (entry_new True)"
  using sync_keeps_present_services [OF registry_new_wf, of "[(''web'', False), (''db'', False)]" "[(''db'', True)]" "''db''"]
  by (simp add: registry_new_get)

end
