(* ===== verification/Envfile.thy ===== *)
theory Envfile
  imports Errors
begin

text \<open>
  \<open>crates/servicrab-core/src/envfile.rs\<close>: the parser of dotenv-style files.  Texts are the bytes
  of valid UTF-8.  \<open>str::trim\<close> removes the characters of Unicode's \<open>White_Space\<close>, which are
  compared here by their encodings: the first byte of an encoding starts a character, so a match
  cannot begin inside another one.
\<close>

section \<open>White space\<close>

definition byte :: "nat \<Rightarrow> char" where
  "byte n = char_of n"

definition white_spaces :: "string list" where
  "white_spaces =
     map (\<lambda>n. [byte n]) [9, 10, 11, 12, 13, 32]
     @ [[byte 194, byte 133], [byte 194, byte 160], [byte 225, byte 154, byte 128]]
     @ map (\<lambda>n. [byte 226, byte 128, byte n])
         [128, 129, 130, 131, 132, 133, 134, 135, 136, 137, 138, 168, 169, 175]
     @ [[byte 226, byte 129, byte 159], [byte 227, byte 128, byte 128]]"

text \<open>The rest of \<open>s\<close> after one of the encodings.\<close>

fun strip_any :: "string list \<Rightarrow> string \<Rightarrow> string option" where
  "strip_any [] s = None"
| "strip_any (w # ws) s = (case strip_prefix w s of Some r \<Rightarrow> Some r | None \<Rightarrow> strip_any ws s)"

lemma strip_any_Some: "strip_any ws s = Some r \<Longrightarrow> \<exists>w \<in> set ws. s = w @ r"
  by (induction ws) (auto simp: strip_prefix_Some split: option.splits)

lemma strip_any_None: "strip_any ws s = None \<longleftrightarrow> (\<forall>w \<in> set ws. strip_prefix w s = None)"
  by (induction ws) (auto split: option.splits)

lemma white_spaces_nonempty: "w \<in> set white_spaces \<Longrightarrow> w \<noteq> []"
  by (auto simp: white_spaces_def)

definition white_start :: "string \<Rightarrow> string option" where
  "white_start s = strip_any white_spaces s"

definition white_end :: "string \<Rightarrow> string option" where
  "white_end s = map_option rev (strip_any (map rev white_spaces) (rev s))"

lemma white_start_shorter: "white_start s = Some r \<Longrightarrow> length r < length s"
  using strip_any_Some [of white_spaces s r] white_spaces_nonempty by (auto simp: white_start_def)

lemma white_end_shorter: "white_end s = Some r \<Longrightarrow> length r < length s"
proof -
  assume "white_end s = Some r"
  then obtain r' where "strip_any (map rev white_spaces) (rev s) = Some r'" "r = rev r'"
    by (auto simp: white_end_def)
  moreover from this(1) obtain w where "w \<in> set white_spaces" "rev s = rev w @ r'"
    using strip_any_Some by fastforce
  then have "length s = length w + length r'" by (metis length_append length_rev)
  ultimately show ?thesis using white_spaces_nonempty \<open>w \<in> set white_spaces\<close> by simp
qed

function trim_start :: "string \<Rightarrow> string" where
  "trim_start s = (case white_start s of None \<Rightarrow> s | Some r \<Rightarrow> trim_start r)"
  by pat_completeness auto
termination by (relation "measure length") (simp_all add: white_start_shorter)

function trim_end :: "string \<Rightarrow> string" where
  "trim_end s = (case white_end s of None \<Rightarrow> s | Some r \<Rightarrow> trim_end r)"
  by pat_completeness auto
termination by (relation "measure length") (simp_all add: white_end_shorter)

declare trim_start.simps [simp del] trim_end.simps [simp del]

definition trim :: "string \<Rightarrow> string" where
  "trim s = trim_end (trim_start s)"

fun contains_white :: "string \<Rightarrow> bool" where
  "contains_white [] = False"
| "contains_white (c # s) = (white_start (c # s) \<noteq> None \<or> contains_white s)"

section \<open>Lines\<close>

text \<open>\<open>str::lines\<close>: a line ends in a newline, with a carriage return before it or not.\<close>

definition strip_cr :: "string \<Rightarrow> string" where
  "strip_cr s = (case strip_suffix [byte 13] s of Some r \<Rightarrow> r | None \<Rightarrow> s)"

function str_lines :: "string \<Rightarrow> string list" where
  "str_lines s =
     (case split_once (byte 10) s of
        None \<Rightarrow> if s = [] then [] else [s]
      | Some (a, b) \<Rightarrow> strip_cr a # str_lines b)"
  by pat_completeness auto
termination by (relation "measure length") (auto simp: split_once_Some dest: sym)

declare str_lines.simps [simp del]

section \<open>Values\<close>

definition is_ascii_whitespace :: "char \<Rightarrow> bool" where
  "is_ascii_whitespace c = (c = byte 32 \<or> c = byte 9 \<or> c = byte 10 \<or> c = byte 12 \<or> c = byte 13)"

text \<open>The loop of \<open>strip_trailing_comment\<close>; \<open>before\<close> is the byte at \<open>i - 1\<close>.\<close>

fun strip_comment_from :: "char option \<Rightarrow> string \<Rightarrow> string" where
  "strip_comment_from before [] = []"
| "strip_comment_from before (c # s) =
     (if c = CHR ''#'' \<and> (case before of None \<Rightarrow> True | Some b \<Rightarrow> is_ascii_whitespace b)
      then [] else c # strip_comment_from (Some c) s)"

definition strip_trailing_comment :: "string \<Rightarrow> string" where
  "strip_trailing_comment value = strip_comment_from None value"

text \<open>The loop of \<open>unquote\<close>: the value and what follows the closing quote.\<close>

datatype unquoted = Closed string string | Unclosed | Dangling

fun unquoted_push :: "string \<Rightarrow> unquoted \<Rightarrow> unquoted" where
  "unquoted_push p (Closed v r) = Closed (p @ v) r"
| "unquoted_push p Unclosed = Unclosed"
| "unquoted_push p Dangling = Dangling"

definition unescape :: "char \<Rightarrow> string" where
  "unescape c =
     (if c = CHR ''n'' then [byte 10] else if c = CHR ''r'' then [byte 13]
      else if c = CHR ''t'' then [byte 9] else if c = CHR 0x5C then [CHR 0x5C]
      else if c = CHR 0x22 then [CHR 0x22] else if c = CHR ''$'' then [CHR ''$'']
      else [CHR 0x5C, c])"

fun unquote_from :: "char \<Rightarrow> bool \<Rightarrow> string \<Rightarrow> unquoted" where
  "unquote_from q escapes [] = Unclosed"
| "unquote_from q escapes (c # s) =
     (if c = q then Closed [] s
      else if escapes \<and> c = CHR 0x5C then
        (case s of
           [] \<Rightarrow> Dangling
         | d # s' \<Rightarrow> unquoted_push (unescape d) (unquote_from q escapes s'))
      else unquoted_push [c] (unquote_from q escapes s))"

text \<open>\<open>raw\<close> starts with the quote.\<close>

definition unquote :: "string \<Rightarrow> char \<Rightarrow> bool \<Rightarrow> env_syntax_reason + string" where
  "unquote raw q escapes =
     (case unquote_from q escapes (tl raw) of
        Dangling \<Rightarrow> Inl DanglingBackslash
      | Unclosed \<Rightarrow> Inl (UnterminatedQuote q)
      | Closed v rest \<Rightarrow>
          let trailing = trim rest in
          if trailing \<noteq> [] \<and> \<not> starts_with ''#'' trailing then Inl (TextAfterQuote trailing)
          else Inr v)"

definition parse_value :: "string \<Rightarrow> env_syntax_reason + string" where
  "parse_value raw =
     (case raw of
        c # _ \<Rightarrow>
          if c = CHR 0x22 then unquote raw (CHR 0x22) True
          else if c = CHR 0x27 then unquote raw (CHR 0x27) False
          else Inr (trim_end (strip_trailing_comment raw))
      | [] \<Rightarrow> Inr (trim_end (strip_trailing_comment raw)))"

section \<open>Files\<close>

text \<open>The body of the loop of \<open>parse\<close>: nothing for a blank line or a comment, otherwise an
  assignment or why there is none.\<close>

definition parse_line :: "string \<Rightarrow> env_syntax_reason + (string \<times> string) option" where
  "parse_line raw_line =
     (let line = trim raw_line in
      if line = [] \<or> starts_with ''#'' line then Inr None
      else
        let line = (case strip_prefix ''export '' line of Some r \<Rightarrow> trim_start r | None \<Rightarrow> line) in
        case split_once (CHR ''='') line of
          None \<Rightarrow> Inl (ExpectedKeyValue line)
        | Some (key, rest) \<Rightarrow>
            let key = trim key in
            if key = [] \<or> contains_white key \<or> byte 0 \<in> set key then Inl (InvalidKey key)
            else (case parse_value (trim_start rest) of
                    Inl reason \<Rightarrow> Inl reason
                  | Inr v \<Rightarrow> Inr (Some (key, v))))"

fun parse_lines :: "nat \<Rightarrow> string list \<Rightarrow> (string, string) btmap \<Rightarrow> env_file_error + (string, string) btmap" where
  "parse_lines index [] out = Inr out"
| "parse_lines index (raw_line # rest) out =
     (case parse_line raw_line of
        Inl reason \<Rightarrow> Inl (EF_Syntax (index + 1) reason)
      | Inr None \<Rightarrow> parse_lines (index + 1) rest out
      | Inr (Some (key, v)) \<Rightarrow> parse_lines (index + 1) rest (bt_insert key v out))"

definition bom :: string where
  "bom = [byte 239, byte 187, byte 191]"

definition env_parse :: "string \<Rightarrow> env_file_error + (string, string) btmap" where
  "env_parse text =
     parse_lines 0 (str_lines (case strip_prefix bom text of Some r \<Rightarrow> r | None \<Rightarrow> text)) []"

text \<open>\<open>load\<close>: \<open>contents\<close> is what reading the file gives, or the message of the failure.\<close>

definition env_load :: "string + string \<Rightarrow> env_file_error + (string, string) btmap" where
  "env_load contents = (case contents of Inl e \<Rightarrow> Inl (EF_Read e) | Inr text \<Rightarrow> env_parse text)"

fun show_env_file_error :: "(env_syntax_reason \<Rightarrow> string) \<Rightarrow> env_file_error \<Rightarrow> string" where
  "show_env_file_error show_reason (EF_Read reason) = reason"
| "show_env_file_error show_reason (EF_Syntax line reason) =
     ''line '' @ show_nat line @ '': '' @ show_reason reason"


section \<open>A file line by line\<close>

definition line_ok :: "string \<Rightarrow> bool" where
  "line_ok l = (case parse_line l of Inl _ \<Rightarrow> False | Inr _ \<Rightarrow> True)"

definition assignments :: "string list \<Rightarrow> (string \<times> string) list" where
  "assignments ls = List.map_filter (\<lambda>l. case parse_line l of Inr a \<Rightarrow> a | Inl _ \<Rightarrow> None) ls"

lemma assignments_Cons: "assignments (l # ls) =
    (case parse_line l of Inr (Some a) \<Rightarrow> a # assignments ls | _ \<Rightarrow> assignments ls)"
  by (simp add: assignments_def map_filter_simps split: sum.split option.split)

lemma parse_lines_ok: "\<forall>l \<in> set ls. line_ok l \<Longrightarrow> parse_lines i ls out = Inr (bt_extend out (assignments ls))"
proof (induction i ls out rule: parse_lines.induct)
  case (2 i l ls out)
  then show ?case
    by (cases "parse_line l") (auto simp: line_ok_def assignments_Cons split: option.split)
qed (simp add: assignments_def map_filter_simps)

lemma parse_lines_error:
  "\<forall>l \<in> set pre. line_ok l \<Longrightarrow> parse_line l = Inl reason \<Longrightarrow>
     parse_lines i (pre @ l # post) out = Inl (EF_Syntax (i + length pre + 1) reason)"
proof (induction pre arbitrary: i out)
  case (Cons p pre)
  then show ?case by (cases "parse_line p") (auto simp: line_ok_def split: option.split)
qed simp

definition without_bom :: "string \<Rightarrow> string" where
  "without_bom text = (case strip_prefix bom text of Some r \<Rightarrow> r | None \<Rightarrow> text)"

text \<open>A file that has only good lines gives the map of its assignments, later ones overriding
  earlier ones; otherwise the error names the first bad line, counted from 1, and its reason.
  Every file is one or the other.\<close>

theorem env_parse_by_lines:
  "list_all line_ok (str_lines (without_bom text))
     \<and> env_parse text = Inr (bt_extend [] (assignments (str_lines (without_bom text))))
   \<or> (\<exists>pre l post reason. str_lines (without_bom text) = pre @ l # post
        \<and> list_all line_ok pre \<and> parse_line l = Inl reason
        \<and> env_parse text = Inl (EF_Syntax (length pre + 1) reason))"
proof (cases "list_all line_ok (str_lines (without_bom text))")
  case True
  then show ?thesis by (simp add: env_parse_def without_bom_def parse_lines_ok list_all_iff)
next
  case False
  then obtain pre l post where split: "str_lines (without_bom text) = pre @ l # post"
    "\<not> line_ok l" "\<forall>l \<in> set pre. line_ok l"
    using split_list_first_prop [of "str_lines (without_bom text)" "\<lambda>l. \<not> line_ok l"] by (auto simp: list_all_iff)
  then obtain reason where r: "parse_line l = Inl reason"
    by (auto simp: line_ok_def split: sum.splits)
  from parse_lines_error [OF split(3) this, of 0 post "[]"] split
  have "env_parse text = Inl (EF_Syntax (length pre + 1) reason)"
    by (simp add: env_parse_def without_bom_def)
  with split r show ?thesis by (auto simp: list_all_iff)
qed

section \<open>Writing a file\<close>

definition quote_char :: "char \<Rightarrow> string" where
  "quote_char c =
     (if c = CHR 0x22 then [CHR 0x5C, CHR 0x22]
      else if c = CHR 0x5C then [CHR 0x5C, CHR 0x5C]
      else if c = byte 10 then [CHR 0x5C, CHR ''n'']
      else if c = byte 13 then [CHR 0x5C, CHR ''r'']
      else [c])"

definition quote_value :: "string \<Rightarrow> string" where
  "quote_value v = CHR 0x22 # concat (map quote_char v) @ [CHR 0x22]"

definition env_line :: "string \<Rightarrow> string \<Rightarrow> string" where
  "env_line k v = k @ CHR ''='' # quote_value v"

definition env_text :: "(string \<times> string) list \<Rightarrow> string" where
  "env_text kvs = concat (map (\<lambda>(k, v). env_line k v @ [byte 10]) kvs)"

text \<open>A printable ASCII character.\<close>

definition graphic :: "char \<Rightarrow> bool" where
  "graphic c = (32 < (of_char c :: nat) \<and> (of_char c :: nat) < 127)"

definition plain_key :: "string \<Rightarrow> bool" where
  "plain_key k = (k \<noteq> [] \<and> hd k \<noteq> CHR ''#'' \<and> (\<forall>c \<in> set k. graphic c \<and> c \<noteq> CHR ''=''))"

lemma of_char_byte: "n < 256 \<Longrightarrow> of_char (byte n) = (n :: nat)"
  by (simp add: byte_def)

lemma byte_eq: "n < 256 \<Longrightarrow> byte n = c \<longleftrightarrow> of_char c = n"
  by (metis byte_def char_of_char of_char_byte)

lemma graphic_not_byte: "graphic c \<Longrightarrow> n \<le> 32 \<or> 127 \<le> n \<Longrightarrow> n < 256 \<Longrightarrow> c \<noteq> byte n"
  using of_char_byte [of n] by (auto simp: graphic_def)

lemma white_spaces_ends: "w \<in> set white_spaces \<Longrightarrow> w \<noteq> [] \<and> \<not> graphic (hd w) \<and> \<not> graphic (last w)"
proof -
  have "list_all (\<lambda>w. w \<noteq> [] \<and> \<not> graphic (hd w) \<and> \<not> graphic (last w)) white_spaces"
    by (simp add: white_spaces_def graphic_def of_char_byte)
  then show "w \<in> set white_spaces \<Longrightarrow> w \<noteq> [] \<and> \<not> graphic (hd w) \<and> \<not> graphic (last w)"
    by (simp add: list_all_iff)
qed

lemma white_start_graphic: "s = [] \<or> graphic (hd s) \<Longrightarrow> white_start s = None"
proof -
  assume s: "s = [] \<or> graphic (hd s)"
  have "strip_prefix w s = None" if w: "w \<in> set white_spaces" for w
    using white_spaces_ends [OF w] s by (cases w; cases s) auto
  then show ?thesis by (simp add: white_start_def strip_any_None)
qed

lemma white_end_graphic: "s = [] \<or> graphic (last s) \<Longrightarrow> white_end s = None"
proof -
  assume s: "s = [] \<or> graphic (last s)"
  have "strip_prefix (rev w) (rev s) = None" if w: "w \<in> set white_spaces" for w
    using white_spaces_ends [OF w] s by (cases w rule: rev_cases; cases s rule: rev_cases) auto
  then show ?thesis by (simp add: white_end_def strip_any_None)
qed

lemma trim_graphic: "s = [] \<or> graphic (hd s) \<and> graphic (last s) \<Longrightarrow> trim s = s"
proof -
  assume "s = [] \<or> graphic (hd s) \<and> graphic (last s)"
  then have "white_start s = None" "white_end s = None"
    using white_start_graphic [of s] white_end_graphic [of s] by auto
  moreover from this have "trim_start s = s" by (subst trim_start.simps) simp
  ultimately show ?thesis unfolding trim_def by (simp add: trim_end.simps [of s])
qed

lemma trim_start_graphic: "graphic c \<Longrightarrow> trim_start (c # s) = c # s"
  by (simp add: trim_start.simps [of "c # s"] white_start_graphic)

lemma trim_all_graphic: "\<forall>c \<in> set k. graphic c \<Longrightarrow> trim k = k"
  by (cases "k = []") (simp_all add: trim_graphic)

lemma contains_white_graphic: "\<forall>c \<in> set k. graphic c \<Longrightarrow> \<not> contains_white k"
  by (induction k) (auto simp: white_start_graphic)

lemma graphic_quote [simp]: "graphic (CHR 0x22)"
  by (simp add: graphic_def)

lemma unquote_quoted:
  "unquote_from (CHR 0x22) True (concat (map quote_char v) @ CHR 0x22 # r) = Closed v r"
proof (induction v)
  case (Cons c v)
  then show ?case by (simp add: quote_char_def unescape_def)
qed simp

lemma trim_Nil: "trim [] = []"
  using trim_all_graphic [of "[]"] by simp

lemma no_export_prefix:
  assumes "CHR ''='' \<notin> set k" and "CHR '' '' \<notin> set k"
  shows "strip_prefix ''export '' (k @ CHR ''='' # x) = None"
proof (rule ccontr)
  assume "\<not> ?thesis"
  then obtain r where r: "k @ CHR ''='' # x = ''export '' @ r"
    by (auto simp: strip_prefix_Some)
  have "takeWhile (\<lambda>c. c \<noteq> CHR ''='') (k @ CHR ''='' # x) = k"
    using assms(1) by (simp add: takeWhile_tail takeWhile_eq_all_conv) auto
  moreover have "takeWhile (\<lambda>c. c \<noteq> CHR ''='') (''export '' @ r) = ''export '' @ takeWhile (\<lambda>c. c \<noteq> CHR ''='') r"
    by simp
  ultimately have "k = ''export '' @ takeWhile (\<lambda>c. c \<noteq> CHR ''='') r" using r by metis
  then have "CHR '' '' \<in> set k" by (metis in_set_conv_decomp append_Cons append.assoc append_Nil)
  with assms(2) show False by simp
qed

lemma parse_env_line:
  assumes "plain_key k"
  shows "parse_line (env_line k v) = Inr (Some (k, v))"
proof -
  obtain c s where k: "k = c # s" "graphic c" "c \<noteq> CHR ''#''"
    using assms by (cases k) (auto simp: plain_key_def)
  have g: "\<forall>c \<in> set k. graphic c" and eq: "CHR ''='' \<notin> set k"
    using assms by (auto simp: plain_key_def)
  have "graphic (CHR '' '') = False" "graphic (byte 0) = False" by (simp_all add: graphic_def of_char_byte)
  then have blank: "CHR '' '' \<notin> set k" "byte 0 \<notin> set k" using g by blast+
  have "env_line k v = c # (s @ CHR ''='' # CHR 0x22 # concat (map quote_char v)) @ [CHR 0x22]"
    by (simp add: env_line_def quote_value_def k)
  then have trim: "trim (env_line k v) = env_line k v"
    using k(2) by (simp add: trim_graphic)
  have "split_once (CHR ''='') (env_line k v) = Some (k, quote_value v)"
    using eq by (simp add: split_once_Some env_line_def)
  moreover have "trim_start (quote_value v) = quote_value v"
    by (simp add: quote_value_def trim_start_graphic)
  moreover have "parse_value (quote_value v) = Inr v"
    using unquote_quoted [of v "[]"]
    by (simp add: quote_value_def parse_value_def unquote_def trim_Nil)
  moreover have "strip_prefix ''export '' (env_line k v) = None"
    unfolding env_line_def by (rule no_export_prefix [OF eq blank(1)])
  moreover have "env_line k v \<noteq> []" "\<not> starts_with ''#'' (env_line k v)"
    using k by (auto simp: env_line_def starts_with_def)
  ultimately show ?thesis
    using trim trim_all_graphic [OF g] contains_white_graphic [OF g] blank k(1)
    unfolding parse_line_def by (simp add: Let_def)
qed

lemma env_line_no_newline: "plain_key k \<Longrightarrow> byte 10 \<notin> set (env_line k v)"
proof -
  assume "plain_key k"
  then have "\<forall>c \<in> set k. graphic c" by (simp add: plain_key_def)
  moreover have "\<not> graphic (byte 10)" by (simp add: graphic_def of_char_byte)
  ultimately have "byte 10 \<notin> set k" by blast
  moreover have "byte 10 \<notin> set (quote_char c)" for c
  proof (cases "c = byte 10")
    case False
    then show ?thesis by (auto simp: quote_char_def) (simp_all add: byte_eq)
  qed (simp add: quote_char_def byte_eq of_char_byte)
  moreover have "byte 10 \<noteq> CHR ''=''" "byte 10 \<noteq> CHR 0x22" by (simp_all add: byte_eq)
  ultimately show ?thesis
    by (simp add: env_line_def quote_value_def)
qed

lemma strip_cr_env_line: "strip_cr (env_line k v) = env_line k v"
proof -
  have "strip_suffix [byte 13] (xs @ [CHR 0x22]) = None" for xs
    by (simp add: strip_suffix_def byte_eq)
  from this [of "k @ CHR ''='' # CHR 0x22 # concat (map quote_char v)"] show ?thesis
    by (simp add: strip_cr_def env_line_def quote_value_def)
qed

lemma lines_env_text:
  "\<forall>(k, v) \<in> set kvs. plain_key k \<Longrightarrow> str_lines (env_text kvs) = map (\<lambda>(k, v). env_line k v) kvs"
proof (induction kvs)
  case Nil
  show ?case by (simp add: env_text_def str_lines.simps)
next
  case (Cons kv kvs)
  obtain k v where kv: "kv = (k, v)" by (cases kv)
  have "split_once (byte 10) (env_text (kv # kvs)) = Some (env_line k v, env_text kvs)"
    using env_line_no_newline [of k v] Cons.prems
    by (simp add: kv env_text_def split_once_Some)
  then show ?case using Cons by (simp add: kv str_lines.simps [of "env_text ((k, v) # kvs)"] strip_cr_env_line)
qed

text \<open>C37: Writing and reading an environment file: for keys of printable ASCII without \<open>=\<close> and any
  values at all, the file with one double-quoted assignment per line parses to exactly those
  assignments, the later of two with the same key winning.\<close>

theorem env_file_roundtrip:
  assumes "\<forall>(k, v) \<in> set kvs. plain_key k"
  shows "env_parse (env_text kvs) = Inr (bt_extend [] kvs)"
proof -
  have "strip_prefix bom (env_text kvs) = None"
  proof (cases kvs)
    case (Cons kv kvs')
    then obtain k v where kv: "kv = (k, v)" "plain_key k" using assms by (cases kv) auto
    then obtain c s where "k = c # s" "graphic c" by (cases k) (auto simp: plain_key_def)
    moreover from this(2) have "c \<noteq> byte 239" by (rule graphic_not_byte) simp_all
    ultimately show ?thesis using Cons kv by (auto simp: env_text_def env_line_def bom_def)
  qed (simp add: env_text_def bom_def)
  moreover have lines: "str_lines (env_text kvs) = map (\<lambda>(k, v). env_line k v) kvs"
    by (rule lines_env_text [OF assms])
  moreover have "\<forall>l \<in> set (str_lines (env_text kvs)). line_ok l"
    using assms parse_env_line by (auto simp: lines line_ok_def)
  moreover have "assignments (map (\<lambda>(k, v). env_line k v) kvs) = kvs"
    using assms parse_env_line by (induction kvs) (auto simp: assignments_Cons assignments_def map_filter_simps)
  ultimately show ?thesis by (simp add: env_parse_def parse_lines_ok)
qed

theorem env_file_roundtrip_witness:
  "env_parse (env_text [(''K'', ''a # \"b\"''), (''J'', []), (''K'', [byte 10])])
     = Inr [(''J'', []), (''K'', [byte 10])]"
proof -
  have "\<forall>(k, v) \<in> set [(''K'', ''a # \"b\"''), (''J'', []), (''K'', [byte 10])]. plain_key k"
    by (simp add: plain_key_def graphic_def)
  from env_file_roundtrip [OF this] show ?thesis by (simp add: less_char_def)
qed

end
