(* ===== verification/Checker.thy ===== *)
theory Checker
  imports Subst
begin

text \<open>
  The way the validation layer reports: functions that take \<open>&mut Vec<ConfigError>\<close>, push what is
  wrong and go on with a substitute value.  Such a function is a computation of the state monad
  on the list of errors.  \<open>grows\<close> says that it only pushes, and \<open>ensures m Q\<close> that its value
  satisfies \<open>Q\<close> whenever it pushes nothing, which is all that is known of a value once the final
  list of errors is empty.
\<close>

type_synonym 'a checker = "(config_error list, 'a) state"

text \<open>Pushing an error and going on with a value.\<close>

definition complain :: "config_error \<Rightarrow> 'a \<Rightarrow> 'a checker" where
  "complain e x = do { push_error e; State_Monad.return x }"

definition grows :: "'a checker \<Rightarrow> bool" where
  "grows m = (\<forall>es. \<exists>new. snd (run_state m es) = es @ new)"

definition ensures :: "'a checker \<Rightarrow> ('a \<Rightarrow> bool) \<Rightarrow> bool" where
  "ensures m Q = (\<forall>es x. run_state m es = (x, es) \<longrightarrow> Q x)"

named_theorems grows_intros \<open>checks that only push\<close>

lemma run_push_error [simp]: "run_state (push_error e) es = ((), es @ [e])"
  by (simp add: push_error_def State_Monad.update_def)

lemma run_complain [simp]: "run_state (complain e x) es = (x, es @ [e])"
  by (simp add: complain_def)

lemma grows_return [grows_intros]: "grows (State_Monad.return x)"
  by (simp add: grows_def)

lemma grows_push [grows_intros]: "grows (push_error e)"
  by (simp add: grows_def)

lemma grows_complain [grows_intros]: "grows (complain e x)"
  by (simp add: grows_def)

lemma grows_bind [grows_intros]:
  assumes "grows m" and "\<And>x. grows (f x)"
  shows "grows (State_Monad.bind m f)"
  unfolding grows_def
proof
  fix es
  obtain x es' where m: "run_state m es = (x, es')" by fastforce
  obtain n1 where n1: "es' = es @ n1" using assms(1) m unfolding grows_def by (metis snd_conv)
  obtain n2 where "snd (run_state (f x) es') = es' @ n2" using assms(2) [of x] unfolding grows_def by blast
  then show "\<exists>new. snd (run_state (State_Monad.bind m f) es) = es @ new" using m n1 by simp
qed

lemma ensures_return: "Q x \<Longrightarrow> ensures (State_Monad.return x) Q"
  by (simp add: ensures_def)

lemma ensures_push: "ensures (push_error e) Q"
  by (simp add: ensures_def)

lemma ensures_complain: "ensures (complain e x) Q"
  by (simp add: ensures_def)

lemma ensures_bind:
  assumes "ensures m P" and "\<And>x. P x \<Longrightarrow> ensures (f x) Q" and "grows m" and "\<And>x. grows (f x)"
  shows "ensures (State_Monad.bind m f) Q"
  unfolding ensures_def
proof (intro allI impI)
  fix es y assume run: "run_state (State_Monad.bind m f) es = (y, es)"
  obtain x es' where m: "run_state m es = (x, es')" by fastforce
  obtain n1 where n1: "es' = es @ n1" using assms(3) m unfolding grows_def by (metis snd_conv)
  have fx: "run_state (f x) es' = (y, es)" using run m by simp
  then obtain n2 where "es = es' @ n2" using assms(4) [of x] unfolding grows_def by (metis snd_conv)
  with n1 have "es' = es" by simp
  with m fx assms(1) assms(2) show "Q y" unfolding ensures_def by blast
qed

lemma ensures_weaken: "ensures m P \<Longrightarrow> (\<And>x. P x \<Longrightarrow> Q x) \<Longrightarrow> ensures m Q"
  by (auto simp: ensures_def)

lemma ensures_True: "ensures m (\<lambda>_. True)"
  by (simp add: ensures_def)

lemma ensures_conj: "ensures m P \<Longrightarrow> ensures m Q \<Longrightarrow> ensures m (\<lambda>x. P x \<and> Q x)"
  by (simp add: ensures_def)

lemma ensuresD: "ensures m Q \<Longrightarrow> run_state m es = (x, es) \<Longrightarrow> Q x"
  by (simp add: ensures_def)

text \<open>Branches.\<close>

lemma grows_if [grows_intros]: "(b \<Longrightarrow> grows m) \<Longrightarrow> (\<not> b \<Longrightarrow> grows n) \<Longrightarrow> grows (if b then m else n)"
  by simp

lemma grows_option [grows_intros]:
  "grows m \<Longrightarrow> (\<And>x. grows (f x)) \<Longrightarrow> grows (case v of None \<Rightarrow> m | Some x \<Rightarrow> f x)"
  by (cases v) simp_all

lemma grows_sum [grows_intros]:
  "(\<And>x. grows (f x)) \<Longrightarrow> (\<And>x. grows (g x)) \<Longrightarrow> grows (case v of Inl x \<Rightarrow> f x | Inr x \<Rightarrow> g x)"
  by (cases v) simp_all

lemma grows_prod [grows_intros]: "(\<And>x y. grows (f x y)) \<Longrightarrow> grows (case v of (x, y) \<Rightarrow> f x y)"
  by (cases v) simp

text \<open>A check on a component that may be absent: \<open>.as_ref().and_then(|x| check(x, &mut errors))\<close>.\<close>

definition and_then :: "'a option \<Rightarrow> ('a \<Rightarrow> 'b option checker) \<Rightarrow> 'b option checker" where
  "and_then v f = (case v of None \<Rightarrow> State_Monad.return None | Some x \<Rightarrow> f x)"

lemma grows_and_then [grows_intros]: "(\<And>x. grows (f x)) \<Longrightarrow> grows (and_then v f)"
  by (simp add: and_then_def grows_intros split: option.split)

end
