(* ===== verification/Field_Checks.thy ===== *)
theory Field_Checks
  imports Checker Envfile Paths
begin

text \<open>
  The field checks of \<open>crates/servicrab-core/src/validation.rs\<close>: names, environments, durations,
  sizes, directories, log and watch settings, health checks.  What they ask of the machine is a
  record of functions: the process environment, the file system, and \<open>humantime::parse_duration\<close>,
  a third-party parser.  A file system operation that fails gives the message of the failure.
\<close>

record world =
  w_env :: "(string \<times> string) list option"
  w_path_var :: "string option"
  w_canonicalize :: "path \<Rightarrow> string + path"
  w_exists :: "path \<Rightarrow> bool"
  w_is_dir :: "path \<Rightarrow> bool"
  w_is_file :: "path \<Rightarrow> bool"
  w_read :: "path \<Rightarrow> string + string"
  w_parse_duration :: "string \<Rightarrow> string + duration"

text \<open>\<open>w_env\<close> is what \<open>std::env::vars()\<close> gives; \<open>None\<close> stands for its panic on a variable that is
  not Unicode.\<close>

section \<open>Names\<close>

definition is_ascii :: "string \<Rightarrow> bool" where
  "is_ascii s = list_all (\<lambda>c. (of_char c :: nat) < 128) s"

definition name_char :: "char \<Rightarrow> bool" where
  "name_char c = (is_ascii_alphanumeric c \<or> c \<in> {CHR ''.'', CHR ''_'', CHR ''-''})"

definition validate_name :: "string \<Rightarrow> nat \<Rightarrow> name_reason option" where
  "validate_name name max_len =
     (if name = [] then Some NameEmpty
      else if \<not> is_ascii name then Some NameNotAscii
      else if max_len < length name then Some (NameTooLong max_len (length name))
      else if \<not> is_ascii_alphanumeric (hd name) then Some (NameBadFirst (hd name))
      else map_option NameBadChar (find (\<lambda>c. \<not> name_char c) name))"

definition validate_project_name :: "string \<Rightarrow> config_error + string" where
  "validate_project_name name =
     (case validate_name name 64 of
        None \<Rightarrow> Inr name | Some reason \<Rightarrow> Inl (CE_InvalidProjectName name reason))"

definition validate_service_name :: "string \<Rightarrow> config_error + service_name" where
  "validate_service_name name =
     (case validate_name name 48 of
        None \<Rightarrow> Inr name | Some reason \<Rightarrow> Inl (CE_InvalidServiceName name reason))"

fun validate_profiles_from :: "string list \<Rightarrow> string \<Rightarrow> string list \<Rightarrow> string list checker" where
  "validate_profiles_from [] service profiles = State_Monad.return profiles"
| "validate_profiles_from (name # raw) service profiles =
     (case validate_name name 48 of
        Some reason \<Rightarrow>
          do { push_error (CE_InvalidProfileName service name reason);
               validate_profiles_from raw service profiles }
      | None \<Rightarrow>
          if name \<in> set profiles
          then do { push_error (CE_DuplicateProfile service name);
                    validate_profiles_from raw service profiles }
          else validate_profiles_from raw service (profiles @ [name]))"

definition validate_profiles :: "string list \<Rightarrow> string \<Rightarrow> string list checker" where
  "validate_profiles raw service = validate_profiles_from raw service []"

section \<open>Environments\<close>

definition is_valid_env_key :: "string \<Rightarrow> bool" where
  "is_valid_env_key key = (key \<noteq> [] \<and> CHR ''='' \<notin> set key \<and> byte 0 \<notin> set key)"

fun validate_project_env :: "(string, string) btmap \<Rightarrow> (string, string) btmap checker" where
  "validate_project_env [] = State_Monad.return []"
| "validate_project_env ((k, v) # env) =
     (if \<not> is_valid_env_key k
      then do { push_error (CE_InvalidProjectEnvKey k); validate_project_env env }
      else if byte 0 \<in> set v
      then do { push_error (CE_NulInProjectEnvValue k); validate_project_env env }
      else do { out \<leftarrow> validate_project_env env; State_Monad.return ((k, v) # out) })"

fun validate_service_env :: "(string, string) btmap \<Rightarrow> string \<Rightarrow> (string, string) btmap checker" where
  "validate_service_env [] service = State_Monad.return []"
| "validate_service_env ((k, v) # env) service =
     (if \<not> is_valid_env_key k
      then do { push_error (CE_InvalidEnvKey service k); validate_service_env env service }
      else if byte 0 \<in> set v
      then do { push_error (CE_NulInEnvValue service k); validate_service_env env service }
      else do { out \<leftarrow> validate_service_env env service; State_Monad.return ((k, v) # out) })"

fun merge_env_vars :: "scope \<Rightarrow> path \<Rightarrow> (string, string) btmap \<Rightarrow> (string, string) btmap
    \<Rightarrow> (string, string) btmap checker" where
  "merge_env_vars scope path [] merged = State_Monad.return merged"
| "merge_env_vars scope path ((k, v) # vars) merged =
     (if \<not> is_valid_env_key k \<or> byte 0 \<in> set v
      then do { push_error (CE_InvalidEnvFile scope path (EFR_InvalidEntry k));
                merge_env_vars scope path vars merged }
      else merge_env_vars scope path vars (bt_insert k v merged))"

definition resolve_in :: "path \<Rightarrow> string \<Rightarrow> path" where
  "resolve_in dir p = (if is_absolute p then p else path_join dir p)"

fun load_env_files_from :: "world \<Rightarrow> string list \<Rightarrow> path \<Rightarrow> scope \<Rightarrow> path list \<Rightarrow> (string, string) btmap
    \<Rightarrow> (path list \<times> (string, string) btmap) checker" where
  "load_env_files_from w [] source_dir scope paths merged = State_Monad.return (paths, merged)"
| "load_env_files_from w (candidate # rest) source_dir scope paths merged =
     (let path = resolve_in source_dir candidate in
      case env_load (w_read w path) of
        Inr vars \<Rightarrow>
          do { merged' \<leftarrow> merge_env_vars scope path vars merged;
               load_env_files_from w rest source_dir scope (paths @ [path]) merged' }
      | Inl e \<Rightarrow>
          do { push_error (CE_InvalidEnvFile scope path (EFR_File e));
               load_env_files_from w rest source_dir scope (paths @ [path]) merged })"

definition load_env_files :: "world \<Rightarrow> raw_env_file option \<Rightarrow> path \<Rightarrow> scope
    \<Rightarrow> (path list \<times> (string, string) btmap) checker" where
  "load_env_files w declared source_dir scope =
     (case declared of
        None \<Rightarrow> State_Monad.return ([], [])
      | Some d \<Rightarrow> load_env_files_from w (env_file_paths d) source_dir scope [] [])"

section \<open>Directories\<close>

definition resolve_source_dir :: "world \<Rightarrow> path \<Rightarrow> path" where
  "resolve_source_dir w source_path =
     (let parent = (case path_parent source_path of
                      Some p \<Rightarrow> if p = [] then ''.'' else p
                    | None \<Rightarrow> ''.'')
      in case w_canonicalize w parent of Inr dir \<Rightarrow> dir | Inl _ \<Rightarrow> parent)"

definition resolve_cwd :: "world \<Rightarrow> string option \<Rightarrow> path \<Rightarrow> string \<Rightarrow> path checker" where
  "resolve_cwd w raw_cwd source_dir service =
     (let candidate = (case raw_cwd of None \<Rightarrow> source_dir | Some cwd \<Rightarrow> resolve_in source_dir cwd) in
      case w_canonicalize w candidate of
        Inr dir \<Rightarrow>
          if w_is_dir w dir then State_Monad.return dir
          else complain (CE_InvalidCwd service dir) source_dir
      | Inl _ \<Rightarrow> complain (CE_InvalidCwd service candidate) source_dir)"

section \<open>Durations\<close>

definition dur_100ms :: duration where "dur_100ms = dur_millis 100"
definition dur_1s :: duration where "dur_1s = dur_secs 1"
definition dur_1h :: duration where "dur_1h = dur_secs 3600"
definition dur_24h :: duration where "dur_24h = dur_secs 86400"

definition parse_duration_field :: "world \<Rightarrow> string option \<Rightarrow> string \<Rightarrow> duration \<Rightarrow> string
    \<Rightarrow> duration \<Rightarrow> duration \<Rightarrow> duration checker" where
  "parse_duration_field w raw field fallback service min_dur max_dur =
     (case raw of
        None \<Rightarrow> State_Monad.return fallback
      | Some s \<Rightarrow>
          (case w_parse_duration w s of
             Inl e \<Rightarrow> complain (CE_InvalidDuration service field s e) fallback
           | Inr dur \<Rightarrow>
               if dur < min_dur
               then complain (CE_DurationOutOfRange service field (AtLeast min_dur dur)) fallback
               else if max_dur < dur
               then complain (CE_DurationOutOfRange service field (AtMost max_dur dur)) fallback
               else State_Monad.return dur))"

section \<open>Watch settings\<close>

definition always_ignored :: "string list" where
  "always_ignored = [''.git'', ''.servicrab'']"

fun watch_paths_from :: "world \<Rightarrow> string list \<Rightarrow> path \<Rightarrow> string \<Rightarrow> path list checker" where
  "watch_paths_from w [] cwd service = State_Monad.return []"
| "watch_paths_from w (entry # rest) cwd service =
     (if entry = []
      then do { push_error (CE_InvalidWatch service WatchEmptyPath); watch_paths_from w rest cwd service }
      else let resolved = resolve_in cwd entry in
           case w_canonicalize w resolved of
             Inr path \<Rightarrow> do { paths \<leftarrow> watch_paths_from w rest cwd service; State_Monad.return (path # paths) }
           | Inl e \<Rightarrow> do { push_error (CE_InvalidWatch service (WatchUnreadable resolved e));
                           watch_paths_from w rest cwd service })"

fun watch_ignore_from :: "string list \<Rightarrow> string \<Rightarrow> string list \<Rightarrow> string list checker" where
  "watch_ignore_from [] service ign = State_Monad.return ign"
| "watch_ignore_from (entry # rest) service ign =
     (if entry = []
      then do { push_error (CE_InvalidWatch service WatchEmptyIgnore); watch_ignore_from rest service ign }
      else watch_ignore_from rest service (if entry \<in> set ign then ign else ign @ [entry]))"

definition validate_watch :: "world \<Rightarrow> raw_watch \<Rightarrow> path \<Rightarrow> string \<Rightarrow> watch_settings option checker" where
  "validate_watch w raw cwd service =
     do { (if rw_paths raw = [] then push_error (CE_InvalidWatch service WatchNoPaths)
           else State_Monad.return ());
          paths \<leftarrow> watch_paths_from w (rw_paths raw) cwd service;
          i \<leftarrow> parse_duration_field w (rw_interval raw) ''watch.interval'' (dur_secs 1) service dur_100ms dur_1h;
          d \<leftarrow> parse_duration_field w (rw_debounce raw) ''watch.debounce'' (dur_millis 300) service
                 (dur_millis 50) dur_1h;
          ign \<leftarrow> watch_ignore_from (rw_ignore raw) service always_ignored;
          State_Monad.return
            (if paths = [] then None
             else Some \<lparr> ws_paths = paths, ws_ignore = ign, ws_interval = i, ws_debounce = d \<rparr>) }"

section \<open>Sizes\<close>

text \<open>
  \<open>str::parse::<f64>\<close> on digits and dots: a decimal number with at most one dot and at least one
  digit, as its digits without the dot and how many of them follow it.  The suffix starts at the
  first other character, so no sign, exponent or name of a number reaches the parser, and the
  check for a negative number in the source can never fire.
\<close>

definition digit_value :: "char \<Rightarrow> nat" where
  "digit_value c = of_char c - 48"

definition digits_value :: "string \<Rightarrow> nat" where
  "digits_value ds = foldl (\<lambda>n c. 10 * n + digit_value c) 0 ds"

definition parse_decimal :: "string \<Rightarrow> (nat \<times> nat) option" where
  "parse_decimal s =
     (case split_once (CHR ''.'') s of
        None \<Rightarrow> if s \<noteq> [] \<and> list_all is_ascii_digit s then Some (digits_value s, 0) else None
      | Some (a, b) \<Rightarrow>
          if (a \<noteq> [] \<or> b \<noteq> []) \<and> list_all is_ascii_digit (a @ b)
          then Some (digits_value (a @ b), length b) else None)"

text \<open>
  The \<open>f64\<close> nearest to \<open>a / b\<close>, ties to even, as \<open>q * 2 ^ up / 2 ^ down\<close> with \<open>q\<close> of 53 bits.
  The exponent range of \<open>f64\<close> plays no part: what is below it is far below one byte after the
  multiplication, what is above it is too large anyway.
\<close>

fun bit_len :: "nat \<Rightarrow> nat" where
  "bit_len n = (if n = 0 then 0 else Suc (bit_len (n div 2)))"

declare bit_len.simps [simp del]

definition round_half_even :: "nat \<Rightarrow> nat \<Rightarrow> nat" where
  "round_half_even a b =
     (let q = a div b; r = a mod b in
      if b < 2 * r \<or> (2 * r = b \<and> odd q) then Suc q else q)"

definition f64_of_ratio :: "nat \<Rightarrow> nat \<Rightarrow> nat \<times> nat \<times> nat" where
  "f64_of_ratio a b =
     (let la = bit_len a; lb = bit_len b;
          up = la - (lb + 52); down = (lb + 52) - la;
          small = a * 2 ^ down < b * 2 ^ up * 2 ^ 52;
          (up, down) = (if small then (if up = 0 then (0, Suc down) else (up - 1, down)) else (up, down))
      in (round_half_even (a * 2 ^ down) (b * 2 ^ up), up, down))"

text \<open>\<open>number * multiplier as f64\<close> is exact, a multiplication by a power of two.\<close>

fun to_ascii_lowercase :: "string \<Rightarrow> string" where
  "to_ascii_lowercase [] = []"
| "to_ascii_lowercase (c # s) =
     (if CHR ''A'' \<le> c \<and> c \<le> CHR ''Z'' then char_of ((of_char c :: nat) + 32) else c) # to_ascii_lowercase s"

definition size_unit :: "string \<Rightarrow> nat option" where
  "size_unit s =
     (if s \<in> {'''', ''b''} then Some 0
      else if s \<in> {''k'', ''kb'', ''kib''} then Some 10
      else if s \<in> {''m'', ''mb'', ''mib''} then Some 20
      else if s \<in> {''g'', ''gb'', ''gib''} then Some 30
      else if s \<in> {''t'', ''tb'', ''tib''} then Some 40
      else None)"

definition parse_size :: "string \<Rightarrow> size_reason + u64" where
  "parse_size v =
     (let trimmed = trim v in
      if trimmed = [] then Inl SizeEmpty
      else
        let number = takeWhile (\<lambda>c. is_ascii_digit c \<or> c = CHR ''.'') trimmed;
            suffix = dropWhile (\<lambda>c. is_ascii_digit c \<or> c = CHR ''.'') trimmed in
        case parse_decimal number of
          None \<Rightarrow> Inl (SizeNotANumber number)
        | Some (n, k) \<Rightarrow>
            (let u = to_ascii_lowercase (trim suffix) in
             case size_unit u of
               None \<Rightarrow> Inl (SizeUnknownUnit u)
             | Some e \<Rightarrow>
                 (let (q, up, down) = f64_of_ratio n (10 ^ k);
                      a = q * 2 ^ (up + e); b = 2 ^ down in
                  if 2 ^ 64 * b < a then Inl SizeTooLarge
                  else Inr (of_nat (min (a div b) (2 ^ 64 - 1))))))"

definition default_log_dir :: string where "default_log_dir = ''.servicrab/logs''"
definition default_max_size :: u64 where "default_max_size = 10 * 1024 * 1024"
definition min_max_size :: u64 where "min_max_size = 1024"
definition max_max_size :: u64 where "max_max_size = 1024 * 1024 * 1024 * 1024"

definition validate_max_size :: "string option \<Rightarrow> u64 checker" where
  "validate_max_size raw =
     (case raw of
        None \<Rightarrow> State_Monad.return default_max_size
      | Some v \<Rightarrow>
          (case parse_size v of
             Inr bytes \<Rightarrow>
               if min_max_size \<le> bytes \<and> bytes \<le> max_max_size then State_Monad.return bytes
               else complain (CE_InvalidSize ''max_size'' v (SizeOutOfRange (unat bytes))) default_max_size
           | Inl reason \<Rightarrow> complain (CE_InvalidSize ''max_size'' v reason) default_max_size))"

definition validate_logs :: "world \<Rightarrow> raw_logs \<Rightarrow> path \<Rightarrow> log_settings option checker" where
  "validate_logs w raw source_dir =
     (let dir = resolve_in source_dir (case rl_dir raw of Some d \<Rightarrow> d | None \<Rightarrow> default_log_dir) in
      if w_exists w dir \<and> \<not> w_is_dir w dir
      then complain (CE_InvalidLogDir dir ''exists but is not a directory'') None
      else do { max_size \<leftarrow> validate_max_size (rl_max_size raw);
                (let max_files = (case rl_max_files raw of Some n \<Rightarrow> n | None \<Rightarrow> 3) in
                 if 100 < max_files then complain (CE_InvalidMaxFiles max_files) None
                 else State_Monad.return
                        (Some \<lparr> ls_dir = dir, ls_max_size = max_size, ls_max_files = max_files \<rparr>)) })"


section \<open>What the checks establish\<close>

text \<open>The rule of the documentation for project, service and profile names.\<close>

definition valid_name :: "nat \<Rightarrow> string \<Rightarrow> bool" where
  "valid_name n name =
     (1 \<le> length name \<and> length name \<le> n \<and> is_ascii_alphanumeric (hd name) \<and> (\<forall>c \<in> set name. name_char c))"

lemma name_char_ascii: "name_char c \<Longrightarrow> (of_char c :: nat) < 128"
  by (auto simp: name_char_def is_ascii_alphanumeric_def is_ascii_alphabetic_def is_ascii_digit_def
      less_eq_char_def)

lemma find_None_iff': "find P xs = None \<longleftrightarrow> (\<forall>x \<in> set xs. \<not> P x)"
  by (auto simp: find_None_iff)

lemma validate_name_None: "validate_name name n = None \<longleftrightarrow> valid_name n name"
proof -
  have "is_ascii name" if "\<forall>c \<in> set name. name_char c"
    using that name_char_ascii by (auto simp: is_ascii_def list_all_iff)
  then show ?thesis
    by (cases name) (auto simp: validate_name_def valid_name_def find_None_iff')
qed

lemma grows_duration [grows_intros]: "grows (parse_duration_field w raw f d s lo hi)"
  unfolding parse_duration_field_def Let_def by (intro grows_intros)

lemma ensures_duration:
  "lo \<le> d \<and> d \<le> hi \<Longrightarrow> ensures (parse_duration_field w raw f d s lo hi) (\<lambda>x. lo \<le> x \<and> x \<le> hi)"
  unfolding parse_duration_field_def
  by (auto intro: ensures_return ensures_complain split: option.split sum.split)

lemma grows_profiles_from [grows_intros]: "grows (validate_profiles_from raw s ps)"
  by (induction raw arbitrary: ps) (auto intro!: grows_intros split: option.split)

lemma grows_profiles [grows_intros]: "grows (validate_profiles raw s)"
  by (simp add: validate_profiles_def grows_intros)

lemma ensures_profiles_from:
  "ensures (validate_profiles_from raw s ps)
     (\<lambda>out. out = ps @ raw \<and> (\<forall>p \<in> set raw. valid_name 48 p) \<and> (distinct ps \<longrightarrow> distinct out))"
proof (induction raw arbitrary: ps)
  case Nil
  show ?case by (simp add: ensures_return)
next
  case (Cons name raw)
  show ?case
  proof (cases "validate_name name 48")
    case (Some reason)
    then show ?thesis
      by (auto intro!: ensures_bind [where P = "\<lambda>_. False"] ensures_push grows_intros)
  next
    case None
    then have "valid_name 48 name" by (simp add: validate_name_None)
    show ?thesis
    proof (cases "name \<in> set ps")
      case True
      with None show ?thesis
        by (auto intro!: ensures_bind [where P = "\<lambda>_. False"] ensures_push grows_intros)
    next
      case False
      with None have "validate_profiles_from (name # raw) s ps = validate_profiles_from raw s (ps @ [name])"
        by simp
      then show ?thesis
        using Cons.IH [of "ps @ [name]"] False \<open>valid_name 48 name\<close> by (auto elim!: ensures_weaken)
    qed
  qed
qed

lemma ensures_profiles:
  "ensures (validate_profiles raw s) (\<lambda>out. out = raw \<and> distinct out \<and> (\<forall>p \<in> set out. valid_name 48 p))"
  unfolding validate_profiles_def
  by (rule ensures_weaken [OF ensures_profiles_from]) auto

lemma grows_project_env [grows_intros]: "grows (validate_project_env env)"
  by (induction env rule: validate_project_env.induct) (auto intro!: grows_intros)

lemma grows_service_env [grows_intros]: "grows (validate_service_env env s)"
  by (induction env s rule: validate_service_env.induct) (auto intro!: grows_intros)

definition valid_env :: "(string, string) btmap \<Rightarrow> bool" where
  "valid_env env = (\<forall>(k, v) \<in> set env. is_valid_env_key k \<and> byte 0 \<notin> set v)"

lemma ensures_project_env: "ensures (validate_project_env env) (\<lambda>out. out = env \<and> valid_env env)"
proof (induction env rule: validate_project_env.induct)
  case 1
  show ?case by (simp add: ensures_return valid_env_def)
next
  case (2 k v env)
  show ?case
    using 2(3)
    by (auto intro!: ensures_bind [where P = "\<lambda>_. False"] ensures_push grows_intros
        ensures_bind [where P = "\<lambda>out. out = env \<and> valid_env env"] ensures_return simp: valid_env_def)
qed

lemma ensures_service_env: "ensures (validate_service_env env s) (\<lambda>out. out = env \<and> valid_env env)"
proof (induction env s rule: validate_service_env.induct)
  case (1 s)
  show ?case by (simp add: ensures_return valid_env_def)
next
  case (2 k v env s)
  show ?case
    using 2(3)
    by (auto intro!: ensures_bind [where P = "\<lambda>_. False"] ensures_push grows_intros
        ensures_bind [where P = "\<lambda>out. out = env \<and> valid_env env"] ensures_return simp: valid_env_def)
qed

lemma grows_merge_env [grows_intros]: "grows (merge_env_vars scope p vars m)"
  by (induction scope p vars m rule: merge_env_vars.induct) (auto intro!: grows_intros)

lemma grows_load_env_from [grows_intros]: "grows (load_env_files_from w cs d scope ps m)"
proof (induction w cs d scope ps m rule: load_env_files_from.induct)
  case (2 w c cs d scope ps m)
  then show ?case
    by (cases "env_load (w_read w (resolve_in d c))") (auto simp: Let_def intro!: grows_intros)
qed (simp add: grows_intros)

lemma grows_load_env [grows_intros]: "grows (load_env_files w e d scope)"
  unfolding load_env_files_def by (intro grows_intros)

lemma grows_cwd [grows_intros]: "grows (resolve_cwd w c d s)"
  unfolding resolve_cwd_def Let_def by (intro grows_intros)

lemma ensures_cwd: "ensures (resolve_cwd w c d s) (\<lambda>p. w_is_dir w p)"
  unfolding resolve_cwd_def Let_def
  by (auto intro: ensures_return ensures_complain split: sum.split option.split)

lemma grows_watch_paths [grows_intros]: "grows (watch_paths_from w ps c s)"
proof (induction w ps c s rule: watch_paths_from.induct)
  case (2 w p ps c s)
  then show ?case
    by (cases "w_canonicalize w (resolve_in c p)") (auto simp: Let_def intro!: grows_intros)
qed (simp add: grows_intros)

lemma grows_watch_ignore [grows_intros]: "grows (watch_ignore_from es s ign)"
  by (induction es s ign rule: watch_ignore_from.induct) (auto intro!: grows_intros)

lemma grows_watch [grows_intros]: "grows (validate_watch w raw c s)"
  unfolding validate_watch_def by (intro grows_intros)

lemma ensures_watch_paths: "ensures (watch_paths_from w ps c s) (\<lambda>out. length out = length ps)"
proof (induction w ps c s rule: watch_paths_from.induct)
  case (2 w p ps c s)
  then show ?case
    by (cases "w_canonicalize w (resolve_in c p)")
      (auto simp: Let_def intro!: ensures_bind [where P = "\<lambda>_. False"] ensures_push grows_intros
        ensures_bind [where P = "\<lambda>out. length out = length ps"] ensures_return)
qed (simp add: ensures_return)

lemma ensures_watch_ignore:
  "ensures (watch_ignore_from es s ign)
     (\<lambda>out. set out = set ign \<union> set es \<and> (distinct ign \<longrightarrow> distinct out) \<and> ([] \<notin> set ign \<longrightarrow> [] \<notin> set out))"
proof (induction es s ign rule: watch_ignore_from.induct)
  case (2 e es s ign)
  show ?case
  proof (cases "e = []")
    case True
    then show ?thesis by (auto intro!: ensures_bind [where P = "\<lambda>_. False"] ensures_push grows_intros)
  next
    case False
    with "2.IH"(2) show ?thesis by (auto elim!: ensures_weaken)
  qed
qed (simp add: ensures_return)

definition valid_watch :: "watch_settings \<Rightarrow> bool" where
  "valid_watch x =
     (ws_paths x \<noteq> [] \<and> set always_ignored \<subseteq> set (ws_ignore x) \<and> distinct (ws_ignore x) \<and> [] \<notin> set (ws_ignore x)
      \<and> dur_100ms \<le> ws_interval x \<and> ws_interval x \<le> dur_1h
      \<and> dur_millis 50 \<le> ws_debounce x \<and> ws_debounce x \<le> dur_1h)"

lemma duration_consts:
  "dur_100ms \<le> dur_secs 1" "dur_secs 1 \<le> dur_1h" "dur_millis 50 \<le> dur_millis 300" "dur_millis 300 \<le> dur_1h"
  "dur_100ms \<le> dur_secs 2" "dur_secs 2 \<le> dur_1h" "dur_100ms \<le> dur_secs 5" "dur_secs 5 \<le> dur_1h"
  "dur_100ms \<le> dur_secs 30" "dur_secs 30 \<le> dur_24h" "dur_1s \<le> dur_secs 60" "dur_secs 60 \<le> dur_24h"
  "dur_100ms \<le> dur_secs 10" "dur_secs 10 \<le> dur_1h"
  by (simp_all add: dur_100ms_def dur_1s_def dur_1h_def dur_24h_def dur_secs_def dur_millis_def nanos_per_sec_def)

lemma valid_watchI:
  assumes "raw \<noteq> []" and "length ps = length raw"
    and "dur_100ms \<le> i \<and> i \<le> dur_1h" and "dur_millis 50 \<le> d \<and> d \<le> dur_1h"
    and "set ign = set always_ignored \<union> X \<and> (distinct always_ignored \<longrightarrow> distinct ign)
      \<and> ([] \<notin> set always_ignored \<longrightarrow> [] \<notin> set ign)"
  shows "\<exists>y. (if ps = [] then None
             else Some \<lparr> ws_paths = ps, ws_ignore = ign, ws_interval = i, ws_debounce = d \<rparr>) = Some y
    \<and> valid_watch y \<and> length (ws_paths y) = length raw"
proof -
  have "ps \<noteq> []" using assms(1,2) by auto
  moreover have "distinct always_ignored" "[] \<notin> set always_ignored" by (simp_all add: always_ignored_def)
  then have "distinct ign" "[] \<notin> set ign" using assms(5) by blast+
  moreover have "set always_ignored \<subseteq> set ign" using assms(5) by blast
  ultimately show ?thesis using assms(2,3,4) by (simp add: valid_watch_def)
qed

lemma ensures_watch:
  "ensures (validate_watch w raw c s) (\<lambda>x. \<exists>y. x = Some y \<and> valid_watch y \<and> length (ws_paths y) = length (rw_paths raw))"
proof -
  have nonempty: "ensures (if rw_paths raw = [] then push_error (CE_InvalidWatch s WatchNoPaths)
      else State_Monad.return ()) (\<lambda>_. rw_paths raw \<noteq> [])"
    by (simp add: ensures_push ensures_return)
  show ?thesis
    unfolding validate_watch_def
    apply (rule ensures_bind [OF nonempty])
      apply (rule ensures_bind [OF ensures_watch_paths])
        apply (rule ensures_bind [OF ensures_duration [OF conjI [OF duration_consts(1,2)]]])
          apply (rule ensures_bind [OF ensures_duration [OF conjI [OF duration_consts(3,4)]]])
            apply (rule ensures_bind [OF ensures_watch_ignore])
              apply (rule ensures_return)
              apply (rule valid_watchI; assumption)
             apply (intro grows_intros)+
    done
qed

lemma grows_max_size [grows_intros]: "grows (validate_max_size v)"
  unfolding validate_max_size_def by (intro grows_intros)

lemma ensures_max_size: "ensures (validate_max_size v) (\<lambda>x. min_max_size \<le> x \<and> x \<le> max_max_size)"
  unfolding validate_max_size_def
  by (auto intro: ensures_return ensures_complain split: option.split sum.split
      simp: default_max_size_def min_max_size_def max_max_size_def)

lemma grows_logs [grows_intros]: "grows (validate_logs w raw d)"
  unfolding validate_logs_def Let_def by (intro grows_intros)

definition valid_logs :: "log_settings \<Rightarrow> bool" where
  "valid_logs l = (min_max_size \<le> ls_max_size l \<and> ls_max_size l \<le> max_max_size \<and> ls_max_files l \<le> 100)"

lemma ensures_logs: "ensures (validate_logs w raw d) (\<lambda>x. \<exists>l. x = Some l \<and> valid_logs l)"
  unfolding validate_logs_def Let_def
  by (auto intro!: ensures_complain ensures_return ensures_bind [OF ensures_max_size] grows_intros
      simp: valid_logs_def not_less)


section \<open>Sizes\<close>

lemma digit_char_props: "d < 10 \<Longrightarrow> is_ascii_digit (digit_char d) \<and> digit_value (digit_char d) = d"
  by (simp add: is_ascii_digit_def digit_char_def digit_value_def less_eq_char_def)

lemma digits_value_snoc: "digits_value (ds @ [c]) = 10 * digits_value ds + digit_value c"
  by (simp add: digits_value_def)

lemma show_nat_digits: "list_all is_ascii_digit (show_nat n) \<and> digits_value (show_nat n) = n"
proof (induction n rule: show_nat.induct)
  case (1 n)
  show ?case
  proof (cases "n < 10")
    case True
    then show ?thesis
      using digit_char_props [of n] by (simp add: show_nat.simps [of n] digits_value_def)
  next
    case False
    then show ?thesis
      using 1 digit_char_props [of "n mod 10"]
      by (simp add: show_nat.simps [of n] digits_value_snoc list_all_append)
  qed
qed

lemma digit_graphic: "is_ascii_digit c \<Longrightarrow> graphic c"
  by (auto simp: is_ascii_digit_def less_eq_char_def graphic_def)

lemma bit_len_0: "bit_len 0 = 0"
  by (subst bit_len.simps) simp

lemma bit_len_1: "bit_len 1 = 1"
  by (subst bit_len.simps) (simp add: bit_len_0)

lemma bit_len_bounds: "n < 2 ^ bit_len n \<and> (n \<noteq> 0 \<longrightarrow> 2 ^ (bit_len n - 1) \<le> n)"
proof (induction n rule: bit_len.induct)
  case (1 n)
  show ?case
  proof (cases "n = 0")
    case False
    then have len: "bit_len n = Suc (bit_len (n div 2))" by (simp add: bit_len.simps [of n])
    have IH: "n div 2 < 2 ^ bit_len (n div 2)" "n div 2 \<noteq> 0 \<longrightarrow> 2 ^ (bit_len (n div 2) - 1) \<le> n div 2"
      using 1 [OF False] by blast+
    have "n < 2 * 2 ^ bit_len (n div 2)" using IH(1) by linarith
    moreover have "2 ^ bit_len (n div 2) \<le> n"
    proof (cases "n div 2 = 0")
      case True
      with False show ?thesis by (simp add: bit_len_0)
    next
      case half: False
      then have "bit_len (n div 2) = Suc (bit_len (n div 2) - 1)"
        by (simp add: bit_len.simps [of "n div 2"])
      then have "2 ^ bit_len (n div 2) = 2 * 2 ^ (bit_len (n div 2) - 1)" by (metis power_Suc)
      also have "\<dots> \<le> 2 * (n div 2)" using IH(2) half by (meson mult_le_mono2)
      finally show ?thesis by linarith
    qed
    ultimately show ?thesis by (simp add: len)
  qed (simp add: bit_len_0)
qed

lemma round_half_even_one: "round_half_even a 1 = a"
  by (simp add: round_half_even_def)

lemma bit_len_small: "n < 2 ^ 53 \<Longrightarrow> bit_len n \<le> 53"
proof (rule ccontr)
  assume "n < 2 ^ 53" "\<not> bit_len n \<le> 53"
  then have "n \<noteq> 0" by (metis bit_len_0 le0)
  have "(2::nat) ^ 53 \<le> 2 ^ (bit_len n - 1)"
    using \<open>\<not> bit_len n \<le> 53\<close> by (intro power_increasing) simp_all
  also have "\<dots> \<le> n" using bit_len_bounds [of n] \<open>n \<noteq> 0\<close> by blast
  finally show False using \<open>n < 2 ^ 53\<close> by simp
qed

text \<open>A whole number below \<open>2 ^ 53\<close> is an \<open>f64\<close> exactly.\<close>

lemma f64_of_nat:
  assumes "n < 2 ^ 53"
  shows "\<exists>down. f64_of_ratio n 1 = (n * 2 ^ down, 0, down)"
proof -
  note one = bit_len_1
  have la: "bit_len n \<le> 53" by (rule bit_len_small [OF assms])
  show ?thesis
  proof (cases "n = 0")
    case True
    have "f64_of_ratio 0 1 = (0, 0, 54)"
      unfolding f64_of_ratio_def one by (simp add: bit_len_0 round_half_even_def)
    with True show ?thesis by simp
  next
    case False
    define down where "down = 53 - bit_len n"
    have "1 \<le> bit_len n" using False by (simp add: bit_len.simps [of n])
    then have "bit_len n - 1 + down = 52" using la by (simp add: down_def)
    then have "(2::nat) ^ 52 = 2 ^ (bit_len n - 1) * 2 ^ down" by (simp flip: power_add)
    also have "\<dots> \<le> n * 2 ^ down" using bit_len_bounds [of n] False by simp
    finally have big: "\<not> n * 2 ^ down < 1 * 2 ^ 0 * 2 ^ 52" by simp
    have "bit_len n - (1 + 52) = 0" "1 + 52 - bit_len n = down" using la by (simp_all add: down_def)
    then have "f64_of_ratio n 1 = (n * 2 ^ down, 0, down)"
      unfolding f64_of_ratio_def one Let_def using big
      by (simp add: round_half_even_one [simplified])
    then show ?thesis by blast
  qed
qed

text \<open>Sizes are exact: a whole number of up to 53 bits followed by a unit, upper or lower case, SI or
  binary spelling, gives exactly that many bytes times the power of 1024, although the code
  computes in floating point.\<close>

theorem parse_size_exact:
  assumes "n < 2 ^ 53" and "\<forall>c \<in> set u. graphic c"
    and "u = [] \<or> \<not> is_ascii_digit (hd u) \<and> hd u \<noteq> CHR ''.''"
    and "size_unit (to_ascii_lowercase u) = Some e" and "n * 2 ^ e < 2 ^ 64"
  shows "parse_size (show_nat n @ u) = Inr (of_nat (n * 2 ^ e))"
proof -
  have digits: "\<forall>c \<in> set (show_nat n). is_ascii_digit c" and val: "digits_value (show_nat n) = n"
    using show_nat_digits [of n] by (simp_all add: list_all_iff)
  have "trim (show_nat n @ u) = show_nat n @ u"
    by (rule trim_all_graphic) (use digits digit_graphic assms(2) in auto)
  moreover have "takeWhile (\<lambda>c. is_ascii_digit c \<or> c = CHR ''.'') (show_nat n @ u) = show_nat n"
    "dropWhile (\<lambda>c. is_ascii_digit c \<or> c = CHR ''.'') (show_nat n @ u) = u"
    using digits assms(3) by (cases u; simp add: takeWhile_append2 dropWhile_append2)+
  moreover have "CHR ''.'' \<notin> set (show_nat n)"
    using digits by (auto simp: is_ascii_digit_def less_eq_char_def)
  then have "parse_decimal (show_nat n) = Some (n, 0)"
    using show_nat_digits [of n] by (simp add: parse_decimal_def split_once_None [THEN iffD2])
  moreover obtain down where "f64_of_ratio n 1 = (n * 2 ^ down, 0, down)"
    using f64_of_nat [OF assms(1)] by blast
  moreover have "n * 2 ^ down * 2 ^ (0 + e) div 2 ^ down = n * 2 ^ e" for down :: nat
    by (simp add: mult.commute mult.left_commute)
  moreover have "\<not> 2 ^ 64 * 2 ^ down < n * 2 ^ down * 2 ^ (0 + e)" for down :: nat
  proof -
    have "n * 2 ^ down * 2 ^ (0 + e) = (n * 2 ^ e) * 2 ^ down" by simp
    also have "\<dots> \<le> 2 ^ 64 * 2 ^ down" using assms(5) by (intro mult_right_mono) simp_all
    finally show ?thesis by simp
  qed
  moreover have "min (n * 2 ^ e) (2 ^ 64 - 1) = n * 2 ^ e" using assms(5) by simp
  ultimately show ?thesis
    using trim_all_graphic [OF assms(2)] assms(4)
    unfolding parse_size_def by (simp add: Let_def)
qed

theorem parse_size_exact_witness: "parse_size (show_nat 10 @ ''MiB'') = Inr (10 * 1024 * 1024)"
proof -
  have "\<forall>c \<in> set ''MiB''. graphic c" by (simp add: graphic_def)
  moreover have "to_ascii_lowercase ''MiB'' = ''mib''"
    by code_simp
  then have "size_unit (to_ascii_lowercase ''MiB'') = Some 20" by (simp add: size_unit_def)
  ultimately show ?thesis
    using parse_size_exact [of 10 "''MiB''" 20]
    by (simp add: is_ascii_digit_def less_eq_char_def)
qed

end
