(* ===== verification/Validation.thy ===== *)
theory Validation
  imports Field_Checks Plan
begin

text \<open>
  \<open>crates/servicrab-core/src/validation.rs\<close>, from the raw model to the configuration: health
  probes, one service, the checks between services, and \<open>validate_raw\<close>, which runs them all and
  sorts the services.  \<open>None\<close> is a panic: \<open>std::env::vars()\<close> on a variable that is not Unicode,
  the \<open>expect\<close> on the project name, and those inside the sort.
\<close>

section \<open>Health checks\<close>

text \<open>\<open>str::parse::<u16>\<close>: a plus sign is allowed, leading zeros too.\<close>

definition parse_u16 :: "string \<Rightarrow> u16 option" where
  "parse_u16 s =
     (let ds = (case s of c # r \<Rightarrow> if c = CHR ''+'' then r else s | [] \<Rightarrow> s) in
      if ds \<noteq> [] \<and> list_all is_ascii_digit ds \<and> digits_value ds < 2 ^ 16
      then Some (of_nat (digits_value ds)) else None)"

definition split_host_port :: "string \<Rightarrow> probe_reason + string \<times> string" where
  "split_host_port addr =
     (case strip_prefix ''['' addr of
        Some rest \<Rightarrow>
          (case split_once (CHR '']'') rest of
             None \<Rightarrow> Inl UnterminatedIpv6
           | Some (host, rest) \<Rightarrow>
               (case strip_prefix '':'' rest of
                  None \<Rightarrow> Inl ExpectedBracketPort
                | Some port \<Rightarrow> Inr (host, port)))
      | None \<Rightarrow>
          (case rsplit_once (CHR '':'') addr of
             None \<Rightarrow> Inl ExpectedHostPort
           | Some hp \<Rightarrow> Inr hp))"

definition parse_host_port :: "string \<Rightarrow> probe_reason + string \<times> u16" where
  "parse_host_port addr =
     (case split_host_port addr of
        Inl e \<Rightarrow> Inl e
      | Inr (host, port) \<Rightarrow>
          if host = [] then Inl HostEmpty
          else (case parse_u16 port of
                  None \<Rightarrow> Inl (PortInvalid port)
                | Some p \<Rightarrow> if p = 0 then Inl PortZero else Inr (host, p)))"

text \<open>\<open>url.split_once("://")\<close>, of which only whether the part before is \<open>https\<close> matters.\<close>

fun before_scheme_sep :: "string \<Rightarrow> string option" where
  "before_scheme_sep [] = None"
| "before_scheme_sep (c # s) =
     (if starts_with ''://'' (c # s) then Some []
      else map_option (\<lambda>b. c # b) (before_scheme_sep s))"

definition parse_http_url :: "string \<Rightarrow> probe_reason + health_probe" where
  "parse_http_url url =
     (case strip_prefix ''http://'' url of
        None \<Rightarrow> Inl (if before_scheme_sep url = Some ''https'' then HttpsUnsupported else NotHttp)
      | Some rest \<Rightarrow>
          let authority = takeWhile (\<lambda>c. c \<noteq> CHR ''/'') rest;
              tail = dropWhile (\<lambda>c. c \<noteq> CHR ''/'') rest;
              request = (if tail = [] then ''/'' else tail) in
          if CHR ''@'' \<in> set authority then Inl UrlCredentials
          else case parse_host_port authority of
                 Inr (host, port) \<Rightarrow> Inr (HP_Http url host port request)
               | Inl reason \<Rightarrow>
                   if CHR '':'' \<notin> set authority then
                     if authority = [] then Inl UrlNoHost else Inr (HP_Http url authority 80 request)
                   else Inl reason)"

definition build_probe :: "raw_health_check \<Rightarrow> string \<Rightarrow> health_probe option checker" where
  "build_probe raw service =
     (case rh_command raw of
        Some command \<Rightarrow>
          (case command of
             [] \<Rightarrow> complain (CE_InvalidHealthProbe service ''command'' [] ProbeCommandEmpty) None
           | executable # args \<Rightarrow>
               if executable = [] \<or> list_ex (\<lambda>part. byte 0 \<in> set part) command
               then complain (CE_InvalidHealthProbe service ''command'' executable ProbeCommandNul) None
               else State_Monad.return (Some (HP_Command executable args)))
      | None \<Rightarrow>
          (case rh_http raw of
             Some url \<Rightarrow>
               (case parse_http_url url of
                  Inr probe \<Rightarrow> State_Monad.return (Some probe)
                | Inl reason \<Rightarrow> complain (CE_InvalidHealthProbe service ''http'' url reason) None)
           | None \<Rightarrow>
               (case rh_tcp raw of
                  Some addr \<Rightarrow>
                    (case parse_host_port addr of
                       Inr (host, port) \<Rightarrow> State_Monad.return (Some (HP_Tcp host port))
                     | Inl reason \<Rightarrow> complain (CE_InvalidHealthProbe service ''tcp'' addr reason) None)
                | None \<Rightarrow> State_Monad.return None)))"

definition declared_probes :: "raw_health_check \<Rightarrow> string list" where
  "declared_probes raw =
     (if rh_command raw \<noteq> None then [''command''] else [])
     @ (if rh_http raw \<noteq> None then [''http''] else [])
     @ (if rh_tcp raw \<noteq> None then [''tcp''] else [])"

definition check_on_unhealthy :: "string option \<Rightarrow> string \<Rightarrow> unhealthy_action checker" where
  "check_on_unhealthy raw service =
     (case raw of
        None \<Rightarrow> State_Monad.return UA_Restart
      | Some v \<Rightarrow>
          if v = ''restart'' then State_Monad.return UA_Restart
          else if v = ''ignore'' then State_Monad.return UA_Ignore
          else complain (CE_InvalidUnhealthyAction service v) UA_Restart)"

definition check_retries :: "u32 option \<Rightarrow> string \<Rightarrow> u32 checker" where
  "check_retries raw service =
     (case raw of
        Some n \<Rightarrow> if n = 0 then complain (CE_InvalidHealthRetries service) 1 else State_Monad.return n
      | None \<Rightarrow> State_Monad.return 3)"

definition validate_health :: "world \<Rightarrow> raw_health_check \<Rightarrow> string \<Rightarrow> health_check option checker" where
  "validate_health w raw service =
     do { probe \<leftarrow>
            (case declared_probes raw of
               [] \<Rightarrow> complain (CE_MissingHealthProbe service) None
             | [_] \<Rightarrow> build_probe raw service
             | ps \<Rightarrow> complain (CE_ConflictingHealthProbes service (join '', '' ps)) None);
          i \<leftarrow> parse_duration_field w (rh_interval raw) ''health.interval'' (dur_secs 2) service dur_100ms dur_1h;
          t \<leftarrow> parse_duration_field w (rh_timeout raw) ''health.timeout'' (dur_secs 5) service dur_100ms dur_1h;
          p \<leftarrow> parse_duration_field w (rh_start_period raw) ''health.start_period'' 0 service 0 dur_24h;
          u \<leftarrow> check_on_unhealthy (rh_on_unhealthy raw) service;
          r \<leftarrow> check_retries (rh_retries raw) service;
          State_Monad.return
            (map_option (\<lambda>probe. \<lparr> hc_probe = probe, hc_interval = i, hc_timeout = t, hc_retries = r,
                hc_start_period = p, hc_on_unhealthy = u \<rparr>) probe) }"

section \<open>One service\<close>

definition parse_shutdown_signal :: "string option \<Rightarrow> string \<Rightarrow> shutdown_signal checker" where
  "parse_shutdown_signal raw service =
     (let v = (case raw of Some s \<Rightarrow> s | None \<Rightarrow> ''term'') in
      if v = ''term'' then State_Monad.return SS_Term
      else if v = ''int'' then State_Monad.return SS_Int
      else if v = ''quit'' then State_Monad.return SS_Quit
      else if v = ''hup'' then State_Monad.return SS_Hup
      else complain (CE_InvalidShutdownSignal service v) SS_Term)"

fun policy_of_raw :: "raw_restart_policy \<Rightarrow> restart_policy" where
  "policy_of_raw RawNever = Never"
| "policy_of_raw RawOnFailure = OnFailure"
| "policy_of_raw RawAlways = Always"
| "policy_of_raw RawUnlessStopped = UnlessStopped"

definition dependency_entries :: "raw_service \<Rightarrow> (string \<times> string option) list" where
  "dependency_entries s = (case rs_depends_on s of None \<Rightarrow> [] | Some d \<Rightarrow> depends_on_entries d)"

definition parse_dependency_condition :: "string \<Rightarrow> dependency_condition option" where
  "parse_dependency_condition v =
     (if v = ''service_started'' then Some ServiceStarted
      else if v = ''service_healthy'' then Some ServiceHealthy
      else if v = ''service_completed_successfully'' then Some ServiceCompletedSuccessfully
      else None)"

text \<open>The name and the command; \<open>None\<close> is the \<open>continue\<close> after the first of their errors.\<close>

definition check_command :: "string \<Rightarrow> raw_service \<Rightarrow> (service_name \<times> string \<times> string list) option checker" where
  "check_command raw_name s =
     (case validate_service_name raw_name of
        Inl e \<Rightarrow> complain e None
      | Inr name \<Rightarrow>
          (case rs_command s of
             [] \<Rightarrow> complain (CE_EmptyCommand raw_name) None
           | executable # args \<Rightarrow>
               if executable = [] \<or> byte 0 \<in> set executable
               then complain (CE_InvalidExecutable raw_name) None
               else if list_ex (\<lambda>arg. byte 0 \<in> set arg) args
               then complain (CE_NulInCommandArg raw_name) None
               else State_Monad.return (Some (name, executable, args))))"

definition service_dir :: "world \<Rightarrow> raw_service \<Rightarrow> path \<Rightarrow> path" where
  "service_dir w s source_dir =
     (case rs_origin s of Some file \<Rightarrow> resolve_source_dir w file | None \<Rightarrow> source_dir)"

text \<open>\<open>which_in_path\<close>: \<open>PATH\<close> is split at its colons.\<close>

fun split_colons :: "string \<Rightarrow> string list" where
  "split_colons [] = [[]]"
| "split_colons (c # s) =
     (if c = CHR '':'' then [] # split_colons s
      else (case split_colons s of [] \<Rightarrow> [[c]] | d # ds \<Rightarrow> (c # d) # ds))"

definition which_in_path :: "world \<Rightarrow> string \<Rightarrow> path option" where
  "which_in_path w name =
     (case w_path_var w of
        None \<Rightarrow> None
      | Some v \<Rightarrow> find (w_is_file w) (map (\<lambda>dir. path_join dir name) (split_colons v)))"

definition check_executable_in_path :: "world \<Rightarrow> string \<Rightarrow> string \<Rightarrow> config_warning list" where
  "check_executable_in_path w executable service =
     (if CHR ''/'' \<in> set executable then []
      else if which_in_path w executable = None then [CW_ExecutableNotInPath service executable]
      else [])"

definition ignored_restart_settings :: "string \<Rightarrow> raw_service \<Rightarrow> config_warning list" where
  "ignored_restart_settings raw_name s =
     map (\<lambda>(field, _). CW_RestartSettingsIgnored raw_name field)
       (filter snd
         [(''restart_delay'', rs_restart_delay s \<noteq> None),
          (''restart_max_delay'', rs_restart_max_delay s \<noteq> None),
          (''max_restarts'', rs_max_restarts s \<noteq> None),
          (''stable_after'', rs_stable_after s \<noteq> None)])"

definition service_warnings :: "world \<Rightarrow> raw_config \<Rightarrow> string \<Rightarrow> raw_service \<Rightarrow> string \<Rightarrow> config_warning list" where
  "service_warnings w raw raw_name s executable =
     (if policy_of_raw (rs_restart s) = Never
      then ignored_restart_settings raw_name s
           @ (if (case rs_health s of Some h \<Rightarrow> rh_on_unhealthy h = Some ''restart'' | None \<Rightarrow> False)
              then [CW_UnhealthyRestartWithoutPolicy raw_name] else [])
      else [])
     @ (if rp_logs (raw_project raw) = None
           \<and> (case rs_logs s of Some l \<Rightarrow> rsl_enabled l | None \<Rightarrow> False)
        then [CW_LogsWithoutProjectLogs raw_name] else [])
     @ check_executable_in_path w executable raw_name"

definition merge_environment :: "(string \<times> string) list \<Rightarrow> (string, string) btmap \<Rightarrow> (string, string) btmap
    \<Rightarrow> (string, string) btmap \<Rightarrow> (string, string) btmap \<Rightarrow> (string, string) btmap" where
  "merge_environment process project_file project_env service_file service_env =
     bt_extend (bt_extend (bt_extend (bt_extend (bt_extend [] process) project_file) project_env)
       service_file) service_env"

definition service_depends_on :: "raw_service \<Rightarrow> dependency list" where
  "service_depends_on s =
     map (\<lambda>(dep, c). \<lparr> dep_service = dep, dep_condition = Option.bind c parse_dependency_condition \<rparr>)
       (dependency_entries s)"

text \<open>The restart and shutdown settings of a service, in the order in which they are checked.\<close>

record timings =
  tm_restart_delay :: duration
  tm_restart_max_delay :: duration
  tm_stable_after :: duration
  tm_shutdown_signal :: shutdown_signal
  tm_shutdown_timeout :: duration

definition check_timings :: "world \<Rightarrow> raw_service \<Rightarrow> string \<Rightarrow> timings checker" where
  "check_timings w s raw_name =
     do { rd \<leftarrow> parse_duration_field w (rs_restart_delay s) ''restart_delay'' (dur_secs 1) raw_name dur_100ms dur_1h;
          rm \<leftarrow> parse_duration_field w (rs_restart_max_delay s) ''restart_max_delay'' (dur_secs 30) raw_name
                  dur_100ms dur_24h;
          sa \<leftarrow> parse_duration_field w (rs_stable_after s) ''stable_after'' (dur_secs 60) raw_name dur_1s dur_24h;
          sig \<leftarrow> parse_shutdown_signal (rs_shutdown_signal s) raw_name;
          st \<leftarrow> parse_duration_field w (rs_shutdown_timeout s) ''shutdown_timeout'' (dur_secs 10) raw_name
                  dur_100ms dur_1h;
          State_Monad.return \<lparr> tm_restart_delay = rd, tm_restart_max_delay = rm, tm_stable_after = sa,
            tm_shutdown_signal = sig, tm_shutdown_timeout = st \<rparr> }"

text \<open>The project-wide inputs of a service: the process environment, the directory of the
  configuration, the project's variables from files and from \<open>[project.env]\<close>.\<close>

record project_inputs =
  pi_process_env :: "(string \<times> string) list"
  pi_source_dir :: path
  pi_file_env :: "(string, string) btmap"
  pi_env :: "(string, string) btmap"

definition validate_service :: "world \<Rightarrow> project_inputs \<Rightarrow> string \<Rightarrow> raw_service \<Rightarrow> service option checker" where
  "validate_service w inp raw_name s =
     do { command \<leftarrow> check_command raw_name s;
          (case command of
             None \<Rightarrow> State_Monad.return None
           | Some (name, executable, args) \<Rightarrow>
               do { let svc_dir = service_dir w s (pi_source_dir inp);
                    cwd \<leftarrow> resolve_cwd w (rs_cwd s) svc_dir raw_name;
                    env \<leftarrow> validate_service_env (rs_env s) raw_name;
                    files \<leftarrow> load_env_files w (rs_env_file s) svc_dir (ScopeService raw_name);
                    tm \<leftarrow> check_timings w s raw_name;
                    health \<leftarrow> and_then (rs_health s) (\<lambda>h. validate_health w h raw_name);
                    watch \<leftarrow> and_then (rs_watch s) (\<lambda>x. validate_watch w x cwd raw_name);
                    (if tm_restart_max_delay tm < tm_restart_delay tm
                     then push_error (CE_RestartMaxDelayTooSmall raw_name (tm_restart_delay tm) (tm_restart_max_delay tm))
                     else State_Monad.return ());
                    profiles \<leftarrow> validate_profiles (rs_profiles s) raw_name;
                    State_Monad.return (Some
                      \<lparr> svc_name = name, svc_executable = executable, svc_args = args, svc_cwd = cwd,
                        svc_env = merge_environment (pi_process_env inp) (pi_file_env inp) (pi_env inp) (snd files) env,
                        svc_env_files = fst files, svc_depends_on = service_depends_on s,
                        svc_profiles = profiles, svc_autostart = rs_autostart s,
                        svc_restart = policy_of_raw (rs_restart s),
                        svc_restart_delay = tm_restart_delay tm,
                        svc_restart_max_delay = tm_restart_max_delay tm,
                        svc_max_restarts = (case rs_max_restarts s of Some n \<Rightarrow> n | None \<Rightarrow> 10),
                        svc_stable_after = tm_stable_after tm,
                        svc_shutdown_signal = tm_shutdown_signal tm,
                        svc_shutdown_timeout = tm_shutdown_timeout tm,
                        svc_health = health,
                        svc_log_to_file = (case rs_logs s of Some l \<Rightarrow> rsl_enabled l | None \<Rightarrow> True),
                        svc_watch = watch \<rparr>) }) }"

fun validate_services :: "world \<Rightarrow> raw_config \<Rightarrow> project_inputs \<Rightarrow> (string \<times> raw_service) list
    \<Rightarrow> (service_name, service) btmap \<times> config_warning list
    \<Rightarrow> ((service_name, service) btmap \<times> config_warning list) checker" where
  "validate_services w raw inp [] acc = State_Monad.return acc"
| "validate_services w raw inp ((raw_name, s) # rest) acc =
     do { r \<leftarrow> validate_service w inp raw_name s;
          (case r of
             None \<Rightarrow> validate_services w raw inp rest acc
           | Some svc \<Rightarrow>
               validate_services w raw inp rest
                 (bt_insert (svc_name svc) svc (fst acc),
                  snd acc @ service_warnings w raw raw_name s (svc_executable svc))) }"

section \<open>The checks between services\<close>

definition check_condition :: "string \<Rightarrow> string \<Rightarrow> string option \<Rightarrow> raw_service \<Rightarrow> unit checker" where
  "check_condition raw_name dep condition target =
     (case condition of
        None \<Rightarrow> State_Monad.return ()
      | Some c \<Rightarrow>
          (case parse_dependency_condition c of
             None \<Rightarrow> push_error (CE_InvalidDependencyCondition raw_name dep c)
           | Some ServiceHealthy \<Rightarrow>
               if rs_health target = None then push_error (CE_DependencyNotHealthChecked raw_name dep)
               else State_Monad.return ()
           | Some ServiceCompletedSuccessfully \<Rightarrow>
               if rs_restart target \<in> {RawAlways, RawUnlessStopped}
               then push_error (CE_DependencyNeverCompletes raw_name dep)
               else State_Monad.return ()
           | Some ServiceStarted \<Rightarrow> State_Monad.return ()))"

fun check_dependencies :: "(string, raw_service) btmap \<Rightarrow> string \<Rightarrow> string set
    \<Rightarrow> (string \<times> string option) list \<Rightarrow> unit checker" where
  "check_dependencies services raw_name seen [] = State_Monad.return ()"
| "check_dependencies services raw_name seen ((dep, condition) # rest) =
     (if dep = raw_name
      then do { push_error (CE_SelfDependency raw_name);
                check_dependencies services raw_name seen rest }
      else case bt_get services dep of
             None \<Rightarrow> do { push_error (CE_UnknownDependency raw_name dep);
                         check_dependencies services raw_name seen rest }
           | Some target \<Rightarrow>
               if dep \<in> seen
               then do { push_error (CE_DuplicateDependency raw_name dep);
                         check_dependencies services raw_name seen rest }
               else do { check_condition raw_name dep condition target;
                         check_dependencies services raw_name (insert dep seen) rest })"

fun check_all_dependencies :: "(string, raw_service) btmap \<Rightarrow> (string \<times> raw_service) list \<Rightarrow> unit checker" where
  "check_all_dependencies services [] = State_Monad.return ()"
| "check_all_dependencies services ((raw_name, s) # rest) =
     do { check_dependencies services raw_name {} (dependency_entries s);
          check_all_dependencies services rest }"

section \<open>The whole configuration\<close>

definition supported_version :: u32 where
  "supported_version = 1"

text \<open>Steps 1 to 7: everything that accumulates errors.\<close>

record checked =
  ck_name :: "string option"
  ck_env :: "(string, string) btmap"
  ck_env_files :: "path list"
  ck_logs :: "log_settings option"
  ck_services :: "(service_name, service) btmap"
  ck_warnings :: "config_warning list"

definition check_project_name :: "string \<Rightarrow> string option checker" where
  "check_project_name name =
     (case validate_project_name name of Inr n \<Rightarrow> State_Monad.return (Some n) | Inl e \<Rightarrow> complain e None)"

definition check_raw :: "world \<Rightarrow> (string \<times> string) list \<Rightarrow> raw_config \<Rightarrow> path \<Rightarrow> checked checker" where
  "check_raw w process_env raw source_dir =
     do { (if raw_version raw \<noteq> supported_version
           then push_error (CE_UnsupportedVersion (raw_version raw)) else State_Monad.return ());
          name \<leftarrow> check_project_name (rp_name (raw_project raw));
          env \<leftarrow> validate_project_env (rp_env (raw_project raw));
          files \<leftarrow> load_env_files w (rp_env_file (raw_project raw)) source_dir ScopeProject;
          logs \<leftarrow> and_then (rp_logs (raw_project raw)) (\<lambda>l. validate_logs w l source_dir);
          (if raw_services raw = [] then push_error CE_NoServices else State_Monad.return ());
          services \<leftarrow> validate_services w raw
            \<lparr> pi_process_env = process_env, pi_source_dir = source_dir, pi_file_env = snd files, pi_env = env \<rparr>
            (raw_services raw) ([], []);
          check_all_dependencies (raw_services raw) (raw_services raw);
          State_Monad.return
            \<lparr> ck_name = name, ck_env = env, ck_env_files = fst files, ck_logs = logs,
              ck_services = fst services, ck_warnings = snd services \<rparr> }"

text \<open>Step 9; \<open>None\<close> is the panic of the sort or of \<open>expect\<close>.\<close>

definition finish_config :: "path \<Rightarrow> path \<Rightarrow> checked
    \<Rightarrow> (config_error list + config \<times> config_warning list) option" where
  "finish_config source_path source_dir ck =
     (case topological_sort (bt_map_values deps_of (ck_services ck)) of
        None \<Rightarrow> None
      | Some (Inl e) \<Rightarrow> Some (Inl [e])
      | Some (Inr sorted_names) \<Rightarrow>
          (case ck_name ck of
             None \<Rightarrow> None
           | Some name \<Rightarrow>
               Some (Inr (\<lparr> cfg_source_path = source_path, cfg_source_dir = source_dir,
                  cfg_project = \<lparr> proj_name = name, proj_env = ck_env ck,
                    proj_env_files = ck_env_files ck, proj_logs = ck_logs ck \<rparr>,
                  cfg_services = ck_services ck, cfg_start_order = sorted_names \<rparr>, ck_warnings ck))))"

definition validate_raw :: "world \<Rightarrow> raw_config \<Rightarrow> path
    \<Rightarrow> (config_error list + config \<times> config_warning list) option" where
  "validate_raw w raw source_path =
     (case w_env w of
        None \<Rightarrow> None
      | Some process_env \<Rightarrow>
          let (raw, subst_errors) = expand_raw raw (bt_extend [] process_env) in
          if subst_errors \<noteq> [] then Some (Inl subst_errors)
          else
            let source_dir = resolve_source_dir w source_path;
                (ck, errors) = run_state (check_raw w process_env raw source_dir) [] in
            if errors \<noteq> [] then Some (Inl errors)
            else finish_config source_path source_dir ck)"

end
