(* ===== verification/Validation_Contracts.thy ===== *)
theory Validation_Contracts
  imports Validation
begin

text \<open>
  What each check of \<open>validation.rs\<close> guarantees of its value when it reports nothing, one
  \<open>grows\<close> and one \<open>ensures\<close> lemma per check, up to the loops over all services and all
  dependencies.
\<close>

section \<open>Probes\<close>

lemma grows_build_probe [grows_intros]: "grows (build_probe raw s)"
  unfolding build_probe_def by (auto intro!: grows_intros split: option.split list.split sum.split)

lemma grows_on_unhealthy [grows_intros]: "grows (check_on_unhealthy v s)"
  unfolding check_on_unhealthy_def by (intro grows_intros)

lemma grows_retries [grows_intros]: "grows (check_retries v s)"
  unfolding check_retries_def by (intro grows_intros)

lemma ensures_retries: "ensures (check_retries v s) (\<lambda>r. r \<noteq> 0)"
  unfolding check_retries_def by (auto intro: ensures_return ensures_complain split: option.split)

lemma grows_health [grows_intros]: "grows (validate_health w raw s)"
  unfolding validate_health_def
  by (intro grows_bind) (auto intro!: grows_intros split: list.split)

text \<open>A probe that can be carried out: something to run, a host, and a port that is not zero.\<close>

fun valid_probe :: "health_probe \<Rightarrow> bool" where
  "valid_probe (HP_Command executable args) =
     (executable \<noteq> [] \<and> (\<forall>part \<in> set (executable # args). byte 0 \<notin> set part))"
| "valid_probe (HP_Http url host port request) =
     (host \<noteq> [] \<and> port \<noteq> 0 \<and> request \<noteq> [] \<and> hd request = CHR ''/'' \<and> starts_with ''http://'' url)"
| "valid_probe (HP_Tcp host port) = (host \<noteq> [] \<and> port \<noteq> 0)"

lemma parse_host_port_valid: "parse_host_port addr = Inr (host, port) \<Longrightarrow> host \<noteq> [] \<and> port \<noteq> 0"
  by (auto simp: parse_host_port_def split: sum.splits if_splits option.splits)

lemma dropWhile_hd: "dropWhile P xs \<noteq> [] \<Longrightarrow> \<not> P (hd (dropWhile P xs))"
  by (rule hd_dropWhile)

lemma parse_http_url_valid: "parse_http_url url = Inr probe \<Longrightarrow> valid_probe probe"
proof -
  assume ok: "parse_http_url url = Inr probe"
  then obtain rest where rest: "strip_prefix ''http://'' url = Some rest"
    by (auto simp: parse_http_url_def split: option.splits)
  let ?a = "takeWhile (\<lambda>c. c \<noteq> CHR ''/'') rest" and ?t = "dropWhile (\<lambda>c. c \<noteq> CHR ''/'') rest"
  let ?r = "if ?t = [] then ''/'' else ?t"
  have r: "?r \<noteq> [] \<and> hd ?r = CHR ''/''"
    using hd_dropWhile [of "\<lambda>c. c \<noteq> CHR ''/''" rest] by auto
  have url: "starts_with ''http://'' url" using rest by (simp add: starts_with_def)
  show ?thesis
  proof (cases "parse_host_port ?a")
    case (Inr hp)
    obtain h p where hp: "hp = (h, p)" by (cases hp)
    from ok rest Inr hp have "probe = HP_Http url h p ?r"
      by (auto simp: parse_http_url_def Let_def split: if_splits)
    with parse_host_port_valid [of ?a h p] Inr hp r url show ?thesis by simp
  next
    case (Inl e)
    from ok rest Inl have "probe = HP_Http url ?a 80 ?r" "?a \<noteq> []"
      by (auto simp: parse_http_url_def Let_def split: if_splits)
    with r url show ?thesis by simp
  qed
qed

lemma ensures_build_probe:
  "declared_probes raw = [x] \<Longrightarrow> ensures (build_probe raw s) (\<lambda>p. \<exists>q. p = Some q \<and> valid_probe q)"
proof -
  assume one: "declared_probes raw = [x]"
  show ?thesis
  proof (cases "rh_command raw")
    case (Some c)
    then show ?thesis
      by (cases c) (auto simp: build_probe_def list_ex_iff intro!: ensures_complain ensures_return)
  next
    case None
    show ?thesis
    proof (cases "rh_http raw")
      case (Some u)
      with None parse_http_url_valid show ?thesis
        by (cases "parse_http_url u") (auto simp: build_probe_def intro!: ensures_complain ensures_return)
    next
      case http: None
      with one None obtain a where "rh_tcp raw = Some a" by (auto simp: declared_probes_def split: if_splits)
      with None http parse_host_port_valid [of a] show ?thesis
        by (cases "parse_host_port a") (auto simp: build_probe_def intro!: ensures_complain ensures_return)
    qed
  qed
qed

definition valid_health :: "health_check \<Rightarrow> bool" where
  "valid_health h =
     (valid_probe (hc_probe h) \<and> hc_retries h \<noteq> 0
      \<and> dur_100ms \<le> hc_interval h \<and> hc_interval h \<le> dur_1h
      \<and> dur_100ms \<le> hc_timeout h \<and> hc_timeout h \<le> dur_1h \<and> hc_start_period h \<le> dur_24h)"

lemma ensures_probe:
  "ensures (case declared_probes raw of
               [] \<Rightarrow> complain (CE_MissingHealthProbe s) None
             | [_] \<Rightarrow> build_probe raw s
             | ps \<Rightarrow> complain (CE_ConflictingHealthProbes s (join '', '' ps)) None)
     (\<lambda>p. \<exists>q. p = Some q \<and> valid_probe q)"
  using ensures_build_probe [of raw]
  by (auto intro!: ensures_complain split: list.split)

lemma grows_probe: "grows (case declared_probes raw of
               [] \<Rightarrow> complain (CE_MissingHealthProbe s) None
             | [_] \<Rightarrow> build_probe raw s
             | ps \<Rightarrow> complain (CE_ConflictingHealthProbes s (join '', '' ps)) None)"
  by (auto intro!: grows_intros split: list.split)

lemma ensures_health: "ensures (validate_health w raw s) (\<lambda>x. \<exists>h. x = Some h \<and> valid_health h)"
  unfolding validate_health_def
  apply (rule ensures_bind [OF ensures_probe])
    apply (rule ensures_bind [OF ensures_duration [OF conjI [OF duration_consts(5,6)]]])
      apply (rule ensures_bind [OF ensures_duration [OF conjI [OF duration_consts(7,8)]]])
        apply (rule ensures_bind [OF ensures_duration [of 0 0 dur_24h, simplified]])
          apply (rule ensures_bind [OF ensures_True])
            apply (rule ensures_bind [OF ensures_retries])
              apply (rule ensures_return)
              apply (auto simp: valid_health_def)[1]
             apply (intro grows_probe grows_intros)+
  done

section \<open>One service\<close>

lemma grows_signal [grows_intros]: "grows (parse_shutdown_signal v s)"
  unfolding parse_shutdown_signal_def Let_def by (intro grows_intros)

lemma grows_command [grows_intros]: "grows (check_command n s)"
  unfolding check_command_def by (auto intro!: grows_intros split: sum.split list.split)

lemma grows_timings [grows_intros]: "grows (check_timings w s n)"
  unfolding check_timings_def by (intro grows_intros)

lemma ensures_command:
  "ensures (check_command n s)
     (\<lambda>r. \<exists>e args. r = Some (n, e, args) \<and> valid_name 48 n \<and> e \<noteq> [] \<and> rs_command s = e # args
        \<and> (\<forall>part \<in> set (rs_command s). byte 0 \<notin> set part))"
proof (cases "validate_name n 48")
  case (Some reason)
  then show ?thesis by (simp add: check_command_def validate_service_name_def ensures_complain)
next
  case None
  then have "valid_name 48 n" by (simp add: validate_name_None)
  with None show ?thesis
    by (cases "rs_command s")
      (auto simp: check_command_def validate_service_name_def list_ex_iff intro!: ensures_complain ensures_return)
qed

definition valid_timings :: "timings \<Rightarrow> bool" where
  "valid_timings tm =
     (dur_100ms \<le> tm_restart_delay tm \<and> tm_restart_delay tm \<le> dur_1h
      \<and> dur_100ms \<le> tm_restart_max_delay tm \<and> tm_restart_max_delay tm \<le> dur_24h
      \<and> dur_1s \<le> tm_stable_after tm \<and> tm_stable_after tm \<le> dur_24h
      \<and> dur_100ms \<le> tm_shutdown_timeout tm \<and> tm_shutdown_timeout tm \<le> dur_1h)"

lemma duration_consts2: "dur_100ms \<le> dur_secs 1 \<and> dur_secs 1 \<le> dur_1h"
  "dur_100ms \<le> dur_secs 30 \<and> dur_secs 30 \<le> dur_24h" "dur_1s \<le> dur_secs 60 \<and> dur_secs 60 \<le> dur_24h"
  "dur_100ms \<le> dur_secs 10 \<and> dur_secs 10 \<le> dur_1h"
  using duration_consts by blast+

lemma ensures_timings: "ensures (check_timings w s n) valid_timings"
  unfolding check_timings_def
  apply (rule ensures_bind [OF ensures_duration [OF duration_consts2(1)]])
    apply (rule ensures_bind [OF ensures_duration [OF duration_consts2(2)]])
      apply (rule ensures_bind [OF ensures_duration [OF duration_consts2(3)]])
        apply (rule ensures_bind [OF ensures_True])
          apply (rule ensures_bind [OF ensures_duration [OF duration_consts2(4)]])
            apply (rule ensures_return)
            apply (simp add: valid_timings_def)
           apply (intro grows_intros)+
  done

text \<open>What every service of a configuration satisfies, by itself.\<close>

definition valid_service :: "world \<Rightarrow> service \<Rightarrow> bool" where
  "valid_service w s =
     (valid_name 48 (svc_name s) \<and> svc_executable s \<noteq> []
      \<and> (\<forall>part \<in> set (svc_executable s # svc_args s). byte 0 \<notin> set part)
      \<and> w_is_dir w (svc_cwd s)
      \<and> dur_100ms \<le> svc_restart_delay s \<and> svc_restart_delay s \<le> svc_restart_max_delay s
      \<and> svc_restart_delay s \<le> dur_1h \<and> svc_restart_max_delay s \<le> dur_24h
      \<and> dur_1s \<le> svc_stable_after s \<and> svc_stable_after s \<le> dur_24h
      \<and> dur_100ms \<le> svc_shutdown_timeout s \<and> svc_shutdown_timeout s \<le> dur_1h
      \<and> distinct (svc_profiles s) \<and> (\<forall>p \<in> set (svc_profiles s). valid_name 48 p)
      \<and> (\<forall>h. svc_health s = Some h \<longrightarrow> valid_health h)
      \<and> (\<forall>x. svc_watch s = Some x \<longrightarrow> valid_watch x))"

text \<open>How a service reflects its raw form, for the checks between services.\<close>

definition reflects :: "string \<Rightarrow> raw_service \<Rightarrow> service \<Rightarrow> bool" where
  "reflects raw_name s svc =
     (svc_name svc = raw_name \<and> svc_depends_on svc = service_depends_on s
      \<and> svc_restart svc = policy_of_raw (rs_restart s)
      \<and> (svc_health svc = None \<longleftrightarrow> rs_health s = None))"

lemma ensures_and_then:
  assumes "\<And>x. ensures (f x) (\<lambda>r. \<exists>y. r = Some y \<and> P y)"
  shows "ensures (and_then v f) (\<lambda>r. (r = None \<longleftrightarrow> v = None) \<and> (\<forall>y. r = Some y \<longrightarrow> P y))"
proof (cases v)
  case None
  then show ?thesis by (simp add: and_then_def ensures_return)
next
  case (Some x)
  have "ensures (f x) (\<lambda>r. (r = None \<longleftrightarrow> v = None) \<and> (\<forall>y. r = Some y \<longrightarrow> P y))"
    by (rule ensures_weaken [OF assms]) (auto simp: Some)
  with Some show ?thesis by (simp add: and_then_def)
qed

lemma grows_service [grows_intros]: "grows (validate_service w inp n s)"
  unfolding validate_service_def Let_def by (intro grows_intros)

lemma ensures_service:
  "ensures (validate_service w inp n s) (\<lambda>r. \<exists>svc. r = Some svc \<and> valid_service w svc \<and> reflects n s svc)"
  unfolding validate_service_def
proof (rule ensures_bind [OF ensures_command])
  fix r assume "\<exists>e args. r = Some (n, e, args) \<and> valid_name 48 n \<and> e \<noteq> [] \<and> rs_command s = e # args
        \<and> (\<forall>part \<in> set (rs_command s). byte 0 \<notin> set part)"
  then obtain e args where r: "r = Some (n, e, args)" and n: "valid_name 48 n" and e: "e \<noteq> []"
    and nul: "\<forall>part \<in> set (e # args). byte 0 \<notin> set part" by auto
  have order: "ensures (if tm_restart_max_delay tm < tm_restart_delay tm then push_error x else State_Monad.return ())
     (\<lambda>_. tm_restart_delay tm \<le> tm_restart_max_delay tm)" for tm x
    by (simp add: ensures_push ensures_return)
  note health = ensures_and_then [OF ensures_health]
  have watch: "ensures (and_then v (\<lambda>x. validate_watch w x c n))
     (\<lambda>r. (r = None \<longleftrightarrow> v = None) \<and> (\<forall>y. r = Some y \<longrightarrow> valid_watch y))" for v c
    by (rule ensures_and_then) (rule ensures_weaken [OF ensures_watch], blast)
  show "ensures (case r of
             None \<Rightarrow> State_Monad.return None
           | Some (name, executable, args) \<Rightarrow>
               do { let svc_dir = service_dir w s (pi_source_dir inp);
                    cwd \<leftarrow> resolve_cwd w (rs_cwd s) svc_dir n;
                    env \<leftarrow> validate_service_env (rs_env s) n;
                    files \<leftarrow> load_env_files w (rs_env_file s) svc_dir (ScopeService n);
                    tm \<leftarrow> check_timings w s n;
                    health \<leftarrow> and_then (rs_health s) (\<lambda>h. validate_health w h n);
                    watch \<leftarrow> and_then (rs_watch s) (\<lambda>x. validate_watch w x cwd n);
                    (if tm_restart_max_delay tm < tm_restart_delay tm
                     then push_error (CE_RestartMaxDelayTooSmall n (tm_restart_delay tm) (tm_restart_max_delay tm))
                     else State_Monad.return ());
                    profiles \<leftarrow> validate_profiles (rs_profiles s) n;
                    State_Monad.return (Some
                      \<lparr> svc_name = name, svc_executable = executable, svc_args = args, svc_cwd = cwd,
                        svc_env = merge_environment (pi_process_env inp) (pi_file_env inp) (pi_env inp) (snd files) env,
                        svc_env_files = fst files, svc_depends_on = service_depends_on s,
                        svc_profiles = profiles, svc_autostart = rs_autostart s,
                        svc_restart = policy_of_raw (rs_restart s),
                        svc_restart_delay = tm_restart_delay tm,
                        svc_restart_max_delay = tm_restart_max_delay tm,
                        svc_max_restarts = (case rs_max_restarts s of Some n \<Rightarrow> n | None \<Rightarrow> 10),
                        svc_stable_after = tm_stable_after tm,
                        svc_shutdown_signal = tm_shutdown_signal tm,
                        svc_shutdown_timeout = tm_shutdown_timeout tm,
                        svc_health = health,
                        svc_log_to_file = (case rs_logs s of Some l \<Rightarrow> rsl_enabled l | None \<Rightarrow> True),
                        svc_watch = watch \<rparr>) })
     (\<lambda>r. \<exists>svc. r = Some svc \<and> valid_service w svc \<and> reflects n s svc)"
    unfolding r option.case prod.case Let_def
    apply (rule ensures_bind [OF ensures_cwd])
      apply (rule ensures_bind [OF ensures_True])
        apply (rule ensures_bind [OF ensures_True])
          apply (rule ensures_bind [OF ensures_timings])
            apply (rule ensures_bind [OF health])
              apply (rule ensures_bind [OF watch])
                apply (rule ensures_bind [OF order])
                  apply (rule ensures_bind [OF ensures_profiles])
                    apply (rule ensures_return)
    using n e nul apply (simp add: valid_service_def valid_timings_def reflects_def)
                   apply (intro grows_intros)+
    done
qed (unfold Let_def, (intro grows_intros)+)

section \<open>All services\<close>

lemma grows_services [grows_intros]: "grows (validate_services w raw inp es acc)"
proof (induction es arbitrary: acc)
  case (Cons e es)
  obtain n s where e: "e = (n, s)" by (cases e)
  have "grows (case r of None \<Rightarrow> validate_services w raw inp es acc
     | Some svc \<Rightarrow> validate_services w raw inp es
         (bt_insert (svc_name svc) svc (fst acc), snd acc @ service_warnings w raw n s (svc_executable svc)))" for r
    by (cases r) (simp_all add: Cons.IH del: split_paired_All)
  then show ?case unfolding e validate_services.simps by (rule grows_bind [OF grows_service])
qed (simp add: grows_intros)

definition services_from :: "world \<Rightarrow> (string \<times> raw_service) list \<Rightarrow> (service_name, service) btmap
    \<Rightarrow> (service_name, service) btmap \<Rightarrow> bool" where
  "services_from w es m m' =
     (bt_wf m' \<and> (\<forall>n. case map_of es n of
         Some s \<Rightarrow> \<exists>svc. bt_get m' n = Some svc \<and> valid_service w svc \<and> reflects n s svc
       | None \<Rightarrow> bt_get m' n = bt_get m n))"

lemma ensures_services:
  "bt_wf (fst acc) \<Longrightarrow> distinct (map fst es) \<Longrightarrow>
     ensures (validate_services w raw inp es acc) (\<lambda>r. services_from w es (fst acc) (fst r))"
proof (induction es arbitrary: acc)
  case Nil
  then show ?case by (simp add: ensures_return services_from_def)
next
  case (Cons e es)
  obtain n s where e: "e = (n, s)" by (cases e)
  have fresh: "map_of es n = None" using Cons.prems(2) by (simp add: e map_of_eq_None_iff)
  show ?case
    unfolding e validate_services.simps
  proof (rule ensures_bind [OF ensures_service])
    fix r assume "\<exists>svc. r = Some svc \<and> valid_service w svc \<and> reflects n s svc"
    then obtain svc where svc: "r = Some svc" "valid_service w svc" "reflects n s svc" by blast
    let ?acc = "(bt_insert (svc_name svc) svc (fst acc), snd acc @ service_warnings w raw n s (svc_executable svc))"
    have name: "svc_name svc = n" using svc(3) by (simp add: reflects_def)
    have "ensures (validate_services w raw inp es ?acc) (\<lambda>r. services_from w es (fst ?acc) (fst r))"
      using Cons.prems by (intro Cons.IH) (simp_all add: bt_wf_insert)
    then have "ensures (validate_services w raw inp es ?acc) (\<lambda>r. services_from w ((n, s) # es) (fst acc) (fst r))"
    proof (rule ensures_weaken)
      fix q assume q: "services_from w es (fst ?acc) (fst q)"
      have "bt_get (fst q) n = Some svc"
        using q [unfolded services_from_def, THEN conjunct2, rule_format, of n] fresh
        by (simp add: name bt_get_insert)
      note n = this
      show "services_from w ((n, s) # es) (fst acc) (fst q)"
        unfolding services_from_def
      proof (intro conjI allI)
        show "bt_wf (fst q)" using q by (simp add: services_from_def)
        fix k
        show "case map_of ((n, s) # es) k of
            Some s \<Rightarrow> \<exists>svc. bt_get (fst q) k = Some svc \<and> valid_service w svc \<and> reflects k s svc
          | None \<Rightarrow> bt_get (fst q) k = bt_get (fst acc) k"
          using q [unfolded services_from_def, THEN conjunct2, rule_format, of k] n svc
          by (cases "k = n") (auto simp: name bt_get_insert split: option.splits)
      qed
    qed
    then show "ensures (case r of
             None \<Rightarrow> validate_services w raw inp es acc
           | Some svc \<Rightarrow>
               validate_services w raw inp es
                 (bt_insert (svc_name svc) svc (fst acc),
                  snd acc @ service_warnings w raw n s (svc_executable svc)))
       (\<lambda>r. services_from w ((n, s) # es) (fst acc) (fst r))"
      by (simp add: svc(1))
  qed (intro grows_intros)+
qed

section \<open>Dependencies\<close>

text \<open>The condition of a dependency can be met: it is one of the three words, a service that is
  waited for until it is healthy has a health check, and one that is waited for until it
  completes is not restarted for ever.\<close>

definition condition_ok :: "string option \<Rightarrow> raw_service \<Rightarrow> bool" where
  "condition_ok c target =
     (case c of
        None \<Rightarrow> True
      | Some t \<Rightarrow>
          (case parse_dependency_condition t of
             None \<Rightarrow> False
           | Some ServiceStarted \<Rightarrow> True
           | Some ServiceHealthy \<Rightarrow> rs_health target \<noteq> None
           | Some ServiceCompletedSuccessfully \<Rightarrow> rs_restart target \<notin> {RawAlways, RawUnlessStopped}))"

lemma grows_condition [grows_intros]: "grows (check_condition n d c t)"
  unfolding check_condition_def by (auto intro!: grows_intros split: option.split dependency_condition.split)

lemma ensures_condition: "ensures (check_condition n d c t) (\<lambda>_. condition_ok c t)"
  unfolding check_condition_def condition_ok_def
  by (auto intro!: ensures_push ensures_return split: option.split dependency_condition.split)

lemma grows_dependencies [grows_intros]: "grows (check_dependencies services n seen es)"
proof (induction es arbitrary: seen)
  case (Cons e es)
  obtain d c where "e = (d, c)" by (cases e)
  with Cons show ?case by (auto intro!: grows_intros split: option.split)
qed (simp add: grows_intros)

definition dependencies_ok :: "(string, raw_service) btmap \<Rightarrow> string \<Rightarrow> (string \<times> string option) list \<Rightarrow> bool" where
  "dependencies_ok services n es =
     (distinct (map fst es)
      \<and> (\<forall>(d, c) \<in> set es. d \<noteq> n \<and> (\<exists>t. bt_get services d = Some t \<and> condition_ok c t)))"

lemma ensures_dependencies:
  "ensures (check_dependencies services n seen es)
     (\<lambda>_. dependencies_ok services n es \<and> seen \<inter> fst ` set es = {})"
proof (induction es arbitrary: seen)
  case Nil
  show ?case by (simp add: ensures_return dependencies_ok_def)
next
  case (Cons e es)
  obtain d c where e: "e = (d, c)" by (cases e)
  have push: "ensures (do { push_error x; check_dependencies services n seen es }) Q" for x Q
    by (rule ensures_bind [where P = "\<lambda>_. False"]) (simp_all add: ensures_push grows_intros)
  show ?case
  proof (cases "d = n \<or> bt_get services d = None \<or> d \<in> seen")
    case True
    then show ?thesis using push by (auto simp: e split: option.split)
  next
    case False
    then obtain t where t: "bt_get services d = Some t" "d \<noteq> n" "d \<notin> seen" by (cases "bt_get services d") auto
    have "ensures (do { check_condition n d c t; check_dependencies services n (insert d seen) es })
       (\<lambda>_. dependencies_ok services n ((d, c) # es) \<and> seen \<inter> fst ` set ((d, c) # es) = {})"
    proof (rule ensures_bind [OF ensures_condition])
      fix u assume "condition_ok c t"
      with t show "ensures (check_dependencies services n (insert d seen) es)
         (\<lambda>_. dependencies_ok services n ((d, c) # es) \<and> seen \<inter> fst ` set ((d, c) # es) = {})"
        by (intro ensures_weaken [OF Cons.IH [of "insert d seen"]]) (auto simp: dependencies_ok_def)
    qed (intro grows_intros)+
    with t show ?thesis by (simp add: e)
  qed
qed

lemma grows_all_dependencies [grows_intros]: "grows (check_all_dependencies services es)"
proof (induction es)
  case (Cons e es)
  obtain n s where "e = (n, s)" by (cases e)
  with Cons show ?case by (auto intro!: grows_intros)
qed (simp add: grows_intros)

lemma ensures_all_dependencies:
  "ensures (check_all_dependencies services es)
     (\<lambda>_. \<forall>(n, s) \<in> set es. dependencies_ok services n (dependency_entries s))"
proof (induction es)
  case (Cons e es)
  obtain n s where e: "e = (n, s)" by (cases e)
  show ?case
    unfolding e check_all_dependencies.simps
  proof (rule ensures_bind [OF ensures_dependencies])
    fix u assume "dependencies_ok services n (dependency_entries s) \<and> {} \<inter> fst ` set (dependency_entries s) = {}"
    then show "ensures (check_all_dependencies services es)
       (\<lambda>_. \<forall>(n, s) \<in> set ((n, s) # es). dependencies_ok services n (dependency_entries s))"
      by (intro ensures_weaken [OF Cons.IH]) auto
  qed (intro grows_intros)+
qed (simp add: ensures_return)

end
