(* ===== verification/Validated.thy ===== *)
theory Validated
  imports Validation_Contracts
begin

text \<open>
  The contract of \<open>validate_raw\<close>: what is known of a configuration once it has been accepted,
  that the validation always answers, and the order in which the layers of an environment
  override each other.
\<close>

section \<open>All the checks together\<close>

lemma ensures_project_name:
  "ensures (check_project_name name) (\<lambda>r. r = Some name \<and> valid_name 64 name)"
  by (cases "validate_name name 64")
    (auto simp: check_project_name_def validate_project_name_def ensures_return ensures_complain
      dest: validate_name_None [THEN iffD1])

lemma grows_project_name [grows_intros]: "grows (check_project_name name)"
  unfolding check_project_name_def by (intro grows_intros)

definition checks_passed :: "world \<Rightarrow> raw_config \<Rightarrow> checked \<Rightarrow> bool" where
  "checks_passed w raw ck =
     (raw_version raw = supported_version
      \<and> ck_name ck = Some (rp_name (raw_project raw)) \<and> valid_name 64 (rp_name (raw_project raw))
      \<and> ck_env ck = rp_env (raw_project raw) \<and> valid_env (ck_env ck)
      \<and> (\<forall>l. ck_logs ck = Some l \<longrightarrow> valid_logs l)
      \<and> raw_services raw \<noteq> []
      \<and> services_from w (raw_services raw) [] (ck_services ck)
      \<and> (\<forall>(n, s) \<in> set (raw_services raw). dependencies_ok (raw_services raw) n (dependency_entries s)))"

lemma ensures_guard: "ensures (if b then push_error e else State_Monad.return ()) (\<lambda>_. \<not> b)"
  by (simp add: ensures_push ensures_return)

lemma ensures_check_raw:
  assumes "bt_wf (raw_services raw)"
  shows "ensures (check_raw w env raw d) (checks_passed w raw)"
proof -
  note logs = ensures_and_then [OF ensures_logs]
  have services: "ensures (validate_services w raw inp (raw_services raw) ([], []))
      (\<lambda>r. services_from w (raw_services raw) [] (fst r))" for inp
    using ensures_services [of "([], [])" "raw_services raw"] bt_wf_distinct [OF assms] by simp
  show ?thesis
    unfolding check_raw_def
    apply (rule ensures_bind [OF ensures_guard])
      apply (rule ensures_bind [OF ensures_project_name])
        apply (rule ensures_bind [OF ensures_project_env])
          apply (rule ensures_bind [OF ensures_True])
            apply (rule ensures_bind [OF logs])
              apply (rule ensures_bind [OF ensures_guard])
                apply (rule ensures_bind [OF services])
                  apply (rule ensures_bind [OF ensures_all_dependencies])
                    apply (rule ensures_return)
                    apply (simp add: checks_passed_def)
                   apply (intro grows_intros)+
    done
qed

lemma check_raw_passed:
  assumes "bt_wf (raw_services raw)" and "run_state (check_raw w env raw d) [] = (ck, [])"
  shows "checks_passed w raw ck"
  using ensures_check_raw [OF assms(1)] assms(2) by (rule ensuresD)

section \<open>Sound configurations\<close>

definition satisfiable :: "(service_name, service) btmap \<Rightarrow> dependency \<Rightarrow> bool" where
  "satisfiable services d =
     (\<exists>t. bt_get services (dep_service d) = Some t
        \<and> (dep_condition d = Some ServiceHealthy \<longrightarrow> svc_health t \<noteq> None)
        \<and> (dep_condition d = Some ServiceCompletedSuccessfully \<longrightarrow> svc_restart t \<notin> {Always, UnlessStopped}))"

definition sound_config :: "world \<Rightarrow> config \<Rightarrow> bool" where
  "sound_config w c =
     (planned_config c \<and> cfg_services c \<noteq> []
      \<and> valid_name 64 (proj_name (cfg_project c)) \<and> valid_env (proj_env (cfg_project c))
      \<and> (\<forall>l. proj_logs (cfg_project c) = Some l \<longrightarrow> valid_logs l)
      \<and> (\<forall>(n, s) \<in> set (cfg_services c). valid_service w s \<and> distinct (deps_of s) \<and> n \<notin> set (deps_of s)
           \<and> (\<forall>d \<in> set (svc_depends_on s). satisfiable (cfg_services c) d)))"

lemma deps_of_raw: "svc_depends_on svc = service_depends_on s \<Longrightarrow> deps_of svc = map fst (dependency_entries s)"
  by (simp add: deps_of_def service_depends_on_def comp_def case_prod_unfold)

lemma services_from_get:
  assumes "services_from w es [] m"
  shows "(bt_get m n = None \<longleftrightarrow> map_of es n = None)
    \<and> (\<forall>svc. bt_get m n = Some svc \<longrightarrow>
        (\<exists>s. map_of es n = Some s \<and> valid_service w svc \<and> reflects n s svc))"
  using assms [unfolded services_from_def, THEN conjunct2, rule_format, of n]
  by (cases "map_of es n") auto

lemma policy_of_raw_restarts: "policy_of_raw p \<in> {Always, UnlessStopped} \<longleftrightarrow> p \<in> {RawAlways, RawUnlessStopped}"
  by (cases p) simp_all

lemma satisfiable_from:
  assumes src: "services_from w es [] m" and ok: "dependencies_ok es n (dependency_entries s)"
    and d: "d \<in> set (service_depends_on s)"
  shows "satisfiable m d \<and> dep_service d \<noteq> n"
proof -
  obtain x c where xc: "(x, c) \<in> set (dependency_entries s)"
    and d': "dep_service d = x" "dep_condition d = Option.bind c parse_dependency_condition"
    using d by (auto simp: service_depends_on_def)
  from ok xc obtain t where t: "bt_get es x = Some t" "condition_ok c t" "x \<noteq> n"
    by (auto simp: dependencies_ok_def)
  then obtain svc where svc: "bt_get m x = Some svc"
    using services_from_get [OF src, of x] by (cases "bt_get m x") (auto simp: bt_get_def)
  then have r: "reflects x t svc" using services_from_get [OF src, of x] t(1) by (auto simp: bt_get_def)
  have "satisfiable m d"
    unfolding satisfiable_def d'
  proof (intro exI conjI impI)
    show "bt_get m x = Some svc" by (rule svc)
    show "svc_health svc \<noteq> None" if "Option.bind c parse_dependency_condition = Some ServiceHealthy"
      using that t(2) r by (cases c) (auto simp: condition_ok_def reflects_def)
    show "svc_restart svc \<notin> {Always, UnlessStopped}"
      if "Option.bind c parse_dependency_condition = Some ServiceCompletedSuccessfully"
      using that t(2) r policy_of_raw_restarts [of "rs_restart t"]
      by (cases c) (auto simp: condition_ok_def reflects_def)
  qed
  with t(3) d'(1) show ?thesis by simp
qed

lemma services_from_keys:
  assumes "services_from w es [] m" and "bt_wf es"
  shows "bt_keys m = bt_keys es"
proof -
  have wf: "bt_wf m" using assms(1) by (simp add: services_from_def)
  have "fst ` set m = fst ` set es"
    using services_from_get [OF assms(1)] by (auto simp: bt_get_dom bt_get_def map_of_eq_None_iff)
  then have "set (map fst m) = set (map fst es)" by simp
  then show ?thesis
    using wf assms(2) unfolding bt_wf_def bt_keys_def
    by (metis strict_sorted_equal)
qed

lemma finish_sound:
  assumes ck: "checks_passed w raw ck" and wf: "bt_wf (raw_services raw)"
  shows "finish_config p d ck \<noteq> None"
    and "finish_config p d ck = Some (Inr (c, ws)) \<Longrightarrow>
      sound_config w c \<and> bt_keys (cfg_services c) = bt_keys (raw_services raw)"
proof -
  note src = ck [unfolded checks_passed_def, THEN conjunct2, THEN conjunct2, THEN conjunct2,
    THEN conjunct2, THEN conjunct2, THEN conjunct2, THEN conjunct2]
  let ?m = "ck_services ck" and ?es = "raw_services raw"
  have from_raw: "services_from w ?es [] ?m" using src by blast
  have deps: "\<forall>(n, s) \<in> set ?es. dependencies_ok ?es n (dependency_entries s)" using src by blast
  have m_wf: "bt_wf ?m" using from_raw by (simp add: services_from_def)
  obtain name where name: "ck_name ck = Some name" "valid_name 64 name"
    using ck by (auto simp: checks_passed_def)
  have sort: "topological_sort (bt_map_values deps_of ?m) \<noteq> None"
    using topological_sort_run [of "bt_map_values deps_of ?m"] m_wf by auto
  show "finish_config p d ck \<noteq> None"
    using sort name by (auto simp: finish_config_def split: option.split sum.split)
  assume fin: "finish_config p d ck = Some (Inr (c, ws))"
  then have c: "cfg_services c = ?m" "cfg_project c = \<lparr> proj_name = name, proj_env = ck_env ck,
      proj_env_files = ck_env_files ck, proj_logs = ck_logs ck \<rparr>"
    "topological_sort (bt_map_values deps_of ?m) = Some (Inr (cfg_start_order c))"
    using name by (auto simp: finish_config_def split: option.splits sum.splits)
  have keys: "bt_keys ?m = bt_keys ?es" by (rule services_from_keys [OF from_raw wf])
  have svc: "valid_service w s \<and> svc_name s = n \<and> distinct (deps_of s) \<and> n \<notin> set (deps_of s)
      \<and> (\<forall>d \<in> set (svc_depends_on s). satisfiable ?m d)"
    if "(n, s) \<in> set ?m" for n s
  proof -
    have "bt_get ?m n = Some s" using that m_wf by (simp add: bt_get_eq_iff)
    then obtain r where r: "bt_get ?es n = Some r" "valid_service w s" "reflects n r s"
      using services_from_get [OF from_raw, of n] by (auto simp: bt_get_def)
    have ok: "dependencies_ok ?es n (dependency_entries r)"
      using deps bt_get_in [OF r(1)] by auto
    have d: "svc_depends_on s = service_depends_on r" using r(3) by (simp add: reflects_def)
    have "satisfiable ?m x \<and> dep_service x \<noteq> n" if "x \<in> set (svc_depends_on s)" for x
      using satisfiable_from [OF from_raw ok] that d by simp
    then show ?thesis
      using r(2,3) ok deps_of_raw [OF d] by (auto simp: reflects_def dependencies_ok_def deps_of_def)
  qed
  have closed: "closed_graph (graph_of c)"
    unfolding closed_graph_def
  proof
    fix n
    show "set (deps_at (graph_of c) n) \<subseteq> fst ` set (graph_of c)"
    proof (cases "bt_get ?m n")
      case None
      then show ?thesis by (simp add: deps_at_graph c)
    next
      case (Some s)
      then have sat: "\<forall>d \<in> set (svc_depends_on s). satisfiable ?m d" using svc bt_get_in by metis
      have "dep_service x \<in> fst ` set ?m" if "x \<in> set (svc_depends_on s)" for x
        using sat that bt_get_dom [of ?m "dep_service x"] by (auto simp: satisfiable_def)
      then have "set (deps_of s) \<subseteq> fst ` set ?m" by (auto simp: deps_of_def)
      then show ?thesis using Some by (simp add: deps_at_graph graph_of_keys c)
    qed
  qed
  have names: "names_consistent c" using svc by (auto simp: names_consistent_def c)
  have planned: "planned_config c" using m_wf names closed c(3) by (simp add: planned_config_def graph_of_def c)
  have "?m \<noteq> []" using keys ck by (auto simp: bt_keys_def checks_passed_def)
  moreover have "valid_env (ck_env ck)" and "\<forall>l. ck_logs ck = Some l \<longrightarrow> valid_logs l"
    using ck by (auto simp: checks_passed_def)
  ultimately show "sound_config w c \<and> bt_keys (cfg_services c) = bt_keys (raw_services raw)"
    using planned name keys svc by (auto simp: sound_config_def c)
qed

lemma expand_keys:
  "bt_keys (raw_services (fst (expand_raw raw vars))) = bt_keys (raw_services raw)"
proof -
  have "fst (expand_raw raw vars) = map_raw (expanded vars) raw"
    using expands_raw [of vars raw] unfolding expands_def expand_raw_def by (metis fst_conv)
  then show ?thesis by (simp add: map_raw_def bt_map_values_def bt_keys_def comp_def case_prod_unfold)
qed

lemma bt_wf_keys: "bt_keys m = bt_keys m' \<Longrightarrow> bt_wf m = bt_wf m'"
  by (simp add: bt_wf_def bt_keys_def)

section \<open>Properties\<close>

lemma accepted_sound:
  assumes "bt_wf (raw_services raw)" and "validate_raw w raw p = Some (Inr (c, warnings))"
  shows "sound_config w c \<and> bt_keys (cfg_services c) = bt_keys (raw_services raw)"
proof -
  obtain env where env: "w_env w = Some env" using assms(2) by (auto simp: validate_raw_def split: option.splits)
  obtain raw' es where x: "expand_raw raw (bt_extend [] env) = (raw', es)" by fastforce
  obtain ck errs where run: "run_state (check_raw w env raw' (resolve_source_dir w p)) [] = (ck, errs)" by fastforce
  have fin: "errs = []" "finish_config p (resolve_source_dir w p) ck = Some (Inr (c, warnings))"
    using assms(2) env x run by (simp_all add: validate_raw_def Let_def split: if_splits)
  have keys: "bt_keys (raw_services raw') = bt_keys (raw_services raw)"
    using expand_keys [of raw "bt_extend [] env"] x by simp
  have wf: "bt_wf (raw_services raw')" using bt_wf_keys [OF keys] assms(1) by simp
  have "checks_passed w raw' ck" using check_raw_passed [OF wf] run fin(1) by simp
  from finish_sound(2) [OF this wf fin(2)] keys show ?thesis by simp
qed

text \<open>C1: A configuration that \<open>validate_raw\<close> accepts has exactly the services of the file and is
  sound: it can be planned (the services are keyed by their own names, every dependency exists,
  the start order is the sorted one), every service is valid by itself (name, command without
  NUL bytes, existing working directory, durations in range and in order, profiles, health check
  and watch settings), no service depends on itself or twice on the same one, and every
  condition that is waited for can be met.\<close>

theorem accepted_config_is_sound:
  assumes "bt_wf (raw_services raw)" and "validate_raw w raw p = Some (Inr (c, warnings))"
  shows "sound_config w c \<and> bt_keys (cfg_services c) = bt_keys (raw_services raw)"
  using accepted_sound [OF assms] .

lemma validate_answers:
  assumes "bt_wf (raw_services raw)"
  shows "(validate_raw w raw p = None \<longleftrightarrow> w_env w = None) \<and> validate_raw w raw p \<noteq> Some (Inl [])"
proof (cases "w_env w")
  case None
  then show ?thesis by (simp add: validate_raw_def)
next
  case (Some env)
  obtain raw' es where x: "expand_raw raw (bt_extend [] env) = (raw', es)" by fastforce
  obtain ck errs where run: "run_state (check_raw w env raw' (resolve_source_dir w p)) [] = (ck, errs)" by fastforce
  have keys: "bt_keys (raw_services raw') = bt_keys (raw_services raw)"
    using expand_keys [of raw "bt_extend [] env"] x by simp
  have wf: "bt_wf (raw_services raw')" using bt_wf_keys [OF keys] assms(1) by simp
  have fin: "finish_config p (resolve_source_dir w p) ck \<noteq> None" if "errs = []"
    using finish_sound(1) [OF check_raw_passed [OF wf] wf] run that by simp
  have "finish_config a b ck \<noteq> Some (Inl [])" for a b
    by (auto simp: finish_config_def split: option.split sum.split)
  with Some x run fin show ?thesis by (simp add: validate_raw_def Let_def)
qed

text \<open>C36: The validation always answers, with a configuration or with at least one error; the only
  panic is \<open>std::env::vars()\<close> on a process environment that is not Unicode, whatever the file
  says.\<close>

theorem validation_answers:
  assumes "bt_wf (raw_services raw)"
  shows "(validate_raw w raw p = None \<longleftrightarrow> w_env w = None) \<and> validate_raw w raw p \<noteq> Some (Inl [])"
  using validate_answers [OF assms] .

text \<open>The environment of a service is layered: a variable has the value of \<open>[services.env]\<close> if
  it is set there, else of the service's \<open>env_file\<close>, else of \<open>[project.env]\<close>, else of the
  project's \<open>env_file\<close>, else of the process.\<close>

theorem environment_layers:
  assumes "bt_wf project_file" and "bt_wf project_env" and "bt_wf service_file" and "bt_wf service_env"
  shows "bt_get (merge_environment process project_file project_env service_file service_env) k =
    (case bt_get service_env k of Some v \<Rightarrow> Some v | None \<Rightarrow>
      case bt_get service_file k of Some v \<Rightarrow> Some v | None \<Rightarrow>
        case bt_get project_env k of Some v \<Rightarrow> Some v | None \<Rightarrow>
          case bt_get project_file k of Some v \<Rightarrow> Some v | None \<Rightarrow> map_of (rev process) k)"
  using assms
  by (simp add: merge_environment_def bt_get_extend_map bt_get_extend [of "[]"] split: option.split)

theorem environment_layers_witness:
  "bt_get (merge_environment [(''HOME'', ''/''), (''PORT'', ''1'')] [(''PORT'', ''2'')]
     [(''MODE'', ''dev''), (''PORT'', ''3'')] [(''PORT'', ''4'')] []) ''PORT'' = Some ''4''"
  by (subst environment_layers) (simp_all add: bt_get_def)

section \<open>Probe addresses\<close>

lemma parse_u16_show: "n < 2 ^ 16 \<Longrightarrow> parse_u16 (show_nat n) = Some (of_nat n)"
proof -
  assume n: "n < 2 ^ 16"
  obtain c r where cr: "show_nat n = c # r" using show_nat_nonempty by (meson neq_Nil_conv)
  have d: "list_all is_ascii_digit (show_nat n)" "digits_value (show_nat n) = n"
    using show_nat_digits [of n] by simp_all
  have "c \<noteq> CHR ''+''" using d(1) unfolding cr by (auto simp: is_ascii_digit_def)
  then show ?thesis using n d unfolding parse_u16_def cr by (simp add: Let_def)
qed

lemma digit_free: "list_all is_ascii_digit ds \<Longrightarrow> c \<in> {CHR '':'', CHR ''/'', CHR ''@''} \<Longrightarrow> c \<notin> set ds"
  by (auto simp: list_all_iff is_ascii_digit_def)

lemma rsplit_once_last: "c \<notin> set ys \<Longrightarrow> rsplit_once c (xs @ c # ys) = Some (xs, ys)"
  by (simp add: rsplit_once_Some)

lemma rsplit_once_None: "rsplit_once c s = None \<longleftrightarrow> c \<notin> set s"
  by (simp add: rsplit_once_def split_once_None)

lemma parse_host_port_show:
  assumes "host \<noteq> []" and "hd host \<noteq> CHR ''[''" and "0 < n" and "n < 2 ^ 16"
  shows "parse_host_port (host @ CHR '':'' # show_nat n) = Inr (host, of_nat n)"
proof -
  have p: "strip_prefix ''['' (host @ CHR '':'' # show_nat n) = None"
    using assms(1,2) by (cases host) auto
  have free: "CHR '':'' \<notin> set (show_nat n)" by (rule digit_free) (simp_all add: show_nat_digits)
  have "(of_nat n :: u16) \<noteq> 0" using assms(3,4) by (simp add: word_of_nat_eq_0_iff)
     (metis dvd_imp_le not_le)
  with p free assms(1) parse_u16_show [OF assms(4)] rsplit_once_last [OF free, of host]
  show ?thesis by (simp add: parse_host_port_def split_host_port_def)
qed

text \<open>A probe URL is read back as it was put together: host, port and request path, with port
  80 and path \<open>/\<close> when they are left out.\<close>

theorem http_url_roundtrip:
  assumes "host \<noteq> []" and "hd host \<noteq> CHR ''[''" and "set host \<inter> {CHR '':'', CHR ''/'', CHR ''@''} = {}"
    and "0 < n" and "n < 2 ^ 16" and "request = [] \<or> hd request = CHR ''/''"
  shows "parse_http_url (''http://'' @ host @ '':'' @ show_nat n @ request) =
      Inr (HP_Http (''http://'' @ host @ '':'' @ show_nat n @ request) host (of_nat n)
        (if request = [] then ''/'' else request))
    \<and> parse_http_url (''http://'' @ host @ request) =
      Inr (HP_Http (''http://'' @ host @ request) host 80 (if request = [] then ''/'' else request))"
proof -
  let ?P = "\<lambda>c. c \<noteq> CHR ''/''"
  have cut: "takeWhile ?P (a @ request) = a \<and> dropWhile ?P (a @ request) = request"
    if "CHR ''/'' \<notin> set a" for a
    using that assms(6)
    by (cases request) (auto simp: takeWhile_append dropWhile_append takeWhile_eq_all_conv)
  have digits: "c \<notin> set (show_nat n)" if "c \<in> {CHR '':'', CHR ''/'', CHR ''@''}" for c
    using that by (intro digit_free) (simp_all add: show_nat_digits)
  let ?a = "host @ CHR '':'' # show_nat n"
  have a: "CHR ''/'' \<notin> set ?a" "CHR ''@'' \<notin> set ?a" "CHR ''/'' \<notin> set host" "CHR ''@'' \<notin> set host"
    "CHR '':'' \<notin> set host"
    using digits assms(3) by auto
  have strip: "strip_prefix ''http://'' (''http://'' @ r) = Some r" for r by (simp add: strip_prefix_Some)
  have one: "parse_http_url (''http://'' @ ?a @ request) = Inr (HP_Http (''http://'' @ ?a @ request) host (of_nat n)
        (if request = [] then ''/'' else request))"
    unfolding parse_http_url_def strip option.case Let_def
    using cut [OF a(1)] a(2) parse_host_port_show [OF assms(1,2,4,5)] by simp
  have "strip_prefix ''['' host = None" using assms(1,2) by (cases host) auto
  then have none: "parse_host_port host = Inl ExpectedHostPort"
    using rsplit_once_None [THEN iffD2, OF a(5)] by (simp add: parse_host_port_def split_host_port_def)
  have two: "parse_http_url (''http://'' @ host @ request) =
      Inr (HP_Http (''http://'' @ host @ request) host 80 (if request = [] then ''/'' else request))"
    unfolding parse_http_url_def strip option.case Let_def
    using cut [OF a(3)] a(4,5) none assms(1) by simp
  from one two show ?thesis by simp
qed

theorem http_url_roundtrip_witness:
  "parse_http_url (''http://'' @ ''localhost'' @ '':'' @ show_nat 8080 @ ''/health'') =
      Inr (HP_Http (''http://'' @ ''localhost'' @ '':'' @ show_nat 8080 @ ''/health'') ''localhost'' (of_nat 8080)
        ''/health'')"
  using http_url_roundtrip [of "''localhost''" 8080 "''/health''"] by simp

text \<open>An IPv6 host without a port is refused, although the port of a URL is optional.\<close>

lemma ipv6_url_needs_port: "parse_http_url ''http://[::1]/'' = Inl ExpectedBracketPort"
  by code_simp

section \<open>An accepted configuration\<close>

definition example_world :: world where
  "example_world =
     \<lparr> w_env = Some [], w_path_var = Some ''/bin'', w_canonicalize = Inr, w_exists = (\<lambda>_. True),
       w_is_dir = (\<lambda>_. True), w_is_file = (\<lambda>_. True), w_read = (\<lambda>_. Inr []),
       w_parse_duration = (\<lambda>_. Inl ''unit needed'') \<rparr>"

definition example_raw :: raw_config where
  "example_raw =
     \<lparr> raw_version = 1, raw_include = None,
       raw_project = \<lparr> rp_name = ''demo'', rp_env = [], rp_env_file = None, rp_logs = None \<rparr>,
       raw_services =
         [(''api'', (raw_service_default [''serve''])\<lparr> rs_depends_on := Some (RD_Names [''db'']) \<rparr>),
          (''db'', raw_service_default [''postgres''])] \<rparr>"


lemma example_expands: "expand_raw example_raw [] = (example_raw, [])"
  by code_simp

lemma example_sorts: "topological_sort [(''api'', [''db'']), (''db'', [])] = Some (Inr [''db'', ''api''])"
  by code_simp

lemma run_and_then_None [simp]: "run_state (and_then None f) es = (None, es)"
  by (simp add: and_then_def)

lemma example_timings:
  "rs_restart_delay s = None \<Longrightarrow> rs_restart_max_delay s = None \<Longrightarrow> rs_stable_after s = None \<Longrightarrow>
   rs_shutdown_signal s = None \<Longrightarrow> rs_shutdown_timeout s = None \<Longrightarrow>
   run_state (check_timings w s n) es =
     (\<lparr> tm_restart_delay = dur_secs 1, tm_restart_max_delay = dur_secs 30, tm_stable_after = dur_secs 60,
        tm_shutdown_signal = SS_Term, tm_shutdown_timeout = dur_secs 10 \<rparr>, es)"
  by (simp add: check_timings_def parse_duration_field_def parse_shutdown_signal_def del: One_nat_def)

lemma example_names: "validate_service_name ''api'' = Inr ''api''" "validate_service_name ''db'' = Inr ''db''"
  "validate_project_name ''demo'' = Inr ''demo''"
  by code_simp+

lemma example_order: "\<not> dur_secs 30 < dur_secs 1"
  by (simp add: dur_secs_def)

lemma example_service:
  assumes "validate_service_name n = Inr n" and "command \<noteq> []" and "byte 0 \<notin> set command"
    and "d \<in> {None, Some (RD_Names [''db''])}"
  shows "\<exists>svc. run_state (validate_service example_world inp n
      ((raw_service_default [command])\<lparr> rs_origin := origin, rs_depends_on := d \<rparr>)) es = (Some svc, es)
    \<and> svc_name svc = n \<and> deps_of svc = (if d = None then [] else [''db'']) \<and> svc_executable svc = command"
  using assms example_order
  by (cases origin) (auto simp: validate_service_def check_command_def raw_service_default_def service_dir_def resolve_cwd_def
      example_world_def validate_service_env.simps load_env_files_def example_timings validate_profiles_def
      Let_def service_depends_on_def dependency_entries_def deps_of_def)


lemma example_found: "check_executable_in_path example_world e n = []"
  by (auto simp: check_executable_in_path_def which_in_path_def example_world_def find_None_iff)

lemma example_step:
  assumes "validate_service_name n = Inr n" and "command \<noteq> []" and "byte 0 \<notin> set command"
    and "d \<in> {None, Some (RD_Names [''db''])}"
    and "rp_logs (raw_project raw) = None" and "ds = (if d = None then [] else [''db''])"
  shows "\<exists>svc. svc_name svc = n \<and> deps_of svc = ds
    \<and> run_state (validate_services example_world raw inp
         ((n, (raw_service_default [command])\<lparr> rs_origin := origin, rs_depends_on := d \<rparr>) # rest) (m, ws)) es =
        run_state (validate_services example_world raw inp rest (bt_insert n svc m, ws)) es"
proof -
  let ?s = "(raw_service_default [command])\<lparr> rs_origin := origin, rs_depends_on := d \<rparr>"
  obtain svc where svc: "run_state (validate_service example_world inp n ?s) es = (Some svc, es)"
    "svc_name svc = n" "deps_of svc = (if d = None then [] else [''db''])"
    using example_service [OF assms(1-4), of inp origin es] by blast
  have "service_warnings example_world raw n ?s e = []" for e
    using assms(5) by (simp add: service_warnings_def example_found raw_service_default_def
        ignored_restart_settings_def)
  with svc assms(6) show ?thesis by (intro exI [of _ svc]) simp
qed

text \<open>The two services, each with the file it came from.\<close>

definition example_services :: "path option \<Rightarrow> path option \<Rightarrow> (string, raw_service) btmap" where
  "example_services f g =
     [(''api'', (raw_service_default [''serve''])\<lparr> rs_origin := f, rs_depends_on := Some (RD_Names [''db'']) \<rparr>),
      (''db'', (raw_service_default [''postgres''])\<lparr> rs_origin := g, rs_depends_on := None \<rparr>)]"

lemma example_checked:
  assumes "expand_raw (example_raw\<lparr> raw_services := example_services f g \<rparr>) [] =
      (example_raw\<lparr> raw_services := example_services f g \<rparr>, [])"
    and deps: "run_state (check_all_dependencies (example_services f g) (example_services f g)) [] = ((), [])"
  shows "\<exists>c. validate_raw example_world (example_raw\<lparr> raw_services := example_services f g \<rparr>) ''/p/s'' = Some (Inr (c, []))"
proof -
  let ?raw = "example_raw\<lparr> raw_services := example_services f g \<rparr>"
  let ?d = "resolve_source_dir example_world ''/p/s''"
  let ?inp = "\<lparr> pi_process_env = [], pi_source_dir = ?d, pi_file_env = [], pi_env = [] \<rparr>"
  let ?api = "(raw_service_default [''serve''])\<lparr> rs_origin := f, rs_depends_on := Some (RD_Names [''db'']) \<rparr>"
  let ?db = "(raw_service_default [''postgres''])\<lparr> rs_origin := g, rs_depends_on := None \<rparr>"
  have nul: "byte 0 \<notin> set ''serve''" "byte 0 \<notin> set ''postgres''" by code_simp+
  have logs: "rp_logs (raw_project ?raw) = None" by (simp add: example_raw_def)
  have some: "Some (RD_Names [''db'']) \<in> {None, Some (RD_Names [''db''])}" "''serve'' \<noteq> []"
    "None \<in> {None, Some (RD_Names [''db''])}" "''postgres'' \<noteq> []"
    "[''db''] = (if Some (RD_Names [''db'']) = None then [] else [''db''])"
    "[] = (if (None :: raw_depends_on option) = None then [] else [''db''])" by simp_all
  obtain a where a: "svc_name a = ''api''" "deps_of a = [''db'']"
    "run_state (validate_services example_world ?raw ?inp [(''api'', ?api), (''db'', ?db)] ([], [])) [] =
       run_state (validate_services example_world ?raw ?inp [(''db'', ?db)] (bt_insert ''api'' a [], [])) []"
    using example_step [OF example_names(1) some(2) nul(1) some(1) logs some(5), of ?inp f "[(''db'', ?db)]" "[]" "[]" "[]"]
    by blast
  obtain b where b: "svc_name b = ''db''" "deps_of b = []"
    "run_state (validate_services example_world ?raw ?inp [(''db'', ?db)] (bt_insert ''api'' a [], [])) [] =
       run_state (validate_services example_world ?raw ?inp [] (bt_insert ''db'' b (bt_insert ''api'' a []), [])) []"
    using example_step [OF example_names(2) some(4) nul(2) some(3) logs some(6), of ?inp g "[]" "bt_insert ''api'' a []" "[]" "[]"]
    by blast
  have ab: "run_state (validate_services example_world ?raw ?inp (example_services f g) ([], [])) [] =
      (([(''api'', a), (''db'', b)], []), [])"
    using a(3) b(3) by (simp add: example_services_def del: validate_services.simps(2))
  have "example_services f g \<noteq> []" by (simp add: example_services_def)
  then have "run_state (check_raw example_world [] ?raw ?d) [] =
    (\<lparr> ck_name = Some ''demo'', ck_env = [], ck_env_files = [], ck_logs = None,
       ck_services = [(''api'', a), (''db'', b)], ck_warnings = [] \<rparr>, [])"
    using ab deps
    by (simp add: check_raw_def check_project_name_def example_names example_raw_def supported_version_def
        load_env_files_def)
  moreover have "w_env example_world = Some []" by (simp add: example_world_def)
  ultimately show ?thesis
    using assms(1) example_sorts a(2) b(2)
    by (simp add: validate_raw_def finish_config_def bt_map_values_def)
qed

lemma example_raw_services: "example_raw\<lparr> raw_services := example_services None None \<rparr> = example_raw"
  by (simp add: example_raw_def example_services_def raw_service_default_def)

lemma example_accepted: "\<exists>c. validate_raw example_world example_raw ''/p/s'' = Some (Inr (c, []))"
proof -
  have "run_state (check_all_dependencies (example_services None None) (example_services None None)) [] = ((), [])"
    by code_simp
  from example_checked [OF _ this] example_expands show ?thesis by (simp add: example_raw_services)
qed

theorem accepted_config_is_sound_witness:
  "\<exists>c. sound_config example_world c \<and> bt_keys (cfg_services c) = [''api'', ''db'']"
proof -
  obtain c where "validate_raw example_world example_raw ''/p/s'' = Some (Inr (c, []))"
    using example_accepted by blast
  then have "sound_config example_world c \<and> bt_keys (cfg_services c) = bt_keys (raw_services example_raw)"
    by (intro accepted_config_is_sound) (auto simp: example_raw_def bt_wf_def)
  then show ?thesis by (auto simp: example_raw_def bt_keys_def)
qed

theorem validation_answers_witness: "validate_raw example_world example_raw ''/p/s'' \<noteq> None"
  using validation_answers [of example_raw example_world "''/p/s''"]
  by (simp add: example_raw_def bt_wf_def example_world_def)

end
