(* ===== verification/Include.thy ===== *)
theory Include
  imports Validated
begin

text \<open>
  \<open>crates/servicrab-core/src/include.rs\<close> and \<open>load.rs\<close>: finding the configuration file, reading
  it with the files it includes, and handing the merged services to the validation.  The TOML
  parser is a parameter; it gives the structures of \<open>raw.rs\<close> or a message.  The recursion over
  included files carries a fuel, the number of nested files it may open; \<open>None\<close> means that it ran
  out, and \<open>includes_return\<close> says how much is enough.
\<close>

section \<open>Files\<close>

record toml_parser =
  tp_config :: "string \<Rightarrow> string + raw_config"
  tp_fragment :: "string \<Rightarrow> string + raw_fragment"
  tp_version :: "string \<Rightarrow> u32 option"

text \<open>What a path is: paths are compared by their components.\<close>

definition identity :: "world \<Rightarrow> path \<Rightarrow> component list" where
  "identity w p = components (case w_canonicalize w p of Inr q \<Rightarrow> q | Inl _ \<Rightarrow> p)"

record ancestor =
  an_identity :: "component list"
  an_path :: path

record loader =
  ld_services :: "(string, raw_service) btmap"
  ld_chain :: "ancestor list"
  ld_merged :: "(component list, path) btmap"
  ld_errors :: "config_error list"

definition ld_push :: "config_error \<Rightarrow> loader \<Rightarrow> loader" where
  "ld_push e ld = ld\<lparr> ld_errors := ld_errors ld @ [e] \<rparr>"

definition not_a_fragment :: "path \<Rightarrow> path \<Rightarrow> string \<Rightarrow> loader \<Rightarrow> loader" where
  "not_a_fragment p included_by field ld = ld_push (CE_IncludeNotAFragment p included_by field) ld"

text \<open>\<open>Loader::read\<close>.\<close>

definition read_fragment :: "world \<Rightarrow> toml_parser \<Rightarrow> path \<Rightarrow> path \<Rightarrow> config_error + raw_fragment" where
  "read_fragment w tp p included_by =
     (case w_read w p of
        Inl e \<Rightarrow> Inl (CE_IncludeRead included_by p e)
      | Inr text \<Rightarrow>
          (case tp_fragment tp text of
             Inl e \<Rightarrow> Inl (CE_Parse p e)
           | Inr fragment \<Rightarrow> Inr fragment))"

text \<open>The loop over the services of a fragment.\<close>

fun add_services :: "path \<Rightarrow> (string \<times> raw_service) list \<Rightarrow> loader \<Rightarrow> loader" where
  "add_services p [] ld = ld"
| "add_services p ((name, s) # services) ld =
     add_services p services
       (case bt_get (ld_services ld) name of
          None \<Rightarrow> ld\<lparr> ld_services := bt_insert name (s\<lparr> rs_origin := Some p \<rparr>) (ld_services ld) \<rparr>
        | Some first \<Rightarrow>
            ld_push (CE_DuplicateService name (case rs_origin first of Some q \<Rightarrow> q | None \<Rightarrow> []) p) ld)"

definition include_entries :: "raw_include option \<Rightarrow> string list" where
  "include_entries inc = (case inc of None \<Rightarrow> [] | Some i \<Rightarrow> include_paths i)"

definition include_dir :: "path \<Rightarrow> path" where
  "include_dir p = (case path_parent p of Some d \<Rightarrow> d | None \<Rightarrow> ''.'')"

text \<open>The chain from the first ancestor that is the same file, closed by the file itself.\<close>

definition include_cycle :: "ancestor list \<Rightarrow> component list \<Rightarrow> path \<Rightarrow> string" where
  "include_cycle chain ident p =
     join '' -> '' (map an_path (dropWhile (\<lambda>a. an_identity a \<noteq> ident) chain) @ [p])"

text \<open>What \<open>Loader::one\<close> does with a fragment before it follows the fragment's own \<open>include\<close>.\<close>

definition merge_fragment :: "component list \<Rightarrow> path \<Rightarrow> path \<Rightarrow> raw_fragment \<Rightarrow> loader \<Rightarrow> loader" where
  "merge_fragment ident p included_by fragment ld =
     (let ld = ld\<lparr> ld_merged := bt_insert ident included_by (ld_merged ld) \<rparr>;
          ld = (if frag_version fragment \<noteq> None then not_a_fragment p included_by ''version'' ld else ld);
          ld = (if frag_project fragment \<noteq> None then not_a_fragment p included_by ''[project]'' ld else ld)
      in add_services p (frag_services fragment) ld)"

fun load_one :: "nat \<Rightarrow> world \<Rightarrow> toml_parser \<Rightarrow> path \<Rightarrow> path \<Rightarrow> loader \<Rightarrow> loader option"
  and load_includes :: "nat \<Rightarrow> world \<Rightarrow> toml_parser \<Rightarrow> string list \<Rightarrow> path \<Rightarrow> loader \<Rightarrow> loader option" where
  "load_one 0 w tp p included_by ld = None"
| "load_one (Suc fuel) w tp p included_by ld =
     (let ident = identity w p in
      if list_ex (\<lambda>a. an_identity a = ident) (ld_chain ld)
      then Some (ld_push (CE_IncludeCycle (include_cycle (ld_chain ld) ident p)) ld)
      else case bt_get (ld_merged ld) ident of
        Some first \<Rightarrow> Some (ld_push (CE_IncludeTwice p first included_by) ld)
      | None \<Rightarrow>
          (case read_fragment w tp p included_by of
             Inl e \<Rightarrow> Some (ld_push e ld)
           | Inr fragment \<Rightarrow>
               let ld = merge_fragment ident p included_by fragment ld;
                   ld = ld\<lparr> ld_chain := ld_chain ld @ [\<lparr> an_identity = ident, an_path = p \<rparr>] \<rparr>
               in map_option (\<lambda>ld. ld\<lparr> ld_chain := butlast (ld_chain ld) \<rparr>)
                    (load_includes fuel w tp (include_entries (frag_include fragment)) p ld)))"
| "load_includes fuel w tp [] from_path ld = Some ld"
| "load_includes fuel w tp (relative # rest) from_path ld =
     (case load_one fuel w tp (path_join (include_dir from_path) relative) from_path ld of
        None \<Rightarrow> None
      | Some ld \<Rightarrow> load_includes fuel w tp rest from_path ld)"

definition stamp_origin :: "path \<Rightarrow> (string, raw_service) btmap \<Rightarrow> (string, raw_service) btmap" where
  "stamp_origin p services = bt_map_values (\<lambda>s. s\<lparr> rs_origin := Some p \<rparr>) services"

definition loader_new :: "world \<Rightarrow> path \<Rightarrow> raw_config \<Rightarrow> loader" where
  "loader_new w root raw =
     \<lparr> ld_services = stamp_origin root (raw_services raw),
       ld_chain = [\<lparr> an_identity = identity w root, an_path = root \<rparr>], ld_merged = [], ld_errors = [] \<rparr>"

definition merge_includes :: "nat \<Rightarrow> world \<Rightarrow> toml_parser \<Rightarrow> raw_config \<Rightarrow> path
    \<Rightarrow> (raw_config \<times> config_error list) option" where
  "merge_includes fuel w tp raw root =
     map_option (\<lambda>ld. (raw\<lparr> raw_include := None, raw_services := ld_services ld \<rparr>, ld_errors ld))
       (load_includes fuel w tp (include_entries (raw_include raw)) root (loader_new w root raw))"

section \<open>Loading\<close>

text \<open>\<open>load\<close> after the check of the declared version.  The outer \<open>None\<close> is a panic of the
  validation or the fuel.\<close>

definition load_parsed :: "nat \<Rightarrow> world \<Rightarrow> toml_parser \<Rightarrow> path \<Rightarrow> string
    \<Rightarrow> (config_error list + config \<times> config_warning list) option" where
  "load_parsed fuel w tp p raw_str =
     (case tp_config tp raw_str of
        Inl e \<Rightarrow> Some (Inl [CE_Parse p e])
      | Inr raw \<Rightarrow>
          (case merge_includes fuel w tp raw p of
             None \<Rightarrow> None
           | Some (raw, errors) \<Rightarrow>
               if errors \<noteq> [] then Some (Inl errors) else validate_raw w raw p))"

definition load_config :: "nat \<Rightarrow> world \<Rightarrow> toml_parser \<Rightarrow> path
    \<Rightarrow> (config_error list + config \<times> config_warning list) option" where
  "load_config fuel w tp p =
     (case w_read w p of
        Inl e \<Rightarrow> Some (Inl [CE_Read p e])
      | Inr raw_str \<Rightarrow>
          (case tp_version tp raw_str of
             Some version \<Rightarrow>
               if version \<noteq> supported_version then Some (Inl [CE_UnsupportedVersion version])
               else load_parsed fuel w tp p raw_str
           | None \<Rightarrow> load_parsed fuel w tp p raw_str))"

text \<open>\<open>discover_config\<close>: the directory is its component list, and \<open>pop\<close> drops the last one.\<close>

definition config_candidate :: "component list \<Rightarrow> path" where
  "config_candidate dir = path_join (show_path dir) ''servicrab.toml''"

function discover_from :: "world \<Rightarrow> component list \<Rightarrow> path option" where
  "discover_from w dir =
     (if w_is_file w (config_candidate dir) then Some (config_candidate dir)
      else if dir = [] \<or> last dir = RootDir then None
      else discover_from w (butlast dir))"
  by pat_completeness auto
termination by (relation "measure (\<lambda>(w, dir). length dir)") auto

declare discover_from.simps [simp del]

definition discover_config :: "world \<Rightarrow> path \<Rightarrow> config_error + path" where
  "discover_config w start_dir =
     (case discover_from w (components start_dir) of
        Some p \<Rightarrow> Inr p
      | None \<Rightarrow> Inl (CE_ConfigNotFound start_dir))"

text \<open>\<open>current_dir\<close> is a parameter: the path or the message of the failure.\<close>

definition resolve_config_path :: "world \<Rightarrow> string + path \<Rightarrow> path option \<Rightarrow> config_error + path" where
  "resolve_config_path w current_dir explicit =
     (case explicit of
        Some p \<Rightarrow> Inr p
      | None \<Rightarrow>
          (case current_dir of
             Inl e \<Rightarrow> Inl (CE_Read ''.'' e)
           | Inr cwd \<Rightarrow> discover_config w cwd))"

section \<open>Enough fuel\<close>

definition fragment_at :: "world \<Rightarrow> toml_parser \<Rightarrow> path \<Rightarrow> raw_fragment option" where
  "fragment_at w tp p =
     (case w_read w p of Inl _ \<Rightarrow> None
      | Inr text \<Rightarrow> (case tp_fragment tp text of Inl _ \<Rightarrow> None | Inr f \<Rightarrow> Some f))"

lemma read_fragment_at: "read_fragment w tp p included_by = Inr f \<longleftrightarrow> fragment_at w tp p = Some f"
  by (auto simp: read_fragment_def fragment_at_def split: sum.split)

definition merged_keys :: "loader \<Rightarrow> component list set" where
  "merged_keys ld = fst ` set (ld_merged ld)"

lemma ld_push_simps [simp]:
  "ld_services (ld_push e ld) = ld_services ld" "ld_chain (ld_push e ld) = ld_chain ld"
  "ld_merged (ld_push e ld) = ld_merged ld" "ld_errors (ld_push e ld) = ld_errors ld @ [e]"
  "merged_keys (ld_push e ld) = merged_keys ld"
  by (simp_all add: ld_push_def merged_keys_def)

lemma not_a_fragment_simps [simp]:
  "ld_services (not_a_fragment p b fl ld) = ld_services ld" "ld_chain (not_a_fragment p b fl ld) = ld_chain ld"
  "ld_merged (not_a_fragment p b fl ld) = ld_merged ld" "ld_errors (not_a_fragment p b fl ld) \<noteq> []"
  by (simp_all add: not_a_fragment_def)

lemma add_services_simps [simp]:
  "ld_chain (add_services p ss ld) = ld_chain ld" "ld_merged (add_services p ss ld) = ld_merged ld"
  by (induction p ss ld rule: add_services.induct) (auto split: option.split)

lemma merge_fragment_simps [simp]:
  "ld_chain (merge_fragment i p b f ld) = ld_chain ld"
  "ld_merged (merge_fragment i p b f ld) = bt_insert i b (ld_merged ld)"
  "merged_keys (merge_fragment i p b f ld) = insert i (merged_keys ld)"
  by (simp_all add: merge_fragment_def Let_def merged_keys_def)

text \<open>The branches of one included file.\<close>

lemma load_one_cases:
  obtains (reported) e where "load_one (Suc fuel) w tp p b ld = Some (ld_push e ld)"
    | (merged) f ld1 where "fragment_at w tp p = Some f" "identity w p \<notin> merged_keys ld"
      "\<not> list_ex (\<lambda>a. an_identity a = identity w p) (ld_chain ld)"
      "ld1 = merge_fragment (identity w p) p b f ld"
      "load_one (Suc fuel) w tp p b ld =
         map_option (\<lambda>ld. ld\<lparr> ld_chain := butlast (ld_chain ld) \<rparr>)
           (load_includes fuel w tp (include_entries (frag_include f)) p
             (ld1\<lparr> ld_chain := ld_chain ld1 @ [\<lparr> an_identity = identity w p, an_path = p \<rparr>] \<rparr>))"
proof (cases "list_ex (\<lambda>a. an_identity a = identity w p) (ld_chain ld)")
  case True
  then show ?thesis by (intro reported) (simp add: Let_def)
next
  case chain: False
  show ?thesis
  proof (cases "bt_get (ld_merged ld) (identity w p)")
    case (Some first)
    then show ?thesis using chain by (intro reported) (simp add: Let_def)
  next
    case None
    then have fresh: "identity w p \<notin> merged_keys ld" by (simp add: bt_get_dom merged_keys_def)
    show ?thesis
    proof (cases "read_fragment w tp p b")
      case (Inl e)
      then show ?thesis using chain None by (intro reported) (simp add: Let_def)
    next
      case (Inr f)
      then have "fragment_at w tp p = Some f" by (simp add: read_fragment_at)
      then show ?thesis by (rule merged [OF _ fresh chain refl]) (simp add: chain None Inr Let_def)
    qed
  qed
qed

declare load_one.simps(2) [simp del]

text \<open>The files that can be opened, up to what they are.\<close>

definition openable :: "world \<Rightarrow> toml_parser \<Rightarrow> component list set" where
  "openable w tp = {identity w p | p. fragment_at w tp p \<noteq> None}"

lemma load_returns:
  assumes fin: "finite (openable w tp)"
  shows "card (openable w tp - merged_keys ld) < fuel \<Longrightarrow>
      \<exists>ld'. load_one fuel w tp p b ld = Some ld' \<and> merged_keys ld \<subseteq> merged_keys ld'"
    and "card (openable w tp - merged_keys ld) < fuel \<Longrightarrow>
      \<exists>ld'. load_includes fuel w tp rs p ld = Some ld' \<and> merged_keys ld \<subseteq> merged_keys ld'"
proof (induction fuel arbitrary: p b ld rs)
  case (Suc fuel)
  have one: "\<exists>ld'. load_one (Suc fuel) w tp p b ld = Some ld' \<and> merged_keys ld \<subseteq> merged_keys ld'"
    if small: "card (openable w tp - merged_keys ld) < Suc fuel" for p b ld
  proof (rule load_one_cases [of fuel w tp p b ld])
    fix e assume "load_one (Suc fuel) w tp p b ld = Some (ld_push e ld)"
    then show ?thesis by simp
  next
    fix f ld1
    assume f: "fragment_at w tp p = Some f" and fresh: "identity w p \<notin> merged_keys ld"
      and ld1: "ld1 = merge_fragment (identity w p) p b f ld"
      and run: "load_one (Suc fuel) w tp p b ld =
         map_option (\<lambda>ld. ld\<lparr> ld_chain := butlast (ld_chain ld) \<rparr>)
           (load_includes fuel w tp (include_entries (frag_include f)) p
             (ld1\<lparr> ld_chain := ld_chain ld1 @ [\<lparr> an_identity = identity w p, an_path = p \<rparr>] \<rparr>))"
    let ?ld = "ld1\<lparr> ld_chain := ld_chain ld1 @ [\<lparr> an_identity = identity w p, an_path = p \<rparr>] \<rparr>"
    have keys: "merged_keys ?ld = insert (identity w p) (merged_keys ld)"
      by (simp add: ld1 merged_keys_def)
    have "identity w p \<in> openable w tp" using f by (auto simp: openable_def)
    then have "card (openable w tp - merged_keys ?ld) < card (openable w tp - merged_keys ld)"
      using fresh fin by (intro psubset_card_mono) (auto simp: keys)
    then obtain ld' where "load_includes fuel w tp (include_entries (frag_include f)) p ?ld = Some ld'"
      "merged_keys ?ld \<subseteq> merged_keys ld'"
      using Suc.IH(2) [of ?ld "include_entries (frag_include f)" p] small by auto
    then show ?thesis using run keys by (auto simp: merged_keys_def)
  qed
  {
    case 1
    then show ?case by (rule one)
  next
    case 2
    then show ?case
  proof (induction rs arbitrary: ld)
    case (Cons r rs)
    obtain ld1 where ld1: "load_one (Suc fuel) w tp (path_join (include_dir p) r) p ld = Some ld1"
      "merged_keys ld \<subseteq> merged_keys ld1"
      using one [OF Cons.prems] by blast
    then have "card (openable w tp - merged_keys ld1) \<le> card (openable w tp - merged_keys ld)"
      using fin by (intro card_mono) auto
    then obtain ld2 where "load_includes (Suc fuel) w tp rs p ld1 = Some ld2" "merged_keys ld1 \<subseteq> merged_keys ld2"
      using Cons.IH [of ld1] Cons.prems by auto
    then show ?case using ld1 by auto
  qed simp
  }
qed simp_all

section \<open>What merging without errors means\<close>

definition declared_in :: "path \<times> raw_fragment \<Rightarrow> string \<Rightarrow> raw_service \<Rightarrow> bool" where
  "declared_in file n s =
     (\<exists>s0. bt_get (frag_services (snd file)) n = Some s0 \<and> s = s0\<lparr> rs_origin := Some (fst file) \<rparr>)"

definition included_paths :: "path \<Rightarrow> raw_include option \<Rightarrow> path set" where
  "included_paths p inc = (\<lambda>r. path_join (include_dir p) r) ` set (include_entries inc)"

definition file_ids :: "world \<Rightarrow> (path \<times> raw_fragment) list \<Rightarrow> component list list" where
  "file_ids w files = map (\<lambda>f. identity w (fst f)) files"

definition chain_ids :: "loader \<Rightarrow> component list set" where
  "chain_ids ld = an_identity ` set (ld_chain ld)"

text \<open>\<open>files\<close> were merged between two states of the loader, each of them once, and nothing else
  changed.\<close>

definition merges :: "world \<Rightarrow> toml_parser \<Rightarrow> loader \<Rightarrow> (path \<times> raw_fragment) list \<Rightarrow> loader \<Rightarrow> bool" where
  "merges w tp ld files ld' =
     (ld_chain ld' = ld_chain ld
      \<and> merged_keys ld' = merged_keys ld \<union> set (file_ids w files)
      \<and> distinct (file_ids w files) \<and> set (file_ids w files) \<inter> (merged_keys ld \<union> chain_ids ld) = {}
      \<and> (\<forall>f \<in> set files. fragment_at w tp (fst f) = Some (snd f))
      \<and> (\<forall>n s. bt_get (ld_services ld') n = Some s \<longleftrightarrow>
           bt_get (ld_services ld) n = Some s \<or> (\<exists>f \<in> set files. declared_in f n s)))"

text \<open>The files are those asked for and those that they include.\<close>

inductive reached :: "world \<Rightarrow> toml_parser \<Rightarrow> path set \<Rightarrow> path \<Rightarrow> bool" for w tp asked where
  reached_asked: "p \<in> asked \<Longrightarrow> reached w tp asked p"
| reached_included: "reached w tp asked p \<Longrightarrow> fragment_at w tp p = Some f \<Longrightarrow>
    q \<in> included_paths p (frag_include f) \<Longrightarrow> reached w tp asked q"

lemma reached_trans: "reached w tp B q \<Longrightarrow> (\<And>p. p \<in> B \<Longrightarrow> reached w tp A p) \<Longrightarrow> reached w tp A q"
  by (induction rule: reached.induct) (auto intro: reached_included)

definition paths_closed :: "world \<Rightarrow> toml_parser \<Rightarrow> path set \<Rightarrow> (path \<times> raw_fragment) list \<Rightarrow> bool" where
  "paths_closed w tp asked files =
     (fst ` set files = asked \<union> (\<Union>f \<in> set files. included_paths (fst f) (frag_include (snd f)))
      \<and> (\<forall>f \<in> set files. reached w tp asked (fst f)))"

lemma paths_closed_append:
  assumes "paths_closed w tp A files" and "paths_closed w tp B files'"
  shows "paths_closed w tp (A \<union> B) (files @ files')"
proof -
  have "reached w tp A p \<or> reached w tp B p \<Longrightarrow> reached w tp (A \<union> B) p" for p
    using reached_trans [of w tp A p "A \<union> B"] reached_trans [of w tp B p "A \<union> B"] by (auto intro: reached_asked)
  with assms show ?thesis by (auto simp: paths_closed_def image_Un)
qed

lemma paths_closed_Cons:
  assumes "paths_closed w tp (included_paths p (frag_include f)) files" and "fragment_at w tp p = Some f"
  shows "paths_closed w tp {p} ((p, f) # files)"
proof -
  have "reached w tp {p} q" if "reached w tp (included_paths p (frag_include f)) q" for q
    using that by (rule reached_trans) (use assms(2) in \<open>auto intro: reached_included reached_asked\<close>)
  with assms show ?thesis by (auto simp: paths_closed_def intro: reached_asked)
qed

text \<open>A list of files that is closed holds the files that are reached, and no other.\<close>

lemma paths_closed_reached:
  assumes "paths_closed w tp asked files" and "\<forall>f \<in> set files. fragment_at w tp (fst f) = Some (snd f)"
  shows "fst ` set files = {p. reached w tp asked p}"
proof -
  have "p \<in> fst ` set files" if "reached w tp asked p" for p
    using that
  proof (induction rule: reached.induct)
    case (reached_asked p)
    with assms(1) show ?case by (simp add: paths_closed_def)
  next
    case (reached_included p f q)
    then obtain g where "(p, g) \<in> set files" by auto
    with assms reached_included show ?case by (force simp: paths_closed_def)
  qed
  moreover have "reached w tp asked p" if "p \<in> fst ` set files" for p
    using assms(1) that unfolding paths_closed_def by blast
  ultimately show ?thesis by blast
qed

lemma merges_refl: "merges w tp ld [] ld"
  by (simp add: merges_def file_ids_def)

lemma merges_trans:
  assumes "merges w tp ld files ld1" and "merges w tp ld1 files' ld2"
  shows "merges w tp ld (files @ files') ld2"
  using assms unfolding merges_def by (auto simp: file_ids_def chain_ids_def)

definition parser_ok :: "toml_parser \<Rightarrow> bool" where
  "parser_ok tp =
     ((\<forall>text f. tp_fragment tp text = Inr f \<longrightarrow> bt_wf (frag_services f))
      \<and> (\<forall>text raw. tp_config tp text = Inr raw \<longrightarrow> bt_wf (raw_services raw)))"

lemma fragment_wf: "parser_ok tp \<Longrightarrow> fragment_at w tp p = Some f \<Longrightarrow> bt_wf (frag_services f)"
  by (auto simp: fragment_at_def parser_ok_def split: sum.splits)

lemma add_services_errors: "\<exists>es. ld_errors (add_services p ss ld) = ld_errors ld @ es"
proof (induction p ss ld rule: add_services.induct)
  case (2 p name s services ld)
  then show ?case by (cases "bt_get (ld_services ld) name") auto
qed simp

lemma add_services_get:
  "distinct (map fst ss) \<Longrightarrow> ld_errors (add_services p ss ld) = [] \<Longrightarrow>
     bt_get (ld_services (add_services p ss ld)) n =
       (case map_of ss n of Some s \<Rightarrow> Some (s\<lparr> rs_origin := Some p \<rparr>) | None \<Rightarrow> bt_get (ld_services ld) n)
   \<and> (map_of ss n \<noteq> None \<longrightarrow> bt_get (ld_services ld) n = None)"
proof (induction p ss ld rule: add_services.induct)
  case (2 p name s services ld)
  show ?case
  proof (cases "bt_get (ld_services ld) name")
    case None
    then have "map_of services name = None" using "2.prems"(1) by (simp add: map_of_eq_None_iff)
    with None 2 show ?thesis by (auto simp: bt_get_insert split: option.splits)
  next
    case (Some first)
    then obtain es e where "ld_errors (add_services p ((name, s) # services) ld) = (ld_errors ld @ [e]) @ es"
      using add_services_errors [of p services "ld_push _ ld"] by fastforce
    then show ?thesis using "2.prems"(2) by simp
  qed
qed simp

lemma merge_fragment_clean:
  assumes "ld_errors (merge_fragment i p b f ld) = []" and "bt_wf (frag_services f)"
  shows "ld_errors ld = [] \<and> frag_version f = None \<and> frag_project f = None
    \<and> (bt_get (ld_services (merge_fragment i p b f ld)) n = Some s \<longleftrightarrow>
         bt_get (ld_services ld) n = Some s \<or> declared_in (p, f) n s)"
proof -
  let ?ld0 = "ld\<lparr> ld_merged := bt_insert i b (ld_merged ld) \<rparr>"
  let ?ld1 = "if frag_version f \<noteq> None then not_a_fragment p b ''version'' ?ld0 else ?ld0"
  let ?ld2 = "if frag_project f \<noteq> None then not_a_fragment p b ''[project]'' ?ld1 else ?ld1"
  have m: "merge_fragment i p b f ld = add_services p (frag_services f) ?ld2"
    by (simp add: merge_fragment_def Let_def)
  have e2: "ld_errors ?ld2 = []" using add_services_errors [of p "frag_services f" ?ld2] assms(1) m by auto
  then have clean: "frag_version f = None \<and> frag_project f = None \<and> ld_errors ld = []"
    by (cases "frag_version f"; cases "frag_project f") simp_all
  then have "?ld2 = ?ld0" by simp
  then show ?thesis
    using add_services_get [OF bt_wf_distinct [OF assms(2)], of p ?ld2 n] assms(1) clean unfolding m
    by (auto simp: declared_in_def bt_get_def split: option.splits)
qed

lemma merge_fragment_errors: "\<exists>es. ld_errors (merge_fragment i p b f ld) = ld_errors ld @ es"
proof -
  obtain ld2 where "merge_fragment i p b f ld = add_services p (frag_services f) ld2"
    and "\<exists>es. ld_errors ld2 = ld_errors ld @ es"
    unfolding merge_fragment_def Let_def not_a_fragment_def by fastforce
  then show ?thesis using add_services_errors [of p "frag_services f" ld2] by auto
qed

lemma load_errors:
  shows "load_one fuel w tp p b ld = Some ld' \<Longrightarrow> \<exists>es. ld_errors ld' = ld_errors ld @ es"
    and "load_includes fuel w tp rs p ld = Some ld' \<Longrightarrow> \<exists>es. ld_errors ld' = ld_errors ld @ es"
proof (induction fuel arbitrary: p b ld ld' rs)
  case 0
  {
    case 1 then show ?case by simp
  next
    case 2 then show ?case by (cases rs) simp_all
  }
next
  case (Suc fuel)
  have one: "\<exists>es. ld_errors ld' = ld_errors ld @ es" if run: "load_one (Suc fuel) w tp p b ld = Some ld'" for p b ld ld'
  proof (rule load_one_cases [of fuel w tp p b ld])
    fix e assume "load_one (Suc fuel) w tp p b ld = Some (ld_push e ld)"
    with run show ?thesis by auto
  next
    fix f ld1
    assume ld1: "ld1 = merge_fragment (identity w p) p b f ld"
      and nested: "load_one (Suc fuel) w tp p b ld =
         map_option (\<lambda>ld. ld\<lparr> ld_chain := butlast (ld_chain ld) \<rparr>)
           (load_includes fuel w tp (include_entries (frag_include f)) p
             (ld1\<lparr> ld_chain := ld_chain ld1 @ [\<lparr> an_identity = identity w p, an_path = p \<rparr>] \<rparr>))"
    obtain ld2 where "load_includes fuel w tp (include_entries (frag_include f)) p
        (ld1\<lparr> ld_chain := ld_chain ld1 @ [\<lparr> an_identity = identity w p, an_path = p \<rparr>] \<rparr>) = Some ld2"
      "ld_errors ld' = ld_errors ld2"
      using run nested by auto
    with Suc.IH(2) merge_fragment_errors [of "identity w p" p b f ld] ld1 show ?thesis by fastforce
  qed
  {
    case 1 then show ?case by (rule one)
  next
    case 2
    then show ?case
    proof (induction rs arbitrary: ld)
      case (Cons r rs)
      then obtain ld1 where "load_one (Suc fuel) w tp (path_join (include_dir p) r) p ld = Some ld1"
        "load_includes (Suc fuel) w tp rs p ld1 = Some ld'" by (auto split: option.splits)
      with one Cons.IH show ?case by fastforce
    qed simp
  }
qed

lemma merges_fragment:
  assumes f: "fragment_at w tp p = Some f" and wf: "bt_wf (frag_services f)"
    and fresh: "identity w p \<notin> merged_keys ld \<union> chain_ids ld"
    and ld1: "ld1 = merge_fragment (identity w p) p b f ld" and clean: "ld_errors ld1 = []"
    and nested: "merges w tp (ld1\<lparr> ld_chain := ld_chain ld1 @ [a] \<rparr>) files ld2" "an_identity a = identity w p"
  shows "merges w tp ld ((p, f) # files) (ld2\<lparr> ld_chain := butlast (ld_chain ld2) \<rparr>)"
proof -
  have services: "bt_get (ld_services ld1) n = Some s \<longleftrightarrow> bt_get (ld_services ld) n = Some s \<or> declared_in (p, f) n s" for n s
    using merge_fragment_clean [OF clean [unfolded ld1] wf] ld1 by simp
  have keys: "merged_keys (ld1\<lparr> ld_chain := c \<rparr>) = insert (identity w p) (merged_keys ld)" for c
    by (simp add: ld1 merged_keys_def)
  have chain: "ld_chain ld1 = ld_chain ld" by (simp add: ld1)
  show ?thesis
    using nested fresh f services unfolding merges_def keys
    by (auto simp: chain file_ids_def chain_ids_def merged_keys_def image_iff)
qed

lemma load_merges:
  assumes "parser_ok tp"
  shows "load_one fuel w tp p b ld = Some ld' \<Longrightarrow> ld_errors ld' = [] \<Longrightarrow>
      \<exists>files. merges w tp ld files ld' \<and> paths_closed w tp {p} files"
    and "load_includes fuel w tp rs p ld = Some ld' \<Longrightarrow> ld_errors ld' = [] \<Longrightarrow>
      \<exists>files. merges w tp ld files ld' \<and> paths_closed w tp ((\<lambda>r. path_join (include_dir p) r) ` set rs) files"
proof (induction fuel arbitrary: p b ld ld' rs)
  case 0
  {
    case 1 then show ?case by simp
  next
    case 2 then show ?case by (cases rs) (auto simp: paths_closed_def intro: merges_refl)
  }
next
  case (Suc fuel)
  have one: "\<exists>files. merges w tp ld files ld' \<and> paths_closed w tp {p} files"
    if run: "load_one (Suc fuel) w tp p b ld = Some ld'" and ok: "ld_errors ld' = []" for p b ld ld'
  proof (rule load_one_cases [of fuel w tp p b ld])
    fix e assume "load_one (Suc fuel) w tp p b ld = Some (ld_push e ld)"
    with run ok show ?thesis by auto
  next
    fix f ld1
    let ?a = "\<lparr> an_identity = identity w p, an_path = p \<rparr>"
    assume f: "fragment_at w tp p = Some f" and fresh: "identity w p \<notin> merged_keys ld"
      and out: "\<not> list_ex (\<lambda>a. an_identity a = identity w p) (ld_chain ld)"
      and ld1: "ld1 = merge_fragment (identity w p) p b f ld"
      and nested: "load_one (Suc fuel) w tp p b ld =
         map_option (\<lambda>ld. ld\<lparr> ld_chain := butlast (ld_chain ld) \<rparr>)
           (load_includes fuel w tp (include_entries (frag_include f)) p (ld1\<lparr> ld_chain := ld_chain ld1 @ [?a] \<rparr>))"
    obtain ld2 where ld2: "load_includes fuel w tp (include_entries (frag_include f)) p
        (ld1\<lparr> ld_chain := ld_chain ld1 @ [?a] \<rparr>) = Some ld2"
      "ld' = ld2\<lparr> ld_chain := butlast (ld_chain ld2) \<rparr>"
      using run nested by auto
    have ok2: "ld_errors ld2 = []" using ok ld2(2) by simp
    then have ok1: "ld_errors ld1 = []" using load_errors(2) [OF ld2(1)] by simp
    obtain files where "merges w tp (ld1\<lparr> ld_chain := ld_chain ld1 @ [?a] \<rparr>) files ld2"
      and closed: "paths_closed w tp (included_paths p (frag_include f)) files"
      using Suc.IH(2) [OF ld2(1) ok2] by (auto simp: included_paths_def)
    moreover have "identity w p \<notin> merged_keys ld \<union> chain_ids ld"
      using fresh out by (auto simp: chain_ids_def list_ex_iff)
    ultimately have "merges w tp ld ((p, f) # files) ld'"
      unfolding ld2(2) using merges_fragment [OF f fragment_wf [OF assms f] _ ld1 ok1] by simp
    then show ?thesis using paths_closed_Cons [OF closed f] by blast
  qed
  {
    case 1 then show ?case by (rule one)
  next
    case 2
    then show ?case
    proof (induction rs arbitrary: ld)
      case Nil
      then show ?case by (auto simp: paths_closed_def intro: merges_refl)
    next
      case (Cons r rs)
      then obtain ld1 where r: "load_one (Suc fuel) w tp (path_join (include_dir p) r) p ld = Some ld1"
        "load_includes (Suc fuel) w tp rs p ld1 = Some ld'" by (auto split: option.splits)
      have "ld_errors ld1 = []" using load_errors(2) [OF r(2)] Cons.prems(2) by auto
      then obtain files where files: "merges w tp ld files ld1" "paths_closed w tp {path_join (include_dir p) r} files"
        using one [OF r(1)] by blast
      obtain files' where files': "merges w tp ld1 files' ld'"
        "paths_closed w tp ((\<lambda>r. path_join (include_dir p) r) ` set rs) files'"
        using Cons.IH [OF r(2) Cons.prems(2)] by blast
      show ?case using merges_trans [OF files(1) files'(1)] paths_closed_append [OF files(2) files'(2)]
        by (intro exI [of _ "files @ files'"]) simp
    qed
  }
qed

section \<open>Properties\<close>

lemma merge_returns:
  assumes "finite (openable w tp)" and "card (openable w tp) < fuel"
  shows "merge_includes fuel w tp raw root \<noteq> None"
  using load_returns(2) [OF assms(1), of "loader_new w root raw" fuel "include_entries (raw_include raw)" root]
    assms(2)
  by (auto simp: merge_includes_def loader_new_def merged_keys_def)

text \<open>The includes of a configuration are always followed to the end: whatever they include,
  cycles and repeated files too, opening as many nested files as there are files to open is
  enough.\<close>

theorem includes_return:
  assumes "finite (openable w tp)" and "card (openable w tp) < fuel"
  shows "merge_includes fuel w tp raw root \<noteq> None"
  using merge_returns [OF assms] .

text \<open>C38: The includes of a configuration are always followed to the end: opening as many nested
  files as there are files to open is enough, whatever they include.  When they are merged without
  an error, the services of the result are exactly those of the root and of the included files,
  each unchanged but for the file it came from; the files are exactly those that are reached from
  the root, named by it or by one that is reached; all of them could be read, no two are the same
  file, and the root is none of them.\<close>

theorem includes_are_a_union:
  assumes "parser_ok tp"
  shows "(finite (openable w tp) \<and> card (openable w tp) < fuel \<longrightarrow> merge_includes fuel w tp raw root \<noteq> None)
    \<and> (\<forall>raw'. merge_includes fuel w tp raw root = Some (raw', []) \<longrightarrow>
        (\<exists>files. fst ` set files = {p. reached w tp (included_paths root (raw_include raw)) p}
          \<and> (\<forall>f \<in> set files. fragment_at w tp (fst f) = Some (snd f))
          \<and> distinct (identity w root # file_ids w files)
          \<and> (\<forall>n s. bt_get (raw_services raw') n = Some s \<longleftrightarrow>
               bt_get (stamp_origin root (raw_services raw)) n = Some s \<or> (\<exists>f \<in> set files. declared_in f n s))
          \<and> raw' = raw\<lparr> raw_include := None, raw_services := raw_services raw' \<rparr>))"
proof (intro conjI allI impI)
  assume "finite (openable w tp) \<and> card (openable w tp) < fuel"
  then show "merge_includes fuel w tp raw root \<noteq> None" using merge_returns by blast
next
  fix raw' assume merged: "merge_includes fuel w tp raw root = Some (raw', [])"
  obtain ld where ld: "load_includes fuel w tp (include_entries (raw_include raw)) root (loader_new w root raw) = Some ld"
    "ld_errors ld = []" "raw' = raw\<lparr> raw_include := None, raw_services := ld_services ld \<rparr>"
    using merged by (auto simp: merge_includes_def)
  obtain files where files: "merges w tp (loader_new w root raw) files ld"
    "paths_closed w tp (included_paths root (raw_include raw)) files"
    using load_merges(2) [OF assms(1) ld(1,2)] by (auto simp: included_paths_def)
  then have read: "\<forall>f \<in> set files. fragment_at w tp (fst f) = Some (snd f)" by (simp add: merges_def)
  show "\<exists>files. fst ` set files = {p. reached w tp (included_paths root (raw_include raw)) p}
      \<and> (\<forall>f \<in> set files. fragment_at w tp (fst f) = Some (snd f))
      \<and> distinct (identity w root # file_ids w files)
      \<and> (\<forall>n s. bt_get (raw_services raw') n = Some s \<longleftrightarrow>
           bt_get (stamp_origin root (raw_services raw)) n = Some s \<or> (\<exists>f \<in> set files. declared_in f n s))
      \<and> raw' = raw\<lparr> raw_include := None, raw_services := raw_services raw' \<rparr>"
    using files(1) read paths_closed_reached [OF files(2) read]
    by (intro exI [of _ files]) (auto simp: merges_def loader_new_def chain_ids_def ld(3))
qed

lemma stamp_keys: "bt_wf (stamp_origin p m) = bt_wf m"
  by (simp add: stamp_origin_def)

lemma add_services_wf: "bt_wf (ld_services ld) \<Longrightarrow> bt_wf (ld_services (add_services p ss ld))"
  by (induction p ss ld rule: add_services.induct) (auto simp: bt_wf_insert split: option.split)

lemma merge_fragment_wf: "bt_wf (ld_services ld) \<Longrightarrow> bt_wf (ld_services (merge_fragment i p b f ld))"
  by (simp add: merge_fragment_def Let_def add_services_wf)

lemma load_wf:
  shows "load_one fuel w tp p b ld = Some ld' \<Longrightarrow> bt_wf (ld_services ld) \<Longrightarrow> bt_wf (ld_services ld')"
    and "load_includes fuel w tp rs p ld = Some ld' \<Longrightarrow> bt_wf (ld_services ld) \<Longrightarrow> bt_wf (ld_services ld')"
proof (induction fuel arbitrary: p b ld ld' rs)
  case 0
  {
    case 1 then show ?case by simp
  next
    case 2 then show ?case by (cases rs) simp_all
  }
next
  case (Suc fuel)
  have one: "bt_wf (ld_services ld')"
    if run: "load_one (Suc fuel) w tp p b ld = Some ld'" and wf: "bt_wf (ld_services ld)" for p b ld ld'
    using run wf
    by (cases rule: load_one_cases [of fuel w tp p b ld])
      (auto intro: merge_fragment_wf dest!: Suc.IH(2))
  {
    case 1 then show ?case by (rule one)
  next
    case 2
    then show ?case
    proof (induction rs arbitrary: ld)
      case (Cons r rs)
      then obtain ld1 where "load_one (Suc fuel) w tp (path_join (include_dir p) r) p ld = Some ld1"
        "load_includes (Suc fuel) w tp rs p ld1 = Some ld'" by (auto split: option.splits)
      with one Cons show ?case by blast
    qed simp
  }
qed

lemma merge_includes_wf:
  assumes "merge_includes fuel w tp raw root = Some (raw', es)" and "bt_wf (raw_services raw)"
  shows "bt_wf (raw_services raw')"
proof -
  obtain ld where ld: "load_includes fuel w tp (include_entries (raw_include raw)) root (loader_new w root raw) = Some ld"
    "raw' = raw\<lparr> raw_include := None, raw_services := ld_services ld \<rparr>"
    using assms(1) by (auto simp: merge_includes_def)
  then show ?thesis
    using load_wf(2) [OF ld(1)] assms(2) by (simp add: loader_new_def stamp_keys)
qed

text \<open>The configuration that \<open>load\<close> validates.\<close>

lemma load_config_validates:
  assumes "load_config fuel w tp p = Some (Inr r)" and "parser_ok tp"
  shows "\<exists>raw. bt_wf (raw_services raw) \<and> validate_raw w raw p = Some (Inr r)"
proof -
  obtain str where "load_parsed fuel w tp p str = Some (Inr r)"
    using assms(1) by (auto simp: load_config_def split: sum.splits option.splits if_splits)
  then obtain raw raw' es where raw: "tp_config tp str = Inr raw" "merge_includes fuel w tp raw p = Some (raw', es)"
    "validate_raw w raw' p = Some (Inr r)"
    by (auto simp: load_parsed_def split: sum.splits option.splits if_splits)
  have "bt_wf (raw_services raw')"
    using assms(2) raw(1) merge_includes_wf [OF raw(2)] by (simp add: parser_ok_def)
  with raw(3) show ?thesis by blast
qed

text \<open>Loading composes its stages: whatever the files and the included files say, a configuration
  that \<open>load\<close> returns is sound.\<close>

theorem loaded_config_is_sound:
  assumes "load_config fuel w tp p = Some (Inr (c, warnings))" and "parser_ok tp"
  shows "sound_config w c"
proof -
  obtain raw where "bt_wf (raw_services raw)" "validate_raw w raw p = Some (Inr (c, warnings))"
    using load_config_validates [OF assms] by blast
  then show ?thesis using accepted_sound by blast
qed

text \<open>Loading always answers: with enough fuel for the files there are and a process environment
  that is Unicode, \<open>load\<close> returns a configuration or at least one error.\<close>

theorem load_answers:
  assumes "parser_ok tp" and "finite (openable w tp)" and "card (openable w tp) < fuel" and "w_env w \<noteq> None"
  shows "load_config fuel w tp p \<noteq> None \<and> load_config fuel w tp p \<noteq> Some (Inl [])"
proof -
  have "load_parsed fuel w tp p str \<noteq> None \<and> load_parsed fuel w tp p str \<noteq> Some (Inl [])" for str
  proof (cases "tp_config tp str")
    case (Inr raw)
    obtain raw' es where m: "merge_includes fuel w tp raw p = Some (raw', es)"
      using merge_returns [OF assms(2,3)] by fastforce
    have "bt_wf (raw_services raw')"
      using assms(1) Inr merge_includes_wf [OF m] by (simp add: parser_ok_def)
    then have "validate_raw w raw' p \<noteq> None \<and> validate_raw w raw' p \<noteq> Some (Inl [])"
      using validate_answers [of raw' w p] assms(4) by simp
    with Inr m show ?thesis by (simp add: load_parsed_def)
  qed (simp add: load_parsed_def)
  then show ?thesis by (auto simp: load_config_def split: sum.split option.split)
qed

section \<open>An example\<close>

definition example_root :: raw_config where
  "example_root = example_raw\<lparr> raw_include := Some (RI_One ''db.toml''),
     raw_services := take 1 (example_services None None) \<rparr>"

definition example_parser :: toml_parser where
  "example_parser =
     \<lparr> tp_config = (\<lambda>_. Inr example_root),
       tp_fragment = (\<lambda>_. Inr \<lparr> frag_include = None, frag_services = drop 1 (example_services None None),
         frag_version = None, frag_project = None \<rparr>),
       tp_version = (\<lambda>_. Some 1) \<rparr>"

text \<open>A machine on which every path is the same file.\<close>

definition one_file :: world where
  "one_file = example_world\<lparr> w_canonicalize := (\<lambda>p. Inr ''/p/f'') \<rparr>"

lemma example_parser_ok: "parser_ok example_parser"
  by (simp add: parser_ok_def example_parser_def example_root_def example_services_def bt_wf_def)

lemma example_merge:
  "merge_includes 2 example_world example_parser example_root ''/p/s'' =
     Some (example_raw\<lparr> raw_services := example_services (Some ''/p/s'') (Some ''/p/db.toml'') \<rparr>, [])"
  by code_simp

lemma one_file_openable: "finite (openable one_file example_parser)" "card (openable one_file example_parser) < 2"
proof -
  have "openable one_file example_parser \<subseteq> {components ''/p/f''}"
    by (auto simp: openable_def identity_def one_file_def)
  then show "finite (openable one_file example_parser)" "card (openable one_file example_parser) < 2"
    using finite_subset card_mono [of "{components ''/p/f''}" "openable one_file example_parser"] by auto
qed

theorem includes_are_a_union_witness:
  "bt_get (raw_services (example_raw\<lparr> raw_services := example_services (Some ''/p/s'') (Some ''/p/db.toml'') \<rparr>)) ''db'' \<noteq> None
   \<and> merge_includes 2 one_file example_parser example_root ''/p/s'' \<noteq> None"
proof
  show "merge_includes 2 one_file example_parser example_root ''/p/s'' \<noteq> None"
    using includes_are_a_union [OF example_parser_ok, of one_file 2] one_file_openable by blast
  obtain files where files:
    "fst ` set files = {p. reached example_world example_parser (included_paths ''/p/s'' (raw_include example_root)) p}"
    "\<forall>f \<in> set files. fragment_at example_world example_parser (fst f) = Some (snd f)"
    "\<forall>n s. bt_get (raw_services (example_raw\<lparr> raw_services := example_services (Some ''/p/s'') (Some ''/p/db.toml'') \<rparr>)) n = Some s \<longleftrightarrow>
         bt_get (stamp_origin ''/p/s'' (raw_services example_root)) n = Some s \<or> (\<exists>f \<in> set files. declared_in f n s)"
    using conjunct2 [OF includes_are_a_union [OF example_parser_ok], rule_format, OF example_merge] by blast
  have "path_join (include_dir ''/p/s'') ''db.toml'' \<in> included_paths ''/p/s'' (raw_include example_root)"
    by (simp add: included_paths_def example_root_def include_entries_def)
  then have "path_join (include_dir ''/p/s'') ''db.toml'' \<in> fst ` set files"
    unfolding files(1) by (simp add: reached_asked)
  then obtain f where f: "f \<in> set files" by auto
  have "fragment_at example_world example_parser p = Some \<lparr> frag_include = None,
      frag_services = drop 1 (example_services None None), frag_version = None, frag_project = None \<rparr>" for p
    by (simp add: fragment_at_def example_world_def example_parser_def)
  then have db: "snd f = \<lparr> frag_include = None, frag_services = drop 1 (example_services None None),
      frag_version = None, frag_project = None \<rparr>"
    using files(2) f by simp
  have "declared_in f ''db'' ((raw_service_default [''postgres''])\<lparr> rs_origin := Some (fst f), rs_depends_on := None \<rparr>)"
    unfolding declared_in_def db
    by (simp add: example_services_def raw_service_default_def bt_get_def)
  with files(3) f
  show "bt_get (raw_services (example_raw\<lparr> raw_services := example_services (Some ''/p/s'') (Some ''/p/db.toml'') \<rparr>)) ''db'' \<noteq> None"
    by blast
qed

theorem includes_return_witness: "merge_includes 2 one_file example_parser example_root ''/p/s'' \<noteq> None"
  by (rule includes_return) (rule one_file_openable)+

lemma example_loaded: "\<exists>c. load_config 2 example_world example_parser ''/p/s'' = Some (Inr (c, []))"
proof -
  have "expand_raw (example_raw\<lparr> raw_services := example_services (Some ''/p/s'') (Some ''/p/db.toml'') \<rparr>) [] =
      (example_raw\<lparr> raw_services := example_services (Some ''/p/s'') (Some ''/p/db.toml'') \<rparr>, [])"
    by code_simp
  moreover have "run_state (check_all_dependencies (example_services (Some ''/p/s'') (Some ''/p/db.toml''))
      (example_services (Some ''/p/s'') (Some ''/p/db.toml''))) [] = ((), [])"
    by code_simp
  ultimately obtain c where "validate_raw example_world
      (example_raw\<lparr> raw_services := example_services (Some ''/p/s'') (Some ''/p/db.toml'') \<rparr>) ''/p/s'' = Some (Inr (c, []))"
    using example_checked by blast
  moreover have "w_read example_world ''/p/s'' = Inr []" "tp_version example_parser [] = Some 1"
    "tp_config example_parser [] = Inr example_root"
    by (simp_all add: example_world_def example_parser_def)
  ultimately show ?thesis
    using example_merge by (simp add: load_config_def load_parsed_def supported_version_def)
qed

theorem loaded_config_is_sound_witness: "\<exists>c. sound_config example_world c"
  using example_loaded loaded_config_is_sound [OF _ example_parser_ok] by blast

theorem load_answers_witness: "load_config 2 one_file example_parser ''/p/s'' \<noteq> None"
proof -
  have "openable one_file example_parser \<subseteq> {components ''/p/f''}"
    by (auto simp: openable_def identity_def one_file_def)
  then have "finite (openable one_file example_parser)" "card (openable one_file example_parser) < 2"
    using finite_subset card_mono [of "{components ''/p/f''}" "openable one_file example_parser"] by auto
  moreover have "w_env one_file \<noteq> None" by (simp add: one_file_def example_world_def)
  ultimately show ?thesis using load_answers [OF example_parser_ok] by blast
qed

section \<open>Discovery\<close>

definition search_path :: "component list \<Rightarrow> component list list" where
  "search_path dir =
     rev (map (\<lambda>k. take k dir) [(if dir \<noteq> [] \<and> hd dir = RootDir then 1 else 0)..<Suc (length dir)])"

lemma search_path_snoc:
  "search_path (dir @ [c]) = (dir @ [c]) # (if dir = [] \<and> c = RootDir then [] else search_path dir)"
proof (cases "dir = []")
  case False
  let ?i = "if hd dir = RootDir then 1 else 0"
  have "?i \<le> Suc (length dir)" by simp
  then have "[?i..<Suc (Suc (length dir))] = [?i..<Suc (length dir)] @ [Suc (length dir)]"
    by (rule upt_Suc_append)
  moreover have "map (\<lambda>k. take k (dir @ [c])) [?i..<Suc (length dir)] = map (\<lambda>k. take k dir) [?i..<Suc (length dir)]"
    by (intro map_cong) auto
  ultimately show ?thesis using False by (simp only: search_path_def hd_append length_append_singleton) simp
qed (simp add: search_path_def)

lemma discover_from_search:
  "RootDir \<notin> set (tl dir) \<Longrightarrow>
     discover_from w dir = map_option config_candidate (find (\<lambda>d. w_is_file w (config_candidate d)) (search_path dir))"
proof (induction dir rule: rev_induct)
  case Nil
  then show ?case by (simp add: discover_from.simps [of w "[]"] search_path_def)
next
  case (snoc c dir)
  have "RootDir \<notin> set (tl dir)" using snoc.prems by (cases dir) auto
  moreover have "c = RootDir \<longleftrightarrow> dir = [] \<and> c = RootDir" using snoc.prems by (cases dir) auto
  ultimately show ?case
    using snoc.IH by (auto simp: discover_from.simps [of w "dir @ [c]"] search_path_snoc)
qed

lemma components_root: "RootDir \<notin> set (tl (components p))"
proof -
  have "RootDir \<notin> set (map component_of ss)" for ss by (auto simp: component_of_def)
  then have "RootDir \<notin> set (tl (map component_of ss))" for ss by (cases ss) auto
  then show ?thesis using \<open>\<And>ss. RootDir \<notin> set (map component_of ss)\<close>
    unfolding components_def by (auto simp del: set_map)
qed

text \<open>The configuration that is found without being named is the one in the nearest directory,
  from the current one up to the root; when there is none the error names the directory the
  search started from.\<close>

theorem discovery_finds_the_nearest:
  "discover_config w start_dir =
     (case find (\<lambda>d. w_is_file w (config_candidate d)) (search_path (components start_dir)) of
        Some d \<Rightarrow> Inr (config_candidate d)
      | None \<Rightarrow> Inl (CE_ConfigNotFound start_dir))"
  using discover_from_search [OF components_root]
  by (simp add: discover_config_def split: option.split)

end
