(* ===== verification/Health.thy ===== *)
theory Health
  imports Event Envfile Field_Checks Validation
begin

text \<open>
  \<open>crates/servicrab-core/src/runtime/health.rs\<close>: probes and the monitor of one running process.
  What a probe asks of the machine is a record of functions: running a command, exchanging one
  HTTP request, connecting, and \<open>tokio::time::timeout\<close>.  How Rust writes \<open>{:?}\<close> of a string and
  humantime a duration are functions of it too.  The monitor is one function per tick; a tick
  says whether the runner still listens, how long the process has been up and how the probe went.
\<close>

section \<open>Probes\<close>

record probe_world =
  pw_run :: "string \<Rightarrow> string list \<Rightarrow> path \<Rightarrow> (string, string) btmap \<Rightarrow> string + int option \<times> string"
  pw_connect :: "string \<Rightarrow> string + unit"
  pw_send :: "string \<Rightarrow> string \<Rightarrow> string + unit"
  pw_first_line :: "string \<Rightarrow> string \<Rightarrow> string + string"
  pw_times_out :: "health_probe \<Rightarrow> duration \<Rightarrow> bool"
  pw_debug :: "string \<Rightarrow> string"
  pw_show_duration :: "duration \<Rightarrow> string"

record probe_context =
  pc_cwd :: path
  pc_env :: "(string, string) btmap"

definition run_command_probe :: "probe_world \<Rightarrow> string \<Rightarrow> string list \<Rightarrow> probe_context \<Rightarrow> string + unit" where
  "run_command_probe pw executable args ctx =
     (case pw_run pw executable args (pc_cwd ctx) (pc_env ctx) of
        Inl e \<Rightarrow> Inl (''failed to run '' @ pw_debug pw executable @ '': '' @ e)
      | Inr (code, stderr) \<Rightarrow>
          if code = Some 0 then Inr ()
          else
            let detail = trim (case str_lines stderr of [] \<Rightarrow> [] | ls \<Rightarrow> last ls);
                status = (case code of
                    Some c \<Rightarrow> ''exited with code '' @ show_int c
                  | None \<Rightarrow> ''terminated by a signal'')
            in Inl (if detail = [] then ''probe command '' @ status
                    else ''probe command '' @ status @ '': '' @ detail))"

definition connect_target :: "string \<Rightarrow> u16 \<Rightarrow> string" where
  "connect_target host port =
     (if CHR '':'' \<in> set host \<and> \<not> starts_with ''['' host
      then ''['' @ host @ '']:'' @ show_nat (unat port)
      else host @ '':'' @ show_nat (unat port))"

definition connect :: "probe_world \<Rightarrow> string \<Rightarrow> u16 \<Rightarrow> string + unit" where
  "connect pw host port =
     (case pw_connect pw (connect_target host port) of
        Inr _ \<Rightarrow> Inr ()
      | Inl e \<Rightarrow> Inl (''failed to connect to '' @ connect_target host port @ '': '' @ e))"

definition run_tcp_probe :: "probe_world \<Rightarrow> string \<Rightarrow> u16 \<Rightarrow> string + unit" where
  "run_tcp_probe pw host port = connect pw host port"

definition crlf :: string where
  "crlf = [byte 13, byte 10]"

definition http_request :: "string \<Rightarrow> u16 \<Rightarrow> string \<Rightarrow> string" where
  "http_request host port request =
     ''GET '' @ request @ '' HTTP/1.1'' @ crlf
     @ ''Host: '' @ host @ '':'' @ show_nat (unat port) @ crlf
     @ ''User-Agent: servicrab'' @ crlf @ ''Accept: */*'' @ crlf
     @ ''Connection: close'' @ crlf @ crlf"

text \<open>\<open>split_whitespace\<close>: the words between white space.\<close>

function split_words :: "string \<Rightarrow> string \<Rightarrow> string list" where
  "split_words [] word = (if word = [] then [] else [word])"
| "split_words (c # s) word =
     (case white_start (c # s) of
        Some r \<Rightarrow> (if word = [] then [] else [word]) @ split_words r []
      | None \<Rightarrow> split_words s (word @ [c]))"
  by pat_completeness auto
termination split_words
  by (relation "measure (\<lambda>(s, word). length s)") (auto dest: white_start_shorter)

definition split_whitespace :: "string \<Rightarrow> string list" where
  "split_whitespace s = split_words s []"

text \<open>What the first line of the response says.\<close>

definition http_verdict :: "probe_world \<Rightarrow> string \<Rightarrow> string + unit" where
  "http_verdict pw line =
     (let status_line = trim_end line in
      case (case split_whitespace status_line of _ # code # _ \<Rightarrow> parse_u16 code | _ \<Rightarrow> None) of
        None \<Rightarrow> Inl (''malformed status line '' @ pw_debug pw status_line)
      | Some code \<Rightarrow>
          if 200 \<le> code \<and> code < 400 then Inr ()
          else Inl (''unhealthy HTTP status '' @ show_nat (unat code)))"

definition run_http_probe :: "probe_world \<Rightarrow> string \<Rightarrow> u16 \<Rightarrow> string \<Rightarrow> string + unit" where
  "run_http_probe pw host port request =
     (let target = connect_target host port; message = http_request host port request in
      case connect pw host port of
        Inl e \<Rightarrow> Inl e
      | Inr _ \<Rightarrow>
          (case pw_send pw target message of
             Inl e \<Rightarrow> Inl (''failed to send the request: '' @ e)
           | Inr _ \<Rightarrow>
               (case pw_first_line pw target message of
                  Inl e \<Rightarrow> Inl (''failed to read the response: '' @ e)
                | Inr line \<Rightarrow> http_verdict pw line)))"

definition probe_once :: "probe_world \<Rightarrow> health_probe \<Rightarrow> probe_context \<Rightarrow> duration \<Rightarrow> string + unit" where
  "probe_once pw probe ctx timeout =
     (if pw_times_out pw probe timeout
      then Inl (''probe timed out after '' @ pw_show_duration pw timeout)
      else case probe of
             HP_Command executable args \<Rightarrow> run_command_probe pw executable args ctx
           | HP_Http url host port request \<Rightarrow> run_http_probe pw host port request
           | HP_Tcp host port \<Rightarrow> run_tcp_probe pw host port)"

section \<open>The monitor\<close>

definition max_consecutive_failures :: u32 where
  "max_consecutive_failures = 100000"

definition report_failure_every :: u32 where
  "report_failure_every = 100"

text \<open>\<open>u32::saturating_add\<close>.\<close>

definition u32_saturating_add :: "u32 \<Rightarrow> u32 \<Rightarrow> u32" where
  "u32_saturating_add a b = (if unat a + unat b < 2 ^ 32 then a + b else - 1)"

definition should_report_failure :: "u32 \<Rightarrow> u32 \<Rightarrow> u32 \<Rightarrow> bool" where
  "should_report_failure consecutive retries reported_at =
     (consecutive = 1 \<or> consecutive = retries
      \<or> u32_saturating_add reported_at report_failure_every \<le> consecutive)"

datatype health_signal = HS_Ready | HS_Unhealthy string

fun signals_unhealthy :: "health_signal \<Rightarrow> bool" where
  "signals_unhealthy HS_Ready = False"
| "signals_unhealthy (HS_Unhealthy _) = True"

record health_monitor =
  hm_check :: health_check
  hm_ctx :: probe_context
  hm_name :: service_name

definition monitor_for_service :: "service \<Rightarrow> health_monitor option" where
  "monitor_for_service s =
     map_option (\<lambda>check. \<lparr> hm_check = check, hm_ctx = \<lparr> pc_cwd = svc_cwd s, pc_env = svc_env s \<rparr>,
       hm_name = svc_name s \<rparr>) (svc_health s)"

text \<open>The local variables of \<open>run\<close>.\<close>

record monitor_state =
  ms_consecutive :: u32
  ms_ready :: bool
  ms_reported_at :: u32

definition monitor_start :: monitor_state where
  "monitor_start = \<lparr> ms_consecutive = 0, ms_ready = False, ms_reported_at = 0 \<rparr>"

definition ceiling_of :: "health_check \<Rightarrow> u32" where
  "ceiling_of check = max max_consecutive_failures (hc_retries check)"

text \<open>What one iteration of the loop publishes and sends to the runner.\<close>

record tick_output =
  to_events :: "event_kind list"
  to_signal :: "health_signal option"

definition silent :: tick_output where
  "silent = \<lparr> to_events = [], to_signal = None \<rparr>"

definition on_pass :: "monitor_state \<Rightarrow> monitor_state \<times> tick_output" where
  "on_pass m =
     (let m = m\<lparr> ms_consecutive := 0, ms_reported_at := 0 \<rparr> in
      if \<not> ms_ready m
      then (m\<lparr> ms_ready := True \<rparr>, \<lparr> to_events = [EK_Healthy], to_signal = Some HS_Ready \<rparr>)
      else (m, silent))"

definition on_failure :: "health_check \<Rightarrow> string \<Rightarrow> monitor_state \<Rightarrow> monitor_state \<times> tick_output" where
  "on_failure check message m =
     (let consecutive = min (saturating_succ (ms_consecutive m)) (ceiling_of check);
          report = should_report_failure consecutive (hc_retries check) (ms_reported_at m);
          m = m\<lparr> ms_consecutive := consecutive \<rparr>;
          m = (if report then m\<lparr> ms_reported_at := consecutive \<rparr> else m);
          failed = (if report then [EK_HealthProbeFailed message consecutive (hc_retries check)] else [])
      in if consecutive = hc_retries check
         then (m\<lparr> ms_ready := False \<rparr>,
               \<lparr> to_events = failed @ [EK_Unhealthy message], to_signal = Some (HS_Unhealthy message) \<rparr>)
         else (m, \<lparr> to_events = failed, to_signal = None \<rparr>))"

definition monitor_tick :: "health_check \<Rightarrow> duration \<Rightarrow> string + unit \<Rightarrow> monitor_state
    \<Rightarrow> monitor_state \<times> tick_output" where
  "monitor_tick check elapsed result m =
     (case result of
        Inr _ \<Rightarrow> on_pass m
      | Inl message \<Rightarrow>
          if elapsed < hc_start_period check then (m, silent) else on_failure check message m)"

text \<open>One turn of the loop: the runner may be gone before the probe or when a signal is sent.\<close>

record tick =
  tk_closed :: bool
  tk_elapsed :: duration
  tk_world :: probe_world
  tk_send_fails :: bool

text \<open>\<open>run\<close>: what is published and what the runner gets, until the runner is gone.\<close>

fun monitor_run :: "health_monitor \<Rightarrow> tick list \<Rightarrow> monitor_state \<Rightarrow> event_kind list \<times> health_signal list" where
  "monitor_run hm [] m = ([], [])"
| "monitor_run hm (t # ts) m =
     (if tk_closed t then ([], [])
      else
        let check = hm_check hm;
            result = probe_once (tk_world t) (hc_probe check) (hm_ctx hm) (hc_timeout check);
            (m, out) = monitor_tick check (tk_elapsed t) result m
        in case to_signal out of
             Some s \<Rightarrow>
               if tk_send_fails t then (to_events out, [])
               else (let (es, ss) = monitor_run hm ts m in (to_events out @ es, s # ss))
           | None \<Rightarrow> (let (es, ss) = monitor_run hm ts m in (to_events out @ es, ss)))"

definition stops_process :: "health_check \<Rightarrow> bool" where
  "stops_process check = (hc_on_unhealthy check = UA_Restart)"

section \<open>The budget\<close>

text \<open>The monitor as its documentation describes it: the failures since the last success, not
  limited by a word, and whether the service is ready.\<close>

fun spec_signals :: "nat \<Rightarrow> duration \<Rightarrow> (duration \<times> (string + unit)) list \<Rightarrow> nat \<Rightarrow> bool \<Rightarrow> health_signal option list" where
  "spec_signals retries grace [] n ready = []"
| "spec_signals retries grace ((elapsed, Inr _) # ts) n ready =
     (if ready then None else Some HS_Ready) # spec_signals retries grace ts 0 True"
| "spec_signals retries grace ((elapsed, Inl message) # ts) n ready =
     (if elapsed < grace then None # spec_signals retries grace ts n ready
      else if Suc n = retries
      then Some (HS_Unhealthy message) # spec_signals retries grace ts (Suc n) False
      else None # spec_signals retries grace ts (Suc n) ready)"

fun monitor_trace :: "health_check \<Rightarrow> (duration \<times> (string + unit)) list \<Rightarrow> monitor_state \<Rightarrow> tick_output list" where
  "monitor_trace check [] m = []"
| "monitor_trace check ((elapsed, result) # ts) m =
     snd (monitor_tick check elapsed result m)
     # monitor_trace check ts (fst (monitor_tick check elapsed result m))"

lemma unat_min: "unat (min a b) = min (unat a) (unat (b :: 'a::len word))"
  by (simp add: min_def word_le_nat_alt)

lemma ceiling_nat: "unat (ceiling_of check) = max 100000 (unat (hc_retries check))"
  by (simp add: ceiling_of_def max_consecutive_failures_def max_def word_le_nat_alt)

lemma next_failure:
  assumes "unat (ms_consecutive m) = min n (max 100000 (unat (hc_retries check)))"
  shows "unat (min (saturating_succ (ms_consecutive m)) (ceiling_of check)) =
    min (Suc n) (max 100000 (unat (hc_retries check)))"
proof -
  have bound: "unat (hc_retries check) < 4294967296" using unsigned_less [of "hc_retries check"] by simp
  have top: "unat (- 1 :: u32) = 4294967295" by (simp add: unsigned_minus_1_eq_mask mask_eq_exp_minus_1)
  show ?thesis
  proof (cases "ms_consecutive m = - 1")
    case True
    then have "unat (ms_consecutive m) = 4294967295" using top by simp
    then show ?thesis using True assms bound top by (simp add: unat_min ceiling_nat unat_saturating_succ)
  next
    case False
    then show ?thesis using assms by (simp add: unat_min ceiling_nat unat_saturating_succ)
  qed
qed

lemma on_failure_simps:
  "ms_consecutive (fst (on_failure check message m)) =
     min (saturating_succ (ms_consecutive m)) (ceiling_of check)"
  "ms_ready (fst (on_failure check message m)) =
     (ms_ready m \<and> min (saturating_succ (ms_consecutive m)) (ceiling_of check) \<noteq> hc_retries check)"
  "to_signal (snd (on_failure check message m)) =
     (if min (saturating_succ (ms_consecutive m)) (ceiling_of check) = hc_retries check
      then Some (HS_Unhealthy message) else None)"
  by (simp_all add: on_failure_def Let_def)

lemma on_pass_simps:
  "ms_consecutive (fst (on_pass m)) = 0" "ms_ready (fst (on_pass m))" "ms_reported_at (fst (on_pass m)) = 0"
  "to_signal (snd (on_pass m)) = (if ms_ready m then None else Some HS_Ready)"
  by (simp_all add: on_pass_def Let_def silent_def)

lemma retries_reached:
  assumes "unat c = min (Suc n) (max 100000 (unat (hc_retries check)))" and "unat (hc_retries check) < 100000"
  shows "c = hc_retries check \<longleftrightarrow> Suc n = unat (hc_retries check)"
  using assms by (auto simp: word_unat_eq_iff min_def)

lemma trace_refines:
  assumes "unat (hc_retries check) < 100000"
    and "unat (ms_consecutive m) = min n (max 100000 (unat (hc_retries check)))" and "ms_ready m = ready"
  shows "map to_signal (monitor_trace check ts m) =
    spec_signals (unat (hc_retries check)) (hc_start_period check) ts n ready"
  using assms(2,3)
proof (induction "unat (hc_retries check)" "hc_start_period check" ts n ready arbitrary: m rule: spec_signals.induct)
  case (2 elapsed u ts n ready)
  then show ?case by (simp add: monitor_tick_def on_pass_simps)
next
  case (3 elapsed message ts n ready)
  let ?c = "min (saturating_succ (ms_consecutive m)) (ceiling_of check)"
  have c: "unat ?c = min (Suc n) (max 100000 (unat (hc_retries check)))"
    by (rule next_failure [OF 3(4)])
  note reached = retries_reached [OF c assms(1)]
  show ?case
  proof (cases "elapsed < hc_start_period check")
    case True
    with 3 show ?thesis by (simp add: monitor_tick_def silent_def)
  next
    case False
    with 3 c reached show ?thesis
      by (cases "Suc n = unat (hc_retries check)") (simp_all add: monitor_tick_def on_failure_simps)
  qed
qed simp

text \<open>C39: For every budget below the ceiling of the counter the monitor signals transitions only, and
  all of them: ready at the first success and at the first one after having been unhealthy,
  unhealthy exactly when the failures since the last success reach \<open>retries\<close>, not counting those of
  the start period.  It goes on after it has signalled unhealthy, as \<open>run\<close> does until the receiver is
  dropped, although the comment on \<open>HealthMonitor\<close> ends the loop there.  The ceiling and the width
  of the counter never show.\<close>

theorem signals_follow_the_budget:
  assumes "unat (hc_retries check) < 100000"
  shows "map to_signal (monitor_trace check ts monitor_start) =
    spec_signals (unat (hc_retries check)) (hc_start_period check) ts 0 False"
  using assms by (intro trace_refines) (simp_all add: monitor_start_def)

section \<open>The order of signals\<close>

definition verdicts :: "health_signal option list \<Rightarrow> bool list" where
  "verdicts ss = map signals_unhealthy (List.map_filter (\<lambda>s. s) ss)"

lemma verdicts_simps [simp]:
  "verdicts [] = []" "verdicts (None # ss) = verdicts ss"
  "verdicts (Some s # ss) = signals_unhealthy s # verdicts ss"
  by (simp_all add: verdicts_def List.map_filter_def)

lemma distinct_adj_hd: "distinct_adj (x # xs) \<longleftrightarrow> (xs \<noteq> [] \<longrightarrow> x \<noteq> hd xs) \<and> distinct_adj xs"
  by (cases xs) auto

lemma spec_alternates:
  "distinct_adj (verdicts (spec_signals retries grace ts n ready))
   \<and> (verdicts (spec_signals retries grace ts n ready) \<noteq> [] \<longrightarrow>
        (ready \<longrightarrow> hd (verdicts (spec_signals retries grace ts n ready)))
        \<and> (\<not> ready \<and> retries \<le> n \<longrightarrow> \<not> hd (verdicts (spec_signals retries grace ts n ready))))"
  by (induction retries grace ts n ready rule: spec_signals.induct) (auto simp: distinct_adj_hd)

definition tick_input :: "health_monitor \<Rightarrow> tick \<Rightarrow> duration \<times> (string + unit)" where
  "tick_input hm t =
     (tk_elapsed t, probe_once (tk_world t) (hc_probe (hm_check hm)) (hm_ctx hm) (hc_timeout (hm_check hm)))"

lemma run_prefix:
  "prefix (map signals_unhealthy (snd (monitor_run hm ts m)))
     (verdicts (map to_signal (monitor_trace (hm_check hm) (map (tick_input hm) ts) m)))"
proof (induction ts arbitrary: m)
  case (Cons t ts)
  obtain m' out where tick: "monitor_tick (hm_check hm) (tk_elapsed t)
      (probe_once (tk_world t) (hc_probe (hm_check hm)) (hm_ctx hm) (hc_timeout (hm_check hm))) m = (m', out)"
    by fastforce
  show ?case
    using Cons.IH [of m'] tick
    by (cases "to_signal out") (auto simp: tick_input_def Let_def case_prod_unfold)
qed simp

lemma distinct_adj_prefix: "prefix xs ys \<Longrightarrow> distinct_adj ys \<Longrightarrow> distinct_adj xs"
  by (auto simp: prefix_def distinct_adj_append_iff)

text \<open>The runner gets readiness and unhealthiness in turns: for every budget below the ceiling, no
  signal is ever repeated, however the probes go and whenever the runner stops listening.\<close>

theorem signals_alternate:
  assumes "unat (hc_retries (hm_check hm)) < 100000"
  shows "distinct_adj (map signals_unhealthy (snd (monitor_run hm ts monitor_start)))"
proof (rule distinct_adj_prefix [OF run_prefix])
  have "map to_signal (monitor_trace (hm_check hm) (map (tick_input hm) ts) monitor_start) =
      spec_signals (unat (hc_retries (hm_check hm))) (hc_start_period (hm_check hm)) (map (tick_input hm) ts) 0 False"
    using assms by (intro trace_refines) (simp_all add: monitor_start_def)
  then show "distinct_adj (verdicts (map to_signal (monitor_trace (hm_check hm) (map (tick_input hm) ts) monitor_start)))"
    using spec_alternates by simp
qed

text \<open>From the ceiling on the transition is not announced once: with \<open>retries\<close> of 100000 or more,
  which the validation accepts, the counter stays at \<open>retries\<close>, and every further failure is
  published and signalled as a new transition to unhealthy.\<close>

theorem large_budget_repeats_unhealthy:
  assumes "100000 \<le> unat (hc_retries check)" and "ms_consecutive m = hc_retries check"
    and "hc_start_period check \<le> elapsed"
  shows "to_signal (snd (monitor_tick check elapsed (Inl message) m)) = Some (HS_Unhealthy message)
    \<and> EK_Unhealthy message \<in> set (to_events (snd (monitor_tick check elapsed (Inl message) m)))
    \<and> ms_consecutive (fst (monitor_tick check elapsed (Inl message) m)) = hc_retries check"
proof -
  have "unat (min (saturating_succ (ms_consecutive m)) (ceiling_of check)) =
      min (Suc (unat (hc_retries check))) (max 100000 (unat (hc_retries check)))"
    using assms(1,2) by (intro next_failure) simp
  then have "min (saturating_succ (ms_consecutive m)) (ceiling_of check) = hc_retries check"
    using assms(1) by (simp add: word_unat_eq_iff)
  then show ?thesis using assms(3) by (simp add: monitor_tick_def on_failure_def Let_def)
qed

section \<open>Reports of an outage\<close>

fun outage :: "health_check \<Rightarrow> string list \<Rightarrow> monitor_state \<Rightarrow> event_kind list" where
  "outage check [] m = []"
| "outage check (message # messages) m =
     to_events (snd (on_failure check message m)) @ outage check messages (fst (on_failure check message m))"

fun is_failure_report :: "event_kind \<Rightarrow> bool" where
  "is_failure_report (EK_HealthProbeFailed _ _ _) = True"
| "is_failure_report _ = False"

definition reports_in :: "event_kind list \<Rightarrow> nat" where
  "reports_in es = length (filter is_failure_report es)"

lemma reports_in_append [simp]: "reports_in (xs @ ys) = reports_in xs + reports_in ys"
  by (simp add: reports_in_def)

definition reports_now :: "nat \<Rightarrow> nat \<Rightarrow> nat \<Rightarrow> bool" where
  "reports_now c retries reported = (c = 1 \<or> c = retries \<or> reported + 100 \<le> c)"

lemma should_report_nat:
  assumes "unat reported \<le> 100000"
  shows "should_report_failure c retries reported = reports_now (unat c) (unat retries) (unat reported)"
proof -
  have "unat (reported + 100) = unat reported + 100"
    using assms by (subst unat_add_lem [THEN iffD1]) simp_all
  then show ?thesis
    using assms
    by (auto simp: should_report_failure_def reports_now_def u32_saturating_add_def report_failure_every_def
        word_unat_eq_iff word_le_nat_alt)
qed

text \<open>What is left to be reported with \<open>n\<close> failures to come.\<close>

definition report_credit :: "nat \<Rightarrow> nat \<Rightarrow> nat \<Rightarrow> nat \<Rightarrow> nat" where
  "report_credit retries n c reported =
     (min (c + n) 100000 - reported) + (if c < 1 then 100 else 0) + (if c < retries then 100 else 0)"

lemma report_credit_step:
  assumes "reported \<le> c" and "c \<le> 100000" and "retries < 100000" and "c' = min (Suc c) 100000"
  shows "100 * (if reports_now c' retries reported then 1 else 0)
    + report_credit retries n c' (if reports_now c' retries reported then c' else reported)
    \<le> report_credit retries (Suc n) c reported"
  using assms by (auto simp: report_credit_def reports_now_def min_def)

lemma on_failure_reports:
  "reports_in (to_events (snd (on_failure check message m))) =
     (if should_report_failure (min (saturating_succ (ms_consecutive m)) (ceiling_of check))
          (hc_retries check) (ms_reported_at m) then 1 else 0)"
  "ms_reported_at (fst (on_failure check message m)) =
     (if should_report_failure (min (saturating_succ (ms_consecutive m)) (ceiling_of check))
          (hc_retries check) (ms_reported_at m)
      then min (saturating_succ (ms_consecutive m)) (ceiling_of check) else ms_reported_at m)"
  by (simp_all add: on_failure_def Let_def reports_in_def)

lemma outage_credit:
  assumes "unat (hc_retries check) < 100000"
  shows "unat (ms_reported_at m) \<le> unat (ms_consecutive m) \<Longrightarrow> unat (ms_consecutive m) \<le> 100000 \<Longrightarrow>
    100 * reports_in (outage check messages m) \<le>
      report_credit (unat (hc_retries check)) (length messages) (unat (ms_consecutive m)) (unat (ms_reported_at m))"
proof (induction messages arbitrary: m)
  case Nil
  then show ?case by (simp add: reports_in_def)
next
  case (Cons message messages)
  let ?c = "unat (ms_consecutive m)" and ?c' = "min (saturating_succ (ms_consecutive m)) (ceiling_of check)"
  let ?r = "unat (ms_reported_at m)"
  have c': "unat ?c' = min (Suc ?c) 100000"
    using next_failure [of m ?c check] Cons.prems(2) assms by simp
  have report: "should_report_failure ?c' (hc_retries check) (ms_reported_at m) =
      reports_now (unat ?c') (unat (hc_retries check)) ?r"
    using Cons.prems by (intro should_report_nat) simp
  let ?m = "fst (on_failure check message m)"
  have m: "unat (ms_consecutive ?m) = min (Suc ?c) 100000"
    "unat (ms_reported_at ?m) = (if reports_now (unat ?c') (unat (hc_retries check)) ?r then unat ?c' else ?r)"
    using c' report by (simp_all add: on_failure_simps on_failure_reports)
  have "100 * reports_in (outage check messages ?m) \<le>
      report_credit (unat (hc_retries check)) (length messages) (unat (ms_consecutive ?m)) (unat (ms_reported_at ?m))"
    using Cons.prems m c' by (intro Cons.IH) auto
  moreover have "100 * (if reports_now (unat ?c') (unat (hc_retries check)) ?r then 1 else 0)
      + report_credit (unat (hc_retries check)) (length messages) (unat ?c')
          (if reports_now (unat ?c') (unat (hc_retries check)) ?r then unat ?c' else ?r)
      \<le> report_credit (unat (hc_retries check)) (Suc (length messages)) ?c ?r"
    using report_credit_step [OF Cons.prems assms c'] .
  ultimately show ?case using m c' report by (simp add: on_failure_reports(1))
qed

text \<open>A probe that is dead for good is not a perpetual source of events: an outage of \<open>n\<close> failures
  is reported at most \<open>n / 100 + 2\<close> times, and never more than 1002 times however long it lasts.\<close>

theorem outage_reports_are_bounded:
  assumes "unat (hc_retries check) < 100000" and "ms_consecutive m = 0" and "ms_reported_at m = 0"
  shows "100 * reports_in (outage check messages m) \<le> min (length messages) 100000 + 200"
  using outage_credit [OF assms(1), of m messages] assms(2,3) by (simp add: report_credit_def split: if_splits)

section \<open>Examples\<close>

definition example_check :: health_check where
  "example_check = \<lparr> hc_probe = HP_Tcp ''localhost'' 5432, hc_interval = 2, hc_timeout = 5, hc_retries = 2,
     hc_start_period = 1, hc_on_unhealthy = UA_Ignore \<rparr>"

theorem signals_follow_the_budget_witness:
  "map to_signal (monitor_trace example_check
      [(0, Inl ''early''), (1, Inl ''a''), (2, Inr ()), (3, Inl ''b''), (4, Inl ''c''), (5, Inl ''d''), (6, Inr ())] monitor_start)
   = [None, None, Some HS_Ready, None, Some (HS_Unhealthy ''c''), None, Some HS_Ready]"
  by (subst signals_follow_the_budget) (simp_all add: example_check_def)

theorem signals_alternate_witness:
  "\<forall>ts. distinct_adj (map signals_unhealthy (snd (monitor_run
     \<lparr> hm_check = example_check, hm_ctx = \<lparr> pc_cwd = ''/'', pc_env = [] \<rparr>, hm_name = ''db'' \<rparr> ts monitor_start)))"
  by (intro allI signals_alternate) (simp add: example_check_def)

theorem large_budget_repeats_unhealthy_witness:
  "to_signal (snd (monitor_tick (example_check\<lparr> hc_retries := 100000 \<rparr>) 9 (Inl ''down'')
     (monitor_start\<lparr> ms_consecutive := 100000 \<rparr>))) = Some (HS_Unhealthy ''down'')"
  by (rule large_budget_repeats_unhealthy [THEN conjunct1]) (simp_all add: example_check_def)

theorem outage_reports_are_bounded_witness:
  "100 * reports_in (outage example_check (replicate 100000 ''down'') monitor_start) \<le> 100200"
  using outage_reports_are_bounded [of example_check monitor_start "replicate 100000 ''down''"]
  by (simp add: example_check_def monitor_start_def)

end
