(* ===== verification/Filewatch.thy ===== *)
theory Filewatch
  imports Event Paths
begin

text \<open>
  \<open>crates/servicrab-core/src/runtime/filewatch.rs\<close> and \<open>WatchSettings::is_ignored\<close> of
  \<open>config.rs\<close>: scanning the watched tree, comparing two scans, and the watcher of one service.
  A path is its list of components.  The file system is a pair of functions, the metadata of a
  path and the names in a directory; both fail with \<open>None\<close>.
\<close>

section \<open>Scans\<close>

type_synonym comps = "component list"

record file_meta =
  fm_dir :: bool
  fm_modified :: "nat option"
  fm_len :: u64

record file_system =
  fs_meta :: "comps \<Rightarrow> file_meta option"
  fs_names :: "comps \<Rightarrow> string list option"

definition max_entries :: nat where
  "max_entries = 20000"

definition max_depth :: nat where
  "max_depth = 64"

definition max_debounce_rounds :: nat where
  "max_debounce_rounds = 10"

record file_stamp =
  st_modified :: "nat option"
  st_len :: u64

record scan =
  sc_files :: "(comps, file_stamp) btmap"
  sc_truncated :: bool
  sc_too_deep :: bool

definition scan_empty :: scan where
  "scan_empty = \<lparr> sc_files = [], sc_truncated = False, sc_too_deep = False \<rparr>"

text \<open>\<open>sort\<close> and \<open>dedup\<close>.\<close>

definition sort_dedup :: "'a::linorder list \<Rightarrow> 'a list" where
  "sort_dedup xs = remdups_adj (sort xs)"

definition scan_changes :: "scan \<Rightarrow> scan \<Rightarrow> comps list" where
  "scan_changes old new =
     sort_dedup
       (map fst (filter (\<lambda>(p, stamp). bt_get (sc_files old) p \<noteq> Some stamp) (sc_files new))
        @ filter (\<lambda>p. bt_get (sc_files new) p = None) (bt_keys (sc_files old)))"

text \<open>One \<open>ignore\<close> entry: a pattern of an extension, a prefix, or the name of a component.\<close>

definition ignore_matches :: "string \<Rightarrow> comps \<Rightarrow> bool" where
  "ignore_matches entry relative =
     (case strip_prefix ''*.'' entry of
        Some ext \<Rightarrow> comps_extension relative = Some ext
      | None \<Rightarrow>
          if CHR ''/'' \<in> set entry then comps_starts_with relative (components entry)
          else list_ex (\<lambda>c. component_text c = entry) relative)"

definition is_ignored :: "watch_settings \<Rightarrow> comps \<Rightarrow> bool" where
  "is_ignored settings relative = list_ex (\<lambda>entry. ignore_matches entry relative) (ws_ignore settings)"

definition stamp_of :: "file_meta \<Rightarrow> file_stamp" where
  "stamp_of m = \<lparr> st_modified = fm_modified m, st_len = fm_len m \<rparr>"

text \<open>\<open>walk\<close>; \<open>levels\<close> is \<open>MAX_DEPTH - depth\<close>.\<close>

fun walk :: "file_system \<Rightarrow> watch_settings \<Rightarrow> comps \<Rightarrow> nat \<Rightarrow> comps \<Rightarrow> scan \<Rightarrow> scan"
  and walk_children :: "file_system \<Rightarrow> watch_settings \<Rightarrow> comps \<Rightarrow> nat \<Rightarrow> comps list \<Rightarrow> scan \<Rightarrow> scan" where
  "walk fs settings root levels p out =
     (if max_entries \<le> length (sc_files out) then out\<lparr> sc_truncated := True \<rparr>
      else
        let relative = drop (length root) p in
        if relative \<noteq> [] \<and> is_ignored settings relative then out
        else case fs_meta fs p of
               None \<Rightarrow> out
             | Some meta \<Rightarrow>
                 if fm_dir meta then
                   (case levels of
                      0 \<Rightarrow> out\<lparr> sc_too_deep := True \<rparr>
                    | Suc levels \<Rightarrow>
                        (case fs_names fs p of
                           None \<Rightarrow> out
                         | Some names \<Rightarrow>
                             walk_children fs settings root levels (sort (map (\<lambda>n. p @ [Normal n]) names)) out))
                 else out\<lparr> sc_files := bt_insert p (stamp_of meta) (sc_files out) \<rparr>)"
| "walk_children fs settings root levels [] out = out"
| "walk_children fs settings root levels (child # children) out =
     (let out = walk fs settings root levels child out in
      if sc_truncated out then out else walk_children fs settings root levels children out)"

fun scan_roots :: "file_system \<Rightarrow> watch_settings \<Rightarrow> comps list \<Rightarrow> scan \<Rightarrow> scan" where
  "scan_roots fs settings [] out = out"
| "scan_roots fs settings (root # roots) out =
     (let out = walk fs settings root max_depth root out in
      if sc_truncated out then out else scan_roots fs settings roots out)"

definition scan_tree :: "file_system \<Rightarrow> watch_settings \<Rightarrow> scan" where
  "scan_tree fs settings = scan_roots fs settings (map components (ws_paths settings)) scan_empty"

section \<open>The watcher of one service\<close>

text \<open>
  The results of the scans are a function of their number: \<open>None\<close> when the blocking pool is gone.
  The supervisor answers a restart request, refuses it, or drops the answer.
\<close>

datatype watch_answer = Answered | Refused string | Dropped

datatype watch_action = WA_Event event_kind | WA_Restart service_name

record watch_state =
  wt_previous :: scan
  wt_scans :: nat

datatype watch_result = Watching watch_state | WatchEnded

text \<open>The debounce loop: how many scans were taken, the last one, and what changed; \<open>None\<close> is a
  return.\<close>

fun debounce :: "(nat \<Rightarrow> scan option) \<Rightarrow> nat \<Rightarrow> nat \<Rightarrow> scan \<Rightarrow> comps list \<Rightarrow> (nat \<times> scan \<times> comps list) option" where
  "debounce scans 0 i current changed = Some (i, current, changed)"
| "debounce scans (Suc rounds) i current changed =
     (case scans i of
        None \<Rightarrow> None
      | Some settled \<Rightarrow>
          let extra = scan_changes current settled in
          if extra = [] then Some (Suc i, settled, changed)
          else debounce scans rounds (Suc i) settled (changed @ extra))"

definition watch_start :: "(nat \<Rightarrow> scan option) \<Rightarrow> watch_action list \<times> watch_result" where
  "watch_start scans =
     (case scans 0 of
        None \<Rightarrow> ([], WatchEnded)
      | Some previous \<Rightarrow>
          (if sc_truncated previous then [WA_Event (EK_WatchTruncated max_entries)] else [],
           Watching \<lparr> wt_previous = previous, wt_scans = 1 \<rparr>))"

text \<open>What follows once the tree has settled.\<close>

definition watch_request :: "(nat \<Rightarrow> scan option) \<Rightarrow> service_name \<Rightarrow> bool \<Rightarrow> watch_answer \<Rightarrow> nat \<Rightarrow> comps list
    \<Rightarrow> watch_action list \<times> watch_result" where
  "watch_request scans service control_open answer i changed =
     (let changed = sort_dedup changed;
          first = (case changed of [] \<Rightarrow> [] | p # _ \<Rightarrow> show_path p);
          triggered = WA_Event (EK_WatchTriggered first (length changed)) in
      if \<not> control_open then ([triggered], WatchEnded)
      else case answer of
             Dropped \<Rightarrow> ([triggered, WA_Restart service], WatchEnded)
           | _ \<Rightarrow>
               (let failed = (case answer of Refused reason \<Rightarrow> [WA_Event (EK_WatchFailed reason)] | _ \<Rightarrow> []) in
                ([triggered, WA_Restart service] @ failed,
                 case scans i of
                   None \<Rightarrow> WatchEnded
                 | Some next \<Rightarrow> Watching \<lparr> wt_previous = next, wt_scans = Suc i \<rparr>)))"

text \<open>One turn of the loop.\<close>

definition watch_turn :: "(nat \<Rightarrow> scan option) \<Rightarrow> service_name \<Rightarrow> bool \<Rightarrow> watch_answer \<Rightarrow> watch_state
    \<Rightarrow> watch_action list \<times> watch_result" where
  "watch_turn scans service control_open answer w =
     (case scans (wt_scans w) of
        None \<Rightarrow> ([], WatchEnded)
      | Some current \<Rightarrow>
          let changed = scan_changes (wt_previous w) current in
          if changed = [] then ([], Watching (w\<lparr> wt_scans := Suc (wt_scans w) \<rparr>))
          else case debounce scans max_debounce_rounds (Suc (wt_scans w)) current changed of
                 None \<Rightarrow> ([], WatchEnded)
               | Some (i, _, changed) \<Rightarrow> watch_request scans service control_open answer i changed)"

text \<open>\<open>watched_services\<close>, which \<open>spawn_watchers\<close> starts a watcher for.\<close>

definition watched_services :: "config \<Rightarrow> service_name list \<Rightarrow> service_name list" where
  "watched_services config plan =
     filter (\<lambda>name. case bt_get (cfg_services config) name of
       None \<Rightarrow> False | Some s \<Rightarrow> svc_watch s \<noteq> None) plan"

fun spawn_watchers :: "config \<Rightarrow> service_name list \<Rightarrow> (service_name \<times> watch_settings) list" where
  "spawn_watchers config [] = []"
| "spawn_watchers config (name # plan) =
     (case bt_get (cfg_services config) name of
        None \<Rightarrow> spawn_watchers config plan
      | Some s \<Rightarrow>
          (case svc_watch s of
             None \<Rightarrow> spawn_watchers config plan
           | Some settings \<Rightarrow> (name, settings) # spawn_watchers config plan))"

section \<open>Comparing scans\<close>

lemma set_sort_dedup [simp]: "set (sort_dedup xs) = set xs"
  by (simp add: sort_dedup_def)

lemma distinct_dedup: "sorted xs \<Longrightarrow> distinct (remdups_adj xs)"
proof (induction xs rule: remdups_adj.induct)
  case (3 x y xs)
  then show ?case by (cases "x = y") auto
qed simp_all

lemma sorted_sort_dedup: "sorted (sort_dedup xs) \<and> distinct (sort_dedup xs)"
  by (simp add: sort_dedup_def sorted_remdups_adj distinct_dedup)

lemma changes_set:
  assumes "bt_wf (sc_files new)"
  shows "set (scan_changes old new) = {p. bt_get (sc_files old) p \<noteq> bt_get (sc_files new) p}"
proof -
  have "p \<in> set (scan_changes old new) \<longleftrightarrow> bt_get (sc_files old) p \<noteq> bt_get (sc_files new) p" for p
  proof (cases "bt_get (sc_files new) p")
    case None
    then have "(p, stamp) \<notin> set (sc_files new)" for stamp
      using bt_get_eq_iff [OF assms, of p] by auto
    then show ?thesis using None bt_get_dom [of "sc_files old" p]
      by (auto simp: scan_changes_def bt_keys_def)
  next
    case (Some stamp)
    then have "(p, s) \<in> set (sc_files new) \<longleftrightarrow> s = stamp" for s
      using bt_get_eq_iff [OF assms, of p s] by auto
    then show ?thesis using Some by (auto simp: scan_changes_def image_iff)
  qed
  then show ?thesis by blast
qed

text \<open>The difference of two scans is exact: it lists, in order and each once, the paths that
  appeared, disappeared or have another stamp, and it is empty only when the files are the same.\<close>

theorem scan_difference_is_exact:
  assumes "bt_wf (sc_files old)" and "bt_wf (sc_files new)"
  shows "set (scan_changes old new) = {p. bt_get (sc_files old) p \<noteq> bt_get (sc_files new) p}
    \<and> sorted (scan_changes old new) \<and> distinct (scan_changes old new)
    \<and> (scan_changes old new = [] \<longleftrightarrow> sc_files old = sc_files new)"
proof -
  have "sc_files old = sc_files new" if "scan_changes old new = []"
    using that changes_set [OF assms(2), of old] by (intro bt_eqI [OF assms]) auto
  moreover have "scan_changes old new = []" if "sc_files old = sc_files new"
  proof -
    have "set (scan_changes old new) = {}" unfolding changes_set [OF assms(2)] using that by simp
    then show ?thesis by simp
  qed
  ultimately show ?thesis
    using changes_set [OF assms(2), of old] sorted_sort_dedup by (auto simp: scan_changes_def)
qed

section \<open>What a scan sees\<close>

definition admitted :: "watch_settings \<Rightarrow> comps \<Rightarrow> comps \<Rightarrow> bool" where
  "admitted settings root p =
     (drop (length root) p = [] \<or> \<not> is_ignored settings (drop (length root) p))"

text \<open>The paths below \<open>p\<close> that are reached through directories that can be read, without entering
  anything that is ignored relative to \<open>root\<close>.\<close>

inductive visits :: "file_system \<Rightarrow> watch_settings \<Rightarrow> comps \<Rightarrow> comps \<Rightarrow> comps \<Rightarrow> bool"
  for fs settings root where
  here: "admitted settings root p \<Longrightarrow> visits fs settings root p p"
| below: "admitted settings root p \<Longrightarrow> fs_meta fs p = Some m \<Longrightarrow> fm_dir m \<Longrightarrow> fs_names fs p = Some names \<Longrightarrow>
    n \<in> set names \<Longrightarrow> visits fs settings root (p @ [Normal n]) q \<Longrightarrow> visits fs settings root p q"

inductive_cases visitsE: "visits fs settings root p q"

definition stamp_at :: "file_system \<Rightarrow> comps \<Rightarrow> file_stamp option" where
  "stamp_at fs p =
     (case fs_meta fs p of None \<Rightarrow> None | Some m \<Rightarrow> if fm_dir m then None else Some (stamp_of m))"

definition sees :: "file_system \<Rightarrow> watch_settings \<Rightarrow> comps \<Rightarrow> comps \<Rightarrow> comps \<Rightarrow> bool" where
  "sees fs settings root p q = (visits fs settings root p q \<and> stamp_at fs q \<noteq> None)"

text \<open>The tree at \<open>p\<close> by its own metadata.\<close>

lemma sees_hidden: "\<not> admitted settings root p \<Longrightarrow> \<not> sees fs settings root p q"
  by (auto simp: sees_def elim: visitsE)

lemma sees_missing: "fs_meta fs p = None \<Longrightarrow> \<not> sees fs settings root p q"
  by (auto simp: sees_def stamp_at_def elim: visitsE)

lemma sees_file:
  "fs_meta fs p = Some m \<Longrightarrow> \<not> fm_dir m \<Longrightarrow> sees fs settings root p q \<longleftrightarrow> admitted settings root p \<and> q = p"
  by (auto simp: sees_def stamp_at_def elim: visitsE intro: here)

lemma sees_unreadable:
  "fs_meta fs p = Some m \<Longrightarrow> fm_dir m \<Longrightarrow> fs_names fs p = None \<Longrightarrow> \<not> sees fs settings root p q"
  by (auto simp: sees_def stamp_at_def elim: visitsE)

lemma sees_dir:
  "fs_meta fs p = Some m \<Longrightarrow> fm_dir m \<Longrightarrow> fs_names fs p = Some names \<Longrightarrow>
     sees fs settings root p q \<longleftrightarrow>
       admitted settings root p \<and> (\<exists>c \<in> set (sort (map (\<lambda>n. p @ [Normal n]) names)). sees fs settings root c q)"
proof -
  assume d: "fs_meta fs p = Some m" "fm_dir m" "fs_names fs p = Some names"
  have no_stamp: "stamp_at fs p = None" using d by (simp add: stamp_at_def)
  show ?thesis
  proof
    assume s: "sees fs settings root p q"
    then have "visits fs settings root p q" and q: "stamp_at fs q \<noteq> None" by (simp_all add: sees_def)
    from this(1) show "admitted settings root p \<and>
        (\<exists>c \<in> set (sort (map (\<lambda>n. p @ [Normal n]) names)). sees fs settings root c q)"
    proof cases
      case here
      with q no_stamp show ?thesis by simp
    next
      case (below m' names' n)
      then have "p @ [Normal n] \<in> set (sort (map (\<lambda>n. p @ [Normal n]) names))" using d(3) by simp
      moreover have "sees fs settings root (p @ [Normal n]) q" using below q by (simp add: sees_def)
      ultimately show ?thesis using below(1) by blast
    qed
  next
    assume "admitted settings root p \<and>
        (\<exists>c \<in> set (sort (map (\<lambda>n. p @ [Normal n]) names)). sees fs settings root c q)"
    then obtain n where "admitted settings root p" "n \<in> set names" "sees fs settings root (p @ [Normal n]) q"
      by auto
    then show "sees fs settings root p q" using below [OF _ d] by (simp add: sees_def)
  qed
qed

declare walk.simps [simp del]

lemma length_bt_insert: "length (bt_insert k v m) \<le> Suc (length m)"
  by (induction k v m rule: bt_insert.induct) auto

definition keeps :: "scan \<Rightarrow> scan \<Rightarrow> bool" where
  "keeps out out' =
     ((sc_too_deep out \<longrightarrow> sc_too_deep out') \<and> (bt_wf (sc_files out) \<longrightarrow> bt_wf (sc_files out'))
      \<and> (length (sc_files out) \<le> max_entries \<longrightarrow> length (sc_files out') \<le> max_entries))"

lemma keeps_refl: "keeps out out"
  by (simp add: keeps_def)

lemma keeps_trans: "keeps a b \<Longrightarrow> keeps b c \<Longrightarrow> keeps a c"
  by (auto simp: keeps_def)

lemma walk_cases:
  obtains (full) "max_entries \<le> length (sc_files out)"
      "walk fs settings root levels p out = out\<lparr> sc_truncated := True \<rparr>"
    | (hidden) "\<not> admitted settings root p" "walk fs settings root levels p out = out"
    | (missing) "fs_meta fs p = None" "walk fs settings root levels p out = out"
    | (regular) m where "length (sc_files out) < max_entries" "fs_meta fs p = Some m" "\<not> fm_dir m"
      "admitted settings root p"
      "walk fs settings root levels p out = out\<lparr> sc_files := bt_insert p (stamp_of m) (sc_files out) \<rparr>"
    | (deep) "walk fs settings root levels p out = out\<lparr> sc_too_deep := True \<rparr>"
    | (unreadable) m where "fs_meta fs p = Some m" "fm_dir m" "fs_names fs p = None"
      "walk fs settings root levels p out = out"
    | (dir) m names levels' where "fs_meta fs p = Some m" "fm_dir m" "fs_names fs p = Some names"
      "admitted settings root p" "levels = Suc levels'"
      "walk fs settings root levels p out =
         walk_children fs settings root levels' (sort (map (\<lambda>n. p @ [Normal n]) names)) out"
proof (cases "max_entries \<le> length (sc_files out)")
  case True
  then show ?thesis by (intro full) (simp_all add: walk.simps)
next
  case room: False
  show ?thesis
  proof (cases "admitted settings root p")
    case False
    then show ?thesis using room by (intro hidden) (simp_all add: walk.simps admitted_def Let_def)
  next
    case ok: True
    note w = walk.simps [of fs settings root levels p out]
    show ?thesis
    proof (cases "fs_meta fs p")
      case None
      then show ?thesis using room ok by (intro missing) (simp_all add: w admitted_def Let_def)
    next
      case (Some m)
      show ?thesis
      proof (cases "fm_dir m")
        case False
        then show ?thesis using room ok Some by (intro regular [of m]) (auto simp: w admitted_def Let_def)
      next
        case True
        show ?thesis
        proof (cases levels)
          case 0
          then show ?thesis using room ok Some True by (intro deep) (auto simp: walk.simps [of fs settings root 0 p out] admitted_def Let_def)
        next
          case (Suc l)
          note w' = w [unfolded Suc]
          show ?thesis
          proof (cases "fs_names fs p")
            case None
            then show ?thesis using room ok Some True Suc
              by (intro unreadable [of m]) (auto simp: w' admitted_def Let_def)
          next
            case names: (Some names)
            then show ?thesis using room ok Some True Suc
              by (intro dir [of m names l]) (auto simp: w' admitted_def Let_def)
          qed
        qed
      qed
    qed
  qed
qed

lemma walk_keeps:
  "keeps out (walk fs settings root levels p out)"
  "keeps out (walk_children fs settings root levels children out)"
proof (induction levels arbitrary: p out children)
  case 0
  have one: "keeps out (walk fs settings root 0 p out)" for p out
    by (rule walk_cases [of out fs settings root 0 p])
      (auto simp: keeps_def bt_wf_insert intro: order.trans [OF length_bt_insert])
  {
    case 1 show ?case by (rule one)
  next
    case 2
    show ?case
      by (induction children arbitrary: out) (auto simp: Let_def keeps_refl intro: keeps_trans one)
  }
next
  case (Suc levels)
  have one: "keeps out (walk fs settings root (Suc levels) p out)" for p out
    by (rule walk_cases [of out fs settings root "Suc levels" p])
      (auto simp: keeps_def bt_wf_insert Suc.IH(2) [unfolded keeps_def] intro: order.trans [OF length_bt_insert])
  {
    case 1 show ?case by (rule one)
  next
    case 2
    show ?case
      by (induction children arbitrary: out) (auto simp: Let_def keeps_refl intro: keeps_trans one)
  }
qed

definition records :: "file_system \<Rightarrow> (comps \<Rightarrow> bool) \<Rightarrow> scan \<Rightarrow> scan \<Rightarrow> bool" where
  "records fs seen out out' =
     (\<not> sc_truncated out' \<and> \<not> sc_too_deep out' \<longrightarrow>
        (\<forall>q. bt_get (sc_files out') q = (if seen q then stamp_at fs q else bt_get (sc_files out) q)))"

lemma records_trans:
  assumes "records fs seen out out1" and "records fs seen' out1 out2" and "keeps out1 out2"
    and "\<not> sc_truncated out1"
  shows "records fs (\<lambda>q. seen q \<or> seen' q) out out2"
  using assms by (auto simp: records_def keeps_def)

lemma children_records:
  assumes "\<And>p out. records fs (sees fs settings root p) out (walk fs settings root levels p out)"
  shows "records fs (\<lambda>q. \<exists>c \<in> set children. sees fs settings root c q) out
    (walk_children fs settings root levels children out)"
proof (induction children arbitrary: out)
  case Nil
  then show ?case by (simp add: records_def)
next
  case (Cons child children)
  let ?out = "walk fs settings root levels child out"
  show ?case
  proof (cases "sc_truncated ?out")
    case True
    then show ?thesis by (simp add: records_def Let_def)
  next
    case False
    have "records fs (\<lambda>q. sees fs settings root child q \<or> (\<exists>c \<in> set children. sees fs settings root c q)) out
        (walk_children fs settings root levels children ?out)"
      by (rule records_trans [OF assms Cons.IH walk_keeps(2) False])
    then show ?thesis using False by (simp add: Let_def)
  qed
qed

lemma walk_records: "records fs (sees fs settings root p) out (walk fs settings root levels p out)"
proof (induction levels arbitrary: p out)
  case 0
  show ?case
    by (rule walk_cases [of out fs settings root 0 p])
      (auto simp: records_def sees_hidden sees_missing sees_file sees_unreadable bt_get_insert stamp_at_def)
next
  case (Suc levels)
  note children = children_records [OF Suc.IH]
  show ?case
  proof (rule walk_cases [of out fs settings root "Suc levels" p])
    fix m names levels'
    assume d: "fs_meta fs p = Some m" "fm_dir m" "fs_names fs p = Some names" "admitted settings root p"
      and l: "Suc levels = Suc levels'"
      and w: "walk fs settings root (Suc levels) p out =
         walk_children fs settings root levels' (sort (map (\<lambda>n. p @ [Normal n]) names)) out"
    have eq: "sees fs settings root p = (\<lambda>q. \<exists>c \<in> set (sort (map (\<lambda>n. p @ [Normal n]) names)). sees fs settings root c q)"
      by (intro ext) (simp add: sees_dir [OF d(1-3)] d(4))
    from l have l': "levels' = levels" by simp
    show ?thesis unfolding w eq l' by (rule children)
  qed (auto simp: records_def sees_hidden sees_missing sees_file sees_unreadable bt_get_insert stamp_at_def)
qed

lemma roots_record:
  "keeps out (scan_roots fs settings roots out)"
  "records fs (\<lambda>q. \<exists>root \<in> set roots. sees fs settings root root q) out (scan_roots fs settings roots out)"
proof (induction roots arbitrary: out)
  case Nil
  {
    case 1 show ?case by (simp add: keeps_refl)
  next
    case 2 show ?case by (simp add: records_def)
  }
next
  case (Cons root roots)
  {
    case 1
    show ?case using walk_keeps(1) keeps_trans [OF walk_keeps(1) Cons.IH(1)] by (simp add: Let_def)
  next
    case 2
    let ?out = "walk fs settings root max_depth root out"
    show ?case
    proof (cases "sc_truncated ?out")
      case True
      then have "scan_roots fs settings (root # roots) out = ?out" by (simp add: Let_def)
      with True show ?thesis by (simp only: records_def) simp
    next
      case False
      have "records fs (\<lambda>q. sees fs settings root root q \<or> (\<exists>r \<in> set roots. sees fs settings r r q)) out
          (scan_roots fs settings roots ?out)"
        by (rule records_trans [OF walk_records Cons.IH(2) Cons.IH(1) False])
      then show ?thesis using False by (simp add: Let_def)
    qed
  }
qed

lemma scan_wf: "bt_wf (sc_files (scan_tree fs settings))"
  using roots_record(1) [where roots = "map components (ws_paths settings)" and out = scan_empty
      and fs = fs and settings = settings]
  by (simp add: scan_tree_def keeps_def scan_empty_def)

text \<open>A scan never holds more than 20000 files, and when it reports neither limit it is complete
  and exact: it has a stamp for precisely the files that are reached from a watched path through
  readable directories without entering anything ignored.\<close>

theorem scan_is_exact:
  "length (sc_files (scan_tree fs settings)) \<le> 20000
   \<and> (sc_truncated (scan_tree fs settings) \<or> sc_too_deep (scan_tree fs settings)
      \<or> (\<forall>q. bt_get (sc_files (scan_tree fs settings)) q =
           (if \<exists>p \<in> set (ws_paths settings). visits fs settings (components p) (components p) q
            then stamp_at fs q else None)))"
proof -
  have "length (sc_files (scan_tree fs settings)) \<le> 20000"
    using roots_record(1) [where roots = "map components (ws_paths settings)" and out = scan_empty
      and fs = fs and settings = settings]
    by (simp add: scan_tree_def keeps_def scan_empty_def max_entries_def)
  moreover have "bt_get (sc_files (scan_tree fs settings)) q =
      (if \<exists>p \<in> set (ws_paths settings). visits fs settings (components p) (components p) q
       then stamp_at fs q else None)"
    if "\<not> sc_truncated (scan_tree fs settings)" "\<not> sc_too_deep (scan_tree fs settings)" for q
    using roots_record(2) [where roots = "map components (ws_paths settings)" and out = scan_empty
        and fs = fs and settings = settings] that
    unfolding records_def scan_tree_def [symmetric]
    by (auto simp: sees_def scan_empty_def)
  ultimately show ?thesis by blast
qed

section \<open>The watcher\<close>

text \<open>The scans \<open>s\<close> that the watcher takes, all of which succeed.\<close>

definition scanned :: "(nat \<Rightarrow> scan option) \<Rightarrow> (nat \<Rightarrow> scan) \<Rightarrow> bool" where
  "scanned scans s = (\<forall>i. scans i = Some (s i) \<and> bt_wf (sc_files (s i)))"

text \<open>The paths that differ between two scans, and a scan that finds what the one before did.\<close>

definition differ :: "scan \<Rightarrow> scan \<Rightarrow> comps set" where
  "differ old new = {p. bt_get (sc_files old) p \<noteq> bt_get (sc_files new) p}"

definition unchanged_at :: "(nat \<Rightarrow> scan) \<Rightarrow> nat \<Rightarrow> bool" where
  "unchanged_at s i = (sc_files (s (Suc i)) = sc_files (s i))"

lemma no_changes:
  assumes "bt_wf (sc_files old)" and "bt_wf (sc_files new)"
  shows "set (scan_changes old new) = differ old new" and "scan_changes old new = [] \<longleftrightarrow> sc_files new = sc_files old"
proof -
  show set: "set (scan_changes old new) = differ old new" using changes_set [OF assms(2)] by (simp add: differ_def)
  show "scan_changes old new = [] \<longleftrightarrow> sc_files new = sc_files old"
  proof
    assume "scan_changes old new = []"
    then have "differ old new = {}" using set by simp
    then show "sc_files new = sc_files old" by (intro bt_eqI [OF assms(2,1)]) (auto simp: differ_def)
  next
    assume "sc_files new = sc_files old"
    then have "set (scan_changes old new) = {}" using set by (simp add: differ_def)
    then show "scan_changes old new = []" by simp
  qed
qed

text \<open>Of \<open>rounds\<close> rounds after scan \<open>i\<close> the debounce loop waits until the first quiet one, or all.\<close>

definition waited :: "(nat \<Rightarrow> scan) \<Rightarrow> nat \<Rightarrow> nat \<Rightarrow> nat \<Rightarrow> bool" where
  "waited s i rounds r \<longleftrightarrow> r \<le> rounds \<and> (\<forall>k. Suc k < r \<longrightarrow> \<not> unchanged_at s (i + k))
     \<and> (r = rounds \<or> (\<exists>k. r = Suc k \<and> unchanged_at s (i + k)))"

lemma debounce_waits:
  assumes "scanned scans s"
  shows "\<exists>r batch. debounce scans rounds (Suc i) (s i) changed = Some (Suc i + r, s (i + r), batch)
    \<and> waited s i rounds r
    \<and> set batch = set changed \<union> (\<Union>k<r. differ (s (i + k)) (s (Suc (i + k))))"
proof (induction rounds arbitrary: i changed)
  case 0
  show ?case by (simp add: waited_def)
next
  case (Suc rounds)
  have s: "scans (Suc i) = Some (s (Suc i))" "bt_wf (sc_files (s i))" "bt_wf (sc_files (s (Suc i)))"
    using assms by (simp_all add: scanned_def)
  note extra = no_changes [OF s(2,3)]
  show ?case
  proof (cases "unchanged_at s i")
    case True
    then have "scan_changes (s i) (s (Suc i)) = []" using extra(2) by (simp add: unchanged_at_def)
    moreover have "differ (s i) (s (Suc i)) = {}" using True by (simp add: unchanged_at_def differ_def)
    moreover have "waited s i (Suc rounds) 1" using True by (simp add: waited_def)
    ultimately show ?thesis using s(1) by (intro exI [of _ 1] exI [of _ changed]) (simp add: Let_def)
  next
    case False
    obtain r batch where IH:
      "debounce scans rounds (Suc (Suc i)) (s (Suc i)) (changed @ scan_changes (s i) (s (Suc i)))
         = Some (Suc (Suc i) + r, s (Suc i + r), batch)"
      "waited s (Suc i) rounds r"
      "set batch = set (changed @ scan_changes (s i) (s (Suc i))) \<union> (\<Union>k<r. differ (s (Suc i + k)) (s (Suc (Suc i + k))))"
      using Suc.IH by blast
    have "scan_changes (s i) (s (Suc i)) \<noteq> []" using False extra(2) by (simp add: unchanged_at_def)
    then have "debounce scans (Suc rounds) (Suc i) (s i) changed = Some (Suc i + Suc r, s (i + Suc r), batch)"
      using s(1) IH(1) by (simp add: Let_def)
    moreover have "waited s i (Suc rounds) (Suc r)"
    proof -
      have "\<not> unchanged_at s (i + k)" if "Suc k < Suc r" for k
        using that False IH(2) by (cases k) (simp_all add: waited_def)
      then show ?thesis using IH(2) by (auto simp: waited_def)
    qed
    moreover have "(\<Union>k<Suc r. differ (s (i + k)) (s (Suc (i + k))))
        = differ (s i) (s (Suc i)) \<union> (\<Union>k<r. differ (s (Suc i + k)) (s (Suc (Suc i + k))))"
      unfolding lessThan_Suc_eq_insert_0 by auto
    ultimately show ?thesis using IH(3) extra(1) by (intro exI [of _ "Suc r"] exI [of _ batch]) (simp add: Un_assoc)
  qed
qed

text \<open>A sorted list without duplicates starts with the least element and has as many as the set.\<close>

lemma sort_dedup_facts:
  "set (sort_dedup xs) = set xs" "length (sort_dedup xs) = card (set xs)"
  "xs \<noteq> [] \<Longrightarrow> \<exists>rest. sort_dedup xs = Min (set xs) # rest"
proof -
  show set: "set (sort_dedup xs) = set xs" by (simp add: sort_dedup_def)
  have "distinct (sort_dedup xs)" using sorted_sort_dedup by blast
  then show "length (sort_dedup xs) = card (set xs)" using distinct_card set by metis
  show "\<exists>rest. sort_dedup xs = Min (set xs) # rest" if "xs \<noteq> []"
  proof -
    from that have "sort_dedup xs \<noteq> []" using set by (metis set_empty)
    then obtain y ys where l: "sort_dedup xs = y # ys" by (cases "sort_dedup xs") auto
    have "sorted (sort_dedup xs)" using sorted_sort_dedup by blast
    then have "Min (set (sort_dedup xs)) = y" unfolding l by (intro Min_eqI) auto
    then show ?thesis using l set by auto
  qed
qed

text \<open>C40: While its scans succeed and the supervisor listens, a turn of the watcher does nothing but
  count its scan when the tree is as the last scan left it.  Otherwise it waits until a further scan finds nothing new, ten of them at the most, and
  then, even if the tree has not settled, asks for exactly one restart; the event that goes with it
  names the least of the paths that changed from scan to scan and counts each of them once; a
  refusal is reported; and the next turn compares with the scan after the answer, unless the
  supervisor is gone.\<close>

theorem change_is_acted_on:
  assumes "scanned scans s" and "i = wt_scans w" and "bt_wf (sc_files (wt_previous w))"
  shows "if sc_files (s i) = sc_files (wt_previous w)
    then watch_turn scans service True answer w = ([], Watching (w\<lparr> wt_scans := Suc i \<rparr>))
    else \<exists>r paths. waited s i 10 r
      \<and> paths = differ (wt_previous w) (s i) \<union> (\<Union>k<r. differ (s (i + k)) (s (Suc (i + k))))
      \<and> watch_turn scans service True answer w =
          ([WA_Event (EK_WatchTriggered (show_path (Min paths)) (card paths)), WA_Restart service]
             @ (case answer of Refused reason \<Rightarrow> [WA_Event (EK_WatchFailed reason)] | _ \<Rightarrow> []),
           if answer = Dropped then WatchEnded
           else Watching \<lparr> wt_previous = s (i + r + 1), wt_scans = i + r + 2 \<rparr>)"
proof -
  have s: "scans j = Some (s j)" "bt_wf (sc_files (s j))" for j using assms(1) by (simp_all add: scanned_def)
  note changed = no_changes [OF assms(3) s(2) [of i]]
  show ?thesis
  proof (cases "sc_files (s i) = sc_files (wt_previous w)")
    case True
    then show ?thesis using changed(2) s(1) [of i] assms(2) by (simp add: watch_turn_def)
  next
    case False
    let ?changed = "scan_changes (wt_previous w) (s i)"
    obtain r batch where d:
      "debounce scans max_debounce_rounds (Suc i) (s i) ?changed = Some (Suc i + r, s (i + r), batch)"
      "waited s i max_debounce_rounds r"
      "set batch = set ?changed \<union> (\<Union>k<r. differ (s (i + k)) (s (Suc (i + k))))"
      using debounce_waits [OF assms(1)] by blast
    have some: "?changed \<noteq> []" using False changed(2) by simp
    then have "batch \<noteq> []" using d(3) by auto
    then obtain rest where l: "sort_dedup batch = Min (set batch) # rest" using sort_dedup_facts(3) by blast
    have "watch_turn scans service True answer w = watch_request scans service True answer (Suc i + r) batch"
      using s(1) [of i] some d(1) assms(2) by (simp add: watch_turn_def)
    also have "\<dots> = ([WA_Event (EK_WatchTriggered (show_path (Min (set batch))) (card (set batch))), WA_Restart service]
             @ (case answer of Refused reason \<Rightarrow> [WA_Event (EK_WatchFailed reason)] | _ \<Rightarrow> []),
           if answer = Dropped then WatchEnded
           else Watching \<lparr> wt_previous = s (i + r + 1), wt_scans = i + r + 2 \<rparr>)"
      using s(1) [of "Suc i + r"] sort_dedup_facts(2) [of batch]
      by (cases answer) (simp_all add: watch_request_def l Let_def)
    finally show ?thesis
      using False d(2,3) changed(1) by (intro if_not_P [THEN iffD2]) (auto simp: max_debounce_rounds_def)
  qed
qed

lemma spawned_are_watched: "map fst (spawn_watchers config plan) = watched_services config plan"
  by (induction plan) (auto simp: watched_services_def split: option.split)

section \<open>Examples\<close>

definition one_scan :: "nat \<Rightarrow> scan" where
  "one_scan i = \<lparr> sc_files = (if i = 1 then [] else [([Normal ''a''], \<lparr> st_modified = None, st_len = 0 \<rparr>)]),
     sc_truncated = False, sc_too_deep = False \<rparr>"

theorem scan_difference_is_exact_witness: "scan_changes (one_scan 0) (one_scan 1) \<noteq> []"
  using scan_difference_is_exact [of "one_scan 0" "one_scan 1"] by (simp add: one_scan_def)

text \<open>A tree that changes with every scan: the watcher has waited ten rounds.\<close>

definition busy_scan :: "nat \<Rightarrow> scan" where
  "busy_scan i = \<lparr> sc_files = [([Normal ''a''], \<lparr> st_modified = Some i, st_len = 0 \<rparr>)],
     sc_truncated = False, sc_too_deep = False \<rparr>"

theorem change_is_acted_on_witness:
  "watch_turn (\<lambda>i. Some (busy_scan i)) ''api'' True Answered \<lparr> wt_previous = busy_scan 0, wt_scans = 1 \<rparr> =
     ([WA_Event (EK_WatchTriggered (show_path [Normal ''a'']) 1), WA_Restart ''api''],
      Watching \<lparr> wt_previous = busy_scan 12, wt_scans = 13 \<rparr>)"
proof -
  let ?w = "\<lparr> wt_previous = busy_scan 0, wt_scans = 1 \<rparr>"
  have scanned: "scanned (\<lambda>i. Some (busy_scan i)) busy_scan" by (simp add: scanned_def busy_scan_def)
  have wf: "bt_wf (sc_files (wt_previous ?w))" by (simp add: busy_scan_def)
  have new: "sc_files (busy_scan 1) \<noteq> sc_files (wt_previous ?w)" by (simp add: busy_scan_def)
  have loud: "\<not> unchanged_at busy_scan k" for k by (simp add: unchanged_at_def busy_scan_def)
  have one: "differ (busy_scan j) (busy_scan k) = (if j = k then {} else {[Normal ''a'']})" for j k
    by (auto simp: differ_def busy_scan_def bt_get_Cons)
  obtain r paths where r: "waited busy_scan 1 10 r"
    "paths = differ (wt_previous ?w) (busy_scan 1) \<union> (\<Union>k<r. differ (busy_scan (1 + k)) (busy_scan (Suc (1 + k))))"
    "watch_turn (\<lambda>i. Some (busy_scan i)) ''api'' True Answered ?w =
       ([WA_Event (EK_WatchTriggered (show_path (Min paths)) (card paths)), WA_Restart ''api'']
          @ (case Answered of Refused reason \<Rightarrow> [WA_Event (EK_WatchFailed reason)] | _ \<Rightarrow> []),
        if Answered = Dropped then WatchEnded
        else Watching \<lparr> wt_previous = busy_scan (1 + r + 1), wt_scans = 1 + r + 2 \<rparr>)"
    using change_is_acted_on [OF scanned, of 1 ?w "''api''" Answered] wf new by auto
  have "r = 10" using r(1) loud by (simp add: waited_def)
  moreover have "paths = {[Normal ''a'']}" using r(2) by (auto simp: one)
  ultimately show ?thesis using r(3) by simp
qed

end
