(* ===== verification/Runtime.thy ===== *)
theory Runtime
  imports Config
begin

text \<open>
  \<open>crates/servicrab-core/src/runtime/mod.rs\<close>: the options and the outcome of a run and the
  shutdown channel.  The channel is a \<open>watch\<close> channel: it holds the last request, and a receiver
  knows whether it has seen it.  The requests made so far are a list, and a receiver is the number
  of those it has seen.
\<close>

datatype output_mode = Inherit | Capture

record run_options =
  ro_no_restart :: bool
  ro_output :: output_mode

definition effective_policy :: "run_options \<Rightarrow> restart_policy \<Rightarrow> restart_policy" where
  "effective_policy options configured = (if ro_no_restart options then Never else configured)"

definition with_output :: "run_options \<Rightarrow> output_mode \<Rightarrow> run_options" where
  "with_output options output = options\<lparr> ro_output := output \<rparr>"

datatype run_outcome =
    RO_Exited exit_reason u32
  | RO_Stopped shutdown_reason

type_synonym shutdown_requests = "shutdown_reason list"

definition shutdown_channel :: shutdown_requests where
  "shutdown_channel = []"

text \<open>What \<open>borrow\<close> reads, and whether \<open>changed\<close> resolves for a receiver that has seen \<open>seen\<close>.\<close>

definition requested :: "shutdown_requests \<Rightarrow> shutdown_reason option" where
  "requested requests = (if requests = [] then None else Some (last requests))"

definition has_changed :: "nat \<Rightarrow> shutdown_requests \<Rightarrow> bool" where
  "has_changed seen requests = (seen < length requests)"

text \<open>\<open>wait_for_shutdown\<close>: the reason and the receiver, or \<open>None\<close> while there is nothing to wait
  up for.\<close>

definition wait_for_shutdown :: "shutdown_requests \<Rightarrow> (shutdown_reason \<times> nat) option" where
  "wait_for_shutdown requests = map_option (\<lambda>reason. (reason, length requests)) (requested requests)"

lemma requested_simps [simp]: "requested [] = None" "requested (rs @ [r]) = Some r"
  by (simp_all add: requested_def)

end
