(* ===== verification/Readiness.thy ===== *)
theory Readiness
  imports Event Runtime
begin

text \<open>
  The readiness of services in \<open>crates/servicrab-core/src/runtime/stack.rs\<close>: what a service's
  event stream says about it (\<open>ReadinessTracker\<close>, \<open>DependencyStatus\<close>), the verdict a dependent
  draws from it under the condition of its edge, and the wait of a service for its dependencies.
\<close>

section \<open>Status and verdict\<close>

datatype readiness = RD_Pending | RD_Ready | RD_Gone

record dependency_status =
  ds_state :: service_state
  ds_healthy :: bool
  ds_unhealthy :: bool
  ds_exited_ok :: bool
  ds_gone :: bool

definition status_new :: dependency_status where
  "status_new = \<lparr> ds_state = Pending, ds_healthy = False, ds_unhealthy = False,
                  ds_exited_ok = False, ds_gone = False \<rparr>"

definition readiness_of :: "dependency_status \<Rightarrow> dependency_condition \<Rightarrow> readiness" where
  "readiness_of s condition =
     (if ds_gone s then RD_Gone
      else case ds_state s of
        Exited \<Rightarrow>
          (case condition of
             ServiceCompletedSuccessfully \<Rightarrow> if ds_exited_ok s then RD_Ready else RD_Gone
           | _ \<Rightarrow> if \<not> ds_unhealthy s then RD_Ready else RD_Gone)
      | Failed \<Rightarrow> RD_Gone
      | Stopped \<Rightarrow> RD_Gone
      | Running \<Rightarrow>
          (case condition of
             ServiceStarted \<Rightarrow> RD_Ready
           | ServiceHealthy \<Rightarrow> if ds_healthy s then RD_Ready else RD_Pending
           | _ \<Rightarrow> RD_Pending)
      | _ \<Rightarrow> RD_Pending)"

text \<open>\<open>ReadinessTracker\<close> holds a status.\<close>

definition tracker_fold :: "event_kind \<Rightarrow> dependency_status \<Rightarrow> dependency_status" where
  "tracker_fold kind s =
     (case kind of
        EK_Healthy \<Rightarrow> s\<lparr> ds_healthy := True, ds_unhealthy := False \<rparr>
      | EK_Unhealthy _ \<Rightarrow> s\<lparr> ds_healthy := False, ds_unhealthy := True \<rparr>
      | EK_Exited reason _ \<Rightarrow>
          (let s = s\<lparr> ds_exited_ok := is_success reason \<rparr> in
           if reason = ER_Unhealthy then s\<lparr> ds_unhealthy := True \<rparr> else s)
      | EK_State state \<Rightarrow>
          (let s = s\<lparr> ds_state := state \<rparr> in
           if state = Starting then s\<lparr> ds_healthy := False, ds_unhealthy := False \<rparr> else s)
      | _ \<Rightarrow> s)"

definition tracker_observe :: "event_kind \<Rightarrow> dependency_status \<Rightarrow> dependency_status \<times> dependency_status option" where
  "tracker_observe kind before =
     (let after = tracker_fold kind before in (after, if after \<noteq> before then Some after else None))"

section \<open>The relay of one service\<close>

text \<open>
  The relay of \<open>supervise_service\<close> for one event: the process group and the status that the
  supervisor and the dependents share, with the tracker of the relay itself.
\<close>

record relay =
  rl_pgid :: int
  rl_shared :: dependency_status
  rl_tracker :: dependency_status

definition relay_pgid :: "event_kind \<Rightarrow> int \<Rightarrow> int" where
  "relay_pgid kind pgid =
     (case kind of
        EK_Started g \<Rightarrow> g
      | EK_Exited _ _ \<Rightarrow> 0
      | EK_Finished _ \<Rightarrow> 0
      | _ \<Rightarrow> pgid)"

definition relay_event :: "event_kind \<Rightarrow> relay \<Rightarrow> relay" where
  "relay_event kind r =
     (let (tracker, changed) = tracker_observe kind (rl_tracker r) in
      \<lparr> rl_pgid = relay_pgid kind (rl_pgid r),
        rl_shared = (case changed of Some next \<Rightarrow> next | None \<Rightarrow> rl_shared r),
        rl_tracker = tracker \<rparr>)"

text \<open>A spawned service starts from a cleared group and a fresh status on both sides.\<close>

definition relay_new :: relay where
  "relay_new = \<lparr> rl_pgid = 0, rl_shared = status_new, rl_tracker = status_new \<rparr>"

definition relay_run :: "event_kind list \<Rightarrow> relay" where
  "relay_run kinds = fold relay_event kinds relay_new"

section \<open>Waiting for the dependencies\<close>

type_synonym channel = nat

record dependency_edge =
  de_name :: service_name
  de_condition :: dependency_condition
  de_status :: channel

datatype dependency_wait =
    DW_Ready
  | DW_Blocked service_name
  | DW_Shutdown shutdown_reason

text \<open>
  The wake-ups of the \<open>select!\<close> in the order they happen: the channel has changed, and the
  statuses are now these; the channel is closed; a shutdown is requested.
\<close>

datatype wake =
    WK_Changed "channel \<Rightarrow> dependency_status"
  | WK_Closed
  | WK_Stop shutdown_reason

text \<open>\<open>None\<close> is a wait that goes on after the last wake-up.\<close>

function wait_for_dependencies ::
    "dependency_edge list \<Rightarrow> (channel \<Rightarrow> dependency_status) \<Rightarrow> wake list \<Rightarrow> dependency_wait option" where
  "wait_for_dependencies [] now wakes = Some DW_Ready"
| "wait_for_dependencies (edge # edges) now wakes =
     (case readiness_of (now (de_status edge)) (de_condition edge) of
        RD_Ready \<Rightarrow> wait_for_dependencies edges now wakes
      | RD_Gone \<Rightarrow> Some (DW_Blocked (de_name edge))
      | RD_Pending \<Rightarrow>
          (case wakes of
             [] \<Rightarrow> None
           | WK_Changed next # wakes \<Rightarrow> wait_for_dependencies (edge # edges) next wakes
           | WK_Closed # _ \<Rightarrow> Some (DW_Blocked (de_name edge))
           | WK_Stop reason # _ \<Rightarrow> Some (DW_Shutdown reason)))"
  by pat_completeness auto

termination wait_for_dependencies
  by (relation "measure (\<lambda>(edges, now, wakes). length edges + length wakes)") auto

section \<open>What a verdict rests on\<close>

text \<open>
  The evidence in the events of a service, without the tracker: the last lifecycle state, the
  events of the run that began with the last \<open>Starting\<close>, and the last exit.
\<close>

definition last_of :: "('a \<Rightarrow> 'b option) \<Rightarrow> 'a list \<Rightarrow> 'b option" where
  "last_of f xs = (case List.map_filter f (rev xs) of [] \<Rightarrow> None | y # _ \<Rightarrow> Some y)"

fun state_in :: "event_kind \<Rightarrow> service_state option" where
  "state_in (EK_State s) = Some s"
| "state_in _ = None"

fun exit_in :: "event_kind \<Rightarrow> exit_reason option" where
  "exit_in (EK_Exited reason _) = Some reason"
| "exit_in _ = None"

definition this_run :: "event_kind list \<Rightarrow> event_kind list" where
  "this_run kinds = rev (takeWhile (\<lambda>k. k \<noteq> EK_State Starting) (rev kinds))"

fun health_in :: "event_kind \<Rightarrow> bool option" where
  "health_in EK_Healthy = Some True"
| "health_in (EK_Unhealthy _) = Some False"
| "health_in _ = None"

text \<open>What counts against a service that has exited: the exit of an unhealthy process, too.\<close>

fun complaint_in :: "event_kind \<Rightarrow> bool option" where
  "complaint_in (EK_Exited reason _) = (if reason = ER_Unhealthy then Some True else None)"
| "complaint_in k = map_option Not (health_in k)"

definition verdict :: "event_kind list \<Rightarrow> dependency_condition \<Rightarrow> readiness" where
  "verdict kinds condition =
     (case last_of state_in kinds of
        Some Running \<Rightarrow>
          if condition = ServiceStarted
             \<or> condition = ServiceHealthy \<and> last_of health_in (this_run kinds) = Some True
          then RD_Ready else RD_Pending
      | Some Exited \<Rightarrow>
          if condition = ServiceCompletedSuccessfully
          then if last_of exit_in kinds = Some (ER_Code 0) then RD_Ready else RD_Gone
          else if last_of complaint_in (this_run kinds) = Some True then RD_Gone else RD_Ready
      | Some s \<Rightarrow> if s \<in> {Failed, Stopped} then RD_Gone else RD_Pending
      | None \<Rightarrow> RD_Pending)"

lemma last_of_Nil [simp]: "last_of f [] = None"
  by (simp add: last_of_def List.map_filter_def)

lemma last_of_snoc [simp]:
  "last_of f (xs @ [x]) = (case f x of None \<Rightarrow> last_of f xs | Some y \<Rightarrow> Some y)"
  by (simp add: last_of_def List.map_filter_def split: option.split)

lemma this_run_snoc [simp]:
  "this_run [] = []"
  "this_run (ks @ [k]) = (if k = EK_State Starting then [] else this_run ks @ [k])"
  by (simp_all add: this_run_def)

lemma tracker_facts:
  "rl_tracker (relay_run kinds) =
     \<lparr> ds_state = (case last_of state_in kinds of None \<Rightarrow> Pending | Some s \<Rightarrow> s),
       ds_healthy = (last_of health_in (this_run kinds) = Some True),
       ds_unhealthy = (last_of complaint_in (this_run kinds) = Some True),
       ds_exited_ok = (last_of exit_in kinds = Some (ER_Code 0)),
       ds_gone = False \<rparr>
   \<and> rl_shared (relay_run kinds) = rl_tracker (relay_run kinds)"
proof (induction kinds rule: rev_induct)
  case Nil
  show ?case by (simp add: relay_run_def relay_new_def status_new_def)
next
  case (snoc k ks)
  have shared: "rl_shared (relay_run (ks @ [k])) = rl_tracker (relay_run (ks @ [k]))"
    using snoc by (simp add: relay_run_def relay_event_def tracker_observe_def Let_def)
  have "rl_tracker (relay_run (ks @ [k])) = tracker_fold k (rl_tracker (relay_run ks))"
    by (simp add: relay_run_def relay_event_def tracker_observe_def Let_def)
  with shared show ?case
    using snoc by (cases k) (auto simp: tracker_fold_def is_success_def)
qed

text \<open>What dependents see of a service is what its events show: the shared status gives, for
  every condition, the verdict on the last lifecycle state, the probes of the run that began with
  the last start and the last exit.\<close>

theorem readiness_follows_the_events:
  "readiness_of (rl_shared (relay_run kinds)) condition = verdict kinds condition"
proof (cases "last_of state_in kinds")
  case None
  then show ?thesis by (simp add: tracker_facts readiness_of_def verdict_def)
next
  case (Some s)
  then show ?thesis
    by (cases s; cases condition) (simp_all add: tracker_facts readiness_of_def verdict_def)
qed

section \<open>The process group that the supervisor would sweep\<close>

text \<open>The group published to the supervisor is that of the process that is running: the one
  announced last, and none once the process has exited or the run has finished.\<close>

theorem published_group_is_live:
  "rl_pgid (relay_run kinds) =
     (case last_of (\<lambda>k. case k of EK_Started g \<Rightarrow> Some g | EK_Exited _ _ \<Rightarrow> Some 0 | EK_Finished _ \<Rightarrow> Some 0
                                | _ \<Rightarrow> None) kinds of
        None \<Rightarrow> 0 | Some g \<Rightarrow> g)"
proof (induction kinds rule: rev_induct)
  case Nil
  show ?case by (simp add: relay_run_def relay_new_def)
next
  case (snoc k ks)
  have "rl_pgid (relay_run (ks @ [k])) = relay_pgid k (rl_pgid (relay_run ks))"
    by (simp add: relay_run_def relay_event_def tracker_observe_def Let_def)
  with snoc show ?case by (cases k) (simp_all add: relay_pgid_def)
qed

section \<open>The wait\<close>

text \<open>The statuses that the waiting service may have looked at.\<close>

fun looks :: "(channel \<Rightarrow> dependency_status) \<Rightarrow> wake list \<Rightarrow> (channel \<Rightarrow> dependency_status) set" where
  "looks now [] = {now}"
| "looks now (WK_Changed next # wakes) = insert now (looks next wakes)"
| "looks now (_ # wakes) = {now}"

definition seen_as :: "readiness \<Rightarrow> (channel \<Rightarrow> dependency_status) \<Rightarrow> dependency_edge \<Rightarrow> bool" where
  "seen_as r now edge = (readiness_of (now (de_status edge)) (de_condition edge) = r)"

lemma looks_now [simp]: "now \<in> looks now wakes"
  by (cases "(now, wakes)" rule: looks.cases) auto

lemma looks_changed [simp]: "looks next wakes \<subseteq> looks now (WK_Changed next # wakes)"
  by auto

definition wait_explained ::
    "dependency_edge list \<Rightarrow> (channel \<Rightarrow> dependency_status) \<Rightarrow> wake list \<Rightarrow> dependency_wait \<Rightarrow> bool" where
  "wait_explained edges now wakes w =
     (case w of
        DW_Ready \<Rightarrow> \<forall>edge \<in> set edges. \<exists>s \<in> looks now wakes. seen_as RD_Ready s edge
      | DW_Blocked d \<Rightarrow>
          \<exists>pre edge post. edges = pre @ edge # post \<and> de_name edge = d
            \<and> (\<forall>e \<in> set pre. \<exists>s \<in> looks now wakes. seen_as RD_Ready s e)
            \<and> ((\<exists>s \<in> looks now wakes. seen_as RD_Gone s edge) \<or> WK_Closed \<in> set wakes)
      | DW_Shutdown r \<Rightarrow> WK_Stop r \<in> set wakes)"

lemma wait_explained_mono:
  assumes "wait_explained edges next wakes w" and "looks next wakes \<subseteq> looks now wakes'"
    and "set wakes \<subseteq> set wakes'"
  shows "wait_explained edges now wakes' w"
  using assms unfolding wait_explained_def
  by (cases w) (simp, blast, simp, blast, simp, blast)

text \<open>C24: Whatever the wait for the dependencies ends with rests on what was seen: a service starts
  only after it has seen every dependency ready under the condition of its edge; it is skipped over
  the first dependency, in their order, that it saw gone for good or whose channel closed, and it
  gives up for a shutdown only when one was requested.\<close>

theorem start_rests_on_evidence:
  "wait_for_dependencies edges now wakes = Some w \<Longrightarrow> wait_explained edges now wakes w"
proof (induction edges now wakes rule: wait_for_dependencies.induct)
  case (1 now wakes)
  then show ?case by (auto simp: wait_explained_def)
next
  case (2 edge edges now wakes)
  show ?case
  proof (cases "readiness_of (now (de_status edge)) (de_condition edge)")
    case RD_Ready
    with 2 have rest: "wait_explained edges now wakes w" by simp
    have seen: "\<exists>s \<in> looks now wakes. seen_as RD_Ready s edge"
      using RD_Ready looks_now by (auto simp: seen_as_def)
    show ?thesis
    proof (cases w)
      case (DW_Blocked d)
      with rest obtain pre e post where "edges = pre @ e # post" "de_name e = d"
        "\<forall>e \<in> set pre. \<exists>s \<in> looks now wakes. seen_as RD_Ready s e"
        "(\<exists>s \<in> looks now wakes. seen_as RD_Gone s e) \<or> WK_Closed \<in> set wakes"
        by (auto simp: wait_explained_def)
      with seen have "edge # edges = (edge # pre) @ e # post \<and> de_name e = d
        \<and> (\<forall>e \<in> set (edge # pre). \<exists>s \<in> looks now wakes. seen_as RD_Ready s e)
        \<and> ((\<exists>s \<in> looks now wakes. seen_as RD_Gone s e) \<or> WK_Closed \<in> set wakes)" by simp
      then show ?thesis
        unfolding DW_Blocked wait_explained_def dependency_wait.case by (intro exI)
    qed (use rest seen in \<open>auto simp: wait_explained_def\<close>)
  next
    case RD_Gone
    with 2 have "w = DW_Blocked (de_name edge)" by simp
    moreover have "\<exists>s \<in> looks now wakes. seen_as RD_Gone s edge"
      using RD_Gone looks_now by (auto simp: seen_as_def)
    ultimately show ?thesis by (fastforce simp: wait_explained_def)
  next
    case RD_Pending
    show ?thesis
    proof (cases wakes)
      case Nil
      with RD_Pending 2 show ?thesis by simp
    next
      case (Cons wk wakes')
      show ?thesis
      proof (cases wk)
        case (WK_Changed after)
        with RD_Pending Cons 2 have "wait_explained (edge # edges) after wakes' w" by simp
        then show ?thesis
          by (rule wait_explained_mono) (use WK_Changed Cons in auto)
      next
        case WK_Closed
        with RD_Pending Cons 2 have "w = DW_Blocked (de_name edge)" by simp
        with WK_Closed Cons show ?thesis by (fastforce simp: wait_explained_def)
      next
        case (WK_Stop r)
        with RD_Pending Cons 2 show ?thesis by (auto simp: wait_explained_def)
      qed
    qed
  qed
qed

theorem start_rests_on_evidence_witness:
  "\<exists>s. readiness_of s ServiceHealthy = RD_Ready
    \<and> wait_explained [\<lparr> de_name = ''db'', de_condition = ServiceHealthy, de_status = 0 \<rparr>] (\<lambda>_. status_new)
        [WK_Changed (\<lambda>_. s)] DW_Ready"
proof -
  let ?s = "\<lparr> ds_state = Running, ds_healthy = True, ds_unhealthy = False, ds_exited_ok = False, ds_gone = False \<rparr>"
  have "readiness_of ?s ServiceHealthy = RD_Ready" by (simp add: readiness_of_def)
  moreover have "wait_explained [\<lparr> de_name = ''db'', de_condition = ServiceHealthy, de_status = 0 \<rparr>]
      (\<lambda>_. status_new) [WK_Changed (\<lambda>_. ?s)] DW_Ready"
    by (rule start_rests_on_evidence) (simp add: readiness_of_def status_new_def)
  ultimately show ?thesis by blast
qed

end
