(* ===== verification/Stack.thy ===== *)
theory Stack
  imports Readiness Plan
begin

text \<open>
  \<open>crates/servicrab-core/src/runtime/stack.rs\<close>: the supervisor of a stack.  The record
  \<open>supervisor\<close> holds the fields of \<open>RunState\<close> (configuration, plan, slots), the local variables
  of \<open>StackSupervisor::run\<close> and what the supervisor shares with the supervision tasks: the
  readiness channels and process groups behind their \<open>Arc\<close>s, which a store maps from their
  numbers, the tasks with the stop requests sent to them, and the queue of reports.  Every report,
  command or act of a task is one step; the steps interleave freely.
\<close>

section \<open>Commands, answers and reports\<close>

record stack_options =
  so_no_restart :: bool
  so_abort_on_failure :: bool
  so_keep_running :: bool

datatype service_result =
    SRes_Finished run_outcome
  | SRes_Failed runtime_error
  | SRes_Skipped service_name

fun result_is_failure :: "service_result \<Rightarrow> bool" where
  "result_is_failure (SRes_Finished _) = False"
| "result_is_failure _ = True"

record service_report =
  rep_service :: service_name
  rep_result :: service_result

record stack_outcome =
  out_reports :: "service_report list"
  out_shutdown :: "shutdown_reason option"

definition outcome_failures :: "stack_outcome \<Rightarrow> service_report list" where
  "outcome_failures out = filter (\<lambda>r. result_is_failure (rep_result r)) (out_reports out)"

definition outcome_is_success :: "stack_outcome \<Rightarrow> bool" where
  "outcome_is_success out = (outcome_failures out = [])"

datatype control_outcome =
    CO_Started | CO_Restarted | CO_Stopped | CO_AlreadyStopped
  | CO_Reloaded nat nat nat

fun show_control_outcome :: "control_outcome \<Rightarrow> string" where
  "show_control_outcome CO_Started = ''started''"
| "show_control_outcome CO_Restarted = ''restarted''"
| "show_control_outcome CO_Stopped = ''stopped''"
| "show_control_outcome CO_AlreadyStopped = ''already stopped''"
| "show_control_outcome (CO_Reloaded added changed removed) =
     (if added = 0 \<and> changed = 0 \<and> removed = 0 then ''no changes''
      else show_nat added @ '' added, '' @ show_nat changed @ '' changed, '' @ show_nat removed @ '' removed'')"

datatype control_refusal =
    CR_UnknownService service_name
  | CR_Busy service_name
  | CR_AlreadyRunning service_name

fun show_control_refusal :: "control_refusal \<Rightarrow> string" where
  "show_control_refusal (CR_UnknownService s) = s @ '' is not part of the running stack''"
| "show_control_refusal (CR_Busy s) = s @ '' is busy with another command''"
| "show_control_refusal (CR_AlreadyRunning s) = s @ '' is already running''"

text \<open>An acknowledgement channel is a number, and \<open>sv_acks\<close> records the answers sent.\<close>

type_synonym ack = nat
type_synonym ack_answer = "control_refusal + control_outcome"

datatype control =
    C_Start service_name ack
  | C_Stop service_name ack
  | C_Restart service_name ack
  | C_Reload config "service_name list" ack

fun into_ack :: "control \<Rightarrow> ack" where
  "into_ack (C_Start _ a) = a"
| "into_ack (C_Stop _ a) = a"
| "into_ack (C_Restart _ a) = a"
| "into_ack (C_Reload _ _ a) = a"

section \<open>Slots and tasks\<close>

type_synonym task_id = nat

text \<open>\<open>sl_cell\<close> numbers the readiness channel and the process group, which are created together;
  \<open>sl_stop\<close> and \<open>sl_handle\<close> name the task they reach.\<close>

record slot =
  sl_service :: service
  sl_deps :: "dependency_edge list"
  sl_cell :: channel
  sl_stop :: "task_id option"
  sl_handle :: "task_id option"
  sl_restart_when_stopped :: bool
  sl_retired :: bool
  sl_pending :: "ack option"

definition slot_is_running :: "slot \<Rightarrow> bool" where
  "slot_is_running s = (sl_handle s \<noteq> None)"

record task =
  tk_service :: service
  tk_deps :: "dependency_edge list"
  tk_cell :: channel
  tk_requests :: shutdown_requests

record supervisor =
  sv_config :: config
  sv_plan :: "service_name list"
  sv_slots :: "(service_name, slot) btmap"
  sv_running :: nat
  sv_reports :: "service_report list"
  sv_shutdown :: "shutdown_reason option"
  sv_status :: "channel \<Rightarrow> dependency_status"
  sv_pgids :: "channel \<Rightarrow> int"
  sv_cells :: channel
  sv_tasks :: "(task_id, task) btmap"
  sv_spawned :: task_id
  sv_queue :: "service_report list"
  sv_acks :: "(ack \<times> ack_answer) list"
  sv_events :: "service_event list"

abbreviation slot_of :: "supervisor \<Rightarrow> service_name \<Rightarrow> slot option" where
  "slot_of sv name \<equiv> bt_get (sv_slots sv) name"

definition put_slot :: "service_name \<Rightarrow> slot \<Rightarrow> supervisor \<Rightarrow> supervisor" where
  "put_slot name s sv = sv\<lparr> sv_slots := bt_set name s (sv_slots sv) \<rparr>"

definition send_ack :: "ack \<Rightarrow> ack_answer \<Rightarrow> supervisor \<Rightarrow> supervisor" where
  "send_ack a r sv = sv\<lparr> sv_acks := sv_acks sv @ [(a, r)] \<rparr>"

text \<open>\<open>stop.send(Some(reason))\<close>: nothing happens when the task is gone.\<close>

definition send_stop :: "task_id \<Rightarrow> shutdown_reason \<Rightarrow> supervisor \<Rightarrow> supervisor" where
  "send_stop t reason sv =
     (case bt_get (sv_tasks sv) t of
        None \<Rightarrow> sv
      | Some task \<Rightarrow>
          sv\<lparr> sv_tasks := bt_set t (task\<lparr> tk_requests := tk_requests task @ [reason] \<rparr>) (sv_tasks sv) \<rparr>)"

text \<open>\<open>Slot::spawn\<close> on the slot \<open>s\<close> of \<open>name\<close>.\<close>

definition spawn_slot :: "service_name \<Rightarrow> slot \<Rightarrow> supervisor \<Rightarrow> supervisor" where
  "spawn_slot name s sv =
     (let t = sv_spawned sv in
      put_slot name (s\<lparr> sl_stop := Some t, sl_handle := Some t \<rparr>)
        (sv\<lparr> sv_status := (sv_status sv)(sl_cell s := status_new),
             sv_pgids := (sv_pgids sv)(sl_cell s := 0),
             sv_spawned := Suc t,
             sv_tasks := bt_insert t
               \<lparr> tk_service = sl_service s, tk_deps = sl_deps s, tk_cell = sl_cell s,
                 tk_requests = shutdown_channel \<rparr> (sv_tasks sv) \<rparr>))"

definition count_spawn :: "supervisor \<Rightarrow> supervisor" where
  "count_spawn sv = sv\<lparr> sv_running := sv_running sv + 1 \<rparr>"

text \<open>\<open>Slot::answer\<close>: the answer to the waiting client, and the slot without it.\<close>

definition answer_pending :: "slot \<Rightarrow> ack_answer \<Rightarrow> supervisor \<Rightarrow> supervisor" where
  "answer_pending s r sv = (case sl_pending s of None \<Rightarrow> sv | Some a \<Rightarrow> send_ack a r sv)"

section \<open>\<open>RunState\<close>\<close>

definition insert_slot :: "service_name \<Rightarrow> service \<Rightarrow> supervisor \<Rightarrow> supervisor" where
  "insert_slot name service sv =
     (let c = sv_cells sv in
      sv\<lparr> sv_cells := Suc c,
          sv_status := (sv_status sv)(c := status_new),
          sv_pgids := (sv_pgids sv)(c := 0),
          sv_slots := bt_insert name
            \<lparr> sl_service = service, sl_deps = [], sl_cell = c, sl_stop = None, sl_handle = None,
              sl_restart_when_stopped = False, sl_retired = False, sl_pending = None \<rparr> (sv_slots sv) \<rparr>)"

definition publish_stopped :: "service_name \<Rightarrow> supervisor \<Rightarrow> supervisor" where
  "publish_stopped name sv =
     (case slot_of sv name of
        None \<Rightarrow> sv
      | Some s \<Rightarrow>
          sv\<lparr> sv_status := (sv_status sv)(sl_cell s := status_new\<lparr> ds_state := Stopped \<rparr>),
              sv_events := sv_events sv @ [service_event_new name (EK_State Stopped)] \<rparr>)"

definition edge_for :: "config \<Rightarrow> (service_name, slot) btmap \<Rightarrow> dependency \<Rightarrow> dependency_edge option" where
  "edge_for config slots dep =
     (case bt_get (cfg_services config) (dep_service dep) of
        None \<Rightarrow> None
      | Some target \<Rightarrow>
          (case bt_get slots (dep_service dep) of
             None \<Rightarrow> None
           | Some s \<Rightarrow>
               Some \<lparr> de_name = dep_service dep, de_condition = condition_for dep target,
                      de_status = sl_cell s \<rparr>))"

definition wire_slot :: "config \<Rightarrow> (service_name, slot) btmap \<Rightarrow> service_name \<Rightarrow> slot \<Rightarrow> slot" where
  "wire_slot config slots name s =
     (case bt_get (cfg_services config) name of
        None \<Rightarrow> s
      | Some service \<Rightarrow>
          s\<lparr> sl_deps := List.map_filter (edge_for config slots) (svc_depends_on service) \<rparr>)"

definition rewire_dependencies :: "supervisor \<Rightarrow> supervisor" where
  "rewire_dependencies sv =
     sv\<lparr> sv_slots := map (\<lambda>(name, s). (name, wire_slot (sv_config sv) (sv_slots sv) name s)) (sv_slots sv) \<rparr>"

record config_diff =
  diff_added :: "service_name list"
  diff_changed :: "service_name list"
  diff_removed :: "service_name list"

definition is_added :: "supervisor \<Rightarrow> service_name \<Rightarrow> bool" where
  "is_added sv name = (case slot_of sv name of Some s \<Rightarrow> sl_retired s | None \<Rightarrow> True)"

definition is_changed :: "supervisor \<Rightarrow> config \<Rightarrow> service_name \<Rightarrow> bool" where
  "is_changed sv config name =
     (case slot_of sv name of
        Some s \<Rightarrow> \<not> sl_retired s \<and> bt_get (cfg_services config) name \<noteq> Some (sl_service s)
      | None \<Rightarrow> False)"

definition state_diff :: "supervisor \<Rightarrow> config \<Rightarrow> service_name list \<Rightarrow> config_diff" where
  "state_diff sv config plan =
     \<lparr> diff_added = filter (is_added sv) plan,
       diff_changed = filter (is_changed sv config) plan,
       diff_removed = filter (\<lambda>name. name \<notin> set plan) (bt_keys (sv_slots sv)) \<rparr>"

section \<open>The start\<close>

definition insert_planned :: "config \<Rightarrow> service_name \<Rightarrow> supervisor \<Rightarrow> supervisor" where
  "insert_planned config name sv =
     (case bt_get (cfg_services config) name of
        None \<Rightarrow> sv
      | Some service \<Rightarrow> insert_slot name service sv)"

definition start_planned :: "service_name set \<Rightarrow> service_name \<Rightarrow> supervisor \<Rightarrow> supervisor" where
  "start_planned stopped name sv =
     (if name \<in> stopped then publish_stopped name sv
      else case slot_of sv name of
             None \<Rightarrow> sv
           | Some s \<Rightarrow> count_spawn (spawn_slot name s sv))"

definition supervisor_new :: "config \<Rightarrow> service_name list \<Rightarrow> supervisor" where
  "supervisor_new config plan =
     \<lparr> sv_config = config, sv_plan = plan, sv_slots = [], sv_running = 0, sv_reports = [],
       sv_shutdown = None, sv_status = (\<lambda>_. status_new), sv_pgids = (\<lambda>_. 0), sv_cells = 0,
       sv_tasks = [], sv_spawned = 0, sv_queue = [], sv_acks = [], sv_events = [] \<rparr>"

definition stack_start :: "config \<Rightarrow> service_name list \<Rightarrow> service_name set \<Rightarrow> supervisor" where
  "stack_start config plan stopped =
     fold (start_planned stopped) plan
       (rewire_dependencies (fold (insert_planned config) plan (supervisor_new config plan)))"

section \<open>Reports\<close>

text \<open>What the report of a service does to its slot.\<close>

definition settle_slot :: "service_name \<Rightarrow> slot \<Rightarrow> supervisor \<Rightarrow> supervisor" where
  "settle_slot name s sv =
     (let s = s\<lparr> sl_stop := None, sl_handle := None \<rparr>; quiet = s\<lparr> sl_pending := None \<rparr> in
      if sl_retired s then
        (let sv = answer_pending s (Inr CO_Stopped) sv
         in sv\<lparr> sv_slots := bt_remove name (sv_slots sv) \<rparr>)
      else if sl_restart_when_stopped s then
        answer_pending s (Inr CO_Restarted)
          (count_spawn (spawn_slot name (quiet\<lparr> sl_restart_when_stopped := False \<rparr>) sv))
      else answer_pending s (Inr CO_Stopped) (put_slot name quiet sv))"

definition report_arm :: "stack_options \<Rightarrow> service_report \<Rightarrow> supervisor \<Rightarrow> supervisor" where
  "report_arm options report sv =
     (let sv = sv\<lparr> sv_running := sv_running sv - 1 \<rparr>;
          failed = result_is_failure (rep_result report);
          found = slot_of sv (rep_service report);
          retire = (case found of Some s \<Rightarrow> sl_retired s | None \<Rightarrow> False);
          sv = (case found of Some s \<Rightarrow> settle_slot (rep_service report) s sv | None \<Rightarrow> sv)
      in if retire then sv
         else sv\<lparr> sv_reports := sv_reports sv @ [report],
                  sv_shutdown := (if failed \<and> so_abort_on_failure options
                                  then Some SR_StackFailure else sv_shutdown sv) \<rparr>)"

section \<open>Commands\<close>

text \<open>The bodies of the four loops of \<open>reload\<close>.\<close>

definition remove_service :: "service_name \<Rightarrow> supervisor \<Rightarrow> supervisor" where
  "remove_service name sv =
     (case slot_of sv name of
        None \<Rightarrow> sv
      | Some s \<Rightarrow>
          (case sl_stop s of
             Some t \<Rightarrow>
               send_stop t SR_Requested
                 (put_slot name (s\<lparr> sl_retired := True, sl_restart_when_stopped := False \<rparr>) sv)
           | None \<Rightarrow> sv\<lparr> sv_slots := bt_remove name (sv_slots sv) \<rparr>))"

definition add_service :: "config \<Rightarrow> service_name \<Rightarrow> supervisor \<Rightarrow> supervisor" where
  "add_service config name sv =
     (case bt_get (cfg_services config) name of
        None \<Rightarrow> sv
      | Some service \<Rightarrow>
          (case slot_of sv name of
             Some s \<Rightarrow>
               put_slot name (s\<lparr> sl_retired := False, sl_service := service,
                 sl_restart_when_stopped := sl_stop s \<noteq> None \<rparr>) sv
           | None \<Rightarrow> insert_slot name service sv))"

definition change_service :: "config \<Rightarrow> service_name \<Rightarrow> supervisor \<Rightarrow> supervisor" where
  "change_service config name sv =
     (case bt_get (cfg_services config) name of
        None \<Rightarrow> sv
      | Some service \<Rightarrow>
          (case slot_of sv name of
             None \<Rightarrow> sv
           | Some s \<Rightarrow>
               (case sl_stop s of
                  Some t \<Rightarrow>
                    send_stop t SR_Requested
                      (put_slot name (s\<lparr> sl_service := service, sl_restart_when_stopped := True \<rparr>) sv)
                | None \<Rightarrow> put_slot name (s\<lparr> sl_service := service \<rparr>) sv)))"

definition spawn_added :: "service_name \<Rightarrow> supervisor \<Rightarrow> supervisor" where
  "spawn_added name sv =
     (case slot_of sv name of
        None \<Rightarrow> sv
      | Some s \<Rightarrow>
          if sl_restart_when_stopped s \<or> slot_is_running s then sv
          else count_spawn (spawn_slot name s sv))"

text \<open>The difference applied, once no command is waiting.\<close>

definition apply_reload :: "config \<Rightarrow> service_name list \<Rightarrow> supervisor \<Rightarrow> supervisor" where
  "apply_reload config plan sv =
     (let d = state_diff sv config plan in
      fold spawn_added (diff_added d)
        (rewire_dependencies
          (fold (change_service config) (diff_changed d)
            (fold (add_service config) (diff_added d)
              (fold remove_service (diff_removed d)
                (sv\<lparr> sv_config := config, sv_plan := plan \<rparr>))))))"

definition reload :: "config \<Rightarrow> service_name list \<Rightarrow> supervisor \<Rightarrow> ack_answer \<times> supervisor" where
  "reload config plan sv =
     (case find (\<lambda>(_, s). sl_pending s \<noteq> None) (sv_slots sv) of
        Some (busy, _) \<Rightarrow> (Inl (CR_Busy busy), sv)
      | None \<Rightarrow>
          (let d = state_diff sv config plan in
           (Inr (CO_Reloaded (length (diff_added d)) (length (diff_changed d)) (length (diff_removed d))),
            apply_reload config plan sv)))"

text \<open>A command for the slot \<open>s\<close> of \<open>name\<close>, which no other command waits for.\<close>

definition start_command :: "service_name \<Rightarrow> slot \<Rightarrow> ack \<Rightarrow> supervisor \<Rightarrow> supervisor" where
  "start_command name s a sv =
     (if slot_is_running s then send_ack a (Inl (CR_AlreadyRunning name)) sv
      else send_ack a (Inr CO_Started) (count_spawn (spawn_slot name s sv)))"

definition stop_command :: "service_name \<Rightarrow> slot \<Rightarrow> ack \<Rightarrow> supervisor \<Rightarrow> supervisor" where
  "stop_command name s a sv =
     (case sl_stop s of
        None \<Rightarrow> send_ack a (Inr CO_AlreadyStopped) sv
      | Some t \<Rightarrow> send_stop t SR_Requested (put_slot name (s\<lparr> sl_pending := Some a \<rparr>) sv))"

definition restart_command :: "service_name \<Rightarrow> slot \<Rightarrow> ack \<Rightarrow> supervisor \<Rightarrow> supervisor" where
  "restart_command name s a sv =
     (case sl_stop s of
        None \<Rightarrow> send_ack a (Inr CO_Started) (count_spawn (spawn_slot name s sv))
      | Some t \<Rightarrow>
          send_stop t SR_Requested
            (put_slot name (s\<lparr> sl_restart_when_stopped := True, sl_pending := Some a \<rparr>) sv))"

definition service_command ::
    "(service_name \<Rightarrow> slot \<Rightarrow> ack \<Rightarrow> supervisor \<Rightarrow> supervisor) \<Rightarrow> service_name \<Rightarrow> ack \<Rightarrow> supervisor \<Rightarrow> supervisor" where
  "service_command run name a sv =
     (case slot_of sv name of
        None \<Rightarrow> send_ack a (Inl (CR_UnknownService name)) sv
      | Some s \<Rightarrow>
          if sl_pending s \<noteq> None then send_ack a (Inl (CR_Busy name)) sv
          else run name s a sv)"

fun handle_control :: "control \<Rightarrow> supervisor \<Rightarrow> supervisor" where
  "handle_control (C_Reload config plan a) sv =
     (let (r, sv) = reload config plan sv in send_ack a r sv)"
| "handle_control (C_Start name a) sv = service_command start_command name a sv"
| "handle_control (C_Stop name a) sv = service_command stop_command name a sv"
| "handle_control (C_Restart name a) sv = service_command restart_command name a sv"

section \<open>Steps\<close>

text \<open>A supervision task ends by sending its report; before that it may have withdrawn from its
  dependents, when it never ran.\<close>

definition task_gone :: "task_id \<Rightarrow> supervisor \<Rightarrow> supervisor" where
  "task_gone t sv =
     (case bt_get (sv_tasks sv) t of
        None \<Rightarrow> sv
      | Some task \<Rightarrow>
          sv\<lparr> sv_status := (sv_status sv)(tk_cell task := (sv_status sv (tk_cell task))\<lparr> ds_gone := True \<rparr>) \<rparr>)"

definition task_report :: "task_id \<Rightarrow> service_result \<Rightarrow> supervisor \<Rightarrow> supervisor" where
  "task_report t result sv =
     (case bt_get (sv_tasks sv) t of
        None \<Rightarrow> sv
      | Some task \<Rightarrow>
          sv\<lparr> sv_tasks := bt_remove t (sv_tasks sv),
              sv_queue := sv_queue sv @ [\<lparr> rep_service = svc_name (tk_service task), rep_result = result \<rparr>] \<rparr>)"

text \<open>The relay of a task publishes what it has folded so far, and the process group.\<close>

definition task_publish :: "channel \<Rightarrow> dependency_status \<Rightarrow> int \<Rightarrow> supervisor \<Rightarrow> supervisor" where
  "task_publish c status pgid sv =
     sv\<lparr> sv_status := (sv_status sv)(c := status), sv_pgids := (sv_pgids sv)(c := pgid) \<rparr>"

definition loop_over :: "stack_options \<Rightarrow> supervisor \<Rightarrow> bool" where
  "loop_over options sv =
     (sv_shutdown sv \<noteq> None \<or> sv_running sv = 0 \<and> \<not> so_keep_running options)"

datatype stack_input =
    IN_Report
  | IN_Control control
  | IN_Shutdown shutdown_reason
  | IN_Gone task_id
  | IN_Finish task_id service_result
  | IN_Publish channel dependency_status int

text \<open>One step: an arm of the \<open>select!\<close>, while the loop runs, or an act of a task.\<close>

definition stack_step :: "stack_options \<Rightarrow> stack_input \<Rightarrow> supervisor \<Rightarrow> supervisor" where
  "stack_step options i sv =
     (case i of
        IN_Gone t \<Rightarrow> task_gone t sv
      | IN_Finish t result \<Rightarrow> task_report t result sv
      | IN_Publish c status pgid \<Rightarrow> task_publish c status pgid sv
      | IN_Report \<Rightarrow>
          (case sv_queue sv of
             report # queue \<Rightarrow>
               if loop_over options sv then sv else report_arm options report (sv\<lparr> sv_queue := queue \<rparr>)
           | [] \<Rightarrow> sv)
      | IN_Control command \<Rightarrow> if loop_over options sv then sv else handle_control command sv
      | IN_Shutdown reason \<Rightarrow> if loop_over options sv then sv else sv\<lparr> sv_shutdown := Some reason \<rparr>)"

definition stack_run :: "stack_options \<Rightarrow> stack_input list \<Rightarrow> supervisor \<Rightarrow> supervisor" where
  "stack_run options inputs sv = fold (stack_step options) inputs sv"

end
