(* ===== verification/Stack_Invariant.thy ===== *)
theory Stack_Invariant
  imports Stack
begin

text \<open>
  The invariant of the supervisor of \<open>runtime/stack.rs\<close>: what holds of its slots, the supervision
  tasks and the waiting reports after any sequence of commands, reports and acts of tasks.
\<close>

section \<open>The invariant\<close>

definition reports_of :: "service_report list \<Rightarrow> service_name \<Rightarrow> nat" where
  "reports_of queue name = length (filter (\<lambda>r. rep_service r = name) queue)"

definition flagged :: "slot \<Rightarrow> bool" where
  "flagged s = (sl_retired s \<or> sl_restart_when_stopped s \<or> sl_pending s \<noteq> None)"

text \<open>A running slot has a task, or the report of a task that has ended.\<close>

definition slot_backed :: "(task_id, task) btmap \<Rightarrow> service_report list \<Rightarrow> service_name \<Rightarrow> slot \<Rightarrow> task_id \<Rightarrow> bool" where
  "slot_backed tasks queue name s t =
     (case bt_get tasks t of
        None \<Rightarrow> reports_of queue name = 1
      | Some task \<Rightarrow>
          reports_of queue name = 0 \<and> svc_name (tk_service task) = name
          \<and> (flagged s \<longrightarrow> tk_requests task \<noteq> [])
          \<and> (sl_retired s \<or> sl_restart_when_stopped s \<or> tk_service task = sl_service s))"

definition slot_inv :: "(task_id, task) btmap \<Rightarrow> service_report list \<Rightarrow> task_id \<Rightarrow> service_name \<Rightarrow> slot \<Rightarrow> bool" where
  "slot_inv tasks queue spawned name s =
     (svc_name (sl_service s) = name \<and> sl_stop s = sl_handle s
      \<and> (case sl_handle s of
           None \<Rightarrow> \<not> flagged s \<and> reports_of queue name = 0
         | Some t \<Rightarrow> t < spawned \<and> slot_backed tasks queue name s t))"

definition running_slots :: "(service_name, slot) btmap \<Rightarrow> nat" where
  "running_slots m = length (filter (\<lambda>e. slot_is_running (snd e)) m)"

definition sv_inv :: "supervisor \<Rightarrow> bool" where
  "sv_inv sv =
     (bt_wf (sv_slots sv) \<and> bt_wf (sv_tasks sv)
      \<and> (\<forall>name s. slot_of sv name = Some s \<longrightarrow>
           slot_inv (sv_tasks sv) (sv_queue sv) (sv_spawned sv) name s)
      \<and> (\<forall>t task. bt_get (sv_tasks sv) t = Some task \<longrightarrow>
           (\<exists>s. slot_of sv (svc_name (tk_service task)) = Some s \<and> sl_handle s = Some t))
      \<and> (\<forall>r \<in> set (sv_queue sv). slot_of sv (rep_service r) \<noteq> None)
      \<and> sv_running sv = running_slots (sv_slots sv))"

lemma running_set:
  "bt_get m name = Some s \<Longrightarrow>
     running_slots (bt_set name s' m) + (if slot_is_running s then 1 else 0)
       = running_slots m + (if slot_is_running s' then 1 else 0)"
  by (induction m) (auto simp: running_slots_def bt_get_Cons split: if_splits)

lemma running_insert:
  "bt_get m name = None \<Longrightarrow>
     running_slots (bt_insert name s m) = running_slots m + (if slot_is_running s then 1 else 0)"
  by (induction m) (auto simp: running_slots_def bt_get_Cons split: if_splits)

lemma running_remove:
  "bt_wf m \<Longrightarrow> bt_get m name = Some s \<Longrightarrow>
     running_slots (bt_remove name m) + (if slot_is_running s then 1 else 0) = running_slots m"
proof (induction m)
  case (Cons e m)
  obtain k v where e: "e = (k, v)" by (cases e)
  show ?case
  proof (cases "k = name")
    case True
    then have "bt_remove name m = m"
      using Cons.prems(1) e by (auto simp: bt_remove_def filter_id_conv)
    with True Cons.prems e show ?thesis
      by (simp add: running_slots_def bt_get_Cons bt_remove_def)
  next
    case False
    with Cons e show ?thesis by (auto simp: running_slots_def bt_get_Cons bt_remove_def)
  qed
qed simp

lemma running_pos: "bt_get m name = Some s \<Longrightarrow> slot_is_running s \<Longrightarrow> 0 < running_slots m"
  by (induction m) (auto simp: running_slots_def bt_get_Cons split: if_splits)

lemma sv_invD:
  assumes "sv_inv sv"
  shows "bt_wf (sv_slots sv)" "bt_wf (sv_tasks sv)"
    "slot_of sv name = Some s \<Longrightarrow> slot_inv (sv_tasks sv) (sv_queue sv) (sv_spawned sv) name s"
    "bt_get (sv_tasks sv) t = Some task \<Longrightarrow>
       \<exists>s. slot_of sv (svc_name (tk_service task)) = Some s \<and> sl_handle s = Some t"
    "r \<in> set (sv_queue sv) \<Longrightarrow> slot_of sv (rep_service r) \<noteq> None"
    "sv_running sv = running_slots (sv_slots sv)"
  using assms by (auto simp: sv_inv_def)

text \<open>The invariant reads only slots, tasks, queue and counters.\<close>

lemma sv_inv_cong:
  assumes "sv_slots sv' = sv_slots sv" "sv_tasks sv' = sv_tasks sv" "sv_queue sv' = sv_queue sv"
    "sv_spawned sv' = sv_spawned sv" "sv_running sv' = sv_running sv"
  shows "sv_inv sv' = sv_inv sv"
  using assms by (simp add: sv_inv_def)

lemma inv_send_ack [simp]: "sv_inv (send_ack a r sv) = sv_inv sv"
  by (rule sv_inv_cong) (simp_all add: send_ack_def)

lemma inv_answer_pending [simp]: "sv_inv (answer_pending s r sv) = sv_inv sv"
  by (simp add: answer_pending_def split: option.split)

lemma inv_verdict [simp]: "sv_inv (sv\<lparr> sv_reports := reports, sv_shutdown := reason \<rparr>) = sv_inv sv"
  "sv_inv (sv\<lparr> sv_reports := reports \<rparr>) = sv_inv sv" "sv_inv (sv\<lparr> sv_shutdown := reason \<rparr>) = sv_inv sv"
  by (simp_all add: sv_inv_def)

section \<open>Primitive changes\<close>

lemma inv_put_slot:
  assumes inv: "sv_inv sv" and s: "slot_of sv name = Some s"
    and handle: "sl_handle s' = sl_handle s"
    and ok: "slot_inv (sv_tasks sv) (sv_queue sv) (sv_spawned sv) name s'"
  shows "sv_inv (put_slot name s' sv)"
proof -
  have get: "bt_get (bt_set name s' (sv_slots sv)) n = (if n = name then Some s' else slot_of sv n)" for n
    using s by (simp add: bt_get_set)
  have "running_slots (bt_set name s' (sv_slots sv)) = running_slots (sv_slots sv)"
    using running_set [OF s, of s'] handle by (simp add: slot_is_running_def)
  moreover have "\<exists>x. bt_get (bt_set name s' (sv_slots sv)) (svc_name (tk_service task)) = Some x \<and> sl_handle x = Some t"
    if "bt_get (sv_tasks sv) t = Some task" for t task
    using sv_invD(4) [OF inv that] s handle by (auto simp: get)
  moreover have "bt_get (bt_set name s' (sv_slots sv)) (rep_service r) \<noteq> None" if "r \<in> set (sv_queue sv)" for r
    using sv_invD(5) [OF inv that] by (simp add: get)
  ultimately show ?thesis
    using inv ok by (simp add: sv_inv_def put_slot_def get)
qed

lemma send_stop_slots [simp]:
  "sv_slots (send_stop t r sv) = sv_slots sv" "sv_queue (send_stop t r sv) = sv_queue sv"
  "sv_spawned (send_stop t r sv) = sv_spawned sv" "sv_running (send_stop t r sv) = sv_running sv"
  "sv_plan (send_stop t r sv) = sv_plan sv" "sv_config (send_stop t r sv) = sv_config sv"
  "sv_acks (send_stop t r sv) = sv_acks sv" "sv_cells (send_stop t r sv) = sv_cells sv"
  "sv_shutdown (send_stop t r sv) = sv_shutdown sv"
  by (simp_all add: send_stop_def split: option.split)

lemma send_stop_get:
  "bt_get (sv_tasks (send_stop t r sv)) u =
     map_option (\<lambda>task. if u = t then task\<lparr> tk_requests := tk_requests task @ [r] \<rparr> else task)
       (bt_get (sv_tasks sv) u)"
  by (cases "bt_get (sv_tasks sv) u") (auto simp: send_stop_def bt_get_set split: option.split)

lemma slot_backed_send_stop:
  "slot_backed tasks queue name s u \<Longrightarrow> tasks = sv_tasks sv \<Longrightarrow>
     slot_backed (sv_tasks (send_stop t r sv)) queue name s u"
  by (auto simp: slot_backed_def send_stop_get split: option.splits)

lemma inv_send_stop:
  assumes inv: "sv_inv sv"
  shows "sv_inv (send_stop t r sv)"
proof -
  have "bt_wf (sv_tasks (send_stop t r sv))"
    using sv_invD(2) [OF inv] by (auto simp: send_stop_def split: option.split)
  moreover have "slot_inv (sv_tasks (send_stop t r sv)) (sv_queue sv) (sv_spawned sv) name s"
    if "slot_of sv name = Some s" for name s
    using sv_invD(3) [OF inv that]
    by (auto simp: slot_inv_def intro: slot_backed_send_stop split: option.splits)
  moreover have "\<exists>s. slot_of sv (svc_name (tk_service task)) = Some s \<and> sl_handle s = Some u"
    if "bt_get (sv_tasks (send_stop t r sv)) u = Some task" for u task
    using that sv_invD(4) [OF inv] by (fastforce simp: send_stop_get split: if_splits)
  ultimately show ?thesis using inv by (simp add: sv_inv_def)
qed

lemma send_stop_put: "send_stop t r (put_slot name s sv) = put_slot name s (send_stop t r sv)"
  by (simp add: send_stop_def put_slot_def split: option.split)

text \<open>A running slot may be flagged when its task is asked to stop; its definition may change
  only when the task is to be replaced.\<close>

lemma inv_flag_slot:
  assumes inv: "sv_inv sv" and s: "slot_of sv name = Some s" and t: "sl_stop s = Some t"
    and same: "sl_handle s' = sl_handle s" "sl_stop s' = sl_stop s" "svc_name (sl_service s') = name"
    and def_ok: "sl_retired s' \<or> sl_restart_when_stopped s' \<or> sl_service s' = sl_service s \<and> \<not> sl_retired s \<and> \<not> sl_restart_when_stopped s"
  shows "sv_inv (send_stop t r (put_slot name s' sv))"
proof -
  have old: "slot_inv (sv_tasks sv) (sv_queue sv) (sv_spawned sv) name s" using sv_invD(3) [OF inv s] .
  with t have h: "sl_handle s = Some t" by (simp add: slot_inv_def)
  with old have backed: "t < sv_spawned sv" "slot_backed (sv_tasks sv) (sv_queue sv) name s t"
    by (simp_all add: slot_inv_def)
  have "slot_backed (sv_tasks (send_stop t r sv)) (sv_queue sv) name s' t"
  proof (cases "bt_get (sv_tasks sv) t")
    case None
    with backed(2) show ?thesis by (simp add: slot_backed_def send_stop_get)
  next
    case (Some task)
    with backed(2) def_ok show ?thesis by (auto simp: slot_backed_def send_stop_get)
  qed
  with backed(1) h t same have "slot_inv (sv_tasks (send_stop t r sv)) (sv_queue sv) (sv_spawned sv) name s'"
    by (simp add: slot_inv_def)
  then show ?thesis
    using inv_put_slot [OF inv_send_stop [OF inv], where name = name and s = s and s' = s'] s same
    by (simp add: send_stop_put)
qed

lemma inv_spawn:
  assumes inv: "sv_inv sv" and s0: "slot_of sv name = Some s0" and idle: "\<not> slot_is_running s0"
    and s: "\<not> flagged s" "svc_name (sl_service s) = name"
  shows "sv_inv (count_spawn (spawn_slot name s sv))"
proof -
  let ?t = "sv_spawned sv"
  let ?task = "\<lparr> tk_service = sl_service s, tk_deps = sl_deps s, tk_cell = sl_cell s, tk_requests = shutdown_channel \<rparr>"
  let ?s = "s\<lparr> sl_stop := Some ?t, sl_handle := Some ?t \<rparr>"
  let ?slots = "bt_set name ?s (sv_slots sv)" and ?tasks = "bt_insert ?t ?task (sv_tasks sv)"
  have get: "bt_get ?slots n = (if n = name then Some ?s else slot_of sv n)" for n
    using s0 by (simp add: bt_get_set)
  have tget: "bt_get ?tasks u = (if u = ?t then Some ?task else bt_get (sv_tasks sv) u)" for u
    by (simp add: bt_get_insert)
  have quiet: "reports_of (sv_queue sv) name = 0"
    using sv_invD(3) [OF inv s0] idle by (simp add: slot_inv_def slot_is_running_def)
  have "running_slots ?slots = Suc (running_slots (sv_slots sv))"
    using running_set [OF s0, of ?s] idle by (simp add: slot_is_running_def)
  moreover have "slot_inv ?tasks (sv_queue sv) (Suc ?t) n x" if "bt_get ?slots n = Some x" for n x
  proof (cases "n = name")
    case True
    with that s quiet show ?thesis
      by (auto simp: get slot_inv_def slot_backed_def tget flagged_def)
  next
    case False
    with that have x: "slot_of sv n = Some x" by (simp add: get)
    show ?thesis
      using sv_invD(3) [OF inv x] by (auto simp: slot_inv_def slot_backed_def tget split: option.splits)
  qed
  moreover have "\<exists>x. bt_get ?slots (svc_name (tk_service task)) = Some x \<and> sl_handle x = Some u"
    if "bt_get ?tasks u = Some task" for u task
  proof (cases "u = ?t")
    case True
    with that have "task = ?task" by (simp add: tget)
    with True s(2) show ?thesis by (simp add: get)
  next
    case False
    with that obtain x where x: "slot_of sv (svc_name (tk_service task)) = Some x" "sl_handle x = Some u"
      using sv_invD(4) [OF inv, of u task] by (auto simp: tget)
    then have "svc_name (tk_service task) \<noteq> name" using s0 idle by (auto simp: slot_is_running_def)
    with x show ?thesis by (simp add: get)
  qed
  moreover have "bt_get ?slots (rep_service r) \<noteq> None" if "r \<in> set (sv_queue sv)" for r
    using sv_invD(5) [OF inv that] by (simp add: get)
  ultimately show ?thesis
    using sv_invD(1,2,6) [OF inv]
    by (simp add: sv_inv_def count_spawn_def spawn_slot_def put_slot_def Let_def bt_wf_insert)
qed

lemma inv_insert_slot:
  assumes inv: "sv_inv sv" and new: "slot_of sv name = None" and service: "svc_name service = name"
  shows "sv_inv (insert_slot name service sv)"
proof -
  have "rep_service r \<noteq> name" if "r \<in> set (sv_queue sv)" for r
    using sv_invD(5) [OF inv that] new by auto
  then have "reports_of (sv_queue sv) name = 0" by (simp add: reports_of_def filter_empty_conv)
  moreover have "\<exists>s. bt_get (bt_insert name x (sv_slots sv)) (svc_name (tk_service task)) = Some s \<and> sl_handle s = Some t"
    if "bt_get (sv_tasks sv) t = Some task" for t task x
    using sv_invD(4) [OF inv that] new by (auto simp: bt_get_insert)
  ultimately show ?thesis
    using inv new service
    by (auto simp: sv_inv_def insert_slot_def Let_def bt_get_insert bt_wf_insert running_insert
        slot_is_running_def slot_inv_def flagged_def)
qed

lemma inv_remove_slot:
  assumes inv: "sv_inv sv" and s: "slot_of sv name = Some s" and idle: "\<not> slot_is_running s"
  shows "sv_inv (sv\<lparr> sv_slots := bt_remove name (sv_slots sv) \<rparr>)"
proof -
  have "reports_of (sv_queue sv) name = 0"
    using sv_invD(3) [OF inv s] idle by (simp add: slot_inv_def slot_is_running_def)
  then have "rep_service r \<noteq> name" if "r \<in> set (sv_queue sv)" for r
    using that by (auto simp: reports_of_def filter_empty_conv)
  moreover have "svc_name (tk_service task) \<noteq> name" if "bt_get (sv_tasks sv) t = Some task" for t task
    using sv_invD(4) [OF inv that] s idle by (auto simp: slot_is_running_def)
  moreover have "running_slots (bt_remove name (sv_slots sv)) = running_slots (sv_slots sv)"
    using running_remove [OF sv_invD(1) [OF inv] s] idle by simp
  ultimately show ?thesis
    using inv by (auto simp: sv_inv_def bt_get_remove bt_wf_remove)
qed

lemma inv_map_slots:
  assumes inv: "sv_inv sv"
    and f: "\<And>name s. sl_service (f name s) = sl_service s \<and> sl_stop (f name s) = sl_stop s
      \<and> sl_handle (f name s) = sl_handle s \<and> sl_retired (f name s) = sl_retired s
      \<and> sl_restart_when_stopped (f name s) = sl_restart_when_stopped s \<and> sl_pending (f name s) = sl_pending s"
  shows "sv_inv (sv\<lparr> sv_slots := map (\<lambda>(name, s). (name, f name s)) (sv_slots sv) \<rparr>)"
proof -
  let ?m = "map (\<lambda>(name, s). (name, f name s)) (sv_slots sv)"
  have get: "bt_get (map (\<lambda>(name, s). (name, f name s)) m) n = map_option (f n) (bt_get m n)" for n m
    by (induction m) (auto simp: bt_get_Cons)
  have "bt_wf ?m" using sv_invD(1) [OF inv] by (simp add: bt_wf_def comp_def case_prod_unfold)
  moreover have "running_slots ?m = running_slots (sv_slots sv)"
    by (simp add: running_slots_def filter_map comp_def case_prod_unfold slot_is_running_def f)
  moreover have "slot_inv tasks queue n name (f name s) = slot_inv tasks queue n name s" for tasks queue n name s
    by (auto simp: slot_inv_def slot_backed_def flagged_def f split: option.split)
  ultimately show ?thesis
    using inv by (fastforce simp: sv_inv_def get f)
qed

section \<open>Reports\<close>

lemma bt_set_set: "bt_set k v (bt_set k u m) = bt_set k v m"
  by (induction m) auto

lemma bt_remove_set: "bt_remove k (bt_set k u m) = bt_remove k m"
  by (induction m) (auto simp: bt_remove_def)

text \<open>The first report of the queue belongs to a slot whose task has ended.\<close>

lemma reported_slot:
  assumes inv: "sv_inv sv" and q: "sv_queue sv = report # queue"
  obtains s t where "slot_of sv (rep_service report) = Some s" "sl_handle s = Some t" "sl_stop s = Some t"
    "bt_get (sv_tasks sv) t = None" "reports_of queue (rep_service report) = 0" "svc_name (sl_service s) = rep_service report"
proof -
  obtain s where s: "slot_of sv (rep_service report) = Some s"
    using sv_invD(5) [OF inv, of report] q by auto
  have ok: "slot_inv (sv_tasks sv) (sv_queue sv) (sv_spawned sv) (rep_service report) s"
    using sv_invD(3) [OF inv s] .
  have one: "reports_of (sv_queue sv) (rep_service report) = Suc (reports_of queue (rep_service report))"
    using q by (simp add: reports_of_def)
  from ok one obtain t where t: "sl_handle s = Some t"
    by (cases "sl_handle s") (auto simp: slot_inv_def)
  with ok one have "bt_get (sv_tasks sv) t = None" "reports_of queue (rep_service report) = 0"
    by (auto simp: slot_inv_def slot_backed_def split: option.splits)
  with s t ok that show thesis by (auto simp: slot_inv_def)
qed

definition cleared :: "slot \<Rightarrow> slot" where
  "cleared s = s\<lparr> sl_stop := None, sl_handle := None, sl_restart_when_stopped := False, sl_retired := False,
     sl_pending := None \<rparr>"

lemma inv_clear_slot:
  assumes inv: "sv_inv sv" and q: "sv_queue sv = report # queue"
    and s: "slot_of sv (rep_service report) = Some s"
  shows "sv_inv (put_slot (rep_service report) (cleared s)
    (sv\<lparr> sv_queue := queue, sv_running := sv_running sv - 1 \<rparr>))"
proof -
  let ?name = "rep_service report"
  let ?slots = "bt_set ?name (cleared s) (sv_slots sv)"
  obtain t where t: "sl_handle s = Some t" "bt_get (sv_tasks sv) t = None" "reports_of queue ?name = 0"
    "svc_name (sl_service s) = ?name"
    using reported_slot [OF inv q] s by (metis option.inject)
  have get: "bt_get ?slots n = (if n = ?name then Some (cleared s) else slot_of sv n)" for n
    using s by (simp add: bt_get_set)
  have others: "reports_of (sv_queue sv) n = reports_of queue n" if "n \<noteq> ?name" for n
    using that q by (simp add: reports_of_def)
  have "slot_inv (sv_tasks sv) queue (sv_spawned sv) n x" if "bt_get ?slots n = Some x" for n x
  proof (cases "n = ?name")
    case True
    with that have "x = cleared s" by (simp add: get)
    with True t show ?thesis by (simp add: slot_inv_def cleared_def flagged_def)
  next
    case False
    with that sv_invD(3) [OF inv, of n x] show ?thesis
      by (auto simp: get slot_inv_def slot_backed_def others split: option.split)
  qed
  moreover have "\<exists>x. bt_get ?slots (svc_name (tk_service task)) = Some x \<and> sl_handle x = Some u"
    if "bt_get (sv_tasks sv) u = Some task" for u task
    using sv_invD(4) [OF inv that] that s t by (auto simp: get)
  moreover have "bt_get ?slots (rep_service r) \<noteq> None" if "r \<in> set queue" for r
    using sv_invD(5) [OF inv, of r] that q by (simp add: get)
  moreover have "sv_running sv - 1 = running_slots ?slots"
    using running_set [OF s, of "cleared s"] t sv_invD(6) [OF inv]
    by (simp add: slot_is_running_def cleared_def)
  ultimately show ?thesis
    using sv_invD(1,2) [OF inv] by (simp add: sv_inv_def put_slot_def)
qed

lemma inv_report_arm:
  assumes inv: "sv_inv sv" and q: "sv_queue sv = report # queue"
  shows "sv_inv (report_arm options report (sv\<lparr> sv_queue := queue \<rparr>))"
proof -
  let ?name = "rep_service report"
  let ?sv = "sv\<lparr> sv_queue := queue, sv_running := sv_running sv - 1 \<rparr>"
  obtain s where s: "slot_of sv ?name = Some s" "svc_name (sl_service s) = ?name"
    using reported_slot [OF inv q] by blast
  let ?quiet = "s\<lparr> sl_stop := None, sl_handle := None, sl_pending := None \<rparr>"
  have base: "sv_inv (put_slot ?name (cleared s) ?sv)" by (rule inv_clear_slot [OF inv q s(1)])
  have at: "slot_of (put_slot ?name (cleared s) ?sv) ?name = Some (cleared s)"
    using s by (simp add: put_slot_def bt_get_set)
  have "sv_inv (settle_slot ?name s ?sv)"
  proof (cases "sl_retired s")
    case True
    have "sv_inv ((put_slot ?name (cleared s) ?sv)\<lparr> sv_slots := bt_remove ?name (sv_slots sv) \<rparr>)"
      using inv_remove_slot [OF base at] by (simp add: slot_is_running_def cleared_def put_slot_def bt_remove_set)
    then show ?thesis
      using True by (simp add: settle_slot_def answer_pending_def send_ack_def sv_inv_def put_slot_def
          split: option.split)
  next
    case False
    show ?thesis
    proof (cases "sl_restart_when_stopped s")
      case True
      let ?fresh = "?quiet\<lparr> sl_restart_when_stopped := False \<rparr>"
      have "spawn_slot ?name ?fresh (put_slot ?name (cleared s) ?sv) = spawn_slot ?name ?fresh ?sv"
        by (simp add: spawn_slot_def put_slot_def Let_def bt_set_set)
      moreover have "sv_inv (count_spawn (spawn_slot ?name ?fresh (put_slot ?name (cleared s) ?sv)))"
        using False s(2) by (intro inv_spawn [OF base at])
          (simp_all add: slot_is_running_def cleared_def flagged_def)
      ultimately show ?thesis using True False by (simp add: settle_slot_def Let_def)
    next
      case no_restart: False
      have "cleared s = ?quiet" using False no_restart by (simp add: cleared_def)
      with base False no_restart show ?thesis by (simp add: settle_slot_def Let_def)
    qed
  qed
  moreover have "sv_inv (report_arm options report (sv\<lparr> sv_queue := queue \<rparr>)) = sv_inv (settle_slot ?name s ?sv)"
    using s by (simp add: report_arm_def Let_def)
  ultimately show ?thesis by simp
qed

section \<open>Commands to one service\<close>

lemma slot_facts:
  assumes "sv_inv sv" and "slot_of sv name = Some s"
  shows "sl_stop s = sl_handle s" "svc_name (sl_service s) = name"
    "sl_handle s = None \<Longrightarrow> \<not> flagged s"
  using sv_invD(3) [OF assms] by (auto simp: slot_inv_def)

lemma inv_start_command:
  assumes "sv_inv sv" and "slot_of sv name = Some s"
  shows "sv_inv (start_command name s a sv)"
  using assms slot_facts [OF assms]
  by (auto simp: start_command_def slot_is_running_def intro: inv_spawn [where ?s0.0 = s])

lemma inv_stop_command:
  assumes "sv_inv sv" and "slot_of sv name = Some s"
  shows "sv_inv (stop_command name s a sv)"
proof (cases "sl_stop s")
  case None
  with assms show ?thesis by (simp add: stop_command_def)
next
  case (Some t)
  have "sv_inv (send_stop t SR_Requested (put_slot name (s\<lparr> sl_pending := Some a \<rparr>) sv))"
    using slot_facts [OF assms] by (intro inv_flag_slot [OF assms Some]) auto
  with Some show ?thesis by (simp add: stop_command_def)
qed

lemma inv_restart_command:
  assumes "sv_inv sv" and "slot_of sv name = Some s"
  shows "sv_inv (restart_command name s a sv)"
proof (cases "sl_stop s")
  case None
  with assms slot_facts [OF assms] show ?thesis
    by (auto simp: restart_command_def slot_is_running_def intro: inv_spawn [where ?s0.0 = s])
next
  case (Some t)
  then show ?thesis
    using inv_flag_slot [OF assms Some, where r = SR_Requested and s' = "s\<lparr> sl_restart_when_stopped := True, sl_pending := Some a \<rparr>"]
      slot_facts [OF assms]
    by (simp add: restart_command_def)
qed

lemma inv_service_command:
  assumes "sv_inv sv" and "\<And>s. slot_of sv name = Some s \<Longrightarrow> sv_inv (run name s a sv)"
  shows "sv_inv (service_command run name a sv)"
  using assms by (auto simp: service_command_def split: option.split)

section \<open>Acts of the tasks\<close>

lemma inv_task_report:
  assumes inv: "sv_inv sv"
  shows "sv_inv (task_report t result sv)"
proof (cases "bt_get (sv_tasks sv) t")
  case None
  with inv show ?thesis by (simp add: task_report_def)
next
  case (Some task)
  let ?name = "svc_name (tk_service task)"
  let ?queue = "sv_queue sv @ [\<lparr> rep_service = ?name, rep_result = result \<rparr>]"
  obtain s where s: "slot_of sv ?name = Some s" "sl_handle s = Some t"
    using sv_invD(4) [OF inv Some] by blast
  have "reports_of (sv_queue sv) ?name = 0"
    using sv_invD(3) [OF inv s(1)] s(2) Some by (simp add: slot_inv_def slot_backed_def)
  then have mine: "reports_of ?queue ?name = 1" by (simp add: reports_of_def)
  have others: "reports_of ?queue n = reports_of (sv_queue sv) n" if "n \<noteq> ?name" for n
    using that by (simp add: reports_of_def)
  have "slot_inv (bt_remove t (sv_tasks sv)) ?queue (sv_spawned sv) n x" if x: "slot_of sv n = Some x" for n x
  proof (cases "n = ?name")
    case True
    with x s mine sv_invD(3) [OF inv x] show ?thesis
      by (auto simp: slot_inv_def slot_backed_def bt_get_remove)
  next
    case False
    have "sl_handle x \<noteq> Some t"
    proof
      assume "sl_handle x = Some t"
      with sv_invD(3) [OF inv x] Some False show False by (simp add: slot_inv_def slot_backed_def)
    qed
    with False sv_invD(3) [OF inv x] show ?thesis
      by (auto simp: slot_inv_def slot_backed_def bt_get_remove others split: option.splits)
  qed
  moreover have "\<exists>x. slot_of sv (svc_name (tk_service task')) = Some x \<and> sl_handle x = Some u"
    if "bt_get (bt_remove t (sv_tasks sv)) u = Some task'" for u task'
    using that sv_invD(4) [OF inv, of u task'] by (auto simp: bt_get_remove split: if_splits)
  moreover have "slot_of sv (rep_service r) \<noteq> None" if "r \<in> set ?queue" for r
    using that sv_invD(5) [OF inv, of r] s(1) by auto
  ultimately show ?thesis
    using sv_invD(1,2,6) [OF inv] Some
    by (simp add: sv_inv_def task_report_def bt_wf_remove)
qed

lemma inv_task_gone [simp]: "sv_inv (task_gone t sv) = sv_inv sv"
  by (rule sv_inv_cong) (simp_all add: task_gone_def split: option.split)

lemma inv_task_publish [simp]: "sv_inv (task_publish c status pgid sv) = sv_inv sv"
  by (rule sv_inv_cong) (simp_all add: task_publish_def)

end
