(* ===== verification/Stack_Loops.thy ===== *)
theory Stack_Loops
  imports Stack_Invariant
begin

text \<open>
  The loops of \<open>runtime/stack.rs\<close> that go over the names of services: the start of a stack and
  the four loops of a reload.  Each body acts on one service; the contract \<open>per_service\<close> says
  what a loop over distinct names then does, and it is met by every body.
\<close>

section \<open>How a service stands\<close>

text \<open>What an operator knows of a service: its definition, whether it is idle, up, about to be
  replaced or leaving, and the command that waits for it.\<close>

datatype phase = Idle | Up | Replacing | Leaving

type_synonym standing = "service \<times> phase \<times> ack option"

definition phase_of :: "slot \<Rightarrow> phase" where
  "phase_of s =
     (if \<not> slot_is_running s then Idle
      else if sl_retired s then Leaving
      else if sl_restart_when_stopped s then Replacing
      else Up)"

definition standing_of :: "slot \<Rightarrow> standing" where
  "standing_of s = (sl_service s, phase_of s, sl_pending s)"

definition view :: "supervisor \<Rightarrow> service_name \<Rightarrow> standing option" where
  "view sv name = map_option standing_of (slot_of sv name)"

lemma view_cong: "sv_slots sv' = sv_slots sv \<Longrightarrow> view sv' = view sv"
  by (simp add: view_def fun_eq_iff)

lemma view_slot: "slot_of sv name = Some s \<Longrightarrow> view sv name = Some (sl_service s, phase_of s, sl_pending s)"
  by (simp add: view_def standing_of_def)

lemma view_None: "view sv name = None \<longleftrightarrow> slot_of sv name = None"
  by (simp add: view_def)

lemma view_SomeE:
  assumes "view sv name = Some (svc, ph, w)"
  obtains s where "slot_of sv name = Some s" "sl_service s = svc" "phase_of s = ph" "sl_pending s = w"
  using assms by (auto simp: view_def standing_of_def)

section \<open>The contract of a loop body\<close>

definition task_name :: "supervisor \<Rightarrow> task_id \<Rightarrow> service_name option" where
  "task_name sv t = map_option (\<lambda>task. svc_name (tk_service task)) (bt_get (sv_tasks sv) t)"

locale per_service =
  fixes act :: "service_name \<Rightarrow> supervisor \<Rightarrow> supervisor"
    and ready :: "service_name \<Rightarrow> standing option \<Rightarrow> bool"
    and eff :: "service_name \<Rightarrow> standing option \<Rightarrow> standing option"
  assumes act_inv: "sv_inv sv \<Longrightarrow> ready name (view sv name) \<Longrightarrow> sv_inv (act name sv)"
    and act_other: "n \<noteq> name \<Longrightarrow> slot_of (act name sv) n = slot_of sv n"
    and act_task: "sv_inv sv \<Longrightarrow> bt_get (sv_tasks sv) t = Some task \<Longrightarrow> svc_name (tk_service task) \<noteq> name \<Longrightarrow>
      bt_get (sv_tasks (act name sv)) t = Some task"
    and act_view: "sv_inv sv \<Longrightarrow> ready name (view sv name) \<Longrightarrow> view (act name sv) name = eff name (view sv name)"
begin

lemma act_others_view: "n \<noteq> name \<Longrightarrow> view (act name sv) n = view sv n"
  by (simp add: view_def act_other)

lemma loop:
  assumes "sv_inv sv" and "distinct names" and "\<And>name. name \<in> set names \<Longrightarrow> ready name (view sv name)"
  shows "sv_inv (fold act names sv)
    \<and> (\<forall>n. view (fold act names sv) n = (if n \<in> set names then eff n (view sv n) else view sv n))"
  using assms
proof (induction names arbitrary: sv)
  case (Cons name names)
  have r: "ready name (view sv name)" using Cons.prems(3) by simp
  have inv: "sv_inv (act name sv)" by (rule act_inv [OF Cons.prems(1) r])
  have same: "view (act name sv) n = view sv n" if "n \<in> set names" for n
    using that Cons.prems(2) by (intro act_others_view) auto
  have IH: "sv_inv (fold act names (act name sv))
    \<and> (\<forall>n. view (fold act names (act name sv)) n
          = (if n \<in> set names then eff n (view (act name sv) n) else view (act name sv) n))"
  proof (rule Cons.IH [OF inv])
    show "distinct names" using Cons.prems(2) by simp
    show "ready n (view (act name sv) n)" if "n \<in> set names" for n
      using that Cons.prems(3) [of n] same by simp
  qed
  have "view (fold act (name # names) sv) n = (if n \<in> set (name # names) then eff n (view sv n) else view sv n)" for n
    using IH same [of n] act_view [OF Cons.prems(1) r] act_others_view [of n name sv] Cons.prems(2)
    by (cases "n = name") auto
  with IH show ?case by simp
qed simp

lemma loop_other:
  assumes "n \<notin> set names"
  shows "slot_of (fold act names sv) n = slot_of sv n"
  using assms by (induction names arbitrary: sv) (auto simp: act_other)

lemma loop_task:
  assumes "sv_inv sv" and "distinct names" and "\<And>name. name \<in> set names \<Longrightarrow> ready name (view sv name)"
    and "bt_get (sv_tasks sv) t = Some task" and "svc_name (tk_service task) \<notin> set names"
  shows "bt_get (sv_tasks (fold act names sv)) t = Some task"
  using assms
proof (induction names arbitrary: sv)
  case (Cons name names)
  have r: "ready name (view sv name)" using Cons.prems(3) by simp
  have same: "view (act name sv) n = view sv n" if "n \<in> set names" for n
    using that Cons.prems(2) by (intro act_others_view) auto
  have "bt_get (sv_tasks (fold act names (act name sv))) t = Some task"
  proof (rule Cons.IH)
    show "sv_inv (act name sv)" by (rule act_inv [OF Cons.prems(1) r])
    show "bt_get (sv_tasks (act name sv)) t = Some task"
      using Cons.prems(5) by (intro act_task [OF Cons.prems(1,4)]) auto
    show "ready n (view (act name sv) n)" if "n \<in> set names" for n
      using that Cons.prems(3) [of n] same by simp
  qed (use Cons.prems(2,5) in auto)
  then show ?case by simp
qed simp

end

section \<open>The bodies\<close>

lemma put_slot_get:
  "slot_of (put_slot name s sv) n = (if n = name \<and> slot_of sv name \<noteq> None then Some s else slot_of sv n)"
  by (simp add: put_slot_def bt_get_set)

lemma put_slot_tasks [simp]: "sv_tasks (put_slot name s sv) = sv_tasks sv"
  by (simp add: put_slot_def)

lemma spawn_slot_get:
  "slot_of (count_spawn (spawn_slot name s sv)) n =
     (if n = name \<and> slot_of sv name \<noteq> None
      then Some (s\<lparr> sl_stop := Some (sv_spawned sv), sl_handle := Some (sv_spawned sv) \<rparr>) else slot_of sv n)"
  by (simp add: count_spawn_def spawn_slot_def Let_def put_slot_def bt_get_set)

text \<open>A live task is in the slot of its service, and is older than the next one.\<close>

lemma live_task:
  assumes "sv_inv sv" and "bt_get (sv_tasks sv) t = Some task"
  obtains s where "slot_of sv (svc_name (tk_service task)) = Some s" "sl_handle s = Some t" "t < sv_spawned sv"
proof -
  obtain s where s: "slot_of sv (svc_name (tk_service task)) = Some s" "sl_handle s = Some t"
    using sv_invD(4) [OF assms] by blast
  with sv_invD(3) [OF assms(1) s(1)] that show thesis by (simp add: slot_inv_def)
qed

lemma spawn_slot_task:
  assumes "sv_inv sv" and "bt_get (sv_tasks sv) t = Some task"
  shows "bt_get (sv_tasks (count_spawn (spawn_slot name s sv))) t = Some task"
  using live_task [OF assms] assms(2)
  by (auto simp: count_spawn_def spawn_slot_def Let_def bt_get_insert)

text \<open>A stop request to the task of another service leaves a live task alone.\<close>

lemma send_stop_other:
  assumes inv: "sv_inv sv" and task: "bt_get (sv_tasks sv) t = Some task"
    and s: "slot_of sv name = Some s" "sl_stop s = Some u" and other: "svc_name (tk_service task) \<noteq> name"
  shows "bt_get (sv_tasks (send_stop u r sv)) t = Some task"
proof -
  have "u \<noteq> t"
  proof
    assume "u = t"
    moreover have "slot_inv (sv_tasks sv) (sv_queue sv) (sv_spawned sv) name s" using sv_invD(3) [OF inv s(1)] .
    moreover from this s(2) have "sl_handle s = Some u" by (simp add: slot_inv_def)
    ultimately show False using task other by (simp add: slot_inv_def slot_backed_def)
  qed
  with task show ?thesis by (simp add: send_stop_get)
qed

definition eff_remove :: "service_name \<Rightarrow> standing option \<Rightarrow> standing option" where
  "eff_remove name v =
     (case v of
        None \<Rightarrow> None
      | Some (svc, ph, w) \<Rightarrow> if ph = Idle then None else Some (svc, Leaving, w))"

definition eff_add :: "config \<Rightarrow> service_name \<Rightarrow> standing option \<Rightarrow> standing option" where
  "eff_add config name v =
     (case bt_get (cfg_services config) name of
        None \<Rightarrow> v
      | Some service \<Rightarrow>
          (case v of
             None \<Rightarrow> Some (service, Idle, None)
           | Some (_, ph, w) \<Rightarrow> Some (service, if ph = Idle then Idle else Replacing, w)))"

definition eff_change :: "config \<Rightarrow> service_name \<Rightarrow> standing option \<Rightarrow> standing option" where
  "eff_change config name v =
     (case bt_get (cfg_services config) name of
        None \<Rightarrow> v
      | Some service \<Rightarrow>
          (case v of
             None \<Rightarrow> None
           | Some (_, ph, w) \<Rightarrow>
               Some (service, case ph of Idle \<Rightarrow> Idle | Leaving \<Rightarrow> Leaving | _ \<Rightarrow> Replacing, w)))"

definition eff_spawn :: "service_name \<Rightarrow> standing option \<Rightarrow> standing option" where
  "eff_spawn name v = (case v of Some (svc, Idle, w) \<Rightarrow> Some (svc, Up, w) | _ \<Rightarrow> v)"

definition named_ok :: "config \<Rightarrow> service_name \<Rightarrow> bool" where
  "named_ok config name = (\<forall>s. bt_get (cfg_services config) name = Some s \<longrightarrow> svc_name s = name)"

definition addable :: "standing option \<Rightarrow> bool" where
  "addable v = (case v of None \<Rightarrow> True | Some (_, ph, _) \<Rightarrow> ph = Leaving)"

interpretation removing: per_service remove_service "\<lambda>_ _. True" eff_remove
proof
  fix sv name
  assume inv: "sv_inv sv"
  show "sv_inv (remove_service name sv)"
  proof (cases "slot_of sv name")
    case None
    with inv show ?thesis by (simp add: remove_service_def)
  next
    case (Some s)
    note facts = slot_facts [OF inv Some]
    show ?thesis
    proof (cases "sl_stop s")
      case None
      with facts have "\<not> slot_is_running s" by (simp add: slot_is_running_def)
      from inv_remove_slot [OF inv Some this] None Some show ?thesis by (simp add: remove_service_def)
    next
      case (Some t)
      have "sv_inv (send_stop t SR_Requested
          (put_slot name (s\<lparr> sl_retired := True, sl_restart_when_stopped := False \<rparr>) sv))"
        using facts by (intro inv_flag_slot [OF inv \<open>slot_of sv name = Some s\<close> Some]) auto
      with Some \<open>slot_of sv name = Some s\<close> show ?thesis by (simp add: remove_service_def)
    qed
  qed
  show "view (remove_service name sv) name = eff_remove name (view sv name)"
  proof (cases "slot_of sv name")
    case None
    then show ?thesis by (simp add: remove_service_def view_def eff_remove_def)
  next
    case (Some s)
    with slot_facts [OF inv Some] show ?thesis
      by (cases "sl_handle s")
        (auto simp: remove_service_def view_def standing_of_def phase_of_def eff_remove_def slot_is_running_def
          bt_get_remove put_slot_get)
  qed
next
  fix n name sv
  assume "n \<noteq> (name :: service_name)"
  then show "slot_of (remove_service name sv) n = slot_of sv n"
    by (auto simp: remove_service_def bt_get_remove put_slot_get split: option.split)
next
  fix sv t task name
  assume inv: "sv_inv sv" and task: "bt_get (sv_tasks sv) t = Some task" and other: "svc_name (tk_service task) \<noteq> name"
  show "bt_get (sv_tasks (remove_service name sv)) t = Some task"
    using task send_stop_other [OF inv task _ _ other]
    by (auto simp: remove_service_def send_stop_put split: option.split)
qed

interpretation adding: per_service "add_service config" "\<lambda>name v. named_ok config name \<and> addable v" "eff_add config"
  for config
proof
  fix sv name
  assume inv: "sv_inv sv" and ready: "named_ok config name \<and> addable (view sv name)"
  show "sv_inv (add_service config name sv)"
  proof (cases "bt_get (cfg_services config) name")
    case None
    with inv show ?thesis by (simp add: add_service_def)
  next
    case service: (Some service)
    with ready have named: "svc_name service = name" by (simp add: named_ok_def)
    show ?thesis
    proof (cases "slot_of sv name")
      case None
      with inv_insert_slot [OF inv None named] service show ?thesis by (simp add: add_service_def)
    next
      case (Some s)
      let ?s = "s\<lparr> sl_retired := False, sl_service := service, sl_restart_when_stopped := sl_stop s \<noteq> None \<rparr>"
      have ok: "slot_inv (sv_tasks sv) (sv_queue sv) (sv_spawned sv) name s" by (rule sv_invD(3) [OF inv Some])
      from ready Some obtain t where t: "sl_handle s = Some t" "sl_retired s"
        by (auto simp: addable_def view_def standing_of_def phase_of_def slot_is_running_def split: if_splits)
      with ok named have "slot_inv (sv_tasks sv) (sv_queue sv) (sv_spawned sv) name ?s"
        by (auto simp: slot_inv_def slot_backed_def flagged_def split: option.splits)
      then have "sv_inv (put_slot name ?s sv)" by (intro inv_put_slot [OF inv Some]) simp_all
      with service Some show ?thesis by (simp add: add_service_def)
    qed
  qed
  show "view (add_service config name sv) name = eff_add config name (view sv name)"
  proof (cases "bt_get (cfg_services config) name")
    case None
    then show ?thesis by (simp add: add_service_def eff_add_def)
  next
    case service: (Some service)
    show ?thesis
    proof (cases "slot_of sv name")
      case None
      with service show ?thesis
        by (simp add: add_service_def eff_add_def view_def insert_slot_def Let_def bt_get_insert standing_of_def
            phase_of_def slot_is_running_def)
    next
      case (Some s)
      with slot_facts [OF inv Some] service show ?thesis
        by (auto simp: add_service_def eff_add_def view_def put_slot_get standing_of_def phase_of_def slot_is_running_def)
    qed
  qed
next
  fix n name sv
  assume "n \<noteq> (name :: service_name)"
  then show "slot_of (add_service config name sv) n = slot_of sv n"
    by (auto simp: add_service_def put_slot_get insert_slot_def Let_def bt_get_insert split: option.split)
next
  fix sv :: supervisor and t task name
  assume "bt_get (sv_tasks sv) t = Some task"
  then show "bt_get (sv_tasks (add_service config name sv)) t = Some task"
    by (auto simp: add_service_def insert_slot_def Let_def split: option.split)
qed

interpretation changing: per_service "change_service config" "\<lambda>name v. named_ok config name" "eff_change config"
  for config
proof
  fix sv name
  assume inv: "sv_inv sv" and ready: "named_ok config name"
  show "sv_inv (change_service config name sv)"
  proof (cases "bt_get (cfg_services config) name = None \<or> slot_of sv name = None")
    case True
    with inv show ?thesis by (auto simp: change_service_def split: option.split)
  next
    case False
    then obtain service s where service: "bt_get (cfg_services config) name = Some service"
      and s: "slot_of sv name = Some s" by auto
    from ready service have named: "svc_name service = name" by (simp add: named_ok_def)
    note facts = slot_facts [OF inv s]
    show ?thesis
    proof (cases "sl_stop s")
      case None
      have "slot_inv (sv_tasks sv) (sv_queue sv) (sv_spawned sv) name (s\<lparr> sl_service := service \<rparr>)"
        using sv_invD(3) [OF inv s] None named by (auto simp: slot_inv_def flagged_def split: option.splits)
      then have "sv_inv (put_slot name (s\<lparr> sl_service := service \<rparr>) sv)" by (intro inv_put_slot [OF inv s]) simp_all
      with service s None show ?thesis by (simp add: change_service_def)
    next
      case (Some t)
      have "sv_inv (send_stop t SR_Requested
          (put_slot name (s\<lparr> sl_service := service, sl_restart_when_stopped := True \<rparr>) sv))"
        using facts named by (intro inv_flag_slot [OF inv s Some]) auto
      with service s Some show ?thesis by (simp add: change_service_def)
    qed
  qed
  show "view (change_service config name sv) name = eff_change config name (view sv name)"
  proof (cases "slot_of sv name")
    case None
    then show ?thesis by (auto simp: change_service_def eff_change_def view_def split: option.split)
  next
    case (Some s)
    note s = Some and facts = slot_facts [OF inv Some]
    show ?thesis
    proof (cases "bt_get (cfg_services config) name")
      case None
      then show ?thesis by (simp add: change_service_def eff_change_def)
    next
      case (Some service)
      with s facts show ?thesis
        by (cases "sl_handle s")
          (auto simp: change_service_def eff_change_def view_def put_slot_get standing_of_def phase_of_def
            slot_is_running_def)
    qed
  qed
next
  fix n name sv
  assume "n \<noteq> (name :: service_name)"
  then show "slot_of (change_service config name sv) n = slot_of sv n"
    by (auto simp: change_service_def put_slot_get split: option.split)
next
  fix sv t task name
  assume inv: "sv_inv sv" and task: "bt_get (sv_tasks sv) t = Some task" and other: "svc_name (tk_service task) \<noteq> name"
  show "bt_get (sv_tasks (change_service config name sv)) t = Some task"
    using task send_stop_other [OF inv task _ _ other]
    by (auto simp: change_service_def send_stop_put split: option.split)
qed

interpretation spawning: per_service spawn_added "\<lambda>_ _. True" eff_spawn
proof
  fix sv name
  assume inv: "sv_inv sv"
  show "sv_inv (spawn_added name sv)"
  proof (cases "slot_of sv name")
    case None
    with inv show ?thesis by (simp add: spawn_added_def)
  next
    case (Some s)
    with inv slot_facts [OF inv Some] show ?thesis
      by (auto simp: spawn_added_def slot_is_running_def intro: inv_spawn [where ?s0.0 = s])
  qed
  show "view (spawn_added name sv) name = eff_spawn name (view sv name)"
  proof (cases "slot_of sv name")
    case None
    then show ?thesis by (simp add: spawn_added_def eff_spawn_def view_def)
  next
    case (Some s)
    with slot_facts [OF inv Some] show ?thesis
      by (cases "sl_handle s")
        (auto simp: spawn_added_def eff_spawn_def view_def spawn_slot_get standing_of_def phase_of_def
          slot_is_running_def flagged_def)
  qed
next
  fix n name sv
  assume "n \<noteq> (name :: service_name)"
  then show "slot_of (spawn_added name sv) n = slot_of sv n"
    by (auto simp: spawn_added_def spawn_slot_get split: option.split)
next
  fix sv t task name
  assume "sv_inv sv" "bt_get (sv_tasks sv) t = Some task"
  then show "bt_get (sv_tasks (spawn_added name sv)) t = Some task"
    by (auto simp: spawn_added_def spawn_slot_task split: option.split)
qed

end
