(* ===== verification/Stack_Spec.thy ===== *)
theory Stack_Spec
  imports Stack_Loops
begin

text \<open>
  What the supervisor of \<open>runtime/stack.rs\<close> promises: an abstract machine on the standing of
  every service, which the slots, tasks and channels of \<open>Stack\<close> implement, and what follows
  for every stack that can be reached.
\<close>

section \<open>The abstract machine\<close>

type_synonym standings = "service_name \<Rightarrow> standing option"

definition waits :: "standings \<Rightarrow> service_name \<Rightarrow> ack option" where
  "waits m name = (case m name of None \<Rightarrow> None | Some (_, _, w) \<Rightarrow> w)"

definition valid_plan :: "config \<Rightarrow> service_name list \<Rightarrow> bool" where
  "valid_plan config plan =
     (distinct plan \<and> (\<forall>name. named_ok config name)
      \<and> (\<forall>name \<in> set plan. bt_get (cfg_services config) name \<noteq> None))"

fun valid_control :: "control \<Rightarrow> bool" where
  "valid_control (C_Reload config plan _) = valid_plan config plan"
| "valid_control _ = True"

text \<open>Planned services get the new definition: a new one comes up, one whose definition changed is
  replaced if it runs, one that was leaving is replaced by its new self.  The others go.\<close>

definition reload_spec :: "config \<Rightarrow> service_name list \<Rightarrow> standings \<Rightarrow> standings" where
  "reload_spec config plan m name =
     (if name \<in> set plan then
        (case bt_get (cfg_services config) name of
           None \<Rightarrow> m name
         | Some service \<Rightarrow>
             (case m name of
                None \<Rightarrow> Some (service, Up, None)
              | Some (old, ph, w) \<Rightarrow>
                  if ph = Leaving then Some (service, Replacing, w)
                  else if old = service then Some (old, ph, w)
                  else Some (service, if ph = Idle then Idle else Replacing, w)))
      else
        (case m name of
           None \<Rightarrow> None
         | Some (old, ph, w) \<Rightarrow> if ph = Idle then None else Some (old, Leaving, w)))"

definition comes :: "standings \<Rightarrow> service_name \<Rightarrow> bool" where
  "comes m name = addable (m name)"

definition changes :: "config \<Rightarrow> standings \<Rightarrow> service_name \<Rightarrow> bool" where
  "changes config m name = (\<not> comes m name \<and> bt_get (cfg_services config) name \<noteq> map_option fst (m name))"

definition service_spec :: "(standing \<Rightarrow> standing \<times> ack_answer option) \<Rightarrow> service_name \<Rightarrow> standings
    \<Rightarrow> standings \<times> ack_answer option" where
  "service_spec f name m =
     (case m name of
        None \<Rightarrow> (m, Some (Inl (CR_UnknownService name)))
      | Some (svc, ph, w) \<Rightarrow>
          if w \<noteq> None then (m, Some (Inl (CR_Busy name)))
          else let (s, r) = f (svc, ph, w) in (m(name := Some s), r))"

fun start_standing :: "service_name \<Rightarrow> standing \<Rightarrow> standing \<times> ack_answer option" where
  "start_standing name (svc, ph, w) =
     (if ph = Idle then ((svc, Up, w), Some (Inr CO_Started))
      else ((svc, ph, w), Some (Inl (CR_AlreadyRunning name))))"

fun stop_standing :: "ack \<Rightarrow> standing \<Rightarrow> standing \<times> ack_answer option" where
  "stop_standing a (svc, ph, w) =
     (if ph = Idle then ((svc, ph, w), Some (Inr CO_AlreadyStopped)) else ((svc, ph, Some a), None))"

fun restart_standing :: "ack \<Rightarrow> standing \<Rightarrow> standing \<times> ack_answer option" where
  "restart_standing a (svc, ph, w) =
     (if ph = Idle then ((svc, Up, w), Some (Inr CO_Started))
      else ((svc, if ph = Leaving then Leaving else Replacing, Some a), None))"

fun command_spec :: "control \<Rightarrow> standings \<Rightarrow> standings \<times> ack_answer option" where
  "command_spec (C_Start name a) m = service_spec (start_standing name) name m"
| "command_spec (C_Stop name a) m = service_spec (stop_standing a) name m"
| "command_spec (C_Restart name a) m = service_spec (restart_standing a) name m"
| "command_spec (C_Reload config plan a) m =
     (if \<exists>name. waits m name \<noteq> None then (m, Some (Inl (CR_Busy (Min {name. waits m name \<noteq> None}))))
      else (reload_spec config plan m,
            Some (Inr (CO_Reloaded (length (filter (comes m) plan)) (length (filter (changes config m) plan))
              (card {name. m name \<noteq> None \<and> name \<notin> set plan})))))"

text \<open>The report that the process of a service has ended for good.\<close>

definition report_spec :: "service_name \<Rightarrow> standings \<Rightarrow> standings \<times> ack_answer option" where
  "report_spec name m =
     (case m name of
        None \<Rightarrow> (m, None)
      | Some (svc, ph, w) \<Rightarrow>
          (m(name := (case ph of Leaving \<Rightarrow> None | Replacing \<Rightarrow> Some (svc, Up, None) | _ \<Rightarrow> Some (svc, Idle, None))),
           if w = None then None else Some (Inr (if ph = Replacing then CO_Restarted else CO_Stopped))))"

section \<open>A reload\<close>

lemma view_idle: "sv_inv sv \<Longrightarrow> slot_of sv name = Some s \<Longrightarrow> phase_of s = Idle \<longleftrightarrow> sl_stop s = None"
  using slot_facts [of sv name s] by (auto simp: phase_of_def slot_is_running_def)

lemma view_leaving: "sv_inv sv \<Longrightarrow> slot_of sv name = Some s \<Longrightarrow> phase_of s = Leaving \<longleftrightarrow> sl_retired s"
  using slot_facts [of sv name s] by (auto simp: phase_of_def slot_is_running_def flagged_def)

lemma is_added_view: "sv_inv sv \<Longrightarrow> is_added sv name = comes (view sv) name"
  using view_leaving [of sv name]
  by (auto simp: is_added_def comes_def addable_def view_def standing_of_def split: option.split)

lemma is_changed_view: "sv_inv sv \<Longrightarrow> is_changed sv config name = changes config (view sv) name"
  using view_leaving [of sv name]
  by (auto simp: is_changed_def changes_def comes_def addable_def view_def standing_of_def split: option.split)

lemma removed_view:
  "sv_inv sv \<Longrightarrow> distinct (diff_removed (state_diff sv config plan))
    \<and> set (diff_removed (state_diff sv config plan)) = {name. view sv name \<noteq> None \<and> name \<notin> set plan}"
  using bt_wf_distinct [OF sv_invD(1), of sv] bt_get_dom [of "sv_slots sv"]
  by (auto simp: state_diff_def bt_keys_def view_def)

lemma inv_rewire: "sv_inv sv \<Longrightarrow> sv_inv (rewire_dependencies sv)"
  unfolding rewire_dependencies_def
  by (rule inv_map_slots) (simp_all add: wire_slot_def split: option.split)

lemma rewire_get:
  "slot_of (rewire_dependencies sv) name = map_option (wire_slot (sv_config sv) (sv_slots sv) name) (slot_of sv name)"
proof -
  have "bt_get (map (\<lambda>(name, s). (name, f name s)) m) name = map_option (f name) (bt_get m name)"
    for f :: "service_name \<Rightarrow> slot \<Rightarrow> slot" and m
    by (induction m) (auto simp: bt_get_Cons)
  then show ?thesis by (simp add: rewire_dependencies_def)
qed

lemma rewire_view [simp]: "view (rewire_dependencies sv) = view sv"
proof
  fix name
  show "view (rewire_dependencies sv) name = view sv name"
    by (cases "slot_of sv name")
      (auto simp: view_def rewire_get standing_of_def phase_of_def slot_is_running_def wire_slot_def split: option.split)
qed

lemma rewire_tasks [simp]: "sv_tasks (rewire_dependencies sv) = sv_tasks sv"
  by (simp add: rewire_dependencies_def)

text \<open>The states between the loops.\<close>

lemma apply_reload_stages:
  assumes inv: "sv_inv sv" and valid: "valid_plan config plan"
  obtains sv1 sv2 sv3 where
    "sv1 = fold remove_service (diff_removed (state_diff sv config plan)) (sv\<lparr> sv_config := config, sv_plan := plan \<rparr>)"
    "sv2 = fold (add_service config) (filter (comes (view sv)) plan) sv1"
    "sv3 = fold (change_service config) (filter (changes config (view sv)) plan) sv2"
    "apply_reload config plan sv = fold spawn_added (filter (comes (view sv)) plan) (rewire_dependencies sv3)"
    "sv_inv sv1" "sv_inv sv2" "sv_inv sv3"
    "\<forall>n. view sv1 n = (if n \<notin> set plan then eff_remove n (view sv n) else view sv n)"
    "\<forall>n. view sv2 n = (if n \<in> set plan \<and> comes (view sv) n then eff_add config n (view sv1 n) else view sv1 n)"
    "\<forall>n. view sv3 n = (if n \<in> set plan \<and> changes config (view sv) n then eff_change config n (view sv2 n) else view sv2 n)"
proof -
  let ?d = "state_diff sv config plan" and ?sv = "sv\<lparr> sv_config := config, sv_plan := plan \<rparr>"
  let ?A = "filter (comes (view sv)) plan" and ?C = "filter (changes config (view sv)) plan"
  have d: "diff_added ?d = ?A" "diff_changed ?d = ?C"
    using inv by (simp_all add: state_diff_def is_added_view is_changed_view cong: filter_cong)
  define sv1 where "sv1 = fold remove_service (diff_removed ?d) ?sv"
  define sv2 where "sv2 = fold (add_service config) ?A sv1"
  define sv3 where "sv3 = fold (change_service config) ?C sv2"
  have inv0: "sv_inv ?sv" using inv by (simp add: sv_inv_def)
  have view0: "view ?sv = view sv" by (rule view_cong) simp
  note removed = removed_view [OF inv, of config plan]
  have s1: "sv_inv sv1 \<and> (\<forall>n. view sv1 n = (if n \<in> set (diff_removed ?d) then eff_remove n (view sv n) else view sv n))"
    using removing.loop [OF inv0, of "diff_removed ?d"] removed by (simp add: sv1_def view0)
  have v1: "view sv1 n = (if n \<notin> set plan then eff_remove n (view sv n) else view sv n)" for n
    using s1 removed by (cases "view sv n") (auto simp: eff_remove_def)
  have ok: "named_ok config n" for n using valid by (simp add: valid_plan_def)
  have dist: "distinct ?A" "distinct ?C" using valid by (simp_all add: valid_plan_def)
  have s2: "sv_inv sv2 \<and> (\<forall>n. view sv2 n = (if n \<in> set ?A then eff_add config n (view sv1 n) else view sv1 n))"
    unfolding sv2_def using s1 ok by (intro adding.loop dist) (auto simp: v1 comes_def)
  have s3: "sv_inv sv3 \<and> (\<forall>n. view sv3 n = (if n \<in> set ?C then eff_change config n (view sv2 n) else view sv2 n))"
    unfolding sv3_def using s2 ok by (intro changing.loop dist) auto
  have "apply_reload config plan sv = fold spawn_added ?A (rewire_dependencies sv3)"
    by (simp add: apply_reload_def Let_def d sv1_def sv2_def sv3_def)
  with s1 s2 s3 v1 show thesis by (intro that [OF sv1_def sv2_def sv3_def]) auto
qed

lemma apply_reload_view:
  assumes inv: "sv_inv sv" and valid: "valid_plan config plan"
  shows "sv_inv (apply_reload config plan sv) \<and> view (apply_reload config plan sv) = reload_spec config plan (view sv)"
proof -
  let ?A = "filter (comes (view sv)) plan"
  obtain sv1 sv2 sv3 where st:
    "apply_reload config plan sv = fold spawn_added ?A (rewire_dependencies sv3)" "sv_inv sv3"
    "\<forall>n. view sv1 n = (if n \<notin> set plan then eff_remove n (view sv n) else view sv n)"
    "\<forall>n. view sv2 n = (if n \<in> set plan \<and> comes (view sv) n then eff_add config n (view sv1 n) else view sv1 n)"
    "\<forall>n. view sv3 n = (if n \<in> set plan \<and> changes config (view sv) n then eff_change config n (view sv2 n) else view sv2 n)"
    by (rule apply_reload_stages [OF inv valid])
  have dist: "distinct ?A" using valid by (simp add: valid_plan_def)
  have final: "sv_inv (apply_reload config plan sv)
    \<and> (\<forall>n. view (apply_reload config plan sv) n = (if n \<in> set ?A then eff_spawn n (view sv3 n) else view sv3 n))"
    unfolding st(1) using spawning.loop [OF inv_rewire [OF st(2)] dist] by simp
  moreover have "(if n \<in> set ?A then eff_spawn n (view sv3 n) else view sv3 n) = reload_spec config plan (view sv) n" for n
  proof (cases "n \<in> set plan")
    case False
    with st(3-5) show ?thesis by (auto simp: reload_spec_def eff_remove_def split: option.split)
  next
    case True
    with valid obtain service where service: "bt_get (cfg_services config) n = Some service"
      by (auto simp: valid_plan_def)
    show ?thesis
    proof (cases "view sv n")
      case None
      with True service st(3-5) show ?thesis
        by (simp add: reload_spec_def comes_def addable_def changes_def eff_add_def eff_spawn_def)
    next
      case (Some v)
      obtain old ph w where v: "v = (old, ph, w)" by (cases v)
      show ?thesis
      proof (cases "ph = Leaving")
        case True
        with Some v service \<open>n \<in> set plan\<close> st(3-5) show ?thesis
          by (simp add: reload_spec_def comes_def addable_def changes_def eff_add_def eff_spawn_def)
      next
        case False
        with Some v service \<open>n \<in> set plan\<close> st(3-5) show ?thesis
          by (cases ph) (auto simp: reload_spec_def comes_def addable_def changes_def eff_change_def)
      qed
    qed
  qed
  ultimately show ?thesis by auto
qed

text \<open>A service whose definition stays the same keeps its slot and its task.\<close>

lemma apply_reload_spares:
  assumes inv: "sv_inv sv" and valid: "valid_plan config plan"
    and s: "slot_of sv name = Some s" and same: "\<not> sl_retired s" "name \<in> set plan"
      "bt_get (cfg_services config) name = Some (sl_service s)"
  shows "(\<exists>deps. slot_of (apply_reload config plan sv) name = Some (s\<lparr> sl_deps := deps \<rparr>))
    \<and> (\<forall>t task. sl_handle s = Some t \<longrightarrow> bt_get (sv_tasks sv) t = Some task \<longrightarrow>
         bt_get (sv_tasks (apply_reload config plan sv)) t = Some task)"
proof -
  let ?A = "filter (comes (view sv)) plan" and ?C = "filter (changes config (view sv)) plan"
    and ?R = "diff_removed (state_diff sv config plan)"
  obtain sv1 sv2 sv3 where st:
    "sv1 = fold remove_service ?R (sv\<lparr> sv_config := config, sv_plan := plan \<rparr>)"
    "sv2 = fold (add_service config) ?A sv1" "sv3 = fold (change_service config) ?C sv2"
    "apply_reload config plan sv = fold spawn_added ?A (rewire_dependencies sv3)"
    and invs: "sv_inv sv1" "sv_inv sv2" "sv_inv sv3"
    and v1: "\<forall>n. view sv1 n = (if n \<notin> set plan then eff_remove n (view sv n) else view sv n)"
    by (rule apply_reload_stages [OF inv valid])
  have inv0: "sv_inv (sv\<lparr> sv_config := config, sv_plan := plan \<rparr>)" using inv by (simp add: sv_inv_def)
  have stays: "\<not> comes (view sv) name"
    using view_leaving [OF inv s] same(1) by (simp add: comes_def addable_def view_slot [OF s])
  then have out: "name \<notin> set ?A" "name \<notin> set ?C" "name \<notin> set ?R"
    using same removed_view [OF inv, of config plan] by (auto simp: changes_def view_slot [OF s])
  have dist: "distinct ?A" "distinct ?C" "distinct ?R"
    using valid removed_view [OF inv] by (simp_all add: valid_plan_def)
  have ok: "named_ok config n" for n using valid by (simp add: valid_plan_def)
  have "slot_of sv3 name = Some s"
    using s out by (simp add: st removing.loop_other adding.loop_other changing.loop_other)
  then have "slot_of (apply_reload config plan sv) name = Some (wire_slot (sv_config sv3) (sv_slots sv3) name s)"
    using out by (simp add: st(4) spawning.loop_other rewire_get)
  moreover have "\<exists>deps. wire_slot c m name s = s\<lparr> sl_deps := deps \<rparr>" for c m
    by (cases "bt_get (cfg_services c) name") (auto simp: wire_slot_def intro: exI [of _ "sl_deps s"])
  moreover have "bt_get (sv_tasks (apply_reload config plan sv)) t = Some task"
    if t: "sl_handle s = Some t" and task: "bt_get (sv_tasks sv) t = Some task" for t task
  proof -
    have named: "svc_name (tk_service task) = name"
      using sv_invD(3) [OF inv s] t task by (simp add: slot_inv_def slot_backed_def)
    have t1: "bt_get (sv_tasks sv1) t = Some task"
      unfolding st(1) using task named out dist by (intro removing.loop_task [OF inv0]) simp_all
    have t2: "bt_get (sv_tasks sv2) t = Some task"
      unfolding st(2) using t1 named out dist ok v1 invs(1)
      by (intro adding.loop_task) (auto simp: comes_def)
    have t3: "bt_get (sv_tasks sv3) t = Some task"
      unfolding st(3) using t2 named out dist ok invs(2) by (intro changing.loop_task) auto
    show ?thesis
      unfolding st(4) using t3 named out dist inv_rewire [OF invs(3)] by (intro spawning.loop_task) auto
  qed
  ultimately show ?thesis by auto
qed

end
