(* ===== verification/Stack_Refines.thy ===== *)
theory Stack_Refines
  imports Stack_Spec
begin

text \<open>
  The supervisor of \<open>runtime/stack.rs\<close> implements the abstract machine of \<open>Stack_Spec\<close>, and what
  holds of every stack that can be reached: its invariant, the answers to commands, and the
  agreement with the configuration.
\<close>

section \<open>Commands\<close>

lemma fold_keeps: "(\<And>x s. f (g x s) = f s) \<Longrightarrow> f (fold g xs s) = f s"
  by (induction xs arbitrary: s) simp_all

lemma apply_reload_acks: "sv_acks (apply_reload config plan sv) = sv_acks sv"
proof -
  have "sv_acks (remove_service n s) = sv_acks s" "sv_acks (add_service config n s) = sv_acks s"
    "sv_acks (change_service config n s) = sv_acks s" "sv_acks (spawn_added n s) = sv_acks s"
    for n and s :: supervisor
    by (simp_all add: remove_service_def add_service_def change_service_def spawn_added_def put_slot_def
        insert_slot_def spawn_slot_def count_spawn_def Let_def split: option.split)
  then show ?thesis
    by (simp add: apply_reload_def Let_def fold_keeps [where f = sv_acks] rewire_dependencies_def)
qed

lemma send_ack_slots [simp]: "sv_slots (send_ack a r sv) = sv_slots sv"
  by (simp add: send_ack_def)

lemma view_send_ack [simp]: "view (send_ack a r sv) = view sv"
  by (rule view_cong) simp

lemma acks_simps [simp]:
  "sv_acks (send_ack a r sv) = sv_acks sv @ [(a, r)]"
  "sv_acks (count_spawn (spawn_slot name s sv)) = sv_acks sv"
  "sv_acks (put_slot name s sv) = sv_acks sv"
  by (simp_all add: send_ack_def count_spawn_def spawn_slot_def put_slot_def Let_def)

lemma view_put:
  "slot_of sv name = Some s \<Longrightarrow>
     view (put_slot name s' sv) = (view sv)(name := Some (standing_of s'))"
  by (auto simp: view_def put_slot_get)

lemma view_spawn:
  "slot_of sv name = Some s0 \<Longrightarrow> \<not> flagged s \<Longrightarrow>
     view (count_spawn (spawn_slot name s sv)) = (view sv)(name := Some (sl_service s, Up, None))"
  by (auto simp: view_def spawn_slot_get standing_of_def phase_of_def slot_is_running_def flagged_def fun_eq_iff)

lemma view_send_stop [simp]: "view (send_stop t r sv) = view sv"
  by (rule view_cong) simp

definition answers :: "ack \<Rightarrow> ack_answer option \<Rightarrow> (ack \<times> ack_answer) list" where
  "answers a r = (case r of None \<Rightarrow> [] | Some x \<Rightarrow> [(a, x)])"

lemma service_refines:
  assumes inv: "sv_inv sv"
    and run: "\<And>s. slot_of sv name = Some s \<Longrightarrow> sl_pending s = None \<Longrightarrow>
      view (run name s a sv) = (view sv)(name := Some (fst (f (standing_of s))))
      \<and> sv_acks (run name s a sv) = sv_acks sv @ answers a (snd (f (standing_of s)))"
  shows "view (service_command run name a sv) = fst (service_spec f name (view sv))
    \<and> sv_acks (service_command run name a sv) = sv_acks sv @ answers a (snd (service_spec f name (view sv)))"
proof (cases "slot_of sv name")
  case None
  then show ?thesis by (simp add: service_command_def service_spec_def view_def answers_def)
next
  case (Some s)
  show ?thesis
  proof (cases "sl_pending s")
    case None
    with run [OF Some] Some show ?thesis
      by (simp add: service_command_def service_spec_def view_slot [OF Some] standing_of_def case_prod_unfold Let_def)
  next
    case pending: (Some b)
    with Some show ?thesis
      by (simp add: service_command_def service_spec_def view_slot [OF Some] answers_def)
  qed
qed

lemma start_refines:
  assumes inv: "sv_inv sv" and s: "slot_of sv name = Some s" "sl_pending s = None"
  shows "view (start_command name s a sv) = (view sv)(name := Some (fst (start_standing name (standing_of s))))
    \<and> sv_acks (start_command name s a sv) = sv_acks sv @ answers a (snd (start_standing name (standing_of s)))"
  using slot_facts [OF inv s(1)] view_spawn [OF s(1), of s] view_slot [OF s(1)] s(2)
  by (cases "sl_handle s")
    (auto simp: start_command_def slot_is_running_def standing_of_def phase_of_def answers_def fun_upd_idem)

lemma stop_refines:
  assumes inv: "sv_inv sv" and s: "slot_of sv name = Some s" "sl_pending s = None"
  shows "view (stop_command name s a sv) = (view sv)(name := Some (fst (stop_standing a (standing_of s))))
    \<and> sv_acks (stop_command name s a sv) = sv_acks sv @ answers a (snd (stop_standing a (standing_of s)))"
  using slot_facts [OF inv s(1)] view_put [OF s(1)] view_slot [OF s(1)] s(2)
  by (cases "sl_handle s")
    (auto simp: stop_command_def slot_is_running_def standing_of_def phase_of_def answers_def fun_upd_idem)

lemma restart_refines:
  assumes inv: "sv_inv sv" and s: "slot_of sv name = Some s" "sl_pending s = None"
  shows "view (restart_command name s a sv) = (view sv)(name := Some (fst (restart_standing a (standing_of s))))
    \<and> sv_acks (restart_command name s a sv) = sv_acks sv @ answers a (snd (restart_standing a (standing_of s)))"
  using slot_facts [OF inv s(1)] view_put [OF s(1)] view_spawn [OF s(1), of s] view_slot [OF s(1)] s(2)
  by (cases "sl_handle s")
    (auto simp: restart_command_def slot_is_running_def standing_of_def phase_of_def answers_def fun_upd_idem)

text \<open>The busy service that a reload names is the first in the order of names.\<close>

lemma find_first:
  "bt_wf m \<Longrightarrow> find (\<lambda>(_, s). P s) m = Some (k, s) \<Longrightarrow>
     k = Min {k. \<exists>s. bt_get m k = Some s \<and> P s} \<and> bt_get m k = Some s \<and> P s"
proof (induction m)
  case (Cons e m)
  obtain k' s' where e: "e = (k', s')" by (cases e)
  have "k \<in> fst ` set (e # m)" if "bt_get (e # m) k = Some s" for k s
    using bt_get_in [OF that] by force
  then have "{k. \<exists>s. bt_get (e # m) k = Some s \<and> P s} \<subseteq> fst ` set (e # m)" by blast
  then have fin: "finite {k. \<exists>s. bt_get (e # m) k = Some s \<and> P s}" using finite_subset by blast
  show ?case
  proof (cases "P s'")
    case True
    have "k' \<le> x" if "bt_get (e # m) x = Some y" for x y
      using that Cons.prems(1) e by (auto simp: bt_get_Cons dest!: bt_get_in split: if_splits)
    then have "Min {k. \<exists>s. bt_get (e # m) k = Some s \<and> P s} = k'"
      using fin True e by (intro Min_eqI) (auto simp: bt_get_Cons)
    with True Cons.prems(2) e show ?thesis by (simp add: bt_get_Cons)
  next
    case False
    have "k' \<notin> fst ` set m" using Cons.prems(1) e by auto
    then have none: "bt_get m k' = None" by (simp add: bt_get_dom)
    then have "{k. \<exists>s. bt_get (e # m) k = Some s \<and> P s} = {k. \<exists>s. bt_get m k = Some s \<and> P s}"
      using False e by (auto simp: bt_get_Cons)
    with False Cons e none show ?thesis by (auto simp: bt_get_Cons)
  qed
qed simp

lemma waits_view: "waits (view sv) name = (case slot_of sv name of None \<Rightarrow> None | Some s \<Rightarrow> sl_pending s)"
  by (simp add: waits_def view_def standing_of_def split: option.split)

lemma reload_refines:
  assumes inv: "sv_inv sv" and valid: "valid_plan config plan"
  shows "view (handle_control (C_Reload config plan a) sv) = fst (command_spec (C_Reload config plan a) (view sv))
    \<and> sv_acks (handle_control (C_Reload config plan a) sv)
        = sv_acks sv @ answers a (snd (command_spec (C_Reload config plan a) (view sv)))
    \<and> sv_inv (handle_control (C_Reload config plan a) sv)"
proof (cases "find (\<lambda>(_, s). sl_pending s \<noteq> None) (sv_slots sv)")
  case None
  then have "sl_pending s = None" if "slot_of sv name = Some s" for name s
    using bt_get_in [OF that] by (auto simp: find_None_iff)
  then have idle: "\<nexists>name. waits (view sv) name \<noteq> None" by (auto simp: waits_view split: option.splits)
  have d: "diff_added (state_diff sv config plan) = filter (comes (view sv)) plan"
    "diff_changed (state_diff sv config plan) = filter (changes config (view sv)) plan"
    using inv by (simp_all add: state_diff_def is_added_view is_changed_view cong: filter_cong)
  have "length (diff_removed (state_diff sv config plan)) = card {name. view sv name \<noteq> None \<and> name \<notin> set plan}"
    using removed_view [OF inv, of config plan] distinct_card by metis
  with None idle d apply_reload_view [OF inv valid] show ?thesis
    by (simp add: reload_def Let_def answers_def apply_reload_acks)
next
  case (Some e)
  then obtain k s where e: "find (\<lambda>(_, s). sl_pending s \<noteq> None) (sv_slots sv) = Some (k, s)" by (cases e) auto
  have first: "k = Min {k. \<exists>s. slot_of sv k = Some s \<and> sl_pending s \<noteq> None} \<and> slot_of sv k = Some s \<and> sl_pending s \<noteq> None"
    by (rule find_first [OF sv_invD(1) [OF inv] e])
  have "{k. \<exists>s. slot_of sv k = Some s \<and> sl_pending s \<noteq> None} = {name. waits (view sv) name \<noteq> None}"
    by (auto simp: waits_view split: option.splits)
  moreover have "\<exists>name. waits (view sv) name \<noteq> None" using first by (auto simp: waits_view intro!: exI [of _ k])
  ultimately show ?thesis using inv e first by (simp add: reload_def answers_def)
qed

lemma control_refines:
  assumes inv: "sv_inv sv" and valid: "valid_control c"
  shows "view (handle_control c sv) = fst (command_spec c (view sv))
    \<and> sv_acks (handle_control c sv) = sv_acks sv @ answers (into_ack c) (snd (command_spec c (view sv)))
    \<and> sv_inv (handle_control c sv)"
proof (cases c)
  case (C_Start name a)
  with service_refines [where run = start_command and f = "start_standing name", OF inv start_refines [OF inv]] inv_service_command [where run = start_command, OF inv inv_start_command [OF inv]]
  show ?thesis by simp
next
  case (C_Stop name a)
  with service_refines [where run = stop_command and f = "stop_standing a", OF inv stop_refines [OF inv]] inv_service_command [where run = stop_command, OF inv inv_stop_command [OF inv]]
  show ?thesis by simp
next
  case (C_Restart name a)
  with service_refines [where run = restart_command and f = "restart_standing a", OF inv restart_refines [OF inv]] inv_service_command [where run = restart_command, OF inv inv_restart_command [OF inv]]
  show ?thesis by simp
next
  case (C_Reload config plan a)
  with reload_refines [OF inv] valid show ?thesis by simp
qed

section \<open>Reports\<close>

lemma report_refines:
  assumes inv: "sv_inv sv" and q: "sv_queue sv = report # queue"
  shows "view (report_arm options report (sv\<lparr> sv_queue := queue \<rparr>)) = fst (report_spec (rep_service report) (view sv))
    \<and> sv_acks (report_arm options report (sv\<lparr> sv_queue := queue \<rparr>)) = sv_acks sv
        @ (case waits (view sv) (rep_service report) of None \<Rightarrow> []
           | Some a \<Rightarrow> answers a (snd (report_spec (rep_service report) (view sv))))"
proof -
  let ?name = "rep_service report"
  let ?sv = "sv\<lparr> sv_queue := queue, sv_running := sv_running sv - 1 \<rparr>"
  obtain s t where s: "slot_of sv ?name = Some s" "sl_handle s = Some t"
    using reported_slot [OF inv q] by blast
  have base: "view (sv\<lparr> sv_queue := qs, sv_running := r \<rparr>) = view sv" for qs r by (rule view_cong) simp
  have at: "slot_of ?sv ?name = Some s" using s by simp
  have arm: "view (report_arm options report (sv\<lparr> sv_queue := queue \<rparr>)) = view (settle_slot ?name s ?sv)"
    "sv_acks (report_arm options report (sv\<lparr> sv_queue := queue \<rparr>)) = sv_acks (settle_slot ?name s ?sv)"
    using s by (auto simp: report_arm_def Let_def intro: view_cong)
  have pend: "view (answer_pending x r y) = view y"
    "sv_acks (answer_pending x r y) = sv_acks y @ (case sl_pending x of None \<Rightarrow> [] | Some a \<Rightarrow> [(a, r)])" for x r y
    by (simp_all add: answer_pending_def split: option.split)
  have "view (settle_slot ?name s ?sv) = fst (report_spec ?name (view sv))
    \<and> sv_acks (settle_slot ?name s ?sv) = sv_acks sv
        @ (case sl_pending s of None \<Rightarrow> [] | Some a \<Rightarrow> answers a (snd (report_spec ?name (view sv))))"
  proof (cases "sl_retired s")
    case True
    have "view (x\<lparr> sv_slots := bt_remove ?name (sv_slots x) \<rparr>) = (view x)(?name := None)" for x :: supervisor
      by (auto simp: view_def bt_get_remove)
    with True s show ?thesis
      by (auto simp: settle_slot_def Let_def pend base report_spec_def view_slot [OF s(1)] phase_of_def
          slot_is_running_def answers_def split: option.split)
  next
    case retired: False
    show ?thesis
    proof (cases "sl_restart_when_stopped s")
      case True
      let ?fresh = "s\<lparr> sl_stop := None, sl_handle := None, sl_pending := None, sl_restart_when_stopped := False \<rparr>"
      have "view (count_spawn (spawn_slot ?name ?fresh ?sv)) = (view sv)(?name := Some (sl_service s, Up, None))"
        using view_spawn [OF at, of ?fresh] retired by (simp add: flagged_def base)
      with True retired s show ?thesis
        by (auto simp: settle_slot_def Let_def pend report_spec_def view_slot [OF s(1)] phase_of_def
            slot_is_running_def answers_def split: option.split)
    next
      case False
      with retired s view_put [OF at] show ?thesis
        by (auto simp: settle_slot_def Let_def pend base report_spec_def view_slot [OF s(1)] phase_of_def
            slot_is_running_def standing_of_def answers_def split: option.split)
    qed
  qed
  then show ?thesis using s arm by (simp add: waits_view)
qed

end
