(* ===== verification/Stack_Reach.thy ===== *)
theory Stack_Reach
  imports Stack_Refines
begin

text \<open>
  The stacks that \<open>StackSupervisor::run\<close> of \<open>runtime/stack.rs\<close> can reach, and what holds of all
  of them.  A stack starts from a valid plan, which is what \<open>plan_stack\<close> gives for a validated
  configuration, and every command comes with an acknowledgement channel of its own.
\<close>

section \<open>The start\<close>

definition eff_insert :: "config \<Rightarrow> service_name \<Rightarrow> standing option \<Rightarrow> standing option" where
  "eff_insert config name v =
     (case bt_get (cfg_services config) name of None \<Rightarrow> v | Some service \<Rightarrow> Some (service, Idle, None))"

definition eff_start :: "service_name set \<Rightarrow> service_name \<Rightarrow> standing option \<Rightarrow> standing option" where
  "eff_start stopped name v = (if name \<in> stopped then v else eff_spawn name v)"

definition startable :: "standing option \<Rightarrow> bool" where
  "startable v = (case v of None \<Rightarrow> True | Some (_, ph, _) \<Rightarrow> ph = Idle)"

interpretation inserting: per_service "insert_planned config" "\<lambda>name v. named_ok config name \<and> v = None" "eff_insert config"
  for config
proof
  fix sv name
  assume "sv_inv sv" and "named_ok config name \<and> view sv name = None"
  then show "sv_inv (insert_planned config name sv)" "view (insert_planned config name sv) name = eff_insert config name (view sv name)"
    by (auto simp: insert_planned_def named_ok_def view_None intro: inv_insert_slot split: option.split)
      (auto simp: eff_insert_def view_def insert_slot_def Let_def bt_get_insert standing_of_def phase_of_def
        slot_is_running_def)
qed (auto simp: insert_planned_def insert_slot_def Let_def bt_get_insert split: option.split)

interpretation starting: per_service "start_planned stopped" "\<lambda>_ v. startable v" "eff_start stopped"
  for stopped
proof
  fix sv name
  assume inv: "sv_inv sv" and ready: "startable (view sv name)"
  have published: "sv_inv (publish_stopped name sv) = sv_inv sv" "view (publish_stopped name sv) = view sv"
    by (rule sv_inv_cong, simp_all add: publish_stopped_def split: option.split)
      (auto intro!: view_cong)
  show "sv_inv (start_planned stopped name sv)"
  proof (cases "slot_of sv name")
    case None
    with inv published show ?thesis by (simp add: start_planned_def)
  next
    case (Some s)
    with ready have "\<not> slot_is_running s"
      by (auto simp: startable_def view_slot [OF Some] phase_of_def split: if_splits)
    with inv published slot_facts [OF inv Some] Some show ?thesis
      by (auto simp: start_planned_def slot_is_running_def intro: inv_spawn [where ?s0.0 = s])
  qed
  show "view (start_planned stopped name sv) name = eff_start stopped name (view sv name)"
  proof (cases "slot_of sv name")
    case None
    then show ?thesis
      using None by (auto simp: start_planned_def eff_start_def eff_spawn_def view_def publish_stopped_def)
  next
    case (Some s)
    with ready have "\<not> slot_is_running s"
      by (auto simp: startable_def view_slot [OF Some] phase_of_def split: if_splits)
    with slot_facts [OF inv Some] have "\<not> flagged s" by (simp add: slot_is_running_def)
    then show ?thesis
      using published Some ready view_spawn [OF Some, of s]
      by (auto simp: start_planned_def eff_start_def eff_spawn_def view_slot [OF Some] startable_def flagged_def)
  qed
next
  fix n name sv
  assume "n \<noteq> (name :: service_name)"
  then show "slot_of (start_planned stopped name sv) n = slot_of sv n"
    by (auto simp: start_planned_def publish_stopped_def spawn_slot_get split: option.split)
next
  fix sv t task name
  assume "sv_inv sv" "bt_get (sv_tasks sv) t = Some task"
  then show "bt_get (sv_tasks (start_planned stopped name sv)) t = Some task"
    by (auto simp: start_planned_def publish_stopped_def spawn_slot_task split: option.split)
qed

lemma stack_start_view:
  assumes valid: "valid_plan config plan"
  shows "sv_inv (stack_start config plan stopped)
    \<and> view (stack_start config plan stopped) n =
        (if n \<in> set plan
         then map_option (\<lambda>service. (service, if n \<in> stopped then Idle else Up, None)) (bt_get (cfg_services config) n)
         else None)"
proof -
  let ?sv0 = "supervisor_new config plan"
  let ?sv1 = "fold (insert_planned config) plan ?sv0"
  have start: "sv_inv ?sv0" "view ?sv0 x = None" for x
    by (simp_all add: sv_inv_def supervisor_new_def running_slots_def view_def)
  have ok: "distinct plan" "named_ok config x" for x using valid by (simp_all add: valid_plan_def)
  have s1: "sv_inv ?sv1 \<and> (\<forall>x. view ?sv1 x = (if x \<in> set plan then eff_insert config x (view ?sv0 x) else view ?sv0 x))"
    using start ok by (intro inserting.loop) simp_all
  then have v1: "view ?sv1 x
      = (if x \<in> set plan then map_option (\<lambda>service. (service, Idle, None)) (bt_get (cfg_services config) x) else None)" for x
    by (simp add: start eff_insert_def split: option.split)
  have "startable (view (rewire_dependencies ?sv1) x)" for x
    unfolding rewire_view v1 by (auto simp: startable_def split: option.split)
  from starting.loop [OF inv_rewire [OF s1 [THEN conjunct1]] ok(1) this]
  have "sv_inv (stack_start config plan stopped) \<and> (\<forall>x. view (stack_start config plan stopped) x =
      (if x \<in> set plan then eff_start stopped x (view ?sv1 x) else view ?sv1 x))"
    unfolding stack_start_def rewire_view .
  then show ?thesis
    by (simp add: v1 eff_start_def eff_spawn_def split: option.split)
qed

lemma planned_is_valid:
  assumes "planned_config config" and "plan_stack config sel = Inr plan"
  shows "valid_plan config plan"
proof -
  have "named_ok config name" for name
    using assms(1) by (auto simp: planned_config_def names_consistent_def named_ok_def dest!: bt_get_in)
  moreover have "distinct plan" "set plan \<subseteq> set (cfg_start_order config)"
    using plan_closure [OF assms] by auto
  moreover have "set (cfg_start_order config) = fst ` set (cfg_services config)"
    using kahn.sorted_order [OF graph_of_wf [OF assms(1)]] assms(1) graph_of_keys [of config]
    by (simp add: planned_config_def)
  ultimately show ?thesis using bt_get_dom [of "cfg_services config"] by (auto simp: valid_plan_def)
qed

section \<open>Reachable stacks\<close>

inductive stack_reach :: "stack_options \<Rightarrow> supervisor \<Rightarrow> ack list \<Rightarrow> bool" for options where
  reach_start: "valid_plan config plan \<Longrightarrow> stack_reach options (stack_start config plan stopped) []"
| reach_control: "stack_reach options sv sent \<Longrightarrow> \<not> loop_over options sv \<Longrightarrow> valid_control c \<Longrightarrow>
    into_ack c \<notin> set sent \<Longrightarrow> stack_reach options (stack_step options (IN_Control c) sv) (sent @ [into_ack c])"
| reach_other: "stack_reach options sv sent \<Longrightarrow> (\<forall>c. i \<noteq> IN_Control c) \<Longrightarrow>
    stack_reach options (stack_step options i sv) sent"

inductive_cases stack_reachE: "stack_reach options sv sent"

text \<open>The services of the plan are there with the current definition, and the others are leaving.\<close>

definition agrees :: "config \<Rightarrow> service_name list \<Rightarrow> standings \<Rightarrow> bool" where
  "agrees config plan m =
     ((\<forall>n \<in> set plan. m n \<noteq> None)
      \<and> (\<forall>n svc ph w. m n = Some (svc, ph, w) \<longrightarrow>
           (if ph = Leaving then n \<notin> set plan else n \<in> set plan \<and> bt_get (cfg_services config) n = Some svc)))"

definition accounted :: "(ack \<times> ack_answer) list \<Rightarrow> standings \<Rightarrow> ack list \<Rightarrow> bool" where
  "accounted acks m sent =
     (distinct (map fst acks)
      \<and> set sent = fst ` set acks \<union> ran (waits m)
      \<and> (\<forall>n a. waits m n = Some a \<longrightarrow> a \<notin> fst ` set acks)
      \<and> (\<forall>n n' a. waits m n = Some a \<longrightarrow> waits m n' = Some a \<longrightarrow> n = n'))"

lemma waits_service_spec:
  assumes "\<And>v. (case snd (f v) of Some _ \<Rightarrow> snd (snd (fst (f v))) = snd (snd v) | None \<Rightarrow> snd (snd (fst (f v))) = Some a)"
  shows "(case snd (service_spec f name m) of
            Some _ \<Rightarrow> waits (fst (service_spec f name m)) = waits m
          | None \<Rightarrow> waits m name = None \<and> waits (fst (service_spec f name m)) = (waits m)(name := Some a))"
proof (cases "m name")
  case None
  then show ?thesis by (simp add: service_spec_def)
next
  case (Some v)
  obtain svc ph w where v: "v = (svc, ph, w)" by (cases v)
  show ?thesis
  proof (cases w)
    case None
    with assms [of v] Some v show ?thesis
      by (cases "f v")
        (auto simp: service_spec_def waits_def fun_eq_iff split: option.splits prod.splits)
  next
    case (Some b)
    with \<open>m name = Some v\<close> v show ?thesis by (simp add: service_spec_def)
  qed
qed

lemma waits_command:
  "(case snd (command_spec c m) of
      Some _ \<Rightarrow> waits (fst (command_spec c m)) = waits m
    | None \<Rightarrow> \<exists>name. waits m name = None \<and> waits (fst (command_spec c m)) = (waits m)(name := Some (into_ack c)))"
proof (cases c)
  case (C_Start name a)
  have "case snd (start_standing name v) of Some _ \<Rightarrow> snd (snd (fst (start_standing name v))) = snd (snd v)
      | None \<Rightarrow> snd (snd (fst (start_standing name v))) = Some a" for v
    by (cases v) simp
  from waits_service_spec [OF this, where name = name and m = m] C_Start show ?thesis
    by (auto split: option.splits intro!: exI [of _ name])
next
  case (C_Stop name a)
  have "case snd (stop_standing a v) of Some _ \<Rightarrow> snd (snd (fst (stop_standing a v))) = snd (snd v)
      | None \<Rightarrow> snd (snd (fst (stop_standing a v))) = Some a" for v
    by (cases v) simp
  from waits_service_spec [OF this, where name = name and m = m] C_Stop show ?thesis
    by (auto split: option.splits intro!: exI [of _ name])
next
  case (C_Restart name a)
  have "case snd (restart_standing a v) of Some _ \<Rightarrow> snd (snd (fst (restart_standing a v))) = snd (snd v)
      | None \<Rightarrow> snd (snd (fst (restart_standing a v))) = Some a" for v
    by (cases v) simp
  from waits_service_spec [OF this, where name = name and m = m] C_Restart show ?thesis
    by (auto split: option.splits intro!: exI [of _ name])
next
  case (C_Reload config plan a)
  have "waits (reload_spec config plan m) name = None" if "\<forall>n. waits m n = None" for name
    using that [rule_format, of name]
    by (auto simp: waits_def reload_spec_def split: option.splits prod.splits)
  then show ?thesis using C_Reload by (auto simp: fun_eq_iff)
qed

lemma accounted_command:
  assumes acc: "accounted acks m sent" and new: "into_ack c \<notin> set sent"
  shows "accounted (acks @ answers (into_ack c) (snd (command_spec c m))) (fst (command_spec c m)) (sent @ [into_ack c])"
proof (cases "snd (command_spec c m)")
  case None
  then obtain name where "waits m name = None" "waits (fst (command_spec c m)) = (waits m)(name := Some (into_ack c))"
    using waits_command [where c = c and m = m] by auto
  moreover have "waits m n \<noteq> Some (into_ack c)" for n
    using acc new by (auto simp: accounted_def intro: ranI)
  ultimately show ?thesis
    using None acc new by (auto simp: accounted_def answers_def split: if_splits)
next
  case (Some r)
  then have "waits (fst (command_spec c m)) = waits m" using waits_command [where c = c and m = m] by simp
  moreover have "waits m n \<noteq> Some (into_ack c)" for n
    using acc new by (auto simp: accounted_def intro: ranI)
  ultimately show ?thesis using Some acc new by (auto simp: accounted_def answers_def)
qed

lemma accounted_report:
  assumes acc: "accounted acks m sent"
  shows "accounted (acks @ (case waits m name of None \<Rightarrow> [] | Some a \<Rightarrow> answers a (snd (report_spec name m))))
    (fst (report_spec name m)) sent"
proof -
  have waits: "waits (fst (report_spec name m)) = (waits m)(name := None)"
    by (auto simp: waits_def report_spec_def fun_eq_iff split: option.splits prod.splits phase.splits)
  show ?thesis
  proof (cases "waits m name")
    case None
    then have "waits (fst (report_spec name m)) = waits m" using waits by (simp add: fun_upd_idem)
    with None acc show ?thesis by (simp add: accounted_def)
  next
    case (Some a)
    then obtain r where r: "snd (report_spec name m) = Some r"
      by (auto simp: waits_def report_spec_def split: option.splits prod.splits)
    have fresh: "a \<notin> fst ` set acks" using acc Some unfolding accounted_def by blast
    have ran: "ran (waits m) = insert a (ran ((waits m)(name := None)))"
    proof (intro set_eqI iffI)
      fix x assume "x \<in> ran (waits m)"
      then obtain n where "waits m n = Some x" by (auto simp: ran_def)
      with Some show "x \<in> insert a (ran ((waits m)(name := None)))"
        by (cases "n = name") (auto intro: ranI [of _ n])
    qed (use Some in \<open>auto simp: ran_def split: if_splits\<close>)
    have eq: "acks @ (case waits m name of None \<Rightarrow> [] | Some a \<Rightarrow> answers a (snd (report_spec name m))) = acks @ [(a, r)]"
      using Some r by (simp add: answers_def)
    have kept: "waits m n = Some b" if "((waits m)(name := None)) n = Some b" for n b
      using that by (auto split: if_splits)
    have inj: "\<forall>n n' a. waits m n = Some a \<longrightarrow> waits m n' = Some a \<longrightarrow> n = n'"
      using acc unfolding accounted_def by (elim conjE)
    show ?thesis
      unfolding eq waits accounted_def
    proof (intro conjI allI impI)
      show "distinct (map fst (acks @ [(a, r)]))" using acc fresh by (simp add: accounted_def)
      show "set sent = fst ` set (acks @ [(a, r)]) \<union> ran ((waits m)(name := None))"
        using acc ran by (simp add: accounted_def)
    next
      fix n b
      assume b: "((waits m)(name := None)) n = Some b"
      then have "n \<noteq> name" by auto
      with kept [OF b] Some inj have "b \<noteq> a" by blast
      moreover have "b \<notin> fst ` set acks" using acc kept [OF b] unfolding accounted_def by blast
      ultimately show "b \<notin> fst ` set (acks @ [(a, r)])" by simp
    next
      fix n n' b
      assume "((waits m)(name := None)) n = Some b" and "((waits m)(name := None)) n' = Some b"
      from kept [OF this(1)] kept [OF this(2)] inj show "n = n'" by blast
    qed
  qed
qed

lemma agrees_service_spec:
  assumes "agrees config plan m" and "\<And>v. fst (fst (f v)) = fst v \<and> (fst (snd (fst (f v))) = Leaving \<longleftrightarrow> fst (snd v) = Leaving)"
  shows "agrees config plan (fst (service_spec f name m))"
proof (cases "m name")
  case None
  with assms(1) show ?thesis by (simp add: service_spec_def)
next
  case (Some v)
  obtain svc ph w where v: "v = (svc, ph, w)" by (cases v)
  obtain s r where f: "f v = (s, r)" by (cases "f v")
  obtain svc' ph' w' where s: "s = (svc', ph', w')" by (cases s)
  have same: "svc' = svc" "ph' = Leaving \<longleftrightarrow> ph = Leaving" using assms(2) [of v] f s v by simp_all
  have old: "if ph = Leaving then name \<notin> set plan else name \<in> set plan \<and> bt_get (cfg_services config) name = Some svc"
    using assms(1) Some v unfolding agrees_def by blast
  have "agrees config plan (m(name := Some s))"
    using assms(1) old same s unfolding agrees_def by (auto split: if_splits)
  with assms(1) Some f v show ?thesis by (cases w) (simp_all add: service_spec_def)
qed

lemma agrees_reload: "valid_plan config plan \<Longrightarrow> agrees config plan (reload_spec config plan m)"
  by (auto simp: agrees_def reload_spec_def valid_plan_def split: option.splits prod.splits if_splits)

lemma agrees_report:
  assumes "agrees config plan m"
  shows "agrees config plan (fst (report_spec name m))"
proof (cases "m name")
  case None
  with assms show ?thesis by (simp add: report_spec_def)
next
  case (Some v)
  obtain svc ph w where v: "v = (svc, ph, w)" by (cases v)
  have "if ph = Leaving then name \<notin> set plan else name \<in> set plan \<and> bt_get (cfg_services config) name = Some svc"
    using assms Some v unfolding agrees_def by blast
  then have placed: "ph = Leaving \<Longrightarrow> name \<notin> set plan"
    "ph \<noteq> Leaving \<Longrightarrow> name \<in> set plan \<and> bt_get (cfg_services config) name = Some svc"
    by (simp_all split: if_splits)
  have step: "agrees config plan (m(name := r))"
    if "r = None \<Longrightarrow> name \<notin> set plan"
      "\<And>svc' ph' w'. r = Some (svc', ph', w') \<Longrightarrow> ph' \<noteq> Leaving \<and> name \<in> set plan \<and> bt_get (cfg_services config) name = Some svc'" for r
    using assms that unfolding agrees_def by (cases r) (auto split: if_splits)
  show ?thesis
    using Some v placed by (cases ph) (auto simp: report_spec_def intro!: step)
qed

section \<open>The configuration of a stack\<close>

lemma keeps_config:
  "sv_config (remove_service n s) = sv_config s" "sv_plan (remove_service n s) = sv_plan s"
  "sv_config (add_service c n s) = sv_config s" "sv_plan (add_service c n s) = sv_plan s"
  "sv_config (change_service c n s) = sv_config s" "sv_plan (change_service c n s) = sv_plan s"
  "sv_config (spawn_added n s) = sv_config s" "sv_plan (spawn_added n s) = sv_plan s"
  for n and s :: supervisor
  by (simp_all add: remove_service_def add_service_def change_service_def spawn_added_def put_slot_def
      insert_slot_def spawn_slot_def count_spawn_def Let_def split: option.split)

lemma apply_reload_config:
  "sv_config (apply_reload config plan sv) = config" "sv_plan (apply_reload config plan sv) = plan"
  by (simp_all add: apply_reload_def Let_def fold_keeps [where f = sv_config] fold_keeps [where f = sv_plan]
      rewire_dependencies_def keeps_config)

lemma control_config:
  "(\<forall>config plan a. c \<noteq> C_Reload config plan a) \<Longrightarrow>
     sv_config (handle_control c sv) = sv_config sv \<and> sv_plan (handle_control c sv) = sv_plan sv"
  by (cases c)
    (auto simp: service_command_def start_command_def stop_command_def restart_command_def send_ack_def put_slot_def
      spawn_slot_def count_spawn_def Let_def split: option.split)

lemma report_config:
  "sv_config (report_arm options report sv) = sv_config sv" "sv_plan (report_arm options report sv) = sv_plan sv"
  by (simp_all add: report_arm_def settle_slot_def answer_pending_def send_ack_def put_slot_def spawn_slot_def
      count_spawn_def Let_def split: option.split)

lemma view_acks: "view (sv\<lparr> sv_acks := acks \<rparr>) = view sv"
  by (rule view_cong) simp

lemma agrees_control:
  assumes inv: "sv_inv sv" and valid: "valid_control c" and old: "agrees (sv_config sv) (sv_plan sv) (view sv)"
  shows "agrees (sv_config (handle_control c sv)) (sv_plan (handle_control c sv)) (view (handle_control c sv))"
proof (cases "\<exists>config plan a. c = C_Reload config plan a")
  case True
  then obtain config plan a where c: "c = C_Reload config plan a" by blast
  show ?thesis
  proof (cases "find (\<lambda>(_, s). sl_pending s \<noteq> None) (sv_slots sv)")
    case None
    with c apply_reload_view [OF inv, of config plan] valid agrees_reload [of config plan "view sv"] show ?thesis
      by (simp add: reload_def Let_def send_ack_def apply_reload_config view_acks)
  next
    case (Some e)
    with c old show ?thesis by (cases e) (simp add: reload_def send_ack_def view_acks)
  qed
next
  case False
  have "agrees (sv_config sv) (sv_plan sv) (fst (command_spec c (view sv)))"
  proof (cases c)
    case (C_Start name a)
    have "fst (fst (start_standing name v)) = fst v
      \<and> (fst (snd (fst (start_standing name v))) = Leaving \<longleftrightarrow> fst (snd v) = Leaving)" for v
      by (cases v) simp
    then show ?thesis unfolding C_Start command_spec.simps by (rule agrees_service_spec [OF old])
  next
    case (C_Stop name a)
    have "fst (fst (stop_standing a v)) = fst v
      \<and> (fst (snd (fst (stop_standing a v))) = Leaving \<longleftrightarrow> fst (snd v) = Leaving)" for v
      by (cases v) simp
    then show ?thesis unfolding C_Stop command_spec.simps by (rule agrees_service_spec [OF old])
  next
    case (C_Restart name a)
    have "fst (fst (restart_standing a v)) = fst v
      \<and> (fst (snd (fst (restart_standing a v))) = Leaving \<longleftrightarrow> fst (snd v) = Leaving)" for v
      by (cases v) simp
    then show ?thesis unfolding C_Restart command_spec.simps by (rule agrees_service_spec [OF old])
  qed (use False in simp)
  with control_refines [OF inv valid] control_config [of c sv] False show ?thesis by simp
qed

section \<open>The invariant of reachable stacks\<close>

definition good :: "supervisor \<Rightarrow> ack list \<Rightarrow> bool" where
  "good sv sent = (sv_inv sv \<and> agrees (sv_config sv) (sv_plan sv) (view sv) \<and> accounted (sv_acks sv) (view sv) sent)"

lemma good_cong:
  assumes "sv_inv sv' = sv_inv sv" "sv_slots sv' = sv_slots sv" "sv_config sv' = sv_config sv"
    "sv_plan sv' = sv_plan sv" "sv_acks sv' = sv_acks sv"
  shows "good sv' sent = good sv sent"
  using assms view_cong [of sv' sv] by (simp add: good_def)

lemma good_start:
  assumes "valid_plan config plan"
  shows "good (stack_start config plan stopped) []"
proof -
  let ?sv = "stack_start config plan stopped"
  have c: "sv_config (start_planned stopped n s) = sv_config s" "sv_plan (start_planned stopped n s) = sv_plan s"
    "sv_acks (start_planned stopped n s) = sv_acks s"
    "sv_config (insert_planned config n s) = sv_config s" "sv_plan (insert_planned config n s) = sv_plan s"
    "sv_acks (insert_planned config n s) = sv_acks s" for n and s :: supervisor
    by (simp_all add: start_planned_def publish_stopped_def insert_planned_def insert_slot_def spawn_slot_def
        count_spawn_def put_slot_def Let_def split: option.split)
  have "sv_config ?sv = config" "sv_plan ?sv = plan" "sv_acks ?sv = []"
    by (simp_all add: stack_start_def fold_keeps [where f = sv_config] fold_keeps [where f = sv_plan]
        fold_keeps [where f = sv_acks] rewire_dependencies_def supervisor_new_def c)
  moreover have "agrees config plan (view ?sv)"
    using assms stack_start_view [OF assms, of stopped] by (auto simp: agrees_def valid_plan_def)
  moreover have "accounted [] (view ?sv) []"
    using stack_start_view [OF assms, of stopped] by (auto simp: accounted_def waits_def ran_def split: option.splits if_splits)
  ultimately show ?thesis using stack_start_view [OF assms, of stopped] by (simp add: good_def)
qed

lemma good_report:
  assumes "good sv sent" and q: "sv_queue sv = report # queue"
  shows "good (report_arm options report (sv\<lparr> sv_queue := queue \<rparr>)) sent"
  using assms report_refines [of sv report queue options] inv_report_arm [of sv report queue options]
    agrees_report accounted_report
  by (simp add: good_def report_config)

lemma good_control:
  assumes "good sv sent" and "valid_control c" and "into_ack c \<notin> set sent"
  shows "good (handle_control c sv) (sent @ [into_ack c])"
  using assms control_refines [of sv c] agrees_control [of sv c] accounted_command
  by (simp add: good_def)

lemma reach_good: "stack_reach options sv sent \<Longrightarrow> good sv sent"
proof (induction rule: stack_reach.induct)
  case (reach_start config plan stopped)
  then show ?case by (rule good_start)
next
  case (reach_control sv sent c)
  then show ?case using good_control by (simp add: stack_step_def)
next
  case (reach_other sv sent i)
  show ?case
  proof (cases i)
    case IN_Report
    with reach_other.IH good_report [of sv sent] show ?thesis by (auto simp: stack_step_def split: list.split)
  next
    case (IN_Control c)
    with reach_other.hyps show ?thesis by simp
  next
    case (IN_Shutdown reason)
    have "good (sv\<lparr> sv_shutdown := Some reason \<rparr>) sent = good sv sent" by (rule good_cong) simp_all
    with reach_other.IH IN_Shutdown show ?thesis by (simp add: stack_step_def)
  next
    case (IN_Gone t)
    have "good (task_gone t sv) sent = good sv sent"
      by (rule good_cong) (simp, simp_all add: task_gone_def split: option.split)
    with reach_other.IH IN_Gone show ?thesis by (simp add: stack_step_def)
  next
    case (IN_Finish t result)
    have same: "sv_slots (task_report t result sv) = sv_slots sv" "sv_config (task_report t result sv) = sv_config sv"
      "sv_plan (task_report t result sv) = sv_plan sv" "sv_acks (task_report t result sv) = sv_acks sv"
      by (simp_all add: task_report_def split: option.split)
    then have "good (task_report t result sv) sent = good sv sent"
      using inv_task_report [of sv t result] reach_other.IH by (intro good_cong) (simp_all add: good_def)
    with reach_other.IH IN_Finish show ?thesis by (simp add: stack_step_def)
  next
    case (IN_Publish c status pgid)
    have "good (task_publish c status pgid sv) sent = good sv sent"
      by (rule good_cong) (simp_all, simp_all add: task_publish_def)
    with reach_other.IH IN_Publish show ?thesis by (simp add: stack_step_def)
  qed
qed

end
