(* ===== verification/Shutdown.thy ===== *)
theory Shutdown
  imports Stack_Reach
begin

text \<open>
  What the supervisor of \<open>runtime/stack.rs\<close> guarantees of every stack it runs, and how it takes
  a stack down: \<open>stop_all\<close> and the end of \<open>StackSupervisor::run\<close>.
\<close>

section \<open>Guarantees of a running stack\<close>

lemma stack_reach_inv: "stack_reach options sv sent \<Longrightarrow> sv_inv sv"
  using reach_good by (simp add: good_def)

text \<open>C6: Whatever commands, reports and tasks do and in whatever order, the supervisor keeps track
  of its tasks: it counts exactly the services that run, a live task belongs to the slot of its
  service, which can stop it and wait for it, no service ever has two of them, a slot that
  waits for its task has either the task or its one report in the queue, and a task that is to
  be replaced, retired or stopped has been told so.\<close>

theorem supervisor_tracks_its_tasks:
  assumes "stack_reach options sv sent"
  shows "sv_running sv = running_slots (sv_slots sv)
    \<and> (\<forall>t task. bt_get (sv_tasks sv) t = Some task \<longrightarrow>
         (\<exists>s. slot_of sv (svc_name (tk_service task)) = Some s \<and> sl_handle s = Some t \<and> sl_stop s = Some t
            \<and> (flagged s \<longrightarrow> tk_requests task \<noteq> [])))
    \<and> (\<forall>t u task task'. bt_get (sv_tasks sv) t = Some task \<longrightarrow> bt_get (sv_tasks sv) u = Some task' \<longrightarrow>
         svc_name (tk_service task) = svc_name (tk_service task') \<longrightarrow> t = u)
    \<and> (\<forall>name s t. slot_of sv name = Some s \<longrightarrow> sl_handle s = Some t \<longrightarrow>
         task_name sv t = Some name \<and> reports_of (sv_queue sv) name = 0
         \<or> task_name sv t = None \<and> reports_of (sv_queue sv) name = 1)"
proof -
  have inv: "sv_inv sv" using stack_reach_inv [OF assms] .
  have owner: "\<exists>s. slot_of sv (svc_name (tk_service task)) = Some s \<and> sl_handle s = Some t \<and> sl_stop s = Some t
      \<and> (flagged s \<longrightarrow> tk_requests task \<noteq> [])" if task: "bt_get (sv_tasks sv) t = Some task" for t task
  proof -
    obtain s where s: "slot_of sv (svc_name (tk_service task)) = Some s" "sl_handle s = Some t"
      using sv_invD(4) [OF inv task] by blast
    with sv_invD(3) [OF inv s(1)] task show ?thesis by (auto simp: slot_inv_def slot_backed_def)
  qed
  have "task_name sv t = Some name \<and> reports_of (sv_queue sv) name = 0
      \<or> task_name sv t = None \<and> reports_of (sv_queue sv) name = 1"
    if "slot_of sv name = Some s" "sl_handle s = Some t" for name s t
    using sv_invD(3) [OF inv that(1)] that(2)
    by (auto simp: slot_inv_def slot_backed_def task_name_def split: option.splits)
  moreover have "t = u" if "bt_get (sv_tasks sv) t = Some task" "bt_get (sv_tasks sv) u = Some task'"
    "svc_name (tk_service task) = svc_name (tk_service task')" for t u task task'
    using owner [OF that(1)] owner [OF that(2)] that(3) by auto
  ultimately show ?thesis using owner sv_invD(6) [OF inv] by blast
qed

text \<open>C5: Every command is answered once: the commands taken so far are those that have been
  answered, each once, and those that still wait; each of these waits in exactly one slot, which
  has a task, and this task has been told to stop or has ended with its report on the way; when
  no task is left and all reports are in, every command has been answered.\<close>

theorem commands_are_answered_once:
  assumes "stack_reach options sv sent"
  shows "distinct (map fst (sv_acks sv))
    \<and> set sent = fst ` set (sv_acks sv) \<union> ran (waits (view sv))
    \<and> fst ` set (sv_acks sv) \<inter> ran (waits (view sv)) = {}
    \<and> (\<forall>a \<in> ran (waits (view sv)). \<exists>!name. waits (view sv) name = Some a)
    \<and> (\<forall>name a. waits (view sv) name = Some a \<longrightarrow>
         (\<exists>s t. slot_of sv name = Some s \<and> sl_pending s = Some a \<and> sl_handle s = Some t
            \<and> (case bt_get (sv_tasks sv) t of
                 Some task \<Rightarrow> svc_name (tk_service task) = name \<and> tk_requests task \<noteq> []
               | None \<Rightarrow> length (filter (\<lambda>r. rep_service r = name) (sv_queue sv)) = 1)))
    \<and> (sv_tasks sv = [] \<and> sv_queue sv = [] \<longrightarrow> set sent = fst ` set (sv_acks sv))"
proof -
  have inv: "sv_inv sv" and acc: "accounted (sv_acks sv) (view sv) sent"
    using reach_good [OF assms] by (simp_all add: good_def)
  have stopping: "\<exists>s t. slot_of sv name = Some s \<and> sl_pending s = Some a \<and> sl_handle s = Some t
      \<and> (case bt_get (sv_tasks sv) t of
           Some task \<Rightarrow> svc_name (tk_service task) = name \<and> tk_requests task \<noteq> []
         | None \<Rightarrow> length (filter (\<lambda>r. rep_service r = name) (sv_queue sv)) = 1)"
    if waiting: "waits (view sv) name = Some a" for name a
  proof -
    obtain s where s: "slot_of sv name = Some s" "sl_pending s = Some a"
      using waiting by (cases "slot_of sv name") (simp_all add: waits_view)
    with sv_invD(3) [OF inv s(1)] show ?thesis
      by (auto simp: slot_inv_def slot_backed_def flagged_def reports_of_def split: option.splits)
  qed
  have "waits (view sv) name = None" if idle: "sv_tasks sv = []" "sv_queue sv = []" for name
    using stopping [of name] idle by (cases "waits (view sv) name") auto
  then have "ran (waits (view sv)) = {}" if "sv_tasks sv = []" "sv_queue sv = []"
    using that by (auto simp: ran_def)
  moreover have "fst ` set (sv_acks sv) \<inter> ran (waits (view sv)) = {}"
    using acc unfolding accounted_def ran_def by blast
  moreover have "\<exists>!name. waits (view sv) name = Some a" if "a \<in> ran (waits (view sv))" for a
    using acc that unfolding accounted_def ran_def by blast
  ultimately show ?thesis using acc stopping unfolding accounted_def by auto
qed

text \<open>C19: The stack follows its configuration: the services of the plan are there with their
  current definition, the others are leaving, and a process that has not been told to stop runs
  the current definition of a planned service.\<close>

theorem stack_follows_its_config:
  assumes "stack_reach options sv sent"
  shows "(\<forall>name \<in> set (sv_plan sv). \<exists>ph w. view sv name = map_option (\<lambda>svc. (svc, ph, w))
            (bt_get (cfg_services (sv_config sv)) name) \<and> view sv name \<noteq> None \<and> ph \<noteq> Leaving)
    \<and> (\<forall>name svc ph w. view sv name = Some (svc, ph, w) \<longrightarrow> name \<notin> set (sv_plan sv) \<longrightarrow> ph = Leaving)
    \<and> (\<forall>t task. bt_get (sv_tasks sv) t = Some task \<longrightarrow> tk_requests task = [] \<longrightarrow>
         svc_name (tk_service task) \<in> set (sv_plan sv)
         \<and> bt_get (cfg_services (sv_config sv)) (svc_name (tk_service task)) = Some (tk_service task))"
proof -
  have inv: "sv_inv sv" and agr: "agrees (sv_config sv) (sv_plan sv) (view sv)"
    using reach_good [OF assms] by (simp_all add: good_def)
  have placed: "if ph = Leaving then n \<notin> set (sv_plan sv)
      else n \<in> set (sv_plan sv) \<and> bt_get (cfg_services (sv_config sv)) n = Some svc"
    if "view sv n = Some (svc, ph, w)" for n svc ph w
    using agr that unfolding agrees_def by blast
  have "\<exists>ph w. view sv n = map_option (\<lambda>svc. (svc, ph, w)) (bt_get (cfg_services (sv_config sv)) n)
      \<and> view sv n \<noteq> None \<and> ph \<noteq> Leaving" if n: "n \<in> set (sv_plan sv)" for n
  proof -
    obtain svc ph w where v: "view sv n = Some (svc, ph, w)"
      using agr n unfolding agrees_def by (metis prod_cases3 option.exhaust)
    with placed [OF v] n have "bt_get (cfg_services (sv_config sv)) n = Some svc" "ph \<noteq> Leaving"
      by (auto split: if_splits)
    with v show ?thesis by auto
  qed
  moreover have "ph = Leaving" if "view sv n = Some (svc, ph, w)" "n \<notin> set (sv_plan sv)" for n svc ph w
    using placed [OF that(1)] that(2) by (auto split: if_splits)
  moreover have "svc_name (tk_service task) \<in> set (sv_plan sv)
      \<and> bt_get (cfg_services (sv_config sv)) (svc_name (tk_service task)) = Some (tk_service task)"
    if task: "bt_get (sv_tasks sv) t = Some task" "tk_requests task = []" for t task
  proof -
    obtain s where s: "slot_of sv (svc_name (tk_service task)) = Some s" "sl_handle s = Some t"
      using sv_invD(4) [OF inv task(1)] by blast
    have "\<not> flagged s" "sl_retired s \<or> sl_restart_when_stopped s \<or> tk_service task = sl_service s"
      using sv_invD(3) [OF inv s(1)] s(2) task by (auto simp: slot_inv_def slot_backed_def)
    then have "view sv (svc_name (tk_service task)) = Some (tk_service task, Up, None)"
      using view_slot [OF s(1)] s(2) by (auto simp: flagged_def phase_of_def slot_is_running_def)
    from placed [OF this] show ?thesis by simp
  qed
  ultimately show ?thesis by blast
qed

text \<open>C4: The supervisor refines the abstract machine: commands and reports change what an operator
  sees of the services, and are answered, as \<open>command_spec\<close> and \<open>report_spec\<close> say.\<close>

theorem supervisor_refines_standings:
  assumes "stack_reach options sv sent" and "\<not> loop_over options sv"
  shows "(valid_control c \<longrightarrow>
       view (stack_step options (IN_Control c) sv) = fst (command_spec c (view sv))
       \<and> sv_acks (stack_step options (IN_Control c) sv) = sv_acks sv @ answers (into_ack c) (snd (command_spec c (view sv))))
    \<and> (sv_queue sv = report # queue \<longrightarrow>
       view (stack_step options IN_Report sv) = fst (report_spec (rep_service report) (view sv))
       \<and> sv_acks (stack_step options IN_Report sv) = sv_acks sv
           @ (case waits (view sv) (rep_service report) of None \<Rightarrow> []
              | Some a \<Rightarrow> answers a (snd (report_spec (rep_service report) (view sv)))))"
  using control_refines [OF stack_reach_inv [OF assms(1)]] report_refines [OF stack_reach_inv [OF assms(1)]] assms(2)
  by (simp add: stack_step_def)

text \<open>C20: A reload leaves alone what it does not change: a service whose definition is the same keeps
  its slot, but for its dependency edges, and its task, which is told nothing.\<close>

theorem reload_spares_the_unchanged:
  assumes "stack_reach options sv sent" and "valid_plan config plan"
    and "slot_of sv name = Some s" and "\<not> sl_retired s" and "name \<in> set plan"
    and "bt_get (cfg_services config) name = Some (sl_service s)"
  shows "(\<exists>deps. slot_of (apply_reload config plan sv) name = Some (s\<lparr> sl_deps := deps \<rparr>))
    \<and> (\<forall>t task. sl_handle s = Some t \<longrightarrow> bt_get (sv_tasks sv) t = Some task \<longrightarrow>
         bt_get (sv_tasks (apply_reload config plan sv)) t = Some task)"
  using apply_reload_spares [OF stack_reach_inv [OF assms(1)] assms(2-6)] .

text \<open>C25: A \<open>stop\<close> is lost on a service that is being replaced: it waits for the old process, but
  nothing cancels the replacement, so the service comes up again and the operator who asked to
  stop it is told that it was restarted.\<close>

theorem stop_is_lost_on_a_replaced_service:
  assumes "stack_reach options sv sent" and "view sv name = Some (svc, Replacing, None)"
    and "\<not> loop_over options sv"
    and "stack_reach options sv' sent'" and "view sv' name = view (stack_step options (IN_Control (C_Stop name a)) sv) name"
    and "sv_queue sv' = report # queue" and "rep_service report = name" and "\<not> loop_over options sv'"
  shows "view (stack_step options IN_Report sv') name = Some (svc, Up, None)
    \<and> (a, Inr CO_Restarted) \<in> set (sv_acks (stack_step options IN_Report sv'))"
proof -
  have "view (stack_step options (IN_Control (C_Stop name a)) sv) name = Some (svc, Replacing, Some a)"
    using control_refines [OF stack_reach_inv [OF assms(1)], of "C_Stop name a"] assms(2,3)
    by (simp add: stack_step_def service_spec_def)
  then show ?thesis
    using report_refines [OF stack_reach_inv [OF assms(4)] assms(6), of options] assms(5-8)
    by (simp add: stack_step_def report_spec_def waits_def answers_def)
qed

section \<open>Taking a stack down\<close>

definition stop_grace :: duration where
  "stop_grace = dur_secs 5"

datatype stop_action =
    SA_Send service_name shutdown_reason
  | SA_Wait service_name duration
  | SA_Sweep service_name int
  | SA_Abort service_name
  | SA_Join service_name

text \<open>\<open>late\<close> tells which tasks do not end within their grace, and the process group that is
  published for them then.\<close>

definition sweep_group :: "service_name \<Rightarrow> int \<Rightarrow> stop_action list" where
  "sweep_group name pgid = (if pgid = 0 then [] else [SA_Sweep name pgid])"

definition grace_of :: "config \<Rightarrow> service_name \<Rightarrow> duration" where
  "grace_of config name =
     (case bt_get (cfg_services config) name of Some s \<Rightarrow> svc_shutdown_timeout s | None \<Rightarrow> 0) + stop_grace"

fun stop_each :: "config \<Rightarrow> (service_name \<Rightarrow> int option) \<Rightarrow> shutdown_reason \<Rightarrow> service_name list
    \<Rightarrow> service_name list \<Rightarrow> service_name list \<Rightarrow> stop_action list \<times> service_name list" where
  "stop_each config late reason stops [] handles = ([], handles)"
| "stop_each config late reason stops (name # names) handles =
     (if name \<notin> set stops then stop_each config late reason stops names handles
      else if name \<notin> set handles then
        (let (acts, handles) = stop_each config late reason stops names handles
         in (SA_Send name reason # acts, handles))
      else
        (let (acts, handles) = stop_each config late reason stops names (filter (\<lambda>h. h \<noteq> name) handles)
         in (SA_Send name reason # SA_Wait name (grace_of config name)
               # (case late name of None \<Rightarrow> [] | Some pgid \<Rightarrow> sweep_group name pgid @ [SA_Abort name]) @ acts,
             handles)))"

definition stop_names :: "supervisor \<Rightarrow> service_name list" where
  "stop_names sv = map fst (filter (\<lambda>(_, s). sl_stop s \<noteq> None) (sv_slots sv))"

definition handle_names :: "supervisor \<Rightarrow> service_name list" where
  "handle_names sv = map fst (filter (\<lambda>(_, s). sl_handle s \<noteq> None) (sv_slots sv))"

definition stop_all :: "(service_name \<Rightarrow> int option) \<Rightarrow> shutdown_reason \<Rightarrow> supervisor \<Rightarrow> stop_action list \<times> service_name list" where
  "stop_all late reason sv =
     stop_each (sv_config sv) late reason (stop_names sv)
       (filter (\<lambda>name. name \<notin> set (sv_plan sv)) (stop_names sv) @ rev (sv_plan sv)) (handle_names sv)"

text \<open>After the loop of \<open>run\<close>: the stack is stopped when there is a reason, the remaining tasks are
  waited for, and the reports that came in meanwhile complete the outcome.\<close>

definition take_down :: "(service_name \<Rightarrow> int option) \<Rightarrow> supervisor \<Rightarrow> stop_action list" where
  "take_down late sv =
     (let (acts, handles) = (case sv_shutdown sv of
            Some reason \<Rightarrow> stop_all late reason sv | None \<Rightarrow> ([], handle_names sv))
      in acts @ map SA_Join handles)"

definition final_outcome :: "service_report list \<Rightarrow> supervisor \<Rightarrow> stack_outcome" where
  "final_outcome rest sv =
     \<lparr> out_reports = sv_reports sv @ sv_queue sv @ rest, out_shutdown = sv_shutdown sv \<rparr>"

definition stop_one :: "config \<Rightarrow> (service_name \<Rightarrow> int option) \<Rightarrow> shutdown_reason \<Rightarrow> service_name \<Rightarrow> stop_action list" where
  "stop_one config late reason name =
     SA_Send name reason # SA_Wait name (grace_of config name)
       # (case late name of None \<Rightarrow> [] | Some pgid \<Rightarrow> sweep_group name pgid @ [SA_Abort name])"

lemma stop_each_all:
  "distinct names \<Longrightarrow> set stops \<inter> set names \<subseteq> set handles \<Longrightarrow>
     stop_each config late reason stops names handles =
       (concat (map (stop_one config late reason) (filter (\<lambda>n. n \<in> set stops) names)),
        filter (\<lambda>h. h \<notin> set stops \<inter> set names) handles)"
proof (induction names arbitrary: handles)
  case (Cons name names)
  show ?case
  proof (cases "name \<in> set stops")
    case True
    with Cons.prems have here: "name \<in> set handles" by auto
    have "set stops \<inter> set names \<subseteq> set (filter (\<lambda>h. h \<noteq> name) handles)" using Cons.prems by auto
    with Cons have "stop_each config late reason stops names (filter (\<lambda>h. h \<noteq> name) handles) =
        (concat (map (stop_one config late reason) (filter (\<lambda>n. n \<in> set stops) names)),
         filter (\<lambda>h. h \<notin> set stops \<inter> set names) (filter (\<lambda>h. h \<noteq> name) handles))" by simp
    moreover have "filter (\<lambda>h. h \<notin> set stops \<inter> set names) (filter (\<lambda>h. h \<noteq> name) handles)
        = filter (\<lambda>h. h \<notin> set stops \<inter> set (name # names)) handles"
      using True by (auto simp: conj_commute intro: filter_cong)
    ultimately show ?thesis using True here by (simp add: stop_one_def [of config late reason name])
  next
    case False
    with Cons have "stop_each config late reason stops names handles =
        (concat (map (stop_one config late reason) (filter (\<lambda>n. n \<in> set stops) names)),
         filter (\<lambda>h. h \<notin> set stops \<inter> set names) handles)" by simp
    moreover have "filter (\<lambda>h. h \<notin> set stops \<inter> set names) handles = filter (\<lambda>h. h \<notin> set stops \<inter> set (name # names)) handles"
      using False by (intro filter_cong) auto
    ultimately show ?thesis using False by simp
  qed
qed simp

lemma stop_handle_names: "sv_inv sv \<Longrightarrow> handle_names sv = stop_names sv"
proof -
  assume inv: "sv_inv sv"
  have "sl_stop s = sl_handle s" if "(n, s) \<in> set (sv_slots sv)" for n s
    using that slot_facts(1) [OF inv, of n s] bt_get_eq_iff [OF sv_invD(1) [OF inv], of n s] by simp
  then show ?thesis by (auto simp: handle_names_def stop_names_def intro!: arg_cong [of _ _ "map fst"] filter_cong)
qed

lemma stop_names_set: "sv_inv sv \<Longrightarrow> set (stop_names sv) = {n. \<exists>s. slot_of sv n = Some s \<and> slot_is_running s} \<and> distinct (stop_names sv)"
proof -
  assume inv: "sv_inv sv"
  have "n \<in> set (stop_names sv) \<longleftrightarrow> (\<exists>s. slot_of sv n = Some s \<and> slot_is_running s)" for n
    unfolding stop_handle_names [OF inv, symmetric]
    using bt_get_eq_iff [OF sv_invD(1) [OF inv], of n]
    by (force simp: handle_names_def slot_is_running_def)
  moreover have "distinct (stop_names sv)"
    using bt_wf_distinct [OF sv_invD(1) [OF inv]] by (simp add: stop_names_def distinct_map_filter)
  ultimately show ?thesis by blast
qed

lemma take_down_order:
  assumes inv: "sv_inv sv" and plan: "distinct (sv_plan sv)" and reason: "sv_shutdown sv = Some reason"
  shows "take_down late sv = concat (map (stop_one (sv_config sv) late reason)
    (filter (\<lambda>n. n \<notin> set (sv_plan sv)) (stop_names sv) @ filter (\<lambda>n. n \<in> set (stop_names sv)) (rev (sv_plan sv))))"
proof -
  let ?names = "filter (\<lambda>n. n \<notin> set (sv_plan sv)) (stop_names sv) @ rev (sv_plan sv)"
  have d: "distinct ?names" using plan stop_names_set [OF inv] by auto
  have "stop_all late reason sv =
      (concat (map (stop_one (sv_config sv) late reason) (filter (\<lambda>n. n \<in> set (stop_names sv)) ?names)), [])"
    using d unfolding stop_all_def stop_handle_names [OF inv]
    by (subst stop_each_all) (auto simp: filter_empty_conv)
  then show ?thesis using reason by (simp add: take_down_def) (simp add: filter_filter conj_commute cong: filter_cong)
qed

text \<open>An action of one segment comes after the whole of every earlier segment.\<close>

lemma concat_before:
  assumes "concat (map f (xs @ d # ys)) = us @ x # vs" and "\<And>m. m \<in> set xs \<Longrightarrow> x \<notin> set (f m)"
    and "n \<in> set xs"
  shows "set (f n) \<subseteq> set us"
  using assms
proof (induction xs arbitrary: us)
  case (Cons m xs)
  have out: "x \<notin> set (f m)" using Cons.prems(2) by simp
  have "f m @ concat (map f (xs @ d # ys)) = us @ x # vs" using Cons.prems(1) by simp
  then obtain w where w: "f m = us @ w \<and> w @ concat (map f (xs @ d # ys)) = x # vs
      \<or> f m @ w = us \<and> concat (map f (xs @ d # ys)) = w @ x # vs"
    unfolding append_eq_append_conv2 by blast
  obtain us' where us: "us = f m @ us'" "concat (map f (xs @ d # ys)) = us' @ x # vs"
  proof (cases w)
    case Nil
    with w that [of "[]"] that [of w] show thesis by auto
  next
    case (Cons y w')
    with w out that [of w] show thesis by auto
  qed
  from Cons.IH [OF us(2)] Cons.prems(2,3) us(1) show ?case by auto
qed simp

lemma send_in_stop_one: "SA_Send d r \<in> set (stop_one config late reason m) \<Longrightarrow> d = m \<and> r = reason"
  by (auto simp: stop_one_def sweep_group_def split: option.splits if_splits)

text \<open>Before which others a running service is taken down: one that the current plan does not have
  goes before all that it has, and before those of its kind whose name is greater; one of the plan
  goes before the services it depends on.\<close>

definition goes_before :: "supervisor \<Rightarrow> service_name \<Rightarrow> service_name \<Rightarrow> bool" where
  "goes_before sv n d =
     (if n \<in> set (sv_plan sv) then d \<in> set (deps_at (graph_of (sv_config sv)) n)
      else d \<in> set (sv_plan sv) \<or> n < d)"

lemma stop_names_sorted: "sv_inv sv \<Longrightarrow> sorted_wrt (<) (stop_names sv)"
  using sv_invD(1) [of sv] by (simp add: stop_names_def bt_wf_def sorted_wrt_map sorted_wrt_filter)

lemma goes_before_order:
  assumes inv: "sv_inv sv" and distinct: "distinct (sv_plan sv)"
    and before: "\<And>xs n ys. sv_plan sv = xs @ n # ys \<Longrightarrow> set (deps_at (graph_of (sv_config sv)) n) \<subseteq> set xs"
    and first: "goes_before sv n d" and n: "n \<in> set (stop_names sv)" and d: "d \<in> set (stop_names sv)"
  shows "\<exists>xs ys. filter (\<lambda>n. n \<notin> set (sv_plan sv)) (stop_names sv)
      @ filter (\<lambda>n. n \<in> set (stop_names sv)) (rev (sv_plan sv)) = xs @ d # ys \<and> n \<in> set xs \<and> d \<notin> set xs"
proof (cases "d \<in> set (sv_plan sv)")
  case True
  then obtain us vs where plan: "sv_plan sv = us @ d # vs" by (meson split_list)
  let ?xs = "filter (\<lambda>n. n \<notin> set (sv_plan sv)) (stop_names sv) @ filter (\<lambda>n. n \<in> set (stop_names sv)) (rev vs)"
  have "n \<in> set vs" if planned: "n \<in> set (sv_plan sv)"
  proof -
    obtain xs ys where split: "sv_plan sv = xs @ n # ys" using planned by (meson split_list)
    have "d \<in> set xs" using before [OF split] first planned by (auto simp: goes_before_def)
    then obtain xs1 xs2 where "xs = xs1 @ d # xs2" by (meson split_list)
    then have "us @ d # vs = xs1 @ d # xs2 @ n # ys" using split plan by simp
    moreover have "d \<notin> set us" "d \<notin> set vs" using distinct plan by simp_all
    ultimately have "vs = xs2 @ n # ys" using append_Cons_eq_iff [of d us vs xs1 "xs2 @ n # ys"] by blast
    then show ?thesis by simp
  qed
  then have "n \<in> set ?xs" using n by auto
  moreover have "d \<notin> set ?xs" using distinct plan by auto
  moreover have "filter (\<lambda>n. n \<notin> set (sv_plan sv)) (stop_names sv) @ filter (\<lambda>n. n \<in> set (stop_names sv)) (rev (sv_plan sv))
      = ?xs @ d # filter (\<lambda>n. n \<in> set (stop_names sv)) (rev us)"
    unfolding plan using d by simp
  ultimately show ?thesis by blast
next
  case False
  have less: "n \<notin> set (sv_plan sv)" "n < d"
  proof -
    show unplanned: "n \<notin> set (sv_plan sv)"
    proof
      assume n: "n \<in> set (sv_plan sv)"
      then obtain xs ys where split: "sv_plan sv = xs @ n # ys" by (meson split_list)
      have "d \<in> set xs" using before [OF split] first n by (auto simp: goes_before_def)
      with False split show False by simp
    qed
    show "n < d" using first unplanned False by (simp add: goes_before_def)
  qed
  obtain us vs where names: "stop_names sv = us @ d # vs" using d by (meson split_list)
  with stop_names_sorted [OF inv] n less(2) have "n \<in> set us"
    by (auto simp: sorted_wrt_append dest: order.strict_trans)
  moreover have "d \<notin> set us" using stop_names_sorted [OF inv] names by (auto simp: sorted_wrt_append)
  moreover have "filter (\<lambda>n. n \<notin> set (sv_plan sv)) (stop_names sv) = filter (\<lambda>n. n \<notin> set (sv_plan sv)) us @ d
      # filter (\<lambda>n. n \<notin> set (sv_plan sv)) vs"
    using False by (simp add: names)
  ultimately show ?thesis
    using less(1) by (intro exI [of _ "filter (\<lambda>n. n \<notin> set (sv_plan sv)) us"] exI [of _ "filter (\<lambda>n. n \<notin> set (sv_plan sv)) vs
        @ filter (\<lambda>n. n \<in> set (stop_names sv)) (rev (sv_plan sv))"]) simp
qed

text \<open>C21: A shutdown tells every running service to stop with its reason, waits for it, and kills the
  published process group of a task it gives up on.  The order: a service of the current plan is
  waited for before any service that it depends on is told to stop; a running service that a
  reload has dropped from the plan is waited for before any service of the plan is told to, and
  these go one after the other in the order of their names, whatever depended on what.\<close>

theorem shutdown_follows_dependencies:
  assumes "stack_reach options sv sent" and "sv_shutdown sv = Some reason"
    and "planned_config (sv_config sv)" and "plan_stack (sv_config sv) sel = Inr (sv_plan sv)"
  shows "(\<forall>n s. slot_of sv n = Some s \<longrightarrow> slot_is_running s \<longrightarrow>
           SA_Send n reason \<in> set (take_down late sv) \<and> SA_Wait n (grace_of (sv_config sv) n) \<in> set (take_down late sv)
           \<and> (\<forall>g. late n = Some g \<longrightarrow> g \<noteq> 0 \<longrightarrow> SA_Sweep n g \<in> set (take_down late sv)))
    \<and> (\<forall>n d s us r vs. goes_before sv n d \<longrightarrow>
           slot_of sv n = Some s \<longrightarrow> slot_is_running s \<longrightarrow> take_down late sv = us @ SA_Send d r # vs \<longrightarrow>
           SA_Wait n (grace_of (sv_config sv) n) \<in> set us)"
proof -
  have inv: "sv_inv sv" using stack_reach_inv [OF assms(1)] .
  have distinct: "distinct (sv_plan sv)"
    and before: "\<And>xs n ys. sv_plan sv = xs @ n # ys \<Longrightarrow> set (deps_at (graph_of (sv_config sv)) n) \<subseteq> set xs"
    using plan_closure [OF assms(3,4)] by blast+
  let ?f = "stop_one (sv_config sv) late reason"
  let ?all = "filter (\<lambda>n. n \<notin> set (sv_plan sv)) (stop_names sv)
    @ filter (\<lambda>n. n \<in> set (stop_names sv)) (rev (sv_plan sv))"
  have acts: "take_down late sv = concat (map ?f ?all)"
    by (rule take_down_order [OF inv distinct assms(2)])
  have runs: "n \<in> set (stop_names sv) \<longleftrightarrow> (\<exists>s. slot_of sv n = Some s \<and> slot_is_running s)" for n
    using stop_names_set [OF inv] by blast
  have all: "set (?f n) \<subseteq> set (take_down late sv)" if "n \<in> set (stop_names sv)" for n
    unfolding acts using that by auto
  have "SA_Wait n (grace_of (sv_config sv) n) \<in> set us"
    if first: "goes_before sv n d" and n: "n \<in> set (stop_names sv)"
      and at: "take_down late sv = us @ SA_Send d r # vs" for n d us r vs
  proof -
    have "SA_Send d r \<in> set (take_down late sv)" unfolding at by simp
    then obtain m where "m \<in> set ?all" "SA_Send d r \<in> set (?f m)" unfolding acts by auto
    then have d: "d \<in> set (stop_names sv)" using send_in_stop_one by fastforce
    have "\<exists>xs ys. ?all = xs @ d # ys \<and> n \<in> set xs \<and> d \<notin> set xs"
      by (rule goes_before_order [OF inv distinct _ first n d]) (rule before)
    then obtain xs ys where xs: "?all = xs @ d # ys" "n \<in> set xs" "d \<notin> set xs" by blast
    then have other: "SA_Send d r \<notin> set (?f m)" if "m \<in> set xs" for m
      using that send_in_stop_one by metis
    have "concat (map ?f (xs @ d # ys)) = us @ SA_Send d r # vs" using acts at unfolding xs(1) by simp
    from concat_before [OF this other xs(2)] have "set (?f n) \<subseteq> set us" .
    then show ?thesis by (auto simp: stop_one_def)
  qed
  moreover have "SA_Send n reason \<in> set (?f n)" "SA_Wait n (grace_of (sv_config sv) n) \<in> set (?f n)"
    "late n = Some g \<Longrightarrow> g \<noteq> 0 \<Longrightarrow> SA_Sweep n g \<in> set (?f n)" for n g
    by (simp_all add: stop_one_def sweep_group_def)
  ultimately show ?thesis using all runs by blast
qed

section \<open>Examples\<close>

definition example_options :: stack_options where
  "example_options = \<lparr> so_no_restart = False, so_abort_on_failure = False, so_keep_running = True \<rparr>"

definition example_running :: supervisor where
  "example_running = stack_start example_stack [''db'', ''api'', ''web''] {}"

lemma example_running_reach: "stack_reach example_options example_running []"
  unfolding example_running_def
  by (rule reach_start [OF planned_is_valid [OF planned_example plan_example]])

text \<open>The same stack with another command for \<open>db\<close>.\<close>

definition example_changed :: config where
  "example_changed = example_stack\<lparr> cfg_services := bt_set ''db'' ((plain_service ''db'' [])\<lparr> svc_args := [''2''] \<rparr>)
     (cfg_services example_stack) \<rparr>"

lemma example_changed_valid: "valid_plan example_changed [''db'', ''api'', ''web'']"
  by (auto simp: valid_plan_def named_ok_def example_changed_def example_stack_def bt_get_Cons plain_service_def)

lemma example_running_facts:
  "sv_config example_running = example_stack" "sv_plan example_running = [''db'', ''api'', ''web'']"
  "sv_queue example_running = []" "sv_shutdown example_running = None" "sv_running example_running = 3"
  "map fst (sv_tasks example_running) = [0, 1, 2]"
  "map fst (sv_slots example_running) = [''api'', ''db'', ''web'']"
  by (code_simp)+

lemma example_loop: "\<not> loop_over example_options example_running"
  by (simp add: loop_over_def example_running_facts example_options_def)

theorem supervisor_tracks_its_tasks_witness: "running_slots (sv_slots example_running) = 3"
  using supervisor_tracks_its_tasks [OF example_running_reach] example_running_facts(5) by simp

text \<open>A stop of \<open>web\<close>, and a reload in which \<open>db\<close> has changed.\<close>

definition example_stopping :: supervisor where
  "example_stopping = stack_step example_options (IN_Control (C_Stop ''web'' 7)) example_running"

definition example_reloading :: supervisor where
  "example_reloading = stack_step example_options
     (IN_Control (C_Reload example_changed [''db'', ''api'', ''web''] 1)) example_running"

lemma example_stopping_reach: "stack_reach example_options example_stopping [7]"
  using reach_control [OF example_running_reach example_loop, of "C_Stop ''web'' 7"] by (simp add: example_stopping_def)

lemma example_reloading_reach: "stack_reach example_options example_reloading [1]"
  using reach_control [OF example_running_reach example_loop, of "C_Reload example_changed [''db'', ''api'', ''web''] 1"]
    example_changed_valid by (simp add: example_reloading_def)

theorem commands_are_answered_once_witness:
  "7 \<in> fst ` set (sv_acks example_stopping)
     \<or> (\<exists>!name. waits (view example_stopping) name = Some 7)"
proof -
  note facts = commands_are_answered_once [OF example_stopping_reach]
  have once: "\<forall>a \<in> ran (waits (view example_stopping)). \<exists>!name. waits (view example_stopping) name = Some a"
    by (rule facts [THEN conjunct2, THEN conjunct2, THEN conjunct2, THEN conjunct1])
  have "set [7] = fst ` set (sv_acks example_stopping) \<union> ran (waits (view example_stopping))"
    by (rule facts [THEN conjunct2, THEN conjunct1])
  then have "7 \<in> fst ` set (sv_acks example_stopping) \<union> ran (waits (view example_stopping))"
    by (metis list.set_intros(1))
  with once show ?thesis by blast
qed

lemma example_reloading_facts:
  "sv_config example_reloading = example_changed" "sv_plan example_reloading = [''db'', ''api'', ''web'']"
  "sv_queue example_reloading = []" "sv_shutdown example_reloading = None"
  by code_simp+

theorem stack_follows_its_config_witness:
  "\<exists>ph w. view example_reloading ''db'' = Some ((plain_service ''db'' [])\<lparr> svc_args := [''2''] \<rparr>, ph, w)"
proof -
  have "''db'' \<in> set (sv_plan example_reloading)" by (simp add: example_reloading_facts)
  then obtain ph w where "view example_reloading ''db'' = map_option (\<lambda>svc. (svc, ph, w))
      (bt_get (cfg_services (sv_config example_reloading)) ''db'')"
    using stack_follows_its_config [OF example_reloading_reach] by blast
  moreover have "bt_get (cfg_services example_changed) ''db'' = Some ((plain_service ''db'' [])\<lparr> svc_args := [''2''] \<rparr>)"
    by (simp add: example_changed_def example_stack_def bt_get_Cons)
  ultimately show ?thesis by (simp add: example_reloading_facts)
qed

lemma example_view: "view example_running name =
    (if name \<in> {''db'', ''api'', ''web''}
     then map_option (\<lambda>service. (service, Up, None)) (bt_get (cfg_services example_stack) name) else None)"
  using stack_start_view [OF planned_is_valid [OF planned_example plan_example], of "{}" name]
  by (simp add: example_running_def)

lemma example_db: "bt_get (cfg_services example_stack) ''db'' = Some (plain_service ''db'' [])"
  "bt_get (cfg_services example_changed) ''db'' = Some ((plain_service ''db'' [])\<lparr> svc_args := [''2''] \<rparr>)"
  by (simp_all add: example_changed_def example_stack_def bt_get_Cons)

lemma example_replacing:
  "view example_reloading ''db'' = Some ((plain_service ''db'' [])\<lparr> svc_args := [''2''] \<rparr>, Replacing, None)"
proof -
  let ?c = "C_Reload example_changed [''db'', ''api'', ''web''] 1"
  have "view example_reloading = fst (command_spec ?c (view example_running))"
    using control_refines [OF stack_reach_inv [OF example_running_reach], of ?c] example_changed_valid example_loop
    by (simp add: example_reloading_def stack_step_def)
  moreover have "\<nexists>name. waits (view example_running) name \<noteq> None"
    by (auto simp: waits_def example_view split: option.splits if_splits)
  moreover have "(plain_service ''db'' []) \<noteq> (plain_service ''db'' [])\<lparr> svc_args := [''2''] \<rparr>"
    by (simp add: plain_service_def)
  ultimately show ?thesis by (simp add: reload_spec_def example_view example_db)
qed

theorem supervisor_refines_standings_witness:
  "waits (view example_stopping) ''web'' = Some 7"
proof -
  have "view example_stopping = fst (command_spec (C_Stop ''web'' 7) (view example_running))"
    using supervisor_refines_standings [OF example_running_reach example_loop, of "C_Stop ''web'' 7"]
    by (simp add: example_stopping_def)
  moreover have "bt_get (cfg_services example_stack) ''web'' = Some (plain_service ''web'' [''api''])"
    by (simp add: example_stack_def bt_get_Cons)
  ultimately show ?thesis by (simp add: service_spec_def example_view waits_def)
qed

theorem reload_spares_the_unchanged_witness:
  "slot_of (apply_reload example_changed [''db'', ''api'', ''web''] example_running) ''api'' \<noteq> None"
proof -
  have "bt_get (cfg_services example_stack) ''api'' = bt_get (cfg_services example_changed) ''api''"
    "bt_get (cfg_services example_stack) ''api'' = Some (plain_service ''api'' [''db''])"
    by (simp_all add: example_changed_def example_stack_def bt_get_Cons)
  with example_view [of "''api''"] have v: "view example_running ''api'' = Some (plain_service ''api'' [''db''], Up, None)"
    "bt_get (cfg_services example_changed) ''api'' = Some (plain_service ''api'' [''db''])" by simp_all
  from v(1) obtain s where s: "slot_of example_running ''api'' = Some s" "sl_service s = plain_service ''api'' [''db'']"
    "phase_of s = Up" by (rule view_SomeE)
  then have "\<not> sl_retired s" by (auto simp: phase_of_def split: if_splits)
  with reload_spares_the_unchanged [OF example_running_reach example_changed_valid s(1)] s(2) v(2)
  show ?thesis by auto
qed

text \<open>The operator stops \<open>db\<close> while it is being replaced, and the old process ends.\<close>

definition example_lost :: supervisor where
  "example_lost = stack_step example_options (IN_Finish 0 (SRes_Finished (RO_Stopped SR_Requested)))
     (stack_step example_options (IN_Control (C_Stop ''db'' 2)) example_reloading)"

lemma example_lost_facts:
  "sv_queue example_lost = [\<lparr> rep_service = ''db'', rep_result = SRes_Finished (RO_Stopped SR_Requested) \<rparr>]"
  "loop_over example_options example_lost = False" "loop_over example_options example_reloading = False"
  by code_simp+

theorem stop_is_lost_on_a_replaced_service_witness:
  "(2, Inr CO_Restarted) \<in> set (sv_acks (stack_step example_options IN_Report example_lost))"
proof -
  let ?stop = "stack_step example_options (IN_Control (C_Stop ''db'' 2)) example_reloading"
  have replacing: "view example_reloading ''db'' = Some ((plain_service ''db'' [])\<lparr> svc_args := [''2''] \<rparr>, Replacing, None)"
    by (rule example_replacing)
  have r: "stack_reach example_options ?stop [1, 2]"
    using reach_control [OF example_reloading_reach _, of "C_Stop ''db'' 2"] example_lost_facts(3) by simp
  have lost: "stack_reach example_options example_lost [1, 2]"
    unfolding example_lost_def by (rule reach_other [OF r]) simp
  have "view example_lost = view ?stop"
    unfolding example_lost_def stack_step_def [of _ "IN_Finish _ _"]
    by (rule view_cong) (simp add: task_report_def split: option.split)
  then show ?thesis
    using stop_is_lost_on_a_replaced_service [OF example_reloading_reach replacing _ lost _ example_lost_facts(1)]
      example_lost_facts by simp
qed

definition example_closing :: supervisor where
  "example_closing = stack_step example_options (IN_Shutdown SR_Terminated) example_running"

theorem shutdown_follows_dependencies_witness:
  "SA_Wait ''web'' (grace_of example_stack ''web'') \<in> set (take_down (\<lambda>_. None) example_closing)"
proof -
  have closing: "example_closing = example_running\<lparr> sv_shutdown := Some SR_Terminated \<rparr>"
    using example_loop by (simp add: example_closing_def stack_step_def)
  have reach: "stack_reach example_options example_closing []"
    unfolding example_closing_def by (rule reach_other [OF example_running_reach]) simp
  have "view example_closing ''web'' = Some (plain_service ''web'' [''api''], Up, None)"
    using example_view [of "''web''"] by (simp add: view_def closing example_stack_def bt_get_Cons)
  then obtain s where s: "slot_of example_closing ''web'' = Some s" "phase_of s = Up" by (rule view_SomeE)
  then have "slot_is_running s" by (auto simp: phase_of_def split: if_splits)
  moreover have c: "sv_shutdown example_closing = Some SR_Terminated" "sv_config example_closing = example_stack"
    "sv_plan example_closing = [''db'', ''api'', ''web'']"
    by (simp_all add: closing example_running_facts)
  moreover have "planned_config (sv_config example_closing)"
    "plan_stack (sv_config example_closing) (selection_services [''web'']) = Inr (sv_plan example_closing)"
    unfolding c by (rule planned_example, rule plan_example)
  ultimately have "SA_Wait ''web'' (grace_of (sv_config example_closing) ''web'') \<in> set (take_down (\<lambda>_. None) example_closing)"
    using shutdown_follows_dependencies [OF reach, of SR_Terminated "selection_services [''web'']" "\<lambda>_. None"] s(1)
    by blast
  then show ?thesis unfolding c .
qed

end
