(* ===== verification/Runner.thy ===== *)
theory Runner
  imports Health Runtime
begin

text \<open>
  \<open>crates/servicrab-core/src/runtime/unix.rs\<close>: the supervision of one service.  What the
  operating system answers and when, in one turn of the loop of \<open>ServiceRunner::run\<close>, is a record
  \<open>turn\<close>; a run over a list of turns gives its trace, the events it publishes and the system
  calls it makes in their order, and its result, or no result yet when it goes on after the last
  turn.
\<close>

section \<open>Processes\<close>

datatype signal = SIGTERM | SIGINT | SIGQUIT | SIGHUP | SIGKILL

fun os_signal :: "shutdown_signal \<Rightarrow> signal" where
  "os_signal SS_Term = SIGTERM"
| "os_signal SS_Int = SIGINT"
| "os_signal SS_Quit = SIGQUIT"
| "os_signal SS_Hup = SIGHUP"

fun show_signal :: "signal \<Rightarrow> string" where
  "show_signal SIGTERM = ''SIGTERM''"
| "show_signal SIGINT = ''SIGINT''"
| "show_signal SIGQUIT = ''SIGQUIT''"
| "show_signal SIGHUP = ''SIGHUP''"
| "show_signal SIGKILL = ''SIGKILL''"

datatype io_kind = NotFound | PermissionDenied | OtherKind

record io_error =
  ioe_kind :: io_kind
  ioe_text :: string

definition spawn_error_is_retryable :: "io_error \<Rightarrow> bool" where
  "spawn_error_is_retryable e = (ioe_kind e \<notin> {NotFound, PermissionDenied})"

datatype errno = ESRCH | EPERM | OtherErrno string

definition group_is_gone :: "errno \<Rightarrow> bool" where
  "group_is_gone e = (e \<in> {ESRCH, EPERM})"

text \<open>An \<open>ExitStatus\<close>: the exit code and the signal.\<close>

type_synonym exit_status = "int option \<times> int option"

fun exit_reason_of :: "exit_status \<Rightarrow> exit_reason" where
  "exit_reason_of (Some code, _) = ER_Code code"
| "exit_reason_of (None, Some sig) = ER_Signal sig"
| "exit_reason_of (None, None) = ER_Code (- 1)"

datatype os_action =
    OS_Spawn int
  | OS_Signal int signal
  | OS_Wait int

datatype trace_item = T_Event event_kind | T_Os os_action

type_synonym trace = "trace_item list"

text \<open>\<open>ProcessHandle\<close>: the group and whether it has been swept.\<close>

record process_handle =
  ph_pgid :: int
  ph_swept :: bool

text \<open>The answer of the system to a spawn: an error, a child without a pid, or a child.\<close>

datatype spawn_answer = SpawnError io_error | SpawnNoPid | Spawned int

definition handle_spawn :: "service \<Rightarrow> spawn_answer \<Rightarrow> (runtime_error \<times> bool) + process_handle" where
  "handle_spawn service answer =
     (case answer of
        SpawnError e \<Rightarrow>
          Inl (RE_SpawnFailed (svc_name service) (svc_executable service) (ioe_text e), spawn_error_is_retryable e)
      | SpawnNoPid \<Rightarrow>
          Inl (RE_WaitFailed (svc_name service) ''child exited before its pid could be read'', False)
      | Spawned pid \<Rightarrow> Inr \<lparr> ph_pgid = pid, ph_swept = False \<rparr>)"

definition signal_group :: "service_name \<Rightarrow> signal \<Rightarrow> errno option \<Rightarrow> process_handle \<Rightarrow> runtime_error + unit" where
  "signal_group service sig answer h =
     (case answer of
        None \<Rightarrow> Inr ()
      | Some e \<Rightarrow>
          if group_is_gone e then Inr ()
          else Inl (RE_SignalDeliveryFailed service (show_signal sig) (ph_pgid h)
            (case e of OtherErrno text \<Rightarrow> text | _ \<Rightarrow> [])))"

definition kill_group :: "service_name \<Rightarrow> duration \<Rightarrow> errno option \<Rightarrow> process_handle
    \<Rightarrow> process_handle \<times> (runtime_error + unit)" where
  "kill_group service timeout answer h =
     (h\<lparr> ph_swept := True \<rparr>,
      case answer of
        None \<Rightarrow> Inr ()
      | Some e \<Rightarrow>
          if group_is_gone e then Inr ()
          else Inl (RE_ForceKillFailed service (ph_pgid h) timeout (case e of OtherErrno text \<Rightarrow> text | _ \<Rightarrow> [])))"

definition handle_wait :: "service_name \<Rightarrow> string + exit_status \<Rightarrow> runtime_error + exit_reason" where
  "handle_wait service answer =
     (case answer of
        Inl source \<Rightarrow> Inl (RE_WaitFailed service source)
      | Inr status \<Rightarrow> Inr (exit_reason_of status))"

text \<open>The \<open>Drop\<close> of a handle.\<close>

definition handle_drop :: "process_handle \<Rightarrow> trace" where
  "handle_drop h = (if ph_swept h then [] else [T_Os (OS_Signal (ph_pgid h) SIGKILL)])"

section \<open>The runner\<close>

record runner =
  rn_service :: service
  rn_tracker :: restart_tracker
  rn_state :: state_machine
  rn_output :: output_mode

definition runner_new :: "service \<Rightarrow> run_options \<Rightarrow> runner" where
  "runner_new service options =
     \<lparr> rn_service = service,
       rn_tracker = with_policy (tracker_from_service service) (effective_policy options (svc_restart service)),
       rn_state = sm_new, rn_output = ro_output options \<rparr>"

definition runner_policy :: "runner \<Rightarrow> restart_policy" where
  "runner_policy r = rt_policy (rn_tracker r)"

text \<open>\<open>transition\<close>: the event of the new state, or the error.\<close>

definition transition :: "service_state \<Rightarrow> runner \<Rightarrow> trace \<times> (runtime_error + runner)" where
  "transition next r =
     (case try_transition (rn_state r) next of
        (m, Inr _) \<Rightarrow> ([T_Event (EK_State next)], Inr (r\<lparr> rn_state := m \<rparr>))
      | (_, Inl e) \<Rightarrow> ([], Inl (RE_InvalidTransition (svc_name (rn_service r)) e)))"

text \<open>\<open>next_unhealthy\<close> on the signals that the monitor sent: whether it returns.\<close>

definition next_unhealthy :: "health_signal list option \<Rightarrow> bool \<Rightarrow> bool" where
  "next_unhealthy health act =
     (case health of Some signals \<Rightarrow> act \<and> list_ex signals_unhealthy signals | None \<Rightarrow> False)"

text \<open>Why the \<open>select!\<close> of a turn wakes up, and how the wait of \<open>shutdown\<close> ends.\<close>

datatype wake_up =
    WU_Exited "string + exit_status"
  | WU_Signalled shutdown_reason
  | WU_Unhealthy "health_signal list"

datatype stop_answer =
    StoppedInTime "string + exit_status"
  | StopTimedOut
  | StopRequestedAgain

record turn =
  tn_requested :: "shutdown_reason option"
  tn_spawn :: spawn_answer
  tn_output :: "(log_stream \<times> string) list"
  tn_wake :: wake_up
  tn_signal :: "errno option"
  tn_stop :: stop_answer
  tn_escalate :: "errno option"
  tn_last_wait :: "string + exit_status"
  tn_sweep :: "errno option"
  tn_uptime :: duration
  tn_backoff :: "shutdown_reason option"

text \<open>The lines that the readers publish, when the output is captured.\<close>

definition reader_events :: "runner \<Rightarrow> turn \<Rightarrow> trace" where
  "reader_events r tn =
     (if rn_output r = Capture then map (\<lambda>(stream, line). T_Event (EK_Log stream line)) (tn_output tn) else [])"

text \<open>\<open>ServiceRunner::shutdown\<close>.\<close>

definition graceful_stop :: "turn \<Rightarrow> runner \<Rightarrow> process_handle
    \<Rightarrow> trace \<times> runner \<times> process_handle \<times> (runtime_error + exit_reason)" where
  "graceful_stop tn r h =
     (let service = rn_service r; name = svc_name service in
      case transition Stopping r of
        (tr, Inl e) \<Rightarrow> (tr, r, h, Inl e)
      | (tr, Inr r) \<Rightarrow>
          (let sig = os_signal (svc_shutdown_signal service);
               tr = tr @ [T_Os (OS_Signal (ph_pgid h) sig)] in
           case signal_group name sig (tn_signal tn) h of
             Inl e \<Rightarrow> (tr, r, h, Inl e)
           | Inr _ \<Rightarrow>
               (case tn_stop tn of
                  StoppedInTime answer \<Rightarrow> (tr @ [T_Os (OS_Wait (ph_pgid h))], r, h, handle_wait name answer)
                | _ \<Rightarrow>
                    (let tr = tr @ [T_Os (OS_Signal (ph_pgid h) SIGKILL)] in
                     case kill_group name (svc_shutdown_timeout service) (tn_escalate tn) h of
                       (h, Inl e) \<Rightarrow> (tr, r, h, Inl e)
                     | (h, Inr _) \<Rightarrow>
                         (tr @ [T_Os (OS_Wait (ph_pgid h))], r, h, handle_wait name (tn_last_wait tn))))))"

text \<open>The life of one process, from \<open>Running\<close> to the sweep of its group: the reason it ended and the
  shutdown that stopped it.  \<open>None\<close> is a process that runs on.\<close>

definition process_life :: "turn \<Rightarrow> runner \<Rightarrow> process_handle
    \<Rightarrow> trace \<times> runner \<times> process_handle \<times> (runtime_error + exit_reason \<times> shutdown_reason option) option" where
  "process_life tn r h =
     (let service = rn_service r; name = svc_name service;
          stop = (\<lambda>why. let (tr, r, h, res) = graceful_stop tn r h in (T_Event (EK_Stopping why) # tr, r, h, res)) in
      case tn_wake tn of
        WU_Exited answer \<Rightarrow>
          ([T_Os (OS_Wait (ph_pgid h))], r, h,
           Some (case handle_wait name answer of Inl e \<Rightarrow> Inl e | Inr reason \<Rightarrow> Inr (reason, None)))
      | WU_Signalled why \<Rightarrow>
          (let (tr, r, h, res) = stop why in
           (tr, r, h, Some (case res of Inl e \<Rightarrow> Inl e | Inr reason \<Rightarrow> Inr (reason, Some why))))
      | WU_Unhealthy signals \<Rightarrow>
          if next_unhealthy (map_option (\<lambda>_. signals) (svc_health service))
               (case svc_health service of Some check \<Rightarrow> stops_process check | None \<Rightarrow> False)
          then (let (tr, r, h, res) = stop SR_Unhealthy in
                (tr, r, h, Some (case res of Inl e \<Rightarrow> Inl e | Inr _ \<Rightarrow> Inr (ER_Unhealthy, None))))
          else ([], r, h, None))"

text \<open>What a turn ends with: another turn, the result of the run, or a process that runs on.\<close>

datatype turn_end =
    TE_Again runner u32
  | TE_Return "runtime_error + run_outcome"
  | TE_Waiting

text \<open>A final transition, with the events and the result that follow it.\<close>

definition finish_with :: "service_state \<Rightarrow> event_kind list \<Rightarrow> runtime_error + run_outcome \<Rightarrow> runner \<Rightarrow> trace \<times> turn_end" where
  "finish_with next kinds result r =
     (case transition next r of
        (tr, Inl e) \<Rightarrow> (tr, TE_Return (Inl e))
      | (tr, Inr _) \<Rightarrow> (tr @ map T_Event kinds, TE_Return result))"

text \<open>A restart after its delay, unless a shutdown is requested during the wait.\<close>

definition back_off :: "turn \<Rightarrow> duration \<Rightarrow> u32 \<Rightarrow> (shutdown_reason \<Rightarrow> event_kind list) \<Rightarrow> u32 \<Rightarrow> runner \<Rightarrow> trace \<times> turn_end" where
  "back_off tn delay attempt finished restarts r =
     (case transition Backoff r of
        (tr, Inl e) \<Rightarrow> (tr, TE_Return (Inl e))
      | (tr, Inr r) \<Rightarrow>
          (let tr = tr @ [T_Event (EK_Backoff delay attempt)] in
           case tn_backoff tn of
             None \<Rightarrow> (tr, TE_Again r (restarts + 1))
           | Some why \<Rightarrow>
               (let (tr', e) = finish_with Stopped (finished why) (Inr (RO_Stopped why)) r in (tr @ tr', e))))"

text \<open>The restart decision after the process of a turn is gone; \<open>err\<close> renders the errors.\<close>

definition after_exit :: "(runtime_error \<Rightarrow> string) \<Rightarrow> turn \<Rightarrow> exit_reason \<Rightarrow> shutdown_reason option \<Rightarrow> u32 \<Rightarrow> runner
    \<Rightarrow> trace \<times> turn_end" where
  "after_exit err tn reason stopped_by restarts r =
     (case stopped_by of
        Some why \<Rightarrow>
          finish_with Stopped
            [EK_Finished (''stopped ('' @ show_shutdown_reason why @ ''), last status: '' @ show_exit_reason reason)]
            (Inr (RO_Stopped why)) r
      | None \<Rightarrow>
          (let exited = T_Event (EK_Exited reason (tn_uptime tn));
               (tracker, decision) = decide (rn_tracker r) (process_outcome_new reason (tn_uptime tn)) None;
               r = r\<lparr> rn_tracker := tracker \<rparr>;
               (tr, e) = (case decision of
                  RD_Restart delay attempt \<Rightarrow>
                    back_off tn delay attempt
                      (\<lambda>why. [EK_Finished (''stopped ('' @ show_shutdown_reason why @ '')'')]) restarts r
                | RD_Stop \<Rightarrow>
                    finish_with Exited [EK_Finished (show_exit_reason reason)] (Inr (RO_Exited reason restarts)) r
                | RD_Fail _ \<Rightarrow>
                    (let failure = RE_RestartLimitExhausted (svc_name (rn_service r)) restarts in
                     finish_with Failed [EK_Failed (err failure)] (Inl failure) r))
           in (exited # tr, e)))"

text \<open>A spawn that failed goes through the restart policy, too.\<close>

definition after_spawn_failure :: "(runtime_error \<Rightarrow> string) \<Rightarrow> turn \<Rightarrow> runtime_error \<Rightarrow> bool \<Rightarrow> u32 \<Rightarrow> runner
    \<Rightarrow> trace \<times> turn_end" where
  "after_spawn_failure err tn e retryable restarts r =
     (let (tracker, decision) = decide (rn_tracker r) (process_outcome_new (ER_SpawnFailure retryable) 0) None;
          r = r\<lparr> rn_tracker := tracker \<rparr> in
      case decision of
        RD_Restart delay attempt \<Rightarrow> back_off tn delay attempt (\<lambda>_. []) restarts r
      | _ \<Rightarrow> (fst (transition Failed r) @ [T_Event (EK_Failed (err e))], TE_Return (Inl e)))"

text \<open>A turn with a process: however it ends, the handle is dropped.\<close>

definition with_process :: "(runtime_error \<Rightarrow> string) \<Rightarrow> turn \<Rightarrow> process_handle \<Rightarrow> u32 \<Rightarrow> runner \<Rightarrow> trace \<times> turn_end" where
  "with_process err tn h restarts r =
     (case transition Running r of
        (tr, Inl e) \<Rightarrow> (tr @ handle_drop h, TE_Return (Inl e))
      | (tr, Inr r) \<Rightarrow>
          (let tr = tr @ T_Event (EK_Started (ph_pgid h)) # reader_events r tn in
           case process_life tn r h of
             (tr', r, h, None) \<Rightarrow> (tr @ tr', TE_Waiting)
           | (tr', r, h, Some (Inl e)) \<Rightarrow> (tr @ tr' @ handle_drop h, TE_Return (Inl e))
           | (tr', r, h, Some (Inr (reason, stopped_by))) \<Rightarrow>
               (let tr = tr @ tr' @ [T_Os (OS_Signal (ph_pgid h) SIGKILL)] in
                case kill_group (svc_name (rn_service r)) (svc_shutdown_timeout (rn_service r)) (tn_sweep tn) h of
                  (h, Inl e) \<Rightarrow> (tr @ handle_drop h, TE_Return (Inl e))
                | (h, Inr _) \<Rightarrow>
                    (let (tr', e) = after_exit err tn reason stopped_by restarts r
                     in (tr @ tr' @ handle_drop h, e)))))"

text \<open>One turn of the loop.\<close>

definition run_turn :: "(runtime_error \<Rightarrow> string) \<Rightarrow> turn \<Rightarrow> u32 \<Rightarrow> runner \<Rightarrow> trace \<times> turn_end" where
  "run_turn err tn restarts r =
     (case tn_requested tn of
        Some reason \<Rightarrow> finish_with Stopped [] (Inr (RO_Stopped reason)) r
      | None \<Rightarrow>
          (case transition Starting r of
             (tr, Inl e) \<Rightarrow> (tr, TE_Return (Inl e))
           | (tr, Inr r) \<Rightarrow>
               (case handle_spawn (rn_service r) (tn_spawn tn) of
                  Inl (e, retryable) \<Rightarrow>
                    (let (tr', x) = after_spawn_failure err tn e retryable restarts r in (tr @ tr', x))
                | Inr h \<Rightarrow>
                    (let (tr', x) = with_process err tn h restarts r in (tr @ T_Os (OS_Spawn (ph_pgid h)) # tr', x)))))"

fun run_loop :: "(runtime_error \<Rightarrow> string) \<Rightarrow> turn list \<Rightarrow> u32 \<Rightarrow> runner \<Rightarrow> trace \<times> (runtime_error + run_outcome) option" where
  "run_loop err [] restarts r = ([], None)"
| "run_loop err (tn # tns) restarts r =
     (case run_turn err tn restarts r of
        (tr, TE_Return result) \<Rightarrow> (tr, Some result)
      | (tr, TE_Waiting) \<Rightarrow> (tr, None)
      | (tr, TE_Again r restarts) \<Rightarrow>
          (let (tr', result) = run_loop err tns restarts r in (tr @ tr', result)))"

definition runner_run :: "(runtime_error \<Rightarrow> string) \<Rightarrow> service \<Rightarrow> run_options \<Rightarrow> turn list
    \<Rightarrow> trace \<times> (runtime_error + run_outcome) option" where
  "runner_run err service options tns = run_loop err tns 0 (runner_new service options)"

end
