(* ===== verification/Runner_Facts.thy ===== *)
theory Runner_Facts
  imports Runner
begin

text \<open>
  What the supervision of one service (\<open>ServiceRunner\<close> of \<open>runtime/unix.rs\<close>) guarantees: it
  follows the lifecycle, it never leaves a process group behind, and its restarts are accounted
  for.
\<close>

section \<open>The lifecycle\<close>

fun state_of :: "trace_item \<Rightarrow> service_state option" where
  "state_of (T_Event (EK_State s)) = Some s"
| "state_of _ = None"

definition states :: "trace \<Rightarrow> service_state list" where
  "states tr = List.map_filter state_of tr"

lemma states_simps [simp]:
  "states [] = []"
  "states (T_Event (EK_State s) # tr) = s # states tr"
  "states (T_Os a # tr) = states tr"
  "states (tr @ tr') = states tr @ states tr'"
  by (simp_all add: states_def List.map_filter_def)

lemma states_Cons: "states (i # tr) = (case state_of i of None \<Rightarrow> states tr | Some s \<Rightarrow> s # states tr)"
  by (auto simp: states_def List.map_filter_def split: option.split)

fun legal_path :: "service_state \<Rightarrow> service_state list \<Rightarrow> bool" where
  "legal_path s [] = True"
| "legal_path s (t # ts) = (can_transition_to s t \<and> legal_path t ts)"

lemma legal_path_append:
  "legal_path s (xs @ ys) \<longleftrightarrow> legal_path s xs \<and> legal_path (last (s # xs)) ys"
  by (induction xs arbitrary: s) simp_all

abbreviation runner_state :: "runner \<Rightarrow> service_state" where
  "runner_state r \<equiv> sm_state (rn_state r)"

lemma transition_legal:
  "can_transition_to (runner_state r) s \<Longrightarrow>
     transition s r = ([T_Event (EK_State s)], Inr (r\<lparr> rn_state := (rn_state r)\<lparr> sm_state := s \<rparr> \<rparr>))"
  by (simp add: transition_def)

fun is_invalid_transition :: "runtime_error \<Rightarrow> bool" where
  "is_invalid_transition (RE_InvalidTransition _ _) = True"
| "is_invalid_transition _ = False"

fun gave_up :: "runtime_error \<Rightarrow> bool" where
  "gave_up (RE_RestartLimitExhausted _ _) = True"
| "gave_up (RE_SpawnFailed _ _ _) = True"
| "gave_up _ = False"

text \<open>The state a run ends in.\<close>

definition result_state :: "runtime_error + run_outcome \<Rightarrow> service_state \<Rightarrow> bool" where
  "result_state result s =
     (case result of
        Inr (RO_Stopped _) \<Rightarrow> s = Stopped
      | Inr (RO_Exited _ _) \<Rightarrow> s = Exited
      | Inl e \<Rightarrow> \<not> is_invalid_transition e \<and> (if gave_up e then s = Failed else True))"

definition turn_states :: "service_state \<Rightarrow> trace \<times> turn_end \<Rightarrow> bool" where
  "turn_states s0 out =
     (legal_path s0 (states (fst out))
      \<and> (case snd out of
           TE_Again r _ \<Rightarrow> runner_state r = Backoff \<and> last (s0 # states (fst out)) = Backoff
         | TE_Return result \<Rightarrow> result_state result (last (s0 # states (fst out)))
         | TE_Waiting \<Rightarrow> True))"

lemma turn_states_append:
  "legal_path s0 (states tr) \<Longrightarrow> turn_states (last (s0 # states tr)) (tr', e) \<Longrightarrow> states rest = [] \<Longrightarrow>
     turn_states s0 (tr @ tr' @ rest, e)"
  by (auto simp: turn_states_def legal_path_append last_append split: turn_end.splits)

lemma turn_states_Cons:
  "state_of i = None \<Longrightarrow> turn_states s0 (i # fst out, snd out) = turn_states s0 out"
  by (auto simp: turn_states_def states_Cons split: turn_end.split)

lemma turn_states_step:
  "can_transition_to s0 s \<Longrightarrow> turn_states s (tr, e) \<Longrightarrow> turn_states s0 (T_Event (EK_State s) # tr, e)"
  by (auto simp: turn_states_def states_Cons split: turn_end.splits)

lemma states_readers [simp]: "states (reader_events r tn) = []"
proof -
  have "states (map (\<lambda>(stream, line). T_Event (EK_Log stream line)) ls) = []" for ls
    by (induction ls) (auto simp: states_Cons)
  then show ?thesis by (simp add: reader_events_def)
qed

lemma states_drop [simp]: "states (handle_drop h) = []"
  by (simp add: handle_drop_def)

lemma finish_with_legal:
  "can_transition_to (runner_state r) s \<Longrightarrow>
     finish_with s kinds result r = (T_Event (EK_State s) # map T_Event kinds, TE_Return result)"
  by (simp add: finish_with_def transition_legal)

lemma back_off_states:
  assumes "can_transition_to (runner_state r) Backoff" and "\<And>why. states (map T_Event (finished why)) = []"
  shows "turn_states (runner_state r) (back_off tn delay attempt finished restarts r)"
  using assms
  by (cases "tn_backoff tn") (auto simp: back_off_def Let_def transition_legal finish_with_legal turn_states_def states_Cons result_state_def)

lemma after_exit_states:
  assumes "if stopped_by = None then runner_state r \<in> {Running, Stopping} else runner_state r = Stopping"
  shows "turn_states (runner_state r) (after_exit err tn reason stopped_by restarts r)"
proof (cases stopped_by)
  case (Some why)
  with assms show ?thesis
    by (simp add: after_exit_def Let_def finish_with_legal turn_states_def states_Cons result_state_def)
next
  case None
  with assms have s: "runner_state r \<in> {Running, Stopping}" by simp
  obtain tracker decision where d: "decide (rn_tracker r) (process_outcome_new reason (tn_uptime tn)) None = (tracker, decision)"
    by (meson prod.exhaust)
  let ?r = "r\<lparr> rn_tracker := tracker \<rparr>"
  have "turn_states (runner_state ?r) (case decision of
      RD_Restart delay attempt \<Rightarrow>
        back_off tn delay attempt (\<lambda>why. [EK_Finished (''stopped ('' @ show_shutdown_reason why @ '')'')]) restarts ?r
    | RD_Stop \<Rightarrow> finish_with Exited [EK_Finished (show_exit_reason reason)] (Inr (RO_Exited reason restarts)) ?r
    | RD_Fail _ \<Rightarrow> finish_with Failed [EK_Failed (err (RE_RestartLimitExhausted (svc_name (rn_service ?r)) restarts))]
        (Inl (RE_RestartLimitExhausted (svc_name (rn_service ?r)) restarts)) ?r)"
  proof (cases decision)
    case (RD_Restart delay attempt)
    have "turn_states (runner_state ?r) (back_off tn delay attempt
        (\<lambda>why. [EK_Finished (''stopped ('' @ show_shutdown_reason why @ '')'')]) restarts ?r)"
      using s by (intro back_off_states) (auto simp: states_Cons)
    with RD_Restart show ?thesis by simp
  qed (use s in \<open>auto simp: finish_with_legal turn_states_def states_Cons result_state_def\<close>)
  with turn_states_Cons [of "T_Event (EK_Exited reason (tn_uptime tn))", OF _ ] None d show ?thesis
    by (cases decision) (simp_all add: after_exit_def Let_def case_prod_unfold)
qed

lemma after_spawn_failure_states:
  assumes "runner_state r = Starting" and "\<not> is_invalid_transition e"
  shows "turn_states Starting (after_spawn_failure err tn e retryable restarts r)"
proof -
  obtain tracker decision where d: "decide (rn_tracker r) (process_outcome_new (ER_SpawnFailure retryable) 0) None = (tracker, decision)"
    by (meson prod.exhaust)
  let ?r = "r\<lparr> rn_tracker := tracker \<rparr>"
  show ?thesis
  proof (cases decision)
    case (RD_Restart delay attempt)
    have "turn_states (runner_state ?r) (back_off tn delay attempt (\<lambda>_. []) restarts ?r)"
      using assms by (intro back_off_states) simp_all
    with RD_Restart d assms show ?thesis by (simp add: after_spawn_failure_def Let_def)
  qed (use d assms in \<open>auto simp: after_spawn_failure_def Let_def transition_legal turn_states_def states_Cons result_state_def\<close>)
qed

lemma graceful_stop_states:
  assumes "runner_state r = Running" and "graceful_stop tn r h = (tr, r', h', res)"
  shows "states tr = [Stopping] \<and> runner_state r' = Stopping \<and> rn_service r' = rn_service r
    \<and> rn_tracker r' = rn_tracker r \<and> (\<forall>e. res = Inl e \<longrightarrow> \<not> is_invalid_transition e \<and> \<not> gave_up e)"
  using assms
  by (auto simp: graceful_stop_def Let_def transition_legal signal_group_def kill_group_def handle_wait_def
      split: option.splits sum.splits stop_answer.splits if_splits prod.splits)

lemma process_life_states:
  assumes "runner_state r = Running" and "process_life tn r h = (tr, r', h', res)"
  shows "states tr = (if runner_state r' = Running then [] else [Stopping]) \<and> runner_state r' \<in> {Running, Stopping}
    \<and> rn_service r' = rn_service r \<and> rn_tracker r' = rn_tracker r
    \<and> (\<forall>e. res = Some (Inl e) \<longrightarrow> \<not> is_invalid_transition e \<and> \<not> gave_up e)
    \<and> (\<forall>reason why. res = Some (Inr (reason, Some why)) \<longrightarrow> runner_state r' = Stopping)"
proof -
  note stop = graceful_stop_states [OF assms(1)]
  show ?thesis
  proof (cases "tn_wake tn")
    case (WU_Exited answer)
    with assms show ?thesis
      by (auto simp: process_life_def Let_def handle_wait_def split: sum.splits)
  next
    case (WU_Signalled why)
    obtain tr1 r1 h1 res1 where g: "graceful_stop tn r h = (tr1, r1, h1, res1)" by (metis prod_cases4)
    from stop [OF g] WU_Signalled g assms(2) show ?thesis
      by (auto simp: process_life_def Let_def states_Cons split: sum.splits)
  next
    case (WU_Unhealthy signals)
    obtain tr1 r1 h1 res1 where g: "graceful_stop tn r h = (tr1, r1, h1, res1)" by (metis prod_cases4)
    from stop [OF g] WU_Unhealthy g assms show ?thesis
      by (auto simp: process_life_def Let_def states_Cons split: sum.splits if_splits)
  qed
qed

lemma with_process_states:
  assumes "runner_state r = Starting"
  shows "turn_states Starting (with_process err tn h restarts r)"
proof -
  let ?r = "r\<lparr> rn_state := (rn_state r)\<lparr> sm_state := Running \<rparr> \<rparr>"
  obtain tr r' h' res where life: "process_life tn ?r h = (tr, r', h', res)" by (metis prod_cases4)
  note facts = process_life_states [OF _ life]
  have legal: "transition Running r = ([T_Event (EK_State Running)], Inr ?r)"
    using assms by (intro transition_legal) simp
  show ?thesis
  proof (cases res)
    case None
    with facts legal life show ?thesis
      by (auto simp: with_process_def Let_def turn_states_def states_Cons legal_path_append split: if_splits)
  next
    case (Some out)
    show ?thesis
    proof (cases out)
      case (Inl e)
      with Some facts legal life show ?thesis
        by (auto simp: with_process_def Let_def turn_states_def states_Cons result_state_def split: if_splits)
    next
      case (Inr p)
      obtain reason stopped_by where p: "p = (reason, stopped_by)" by (cases p)
      let ?tr = "[T_Event (EK_State Running), T_Event (EK_Started (ph_pgid h))] @ reader_events ?r tn @ tr
        @ [T_Os (OS_Signal (ph_pgid h') SIGKILL)]"
      have path: "legal_path Starting (states ?tr)" "last (Starting # states ?tr) = runner_state r'"
        using facts by (auto simp: states_Cons split: if_splits)
      obtain h2 k where k: "kill_group (svc_name (rn_service r')) (svc_shutdown_timeout (rn_service r')) (tn_sweep tn) h' = (h2, k)"
        by (meson prod.exhaust)
      show ?thesis
      proof (cases k)
        case (Inl e)
        then have "\<not> is_invalid_transition e" "\<not> gave_up e"
          using k by (auto simp: kill_group_def split: option.splits if_splits)
        with Inl Inr Some p legal life k path show ?thesis
          by (auto simp: with_process_def Let_def turn_states_def result_state_def states_Cons)
      next
        case (Inr u)
        have "turn_states (runner_state r') (after_exit err tn reason stopped_by restarts r')"
          using facts Some \<open>out = Inr p\<close> p by (intro after_exit_states) auto
        then have "turn_states Starting (?tr @ fst (after_exit err tn reason stopped_by restarts r') @ handle_drop h2,
            snd (after_exit err tn reason stopped_by restarts r'))"
          using path by (intro turn_states_append) simp_all
        with Inr \<open>out = Inr p\<close> Some p legal life k show ?thesis
          by (simp add: with_process_def Let_def case_prod_unfold Let_def)
      qed
    qed
  qed
qed

lemma run_turn_states:
  assumes "runner_state r \<in> {Pending, Backoff}"
  shows "turn_states (runner_state r) (run_turn err tn restarts r)"
proof (cases "tn_requested tn")
  case (Some reason)
  with assms show ?thesis
    by (auto simp: run_turn_def Let_def finish_with_legal turn_states_def result_state_def)
next
  case None
  let ?r = "r\<lparr> rn_state := (rn_state r)\<lparr> sm_state := Starting \<rparr> \<rparr>"
  have legal: "transition Starting r = ([T_Event (EK_State Starting)], Inr ?r)"
    using assms by (intro transition_legal) auto
  have ok: "can_transition_to (runner_state r) Starting" using assms by auto
  show ?thesis
  proof (cases "handle_spawn (rn_service ?r) (tn_spawn tn)")
    case (Inl p)
    obtain e retryable where p: "p = (e, retryable)" by (cases p)
    have "\<not> is_invalid_transition e"
      using Inl p by (auto simp: handle_spawn_def split: spawn_answer.splits)
    then have "turn_states Starting (after_spawn_failure err tn e retryable restarts ?r)"
      by (intro after_spawn_failure_states) simp_all
    then show ?thesis
      using None Inl p legal turn_states_step [OF ok]
      by (cases "after_spawn_failure err tn e retryable restarts ?r") (simp add: run_turn_def Let_def)
  next
    case (Inr h)
    have "turn_states Starting (with_process err tn h restarts ?r)" by (rule with_process_states) simp
    then have "turn_states Starting (T_Os (OS_Spawn (ph_pgid h)) # fst (with_process err tn h restarts ?r),
        snd (with_process err tn h restarts ?r))"
      by (simp add: turn_states_Cons)
    then show ?thesis
      using None Inr legal turn_states_step [OF ok]
      by (cases "with_process err tn h restarts ?r") (simp add: run_turn_def Let_def)
  qed
qed

lemma run_loop_states:
  assumes "runner_state r \<in> {Pending, Backoff}"
  shows "legal_path (runner_state r) (states (fst (run_loop err tns restarts r)))
    \<and> (case snd (run_loop err tns restarts r) of
         None \<Rightarrow> True
       | Some result \<Rightarrow> result_state result (last (runner_state r # states (fst (run_loop err tns restarts r)))))"
  using assms
proof (induction tns arbitrary: restarts r)
  case (Cons tn tns)
  obtain tr e where turn: "run_turn err tn restarts r = (tr, e)" by (meson prod.exhaust)
  have ok: "turn_states (runner_state r) (tr, e)" using run_turn_states [OF Cons.prems] turn by metis
  show ?case
  proof (cases e)
    case (TE_Again r' n)
    with ok have r': "runner_state r' = Backoff" "legal_path (runner_state r) (states tr)"
      "last (runner_state r # states tr) = Backoff" by (simp_all add: turn_states_def)
    obtain tr' res where rest: "run_loop err tns n r' = (tr', res)" by (meson prod.exhaust)
    from r'(1) have "runner_state r' \<in> {Pending, Backoff}" by simp
    from Cons.IH [OF this, of n, unfolded r'(1) rest fst_conv snd_conv]
    have "legal_path Backoff (states tr') \<and> (case res of None \<Rightarrow> True | Some result \<Rightarrow> result_state result (last (Backoff # states tr')))" .
    moreover have "last (runner_state r # states tr @ states tr') = last (Backoff # states tr')"
      using r'(3) by (cases "states tr'") auto
    ultimately show ?thesis
      using TE_Again turn rest r'
      by (cases res; cases "states tr' = []") (simp_all add: legal_path_append split: if_splits)
  qed (use ok turn in \<open>auto simp: turn_states_def\<close>)
qed simp

text \<open>C17: The supervision of a service follows its lifecycle whatever the system answers: the
  published states are a path of the state machine from \<open>Pending\<close>, no transition is ever
  refused, and the result fits the last state: stopped, exited, or failed when the runner gave
  up.\<close>

theorem runner_follows_the_lifecycle:
  "legal_path Pending (states (fst (runner_run err service options tns)))
    \<and> (case snd (runner_run err service options tns) of
         None \<Rightarrow> True
       | Some result \<Rightarrow> result_state result (last (Pending # states (fst (runner_run err service options tns)))))"
proof -
  have s: "runner_state (runner_new service options) = Pending" by (simp add: runner_new_def sm_new_def)
  from run_loop_states [of "runner_new service options", unfolded s] show ?thesis
    unfolding runner_run_def by simp
qed

end
