(* ===== verification/Runner_Groups.thy ===== *)
theory Runner_Groups
  imports Runner_Facts
begin

text \<open>
  The process groups and the restarts of a supervised service (\<open>runtime/unix.rs\<close>): every
  group that a run spawned has been swept before the next one is spawned and before the run
  returns, and a crash loop ends with the restart budget.
\<close>

section \<open>Process groups\<close>

datatype group_state = NoGroup | Live int | Swept int

text \<open>The system calls in their order, as an automaton that stops at a call that breaks the
  discipline: a spawn while a group is live, or a signal or a wait for any group but the last
  one.\<close>

fun group_step :: "group_state \<Rightarrow> os_action \<Rightarrow> group_state option" where
  "group_step (Live _) (OS_Spawn _) = None"
| "group_step _ (OS_Spawn g) = Some (Live g)"
| "group_step NoGroup _ = None"
| "group_step (Swept h) (OS_Signal g _) = (if g = h then Some (Swept h) else None)"
| "group_step (Live h) (OS_Signal g sig) =
     (if g = h then Some (if sig = SIGKILL then Swept h else Live h) else None)"
| "group_step (Swept h) (OS_Wait g) = (if g = h then Some (Swept h) else None)"
| "group_step (Live h) (OS_Wait g) = (if g = h then Some (Live h) else None)"

fun groups_after :: "group_state \<Rightarrow> trace \<Rightarrow> group_state option" where
  "groups_after s [] = Some s"
| "groups_after s (T_Event _ # tr) = groups_after s tr"
| "groups_after s (T_Os a # tr) = Option.bind (group_step s a) (\<lambda>s. groups_after s tr)"

lemma groups_after_append:
  "groups_after s (tr @ tr') = Option.bind (groups_after s tr) (\<lambda>s. groups_after s tr')"
proof (induction tr arbitrary: s)
  case (Cons i tr)
  then show ?case by (cases i; cases "group_step s (case i of T_Os a \<Rightarrow> a)") simp_all
qed simp

fun is_live :: "group_state \<Rightarrow> bool" where
  "is_live (Live _) = True"
| "is_live _ = False"

definition quiet :: "trace \<Rightarrow> bool" where
  "quiet tr = (\<forall>i\<in>set tr. case i of T_Event _ \<Rightarrow> True | T_Os _ \<Rightarrow> False)"

lemma quiet_simps [simp]:
  "quiet []" "quiet (T_Event k # tr) = quiet tr" "\<not> quiet (T_Os a # tr)"
  "quiet (tr @ tr') \<longleftrightarrow> quiet tr \<and> quiet tr'" "quiet (map T_Event kinds)"
  by (auto simp: quiet_def)

lemma groups_after_quiet: "quiet tr \<Longrightarrow> groups_after s tr = Some s"
proof (induction tr)
  case (Cons i tr)
  then show ?case by (cases i) simp_all
qed simp

lemma quiet_readers [simp]: "quiet (reader_events r tn)"
  by (auto simp: reader_events_def quiet_def)

lemma quiet_transition [simp]: "quiet (fst (transition s r))"
  by (auto simp: transition_def split: prod.split sum.split)

lemma quiet_finish_with [simp]: "quiet (fst (finish_with s kinds result r))"
  using quiet_transition [of s r]
  by (cases "transition s r"; cases "snd (transition s r)") (simp_all add: finish_with_def)

lemma quiet_back_off [simp]: "quiet (fst (back_off tn delay attempt finished restarts r))"
proof -
  have "quiet (fst (finish_with s kinds result r'))" for s kinds result r' by simp
  then show ?thesis
    using quiet_transition [of Backoff r]
    by (auto simp: back_off_def Let_def case_prod_unfold split: prod.split sum.split option.split)
qed

lemma quiet_after_exit [simp]: "quiet (fst (after_exit err tn reason stopped_by restarts r))"
  by (auto simp: after_exit_def Let_def case_prod_unfold split: option.split restart_decision.split)

lemma quiet_after_spawn_failure [simp]: "quiet (fst (after_spawn_failure err tn e retryable restarts r))"
  by (auto simp: after_spawn_failure_def Let_def case_prod_unfold split: restart_decision.split)

text \<open>The state of the group that a handle stands for.\<close>

definition group_of :: "process_handle \<Rightarrow> group_state" where
  "group_of h = (if ph_swept h then Swept (ph_pgid h) else Live (ph_pgid h))"

lemma group_of_signal [simp]:
  "group_step (group_of h) (OS_Signal (ph_pgid h) SIGKILL) = Some (Swept (ph_pgid h))"
  "sig \<noteq> SIGKILL \<Longrightarrow> group_step (group_of h) (OS_Signal (ph_pgid h) sig) = Some (group_of h)"
  "group_step (group_of h) (OS_Wait (ph_pgid h)) = Some (group_of h)"
  by (simp_all add: group_of_def)

lemma groups_after_drop [simp]: "groups_after (group_of h) (handle_drop h) = Some (Swept (ph_pgid h))"
  by (simp add: handle_drop_def group_of_def)

lemma os_signal_is_not_kill [simp]: "os_signal s \<noteq> SIGKILL"
  by (cases s) simp_all

lemma kill_group_handle [simp]: "fst (kill_group name timeout answer h) = h\<lparr> ph_swept := True \<rparr>"
  by (simp add: kill_group_def)

lemma group_of_swept: "group_of (h\<lparr> ph_swept := True \<rparr>) = Swept (ph_pgid h)"
  by (simp add: group_of_def)

lemma graceful_stop_groups:
  assumes "graceful_stop tn r h = (tr, r', h', res)"
  shows "groups_after (group_of h) tr = Some (group_of h') \<and> ph_pgid h' = ph_pgid h"
proof -
  have t: "groups_after s tr1 = Some s" if "transition Stopping r = (tr1, x)" for s tr1 x
    using groups_after_quiet [of tr1 s] quiet_transition [of Stopping r] that by simp
  have k: "h2 = h\<lparr> ph_swept := True \<rparr>" if "kill_group name timeout answer h = (h2, x)" for name timeout answer h2 x
    using that by (simp add: kill_group_def)
  have w: "group_step (Swept g) (OS_Wait g) = Some (Swept g)" for g by simp
  show ?thesis
    using assms
    by (auto simp: graceful_stop_def Let_def groups_after_append t group_of_swept w
        split: prod.splits sum.splits stop_answer.splits dest!: k)
qed

lemma process_life_groups:
  assumes "process_life tn r h = (tr, r', h', res)"
  shows "groups_after (group_of h) tr = Some (group_of h') \<and> ph_pgid h' = ph_pgid h"
proof -
  obtain tr1 r1 h1 res1 where g: "graceful_stop tn r h = (tr1, r1, h1, res1)" by (metis prod_cases4)
  from graceful_stop_groups [OF g] g assms show ?thesis
    by (auto simp: process_life_def Let_def split: wake_up.splits if_splits)
qed

lemma with_process_groups:
  assumes "with_process err tn h restarts r = (tr, e)"
  shows "\<exists>s. groups_after (group_of h) tr = Some s \<and> (e \<noteq> TE_Waiting \<longrightarrow> \<not> is_live s)"
proof (cases "transition Running r")
  case (Pair tr1 x)
  have q1: "quiet tr1" using quiet_transition [of Running r] Pair by simp
  note q = groups_after_quiet [OF q1]
  show ?thesis
  proof (cases x)
    case (Inl e1)
    then show ?thesis using assms Pair q by (auto simp: with_process_def groups_after_append)
  next
    case (Inr r1)
    obtain tr2 r2 h2 res where life: "process_life tn r1 h = (tr2, r2, h2, res)" by (metis prod_cases4)
    note g = process_life_groups [OF life]
    note qr = groups_after_quiet [OF quiet_readers [of r1 tn]]
    show ?thesis
    proof (cases res)
      case None
      then show ?thesis using assms Pair Inr life q qr g
        by (auto simp: with_process_def Let_def groups_after_append)
    next
      case (Some out)
      show ?thesis
      proof (cases out)
        case Inl
        with Some show ?thesis using assms Pair Inr life q qr g
          by (auto simp: with_process_def Let_def groups_after_append)
      next
        case (Inr p)
        obtain reason stopped_by where p: "p = (reason, stopped_by)" by (cases p)
        obtain h3 k where k: "kill_group (svc_name (rn_service r2)) (svc_shutdown_timeout (rn_service r2)) (tn_sweep tn) h2 = (h3, k)"
          by (meson prod.exhaust)
        have h3: "h3 = h2\<lparr> ph_swept := True \<rparr>" using k by (simp add: kill_group_def)
        have d: "handle_drop h3 = []" by (simp add: handle_drop_def h3)
        obtain tr3 e3 where a: "after_exit err tn reason stopped_by restarts r2 = (tr3, e3)" by (meson prod.exhaust)
        have "quiet tr3" using quiet_after_exit [of err tn reason stopped_by restarts r2] a by simp
        note q3 = groups_after_quiet [OF this]
        have kill: "group_step (group_of h2) (OS_Signal (ph_pgid h) SIGKILL) = Some (Swept (ph_pgid h))"
          using group_of_signal(1) [of h2] g by simp
        from Inr p Some k a d h3 show ?thesis using assms Pair \<open>x = Inr r1\<close> life q qr q3 g kill
          by (auto simp: with_process_def Let_def groups_after_append split: sum.splits)
      qed
    qed
  qed
qed

lemma handle_spawn_live:
  "handle_spawn service answer = Inr h \<Longrightarrow> group_of h = Live (ph_pgid h)"
  by (auto simp: handle_spawn_def group_of_def split: spawn_answer.splits)

lemma run_turn_groups:
  assumes "\<not> is_live s" and "run_turn err tn restarts r = (tr, e)"
  shows "\<exists>s'. groups_after s tr = Some s' \<and> (e \<noteq> TE_Waiting \<longrightarrow> \<not> is_live s')"
proof (cases "tn_requested tn")
  case (Some reason)
  then have "finish_with Stopped [] (Inr (RO_Stopped reason)) r = (tr, e)"
    using assms(2) by (simp add: run_turn_def)
  then have "quiet tr" using quiet_finish_with by (metis fst_conv)
  then show ?thesis using assms(1) by (simp add: groups_after_quiet)
next
  case None
  obtain tr1 x where t: "transition Starting r = (tr1, x)" by (meson prod.exhaust)
  have q1: "quiet tr1" using quiet_transition [of Starting r] t by simp
  note q = groups_after_quiet [OF q1]
  show ?thesis
  proof (cases x)
    case Inl
    then show ?thesis using assms None t q by (auto simp: run_turn_def)
  next
    case (Inr r1)
    show ?thesis
    proof (cases "handle_spawn (rn_service r1) (tn_spawn tn)")
      case (Inl p)
      obtain e1 retryable where p: "p = (e1, retryable)" by (cases p)
      obtain tr2 e2 where f: "after_spawn_failure err tn e1 retryable restarts r1 = (tr2, e2)" by (meson prod.exhaust)
      have "quiet tr2" using quiet_after_spawn_failure [of err tn e1 retryable restarts r1] f by simp
      then show ?thesis using assms None t q Inr Inl p f
        by (auto simp: run_turn_def groups_after_append groups_after_quiet)
    next
      case (Inr h)
      obtain tr2 e2 where w: "with_process err tn h restarts r1 = (tr2, e2)" by (meson prod.exhaust)
      have sp: "group_step s (OS_Spawn (ph_pgid h)) = Some (group_of h)"
        using assms(1) handle_spawn_live [OF Inr] by (cases s) simp_all
      from with_process_groups [OF w] show ?thesis
        using assms(2) None t q \<open>x = Inr r1\<close> Inr w sp
        by (auto simp: run_turn_def groups_after_append)
    qed
  qed
qed

lemma run_loop_groups:
  assumes "\<not> is_live s"
  shows "\<exists>s'. groups_after s (fst (run_loop err tns restarts r)) = Some s'
    \<and> (snd (run_loop err tns restarts r) \<noteq> None \<longrightarrow> \<not> is_live s')"
  using assms
proof (induction tns arbitrary: s restarts r)
  case (Cons tn tns)
  obtain tr e where turn: "run_turn err tn restarts r = (tr, e)" by (meson prod.exhaust)
  from run_turn_groups [OF Cons.prems turn] obtain s' where
    s': "groups_after s tr = Some s'" "e \<noteq> TE_Waiting \<longrightarrow> \<not> is_live s'" by blast
  show ?case
  proof (cases e)
    case (TE_Again r' n)
    obtain tr' res where rest: "run_loop err tns n r' = (tr', res)" by (meson prod.exhaust)
    from s'(2) TE_Again have "\<not> is_live s'" by simp
    from Cons.IH [OF this, of n r'] show ?thesis
      using TE_Again turn rest s'(1) by (auto simp: groups_after_append)
  qed (use turn s' in auto)
qed simp

section \<open>Crash loops\<close>




section \<open>Properties\<close>

text \<open>C7: No process group of a service outlives its handle: every signal and every wait is for the
  group spawned last, a group has been sent \<open>SIGKILL\<close> before the next one is spawned, and when
  the run returns, by whichever of its error paths, no group is left unswept.\<close>

theorem groups_are_swept:
  "case groups_after NoGroup (fst (runner_run err service options tns)) of
     None \<Rightarrow> False
   | Some s \<Rightarrow> (case snd (runner_run err service options tns) of None \<Rightarrow> True | Some _ \<Rightarrow> \<not> is_live s)"
  using run_loop_groups [of NoGroup err tns 0 "runner_new service options"]
  by (auto simp: runner_run_def split: option.splits)


definition crashing_service :: service where
  "crashing_service = (plain_service ''db'' [])\<lparr> svc_restart := OnFailure, svc_max_restarts := 2, svc_stable_after := dur_secs 10 \<rparr>"

definition crashing_turn :: turn where
  "crashing_turn = \<lparr> tn_requested = None, tn_spawn = Spawned 42, tn_output = [],
     tn_wake = WU_Exited (Inr (Some 1, None)), tn_signal = None, tn_stop = StopTimedOut, tn_escalate = None,
     tn_last_wait = Inr (None, None), tn_sweep = None, tn_uptime = dur_secs 1, tn_backoff = None \<rparr>"


text \<open>A run of one process that ignores the stop signal: after the escalation the group is signalled
  once more, although its handle is already swept.\<close>

lemma escalated_group_is_swept_twice:
  "fst (runner_run (\<lambda>_. []) crashing_service \<lparr> ro_no_restart = False, ro_output = Inherit \<rparr>
      [crashing_turn\<lparr> tn_wake := WU_Signalled SR_Requested \<rparr>]) =
   [T_Event (EK_State Starting), T_Os (OS_Spawn 42), T_Event (EK_State Running), T_Event (EK_Started 42),
    T_Event (EK_Stopping SR_Requested), T_Event (EK_State Stopping), T_Os (OS_Signal 42 SIGTERM),
    T_Os (OS_Signal 42 SIGKILL), T_Os (OS_Wait 42), T_Os (OS_Signal 42 SIGKILL),
    T_Event (EK_State Stopped),
    T_Event (EK_Finished (''stopped ('' @ show_shutdown_reason SR_Requested @ ''), last status: '' @ show_exit_reason (ER_Code (- 1))))]"
  by (simp add: runner_run_def run_turn_def transition_def handle_spawn_def with_process_def process_life_def
      graceful_stop_def signal_group_def kill_group_def handle_wait_def after_exit_def finish_with_def
      handle_drop_def reader_events_def crashing_turn_def crashing_service_def plain_service_def runner_new_def
      sm_new_def try_transition_def)

end
