(* ===== verification/Logs.thy ===== *)
theory Logs
  imports Config Paths
begin

text \<open>
  \<open>crates/servicrab-core/src/runtime/logs.rs\<close>: the rotating log file of a service
  (\<open>LogWriter\<close>), the files of all services (\<open>LogRouter\<close>) and the queue in front of the blocking
  writer (\<open>LogSink\<close>).  A file is an inode behind a name, so an open file keeps its content when
  it is renamed.  Strings are bytes.
\<close>

section \<open>The disk\<close>

type_synonym inode = nat

text \<open>\<open>dk_answers\<close> are the answers to the coming calls: \<open>None\<close> is success, and an error carries its
  text and the number of bytes that a write had transferred before; later calls succeed.\<close>

record disk =
  dk_names :: "path \<Rightarrow> inode option"
  dk_data :: "inode \<Rightarrow> string"
  dk_next :: inode
  dk_answers :: "(string \<times> nat) option list"

definition dk_answer :: "disk \<Rightarrow> (string \<times> nat) option \<times> disk" where
  "dk_answer dk =
     (case dk_answers dk of [] \<Rightarrow> (None, dk) | a # as \<Rightarrow> (a, dk\<lparr> dk_answers := as \<rparr>))"

definition dk_exists :: "path \<Rightarrow> disk \<Rightarrow> bool" where
  "dk_exists p dk = (dk_names dk p \<noteq> None)"

definition dk_append :: "inode \<Rightarrow> string \<Rightarrow> disk \<Rightarrow> disk" where
  "dk_append i s dk = dk\<lparr> dk_data := (dk_data dk)(i := dk_data dk i @ s) \<rparr>"

text \<open>A write: the bytes it transferred and its error.\<close>

definition dk_write :: "inode \<Rightarrow> string \<Rightarrow> disk \<Rightarrow> nat \<times> (string + unit) \<times> disk" where
  "dk_write i s dk =
     (case dk_answer dk of
        (None, dk) \<Rightarrow> (length s, Inr (), dk_append i s dk)
      | (Some (e, n), dk) \<Rightarrow> (n, Inl e, dk_append i (take n s) dk))"

definition dk_make_dirs :: "disk \<Rightarrow> (string + unit) \<times> disk" where
  "dk_make_dirs dk = (case dk_answer dk of (None, dk) \<Rightarrow> (Inr (), dk) | (Some (e, _), dk) \<Rightarrow> (Inl e, dk))"

text \<open>Opening a file that need not exist, for appending or from empty.\<close>

definition dk_create :: "path \<Rightarrow> disk \<Rightarrow> inode \<times> disk" where
  "dk_create p dk =
     (case dk_names dk p of
        Some i \<Rightarrow> (i, dk)
      | None \<Rightarrow>
          (dk_next dk,
           dk\<lparr> dk_names := (dk_names dk)(p \<mapsto> dk_next dk), dk_data := (dk_data dk)(dk_next dk := []),
               dk_next := Suc (dk_next dk) \<rparr>))"

definition dk_open_append :: "path \<Rightarrow> disk \<Rightarrow> (string + inode) \<times> disk" where
  "dk_open_append p dk =
     (case dk_answer dk of
        (Some (e, _), dk) \<Rightarrow> (Inl e, dk)
      | (None, dk) \<Rightarrow> (let (i, dk) = dk_create p dk in (Inr i, dk)))"

definition dk_open_truncate :: "path \<Rightarrow> disk \<Rightarrow> (string + inode) \<times> disk" where
  "dk_open_truncate p dk =
     (case dk_answer dk of
        (Some (e, _), dk) \<Rightarrow> (Inl e, dk)
      | (None, dk) \<Rightarrow>
          (let (i, dk) = dk_create p dk in (Inr i, dk\<lparr> dk_data := (dk_data dk)(i := []) \<rparr>)))"

definition dk_length :: "inode \<Rightarrow> disk \<Rightarrow> (string + nat) \<times> disk" where
  "dk_length i dk =
     (case dk_answer dk of (None, dk) \<Rightarrow> (Inr (length (dk_data dk i)), dk) | (Some (e, _), dk) \<Rightarrow> (Inl e, dk))"

definition dk_remove :: "path \<Rightarrow> disk \<Rightarrow> (string + unit) \<times> disk" where
  "dk_remove p dk =
     (case dk_answer dk of
        (None, dk) \<Rightarrow> (Inr (), dk\<lparr> dk_names := (dk_names dk)(p := None) \<rparr>)
      | (Some (e, _), dk) \<Rightarrow> (Inl e, dk))"

definition dk_rename :: "path \<Rightarrow> path \<Rightarrow> disk \<Rightarrow> (string + unit) \<times> disk" where
  "dk_rename p q dk =
     (case dk_answer dk of
        (Some (e, _), dk) \<Rightarrow> (Inl e, dk)
      | (None, dk) \<Rightarrow>
          (case dk_names dk p of
             None \<Rightarrow> (Inl ''No such file or directory (os error 2)'', dk)
           | Some i \<Rightarrow> (Inr (), dk\<lparr> dk_names := (dk_names dk)(p := None, q := Some i) \<rparr>)))"

section \<open>The log file of a service\<close>

definition flush_every_lines :: nat where
  "flush_every_lines = 256"

definition queue_capacity :: nat where
  "queue_capacity = 4096"

text \<open>\<open>lw_buffer\<close> is the content of the \<open>BufWriter\<close> around the file \<open>lw_file\<close>, of the capacity that
  the library gives it.\<close>

record log_writer =
  lw_path :: path
  lw_file :: inode
  lw_buffer :: string
  lw_size :: nat
  lw_max_size :: nat
  lw_max_files :: nat
  lw_unflushed :: nat

type_synonym written = "(string + unit) \<times> log_writer \<times> disk"

definition io_then :: "written \<Rightarrow> (log_writer \<Rightarrow> disk \<Rightarrow> written) \<Rightarrow> written" where
  "io_then r k = (case r of (Inl e, w, dk) \<Rightarrow> (Inl e, w, dk) | (Inr _, w, dk) \<Rightarrow> k w dk)"

definition buf_capacity :: nat where
  "buf_capacity = 8192"

definition buf_flush :: "log_writer \<Rightarrow> disk \<Rightarrow> written" where
  "buf_flush w dk =
     (if lw_buffer w = [] then (Inr (), w, dk)
      else case dk_write (lw_file w) (lw_buffer w) dk of
             (n, r, dk) \<Rightarrow> (r, w\<lparr> lw_buffer := drop n (lw_buffer w) \<rparr>, dk))"

definition buf_put :: "string \<Rightarrow> log_writer \<Rightarrow> disk \<Rightarrow> written" where
  "buf_put s w dk =
     (if length s < buf_capacity then (Inr (), w\<lparr> lw_buffer := lw_buffer w @ s \<rparr>, dk)
      else case dk_write (lw_file w) s dk of (_, r, dk) \<Rightarrow> (r, w, dk))"

definition buf_write :: "string \<Rightarrow> log_writer \<Rightarrow> disk \<Rightarrow> written" where
  "buf_write s w dk =
     (if buf_capacity < length (lw_buffer w) + length s then io_then (buf_flush w dk) (buf_put s)
      else buf_put s w dk)"

definition file_for :: "log_settings \<Rightarrow> service_name \<Rightarrow> path" where
  "file_for settings service = path_join (ls_dir settings) (service @ ''.log'')"

definition rotated_path :: "path \<Rightarrow> nat \<Rightarrow> path" where
  "rotated_path p n = p @ ''.'' @ show_nat n"

definition lw_open :: "log_settings \<Rightarrow> service_name \<Rightarrow> disk \<Rightarrow> (string + log_writer) \<times> disk" where
  "lw_open settings service dk =
     (case dk_make_dirs dk of
        (Inl e, dk) \<Rightarrow> (Inl e, dk)
      | (Inr _, dk) \<Rightarrow>
          (let p = file_for settings service in
           case dk_open_append p dk of
             (Inl e, dk) \<Rightarrow> (Inl e, dk)
           | (Inr i, dk) \<Rightarrow>
               (let (len, dk) = dk_length i dk in
                (Inr \<lparr> lw_path = p, lw_file = i, lw_buffer = [],
                       lw_size = (case len of Inr n \<Rightarrow> n | Inl _ \<Rightarrow> 0),
                       lw_max_size = unat (ls_max_size settings), lw_max_files = unat (ls_max_files settings),
                       lw_unflushed = 0 \<rparr>, dk))))"

definition lw_flush :: "log_writer \<Rightarrow> disk \<Rightarrow> written" where
  "lw_flush w dk = buf_flush (w\<lparr> lw_unflushed := 0 \<rparr>) dk"

text \<open>The renames of \<open>rotate\<close>, from the rotated file \<open>n\<close> down to the first.\<close>

fun shift_files :: "path \<Rightarrow> nat \<Rightarrow> disk \<Rightarrow> (string + unit) \<times> disk" where
  "shift_files p 0 dk = (Inr (), dk)"
| "shift_files p (Suc n) dk =
     (if dk_exists (rotated_path p (Suc n)) dk then
        (case dk_rename (rotated_path p (Suc n)) (rotated_path p (Suc (Suc n))) dk of
           (Inl e, dk) \<Rightarrow> (Inl e, dk)
         | (Inr _, dk) \<Rightarrow> shift_files p n dk)
      else shift_files p n dk)"

definition drop_oldest :: "path \<Rightarrow> nat \<Rightarrow> disk \<Rightarrow> (string + unit) \<times> disk" where
  "drop_oldest p n dk = (if dk_exists (rotated_path p n) dk then dk_remove (rotated_path p n) dk else (Inr (), dk))"

definition rotate_files :: "path \<Rightarrow> nat \<Rightarrow> disk \<Rightarrow> (string + unit) \<times> disk" where
  "rotate_files p max_files dk =
     (case drop_oldest p max_files dk of
        (Inl e, dk) \<Rightarrow> (Inl e, dk)
      | (Inr _, dk) \<Rightarrow>
          (case shift_files p (max_files - 1) dk of
             (Inl e, dk) \<Rightarrow> (Inl e, dk)
           | (Inr _, dk) \<Rightarrow> dk_rename p (rotated_path p 1) dk))"

text \<open>A new \<open>BufWriter\<close> replaces the old one, which is dropped, and so flushed, by the assignment.\<close>

definition lw_reopen :: "(string + inode) \<times> disk \<Rightarrow> log_writer \<Rightarrow> written" where
  "lw_reopen opened w =
     (case opened of
        (Inl e, dk) \<Rightarrow> (Inl e, w, dk)
      | (Inr i, dk) \<Rightarrow>
          (let (_, w, dk) = buf_flush w dk
           in (Inr (), w\<lparr> lw_file := i, lw_buffer := [], lw_size := 0 \<rparr>, dk)))"

definition lw_rotate :: "log_writer \<Rightarrow> disk \<Rightarrow> written" where
  "lw_rotate w dk =
     io_then (lw_flush w dk) (\<lambda>w dk.
       if lw_max_files w = 0 then lw_reopen (dk_open_truncate (lw_path w) dk) w
       else
         (case rotate_files (lw_path w) (lw_max_files w) dk of
            (Inl e, dk) \<Rightarrow> (Inl e, w, dk)
          | (Inr _, dk) \<Rightarrow> lw_reopen (dk_open_append (lw_path w) dk) w))"

definition lw_needs_rotation :: "string \<Rightarrow> log_writer \<Rightarrow> bool" where
  "lw_needs_rotation line w = (0 < lw_size w \<and> lw_max_size w < lw_size w + (length line + 1))"

definition lw_write_line :: "string \<Rightarrow> log_writer \<Rightarrow> disk \<Rightarrow> written" where
  "lw_write_line line w dk =
     io_then (if lw_needs_rotation line w then lw_rotate w dk else (Inr (), w, dk)) (\<lambda>w dk.
       io_then (buf_write line w dk) (\<lambda>w dk.
         io_then (buf_write [CHR 10] w dk) (\<lambda>w dk.
           let w = w\<lparr> lw_size := lw_size w + (length line + 1), lw_unflushed := lw_unflushed w + 1 \<rparr> in
           if flush_every_lines \<le> lw_unflushed w then lw_flush w dk else (Inr (), w, dk))))"

text \<open>The \<open>Drop\<close> of the writer flushes, and then that of its \<open>BufWriter\<close> once more.\<close>

definition lw_drop :: "log_writer \<Rightarrow> disk \<Rightarrow> disk" where
  "lw_drop w dk = (let (_, w, dk) = buf_flush w dk in snd (snd (buf_flush w dk)))"

section \<open>The files of all services\<close>

record log_router =
  lr_settings :: log_settings
  lr_writers :: "(service_name, log_writer) btmap"
  lr_excluded :: "service_name set"
  lr_reported :: bool

definition lr_new :: "log_settings \<Rightarrow> service_name set \<Rightarrow> log_router" where
  "lr_new settings excluded =
     \<lparr> lr_settings = settings, lr_writers = [], lr_excluded = excluded, lr_reported = False \<rparr>"

definition lr_report :: "string \<Rightarrow> log_router \<Rightarrow> string option \<times> log_router" where
  "lr_report message r =
     (if lr_reported r then (None, r) else (Some message, r\<lparr> lr_reported := True \<rparr>))"

definition could_not_write :: "log_writer \<Rightarrow> string \<Rightarrow> string" where
  "could_not_write w e = ''could not write to '' @ lw_path w @ '': '' @ e"

definition lr_ensure :: "service_name \<Rightarrow> log_router \<Rightarrow> disk \<Rightarrow> (string + log_writer) \<times> disk" where
  "lr_ensure service r dk =
     (case bt_get (lr_writers r) service of
        Some w \<Rightarrow> (Inr w, dk)
      | None \<Rightarrow> lw_open (lr_settings r) service dk)"

definition lr_record :: "service_name \<Rightarrow> string \<Rightarrow> log_router \<Rightarrow> disk \<Rightarrow> string option \<times> log_router \<times> disk" where
  "lr_record service line r dk =
     (if service \<in> lr_excluded r then (None, r, dk)
      else case lr_ensure service r dk of
        (Inl e, dk) \<Rightarrow> (let (m, r) = lr_report (''could not open a log file: '' @ e) r in (m, r, dk))
      | (Inr w, dk) \<Rightarrow>
          (let (res, w, dk) = lw_write_line line w dk;
               r = r\<lparr> lr_writers := bt_insert service w (lr_writers r) \<rparr> in
           case res of
             Inr _ \<Rightarrow> (None, r, dk)
           | Inl e \<Rightarrow> (let (m, r) = lr_report (could_not_write w e) r in (m, r, dk))))"

text \<open>The first failure in the order of the services counts.\<close>

fun flush_writers :: "(service_name, log_writer) btmap \<Rightarrow> disk \<Rightarrow> string option \<times> (service_name, log_writer) btmap \<times> disk" where
  "flush_writers [] dk = (None, [], dk)"
| "flush_writers ((service, w) # ws) dk =
     (let (res, w, dk) = lw_flush w dk; (m, ws, dk) = flush_writers ws dk
      in (case res of Inl e \<Rightarrow> Some (could_not_write w e) | Inr _ \<Rightarrow> m, (service, w) # ws, dk))"

definition lr_flush :: "log_router \<Rightarrow> disk \<Rightarrow> string option \<times> log_router \<times> disk" where
  "lr_flush r dk =
     (let (failure, ws, dk) = flush_writers (lr_writers r) dk; r = r\<lparr> lr_writers := ws \<rparr> in
      case failure of
        None \<Rightarrow> (None, r, dk)
      | Some message \<Rightarrow> (let (m, r) = lr_report message r in (m, r, dk)))"

definition lr_handles :: "service_name \<Rightarrow> log_router \<Rightarrow> bool" where
  "lr_handles service r = (service \<notin> lr_excluded r)"

section \<open>The queue\<close>

type_synonym log_entry = "service_name \<times> string"

text \<open>The sink with the writer behind its queue: \<open>sk_parked\<close> when the writer has flushed and waits
  for an entry.\<close>

record log_sink =
  sk_queue :: "log_entry list"
  sk_problem :: "string option"
  sk_dropped :: u64
  sk_parked :: bool
  sk_router :: log_router
  sk_disk :: disk

definition sk_spawn :: "log_router \<Rightarrow> disk \<Rightarrow> log_sink" where
  "sk_spawn router dk =
     \<lparr> sk_queue = [], sk_problem = None, sk_dropped = 0, sk_parked = False, sk_router = router, sk_disk = dk \<rparr>"

definition sk_remember :: "string option \<Rightarrow> log_sink \<Rightarrow> log_sink" where
  "sk_remember m sk =
     (case m of None \<Rightarrow> sk
      | Some message \<Rightarrow> sk\<lparr> sk_problem := Some (case sk_problem sk of None \<Rightarrow> message | Some p \<Rightarrow> p) \<rparr>)"

definition sk_take_problem :: "log_sink \<Rightarrow> string option \<times> log_sink" where
  "sk_take_problem sk = (sk_problem sk, sk\<lparr> sk_problem := None \<rparr>)"

text \<open>\<open>LogSink::record\<close> while the writer lives: the message for the operator.\<close>

definition sk_record :: "service_name \<Rightarrow> string \<Rightarrow> log_sink \<Rightarrow> string option \<times> log_sink" where
  "sk_record service line sk =
     (if length (sk_queue sk) < queue_capacity
      then sk_take_problem (sk\<lparr> sk_queue := sk_queue sk @ [(service, line)] \<rparr>)
      else
        (let dropped = sk_dropped sk + 1; sk = sk\<lparr> sk_dropped := dropped \<rparr> in
         if dropped = 1 \<or> dropped mod of_nat queue_capacity = 0
         then (Some (''the log writer cannot keep up; dropped '' @ show_nat (unat dropped) @ '' line(s) so far''), sk)
         else sk_take_problem sk))"

definition sk_write :: "log_entry \<Rightarrow> log_sink \<Rightarrow> log_sink" where
  "sk_write e sk =
     (let (m, r, dk) = lr_record (fst e) (snd e) (sk_router sk) (sk_disk sk)
      in sk_remember m (sk\<lparr> sk_router := r, sk_disk := dk \<rparr>))"

definition sk_flush :: "log_sink \<Rightarrow> log_sink" where
  "sk_flush sk =
     (let (m, r, dk) = lr_flush (sk_router sk) (sk_disk sk)
      in sk_remember m (sk\<lparr> sk_router := r, sk_disk := dk \<rparr>))"

text \<open>One turn of \<open>pump\<close> while the queue is open.\<close>

definition pump_turn :: "log_sink \<Rightarrow> log_sink" where
  "pump_turn sk =
     (case sk_queue sk of
        e # queue \<Rightarrow> sk_write e (sk\<lparr> sk_queue := queue, sk_parked := False \<rparr>)
      | [] \<Rightarrow> if sk_parked sk then sk else sk_flush (sk\<lparr> sk_parked := True \<rparr>))"

text \<open>\<open>LogSink::shutdown\<close>: the queue is closed, the writer drains it, flushes and drops its files.\<close>

definition drop_writers :: "log_router \<Rightarrow> disk \<Rightarrow> disk" where
  "drop_writers r dk = fold (\<lambda>(_, w). lw_drop w) (lr_writers r) dk"

definition sk_shutdown :: "log_sink \<Rightarrow> string option \<times> disk" where
  "sk_shutdown sk =
     (let sk = sk_flush (fold sk_write (sk_queue sk) (sk\<lparr> sk_queue := [] \<rparr>))
      in (sk_problem sk, drop_writers (sk_router sk) (sk_disk sk)))"

datatype sink_act = SK_Record service_name string | SK_Pump

fun sink_step :: "sink_act \<Rightarrow> log_sink \<Rightarrow> log_sink" where
  "sink_step (SK_Record service line) sk = snd (sk_record service line sk)"
| "sink_step SK_Pump sk = pump_turn sk"

end
