(* ===== verification/Logs_Facts.thy ===== *)
theory Logs_Facts
  imports Logs
begin

text \<open>
  The log files on a disk without errors: \<open>LogWriter\<close> refines a pure function on the contents of
  the current and the rotated files.
\<close>

section \<open>Names of the files\<close>

lemma digit_char_code: "d < 10 \<Longrightarrow> of_char (digit_char d) = (48 + d :: nat)"
  by (simp add: digit_char_def take_bit_nat_eq_self)

lemma digit_char_inj: "a < 10 \<Longrightarrow> b < 10 \<Longrightarrow> digit_char a = digit_char b \<longleftrightarrow> a = b"
  by (metis add_left_cancel digit_char_code)

lemma show_nat_inj [simp]: "show_nat a = show_nat b \<longleftrightarrow> a = b"
proof
  assume "show_nat a = show_nat b"
  then show "a = b"
  proof (induction a arbitrary: b rule: less_induct)
    case (less a)
    have last: "last (show_nat n) = digit_char (n mod 10)" for n
      by (subst show_nat.simps) simp
    have but: "butlast (show_nat n) = (if n < 10 then [] else show_nat (n div 10))" for n
      by (subst show_nat.simps) simp
    have "a mod 10 = b mod 10"
      using arg_cong [OF less.prems, of last] by (simp add: last digit_char_inj)
    moreover have "a div 10 = b div 10"
    proof (cases "a < 10 \<or> b < 10")
      case True
      then show ?thesis
        using arg_cong [OF less.prems, of butlast] show_nat_nonempty [THEN not_sym]
        by (auto simp: but split: if_splits)
    next
      case False
      then have "show_nat (a div 10) = show_nat (b div 10)"
        using arg_cong [OF less.prems, of butlast] by (simp add: but)
      then show ?thesis using less.IH [of "a div 10"] False by simp
    qed
    ultimately show ?case by (metis div_mult_mod_eq)
  qed
qed simp

lemma show_nat_decimal: "set (show_nat n) \<subseteq> digit_char ` {..<10}"
proof (induction n rule: less_induct)
  case (less n)
  show ?case
  proof (cases "n < 10")
    case True
    then show ?thesis by (subst show_nat.simps) simp
  next
    case False
    then have "set (show_nat (n div 10)) \<subseteq> digit_char ` {..<10}" by (intro less) simp
    with False show ?thesis by (subst show_nat.simps) simp
  qed
qed

lemma digit_not_dot: "CHR ''.'' \<notin> set (show_nat n)" "CHR ''g'' \<notin> set (show_nat n)"
proof -
  have d: "digit_char d \<noteq> CHR ''.''" "digit_char d \<noteq> CHR ''g''" if "d < 10" for d
    using digit_char_code [OF that] that by auto
  show "CHR ''.'' \<notin> set (show_nat n)" "CHR ''g'' \<notin> set (show_nat n)"
    using show_nat_decimal [of n] d by fastforce+
qed

lemma rotated_path_inj [simp]: "rotated_path p m = rotated_path p n \<longleftrightarrow> m = n"
  by (simp add: rotated_path_def)

lemma rotated_path_not [simp]: "rotated_path p n \<noteq> p" "p \<noteq> rotated_path p n"
  by (simp_all add: rotated_path_def)

text \<open>The name of the file \<open>n\<close> of a service, the current one being number 0.\<close>

definition nth_path :: "path \<Rightarrow> nat \<Rightarrow> path" where
  "nth_path p n = (if n = 0 then p else rotated_path p n)"

lemma nth_path_simps [simp]: "nth_path p 0 = p" "nth_path p (Suc n) = rotated_path p (Suc n)"
  by (simp_all add: nth_path_def)

lemma nth_path_inj [simp]: "nth_path p m = nth_path p n \<longleftrightarrow> m = n"
  by (simp add: nth_path_def)

lemma dotted_number_unique:
  assumes "xs @ CHR ''.'' # show_nat m = ys @ CHR ''.'' # show_nat n"
  shows "xs = ys \<and> m = n"
proof -
  have t: "takeWhile (\<lambda>c. c \<noteq> CHR ''.'') (rev (zs @ CHR ''.'' # show_nat k)) = rev (show_nat k)" for zs k
  proof -
    have "takeWhile (\<lambda>c. c \<noteq> CHR ''.'') (rev (show_nat k) @ CHR ''.'' # rev zs) = rev (show_nat k) @ []"
      using digit_not_dot(1) [of k] by (subst takeWhile_append2) auto
    then show ?thesis by simp
  qed
  have "show_nat m = show_nat n"
    using arg_cong [OF assms, of "\<lambda>s. takeWhile (\<lambda>c. c \<noteq> CHR ''.'') (rev s)"] unfolding t by simp
  with assms show ?thesis by simp
qed

text \<open>Different services have different files.\<close>

lemma file_for_distinct:
  assumes "\<not> is_absolute s" "\<not> is_absolute t" and "s \<noteq> t"
  shows "nth_path (file_for settings s) m \<noteq> nth_path (file_for settings t) n"
proof -
  obtain d where d: "\<And>u. \<not> is_absolute u \<Longrightarrow> file_for settings u = d @ u @ ''.log''"
  proof
    fix u :: string assume "\<not> is_absolute u"
    then have "\<not> is_absolute (u @ ''.log'')"
      by (cases u) (auto simp: is_absolute_def starts_with_def split: if_splits)
    then show "file_for settings u = (if ls_dir settings = [] \<or> last (ls_dir settings) = CHR ''/'' then ls_dir settings
        else ls_dir settings @ ''/'') @ u @ ''.log''"
      by (simp add: file_for_def path_join_def)
  qed
  have ends: "last (d @ u @ ''.log'') = CHR ''g''" for u by simp
  have digits: "last (rotated_path p k) \<noteq> CHR ''g''" for p k
    using digit_not_dot(2) [of k] by (simp add: rotated_path_def) (metis last_in_set show_nat_nonempty)
  have rot: "rotated_path (d @ s @ ''.log'') m \<noteq> rotated_path (d @ t @ ''.log'') n"
    using dotted_number_unique [of "d @ s @ ''.log''" m "d @ t @ ''.log''" n] assms(3)
    by (auto simp: rotated_path_def)
  have mixed: "d @ s @ ''.log'' \<noteq> rotated_path (d @ t @ ''.log'') n" "rotated_path (d @ s @ ''.log'') m \<noteq> d @ t @ ''.log''"
    using digits [of "d @ t @ ''.log''" n] digits [of "d @ s @ ''.log''" m] ends by metis+
  have plain: "d @ s @ ''.log'' \<noteq> d @ t @ ''.log''" using assms(3) by simp
  show ?thesis
    unfolding d [OF assms(1)] d [OF assms(2)] nth_path_def using rot mixed plain by (simp del: append_assoc)
qed

section \<open>The disk\<close>

definition dk_ok :: "disk \<Rightarrow> bool" where
  "dk_ok dk \<longleftrightarrow> dk_answers dk = [] \<and> inj_on (dk_names dk) (dom (dk_names dk))
     \<and> (\<forall>p i. dk_names dk p = Some i \<longrightarrow> i < dk_next dk)"

lemma dk_answer_ok: "dk_answers dk = [] \<Longrightarrow> dk_answer dk = (None, dk)"
  by (simp add: dk_answer_def)

lemma dk_ok_answers [simp]: "dk_ok dk \<Longrightarrow> dk_answers dk = []"
  by (simp add: dk_ok_def)

lemma dk_ok_inj: "dk_ok dk \<Longrightarrow> dk_names dk p = Some i \<Longrightarrow> dk_names dk q = Some i \<Longrightarrow> p = q"
  unfolding dk_ok_def by (metis domI inj_onD)

lemma dk_ok_less: "dk_ok dk \<Longrightarrow> dk_names dk p = Some i \<Longrightarrow> i < dk_next dk"
  by (simp add: dk_ok_def)

lemma dk_okI:
  assumes "dk_answers dk = []" and "\<And>p q i. dk_names dk p = Some i \<Longrightarrow> dk_names dk q = Some i \<Longrightarrow> p = q"
    and "\<And>p i. dk_names dk p = Some i \<Longrightarrow> i < dk_next dk"
  shows "dk_ok dk"
  unfolding dk_ok_def using assms by (auto simp: inj_on_def)

lemma dk_append_simps [simp]:
  "dk_names (dk_append i s dk) = dk_names dk" "dk_next (dk_append i s dk) = dk_next dk"
  "dk_answers (dk_append i s dk) = dk_answers dk"
  "dk_data (dk_append i s dk) = (dk_data dk)(i := dk_data dk i @ s)"
  "dk_append i [] dk = dk"
  by (simp_all add: dk_append_def)

lemma dk_append_append: "dk_append i t (dk_append i s dk) = dk_append i (s @ t) dk"
  by (simp add: dk_append_def)

lemma dk_ok_append [simp]: "dk_ok (dk_append i s dk) = dk_ok dk"
  by (simp add: dk_ok_def)

lemma dk_write_ok: "dk_answers dk = [] \<Longrightarrow> dk_write i s dk = (length s, Inr (), dk_append i s dk)"
  by (simp add: dk_write_def dk_answer_ok)

lemma dk_rename_ok:
  assumes "dk_ok dk" and "dk_names dk p = Some i" and "p \<noteq> q"
  shows "dk_rename p q dk = (Inr (), dk\<lparr> dk_names := (dk_names dk)(p := None, q := Some i) \<rparr>)"
    and "dk_ok (dk\<lparr> dk_names := (dk_names dk)(p := None, q := Some i) \<rparr>)"
proof -
  show "dk_rename p q dk = (Inr (), dk\<lparr> dk_names := (dk_names dk)(p := None, q := Some i) \<rparr>)"
    using assms by (simp add: dk_rename_def dk_answer_ok)
  show "dk_ok (dk\<lparr> dk_names := (dk_names dk)(p := None, q := Some i) \<rparr>)"
    using dk_ok_inj [OF assms(1)] dk_ok_less [OF assms(1)] assms
    by (intro dk_okI) (auto split: if_splits)
qed

section \<open>Writing into the buffer\<close>

definition content :: "log_writer \<Rightarrow> disk \<Rightarrow> string" where
  "content w dk = dk_data dk (lw_file w) @ lw_buffer w"

lemma buf_flush_ok:
  "dk_answers dk = [] \<Longrightarrow>
     buf_flush w dk = (Inr (), w\<lparr> lw_buffer := [] \<rparr>, dk_append (lw_file w) (lw_buffer w) dk)"
  by (cases "lw_buffer w = []") (simp_all add: buf_flush_def dk_write_ok)

lemma buf_put_ok:
  assumes "dk_answers dk = []" and "buf_capacity \<le> length s \<longrightarrow> lw_buffer w = []"
  shows "\<exists>a b. a @ b = lw_buffer w @ s \<and> buf_put s w dk = (Inr (), w\<lparr> lw_buffer := b \<rparr>, dk_append (lw_file w) a dk)"
proof (cases "length s < buf_capacity")
  case True
  then have "[] @ (lw_buffer w @ s) = lw_buffer w @ s \<and>
      buf_put s w dk = (Inr (), w\<lparr> lw_buffer := lw_buffer w @ s \<rparr>, dk_append (lw_file w) [] dk)"
    by (simp add: buf_put_def)
  then show ?thesis by blast
next
  case False
  with assms have b: "lw_buffer w = []" by simp
  then have "w\<lparr> lw_buffer := [] \<rparr> = w" by simp
  with False assms(1) b have "s @ [] = lw_buffer w @ s \<and>
      buf_put s w dk = (Inr (), w\<lparr> lw_buffer := [] \<rparr>, dk_append (lw_file w) s dk)"
    by (simp add: buf_put_def dk_write_ok)
  then show ?thesis by blast
qed

lemma buf_write_ok:
  assumes "dk_answers dk = []"
  shows "\<exists>a b. a @ b = lw_buffer w @ s \<and> buf_write s w dk = (Inr (), w\<lparr> lw_buffer := b \<rparr>, dk_append (lw_file w) a dk)"
proof (cases "buf_capacity < length (lw_buffer w) + length s")
  case True
  let ?w = "w\<lparr> lw_buffer := [] \<rparr>" and ?dk = "dk_append (lw_file w) (lw_buffer w) dk"
  obtain a b where ab: "a @ b = s" "buf_put s ?w ?dk = (Inr (), ?w\<lparr> lw_buffer := b \<rparr>, dk_append (lw_file ?w) a ?dk)"
    using buf_put_ok [of ?dk s ?w] assms by auto
  then have "(lw_buffer w @ a) @ b = lw_buffer w @ s \<and>
      buf_write s w dk = (Inr (), w\<lparr> lw_buffer := b \<rparr>, dk_append (lw_file w) (lw_buffer w @ a) dk)"
    using True assms by (simp add: buf_write_def buf_flush_ok io_then_def dk_append_append)
  then show ?thesis by blast
next
  case False
  then have "buf_capacity \<le> length s \<longrightarrow> lw_buffer w = []" by (cases "lw_buffer w") auto
  from buf_put_ok [OF assms this] False show ?thesis by (simp add: buf_write_def)
qed

section \<open>Rotation\<close>

lemma drop_oldest_ok:
  assumes "dk_ok dk"
  shows "drop_oldest p n dk = (Inr (), dk\<lparr> dk_names := (dk_names dk)(rotated_path p n := None) \<rparr>)"
    and "dk_ok (dk\<lparr> dk_names := (dk_names dk)(rotated_path p n := None) \<rparr>)"
proof -
  show "drop_oldest p n dk = (Inr (), dk\<lparr> dk_names := (dk_names dk)(rotated_path p n := None) \<rparr>)"
    using assms by (auto simp: drop_oldest_def dk_exists_def dk_remove_def dk_answer_ok fun_upd_idem)
  show "dk_ok (dk\<lparr> dk_names := (dk_names dk)(rotated_path p n := None) \<rparr>)"
    using dk_ok_inj [OF assms] dk_ok_less [OF assms] assms by (intro dk_okI) (auto split: if_splits)
qed

lemma shift_files_ok:
  assumes "dk_ok dk" and "dk_names dk (rotated_path p (Suc k)) = None"
  shows "\<exists>names. shift_files p k dk = (Inr (), dk\<lparr> dk_names := names \<rparr>) \<and> dk_ok (dk\<lparr> dk_names := names \<rparr>)
    \<and> (\<forall>n<k. names (rotated_path p (Suc (Suc n))) = dk_names dk (rotated_path p (Suc n)))
    \<and> names (rotated_path p 1) = None
    \<and> (\<forall>q. (\<forall>n\<le>k. q \<noteq> rotated_path p (Suc n)) \<longrightarrow> names q = dk_names dk q)"
  using assms
proof (induction k arbitrary: dk)
  case 0
  then show ?case by (intro exI [of _ "dk_names dk"]) simp
next
  case (Suc k)
  show ?case
  proof (cases "dk_names dk (rotated_path p (Suc k))")
    case None
    from Suc.IH [OF Suc.prems(1) None] None Suc.prems(2) show ?thesis
      by (auto simp: dk_exists_def less_Suc_eq)
  next
    case (Some i)
    let ?dk = "dk\<lparr> dk_names := (dk_names dk)(rotated_path p (Suc k) := None, rotated_path p (Suc (Suc k)) := Some i) \<rparr>"
    note ren = dk_rename_ok [OF Suc.prems(1) Some, of "rotated_path p (Suc (Suc k))"]
    have "dk_names ?dk (rotated_path p (Suc k)) = None" by simp
    from Suc.IH [OF ren(2) this] obtain names where names:
      "shift_files p k ?dk = (Inr (), ?dk\<lparr> dk_names := names \<rparr>)" "dk_ok (?dk\<lparr> dk_names := names \<rparr>)"
      "\<forall>n<k. names (rotated_path p (Suc (Suc n))) = dk_names ?dk (rotated_path p (Suc n))"
      "names (rotated_path p 1) = None"
      "\<forall>q. (\<forall>n\<le>k. q \<noteq> rotated_path p (Suc n)) \<longrightarrow> names q = dk_names ?dk q" by auto
    have "names (rotated_path p (Suc (Suc k))) = Some i"
      using names(5) by (simp add: le_less_trans less_imp_neq)
    then show ?thesis
      using names Some ren(1) by (intro exI [of _ names]) (auto simp: dk_exists_def less_Suc_eq)
  qed
qed

lemma rotate_files_ok:
  assumes "dk_ok dk" and "dk_names dk p = Some i" and "0 < m"
  shows "\<exists>names. rotate_files p m dk = (Inr (), dk\<lparr> dk_names := names \<rparr>) \<and> dk_ok (dk\<lparr> dk_names := names \<rparr>)
    \<and> (\<forall>n<m. names (rotated_path p (Suc n)) = dk_names dk (nth_path p n)) \<and> names p = None
    \<and> (\<forall>q. (\<forall>n. q \<noteq> nth_path p n) \<longrightarrow> names q = dk_names dk q)"
proof -
  obtain k where m: "m = Suc k" using assms(3) by (cases m) auto
  let ?dk = "dk\<lparr> dk_names := (dk_names dk)(rotated_path p m := None) \<rparr>"
  note dr = drop_oldest_ok [OF assms(1), of p m]
  have "dk_names ?dk (rotated_path p (Suc k)) = None" by (simp add: m)
  from shift_files_ok [OF dr(2) this] obtain names where names:
    "shift_files p k ?dk = (Inr (), ?dk\<lparr> dk_names := names \<rparr>)" "dk_ok (?dk\<lparr> dk_names := names \<rparr>)"
    "\<forall>n<k. names (rotated_path p (Suc (Suc n))) = dk_names ?dk (rotated_path p (Suc n))"
    "names (rotated_path p 1) = None"
    "\<forall>q. (\<forall>n\<le>k. q \<noteq> rotated_path p (Suc n)) \<longrightarrow> names q = dk_names ?dk q" by auto
  have np: "names p = Some i" using names(5) assms(2) by simp
  let ?dk' = "?dk\<lparr> dk_names := names \<rparr>"
  have p': "dk_names ?dk' p = Some i" using np by simp
  note ren = dk_rename_ok [OF names(2) p', of "rotated_path p 1"]
  let ?names = "names(p := None, rotated_path p 1 := Some i)"
  have "rotate_files p m dk = (Inr (), dk\<lparr> dk_names := ?names \<rparr>)"
    using dr(1) names(1) ren(1) by (simp add: rotate_files_def m)
  moreover have "dk_ok (dk\<lparr> dk_names := ?names \<rparr>)" using ren(2) by simp
  moreover have "?names (rotated_path p (Suc n)) = dk_names dk (nth_path p n)" if "n < m" for n
  proof (cases n)
    case 0
    then show ?thesis using assms(2) by simp
  next
    case (Suc j)
    with that m have "j < k" by simp
    with names(3) have "names (rotated_path p (Suc (Suc j))) = dk_names ?dk (rotated_path p (Suc j))" by blast
    with Suc \<open>j < k\<close> show ?thesis by (simp add: m)
  qed
  moreover have "?names q = dk_names dk q" if "\<forall>n. q \<noteq> nth_path p n" for q
  proof -
    have "q \<noteq> p" "\<forall>n. q \<noteq> rotated_path p (Suc n)" using that nth_path_simps by metis+
    with names(5) m show ?thesis by auto
  qed
  ultimately show ?thesis by (intro exI [of _ ?names]) simp
qed

end
