(* ===== verification/Log_Files.thy ===== *)
theory Log_Files
  imports Logs_Facts
begin

text \<open>
  The writer of one log file refines a pure function on the contents of the files of its service:
  the current file first, then the rotated ones from the newest to the oldest.
\<close>

section \<open>The specification\<close>

fun spec_write :: "nat \<Rightarrow> nat \<Rightarrow> string \<Rightarrow> string option list \<Rightarrow> string option list" where
  "spec_write max_size max_files line (Some current # rotated) =
     (if current \<noteq> [] \<and> max_size < length current + (length line + 1)
      then Some (line @ [CHR 10]) # take max_files (Some current # rotated)
      else Some (current @ line @ [CHR 10]) # rotated)"
| "spec_write max_size max_files line (None # rotated) = Some (line @ [CHR 10]) # rotated"
| "spec_write max_size max_files line [] = []"

text \<open>What is on the disk, and what the files are once the buffer has been flushed.\<close>

definition files :: "path \<Rightarrow> nat \<Rightarrow> disk \<Rightarrow> string option list" where
  "files p m dk = map (\<lambda>n. map_option (dk_data dk) (dk_names dk (nth_path p n))) [0..<Suc m]"

definition history :: "log_writer \<Rightarrow> disk \<Rightarrow> string option list" where
  "history w dk = Some (content w dk) # tl (files (lw_path w) (lw_max_files w) dk)"

lemma files_Cons: "files p m dk = map_option (dk_data dk) (dk_names dk p)
    # map (\<lambda>n. map_option (dk_data dk) (dk_names dk (rotated_path p (Suc n)))) [0..<m]"
  unfolding files_def by (subst upt_conv_Cons, simp) (simp add: map_Suc_upt [symmetric] del: upt_Suc)

lemma length_files [simp]: "length (files p m dk) = Suc m"
  by (simp add: files_def)

definition same_log :: "log_writer \<Rightarrow> log_writer \<Rightarrow> bool" where
  "same_log w w' \<longleftrightarrow> lw_path w' = lw_path w \<and> lw_max_size w' = lw_max_size w \<and> lw_max_files w' = lw_max_files w"

definition spares :: "path \<Rightarrow> disk \<Rightarrow> disk \<Rightarrow> bool" where
  "spares p dk dk' \<longleftrightarrow> (\<forall>q. (\<forall>n. q \<noteq> nth_path p n) \<longrightarrow>
     dk_names dk' q = dk_names dk q \<and> (\<forall>i. dk_names dk q = Some i \<longrightarrow> dk_data dk' i = dk_data dk i))"

lemma spares_refl [simp]: "spares p dk dk"
  by (simp add: spares_def)

lemma spares_trans: "spares p dk dk' \<Longrightarrow> spares p dk' dk'' \<Longrightarrow> spares p dk dk''"
  unfolding spares_def by metis

definition w_at :: "log_writer \<Rightarrow> disk \<Rightarrow> bool" where
  "w_at w dk \<longleftrightarrow> dk_ok dk \<and> dk_names dk (lw_path w) = Some (lw_file w)"

definition w_ok :: "log_writer \<Rightarrow> disk \<Rightarrow> bool" where
  "w_ok w dk \<longleftrightarrow> w_at w dk \<and> lw_size w = length (content w dk)"

section \<open>Appending\<close>

lemma w_at_append:
  assumes "w_at w dk"
  shows "w_at w (dk_append (lw_file w) s dk)" and "spares (lw_path w) dk (dk_append (lw_file w) s dk)"
    and "tl (files (lw_path w) m (dk_append (lw_file w) s dk)) = tl (files (lw_path w) m dk)"
proof -
  have other: "i \<noteq> lw_file w" if "dk_names dk q = Some i" "q \<noteq> lw_path w" for q i
    using assms that dk_ok_inj unfolding w_at_def by metis
  show "w_at w (dk_append (lw_file w) s dk)" using assms by (simp add: w_at_def)
  show "spares (lw_path w) dk (dk_append (lw_file w) s dk)"
    unfolding spares_def
  proof (intro allI impI conjI)
    fix q i assume q: "\<forall>n. q \<noteq> nth_path (lw_path w) n" and i: "dk_names dk q = Some i"
    from q have "q \<noteq> lw_path w" by (metis nth_path_simps(1))
    with other i show "dk_data (dk_append (lw_file w) s dk) i = dk_data dk i" by auto
  qed simp
  show "tl (files (lw_path w) m (dk_append (lw_file w) s dk)) = tl (files (lw_path w) m dk)"
    unfolding files_Cons list.sel
    by (rule map_cong) (auto simp: map_option_case split: option.split dest: other)
qed

text \<open>Whatever is appended to the file and the buffer together.\<close>

lemma append_step:
  assumes "w_at w dk" and "a @ b = lw_buffer w @ s"
    and "w' = w\<lparr> lw_buffer := b, lw_size := n, lw_unflushed := u \<rparr>" and "dk' = dk_append (lw_file w) a dk"
  shows "w_at w' dk'" and "content w' dk' = content w dk @ s" and "same_log w w'"
    and "spares (lw_path w) dk dk'" and "tl (history w' dk') = tl (history w dk)"
  using assms w_at_append [OF assms(1)]
  by (simp_all add: w_at_def content_def same_log_def history_def)

lemma lw_flush_ok:
  assumes "w_at w dk"
  shows "lw_flush w dk = (Inr (), w\<lparr> lw_unflushed := 0, lw_buffer := [] \<rparr>, dk_append (lw_file w) (lw_buffer w) dk)"
  using assms by (simp add: lw_flush_def buf_flush_ok w_at_def)

text \<open>A flush changes nothing but what is on the disk.\<close>

definition flushed :: "log_writer \<Rightarrow> disk \<Rightarrow> log_writer \<Rightarrow> disk \<Rightarrow> bool" where
  "flushed w dk w' dk' \<longleftrightarrow> w_at w' dk' \<and> content w' dk' = content w dk \<and> same_log w w'
     \<and> spares (lw_path w) dk dk' \<and> history w' dk' = history w dk \<and> lw_buffer w' = [] \<and> lw_size w' = lw_size w"

lemma lw_flush_flushed:
  assumes "w_at w dk" and "lw_flush w dk = (r, w', dk')"
  shows "r = Inr () \<and> flushed w dk w' dk'"
proof -
  have eq: "r = Inr ()" "w' = w\<lparr> lw_buffer := [], lw_size := lw_size w, lw_unflushed := 0 \<rparr>"
    "dk' = dk_append (lw_file w) (lw_buffer w) dk"
    using assms(2) lw_flush_ok [OF assms(1)] by (cases w; simp)+
  have "lw_buffer w @ [] = lw_buffer w @ []" by simp
  note step = append_step [OF assms(1) this eq(2,3)]
  have "hd (history w' dk') = hd (history w dk)" using step(2) by (simp add: history_def)
  moreover have "history w' dk' \<noteq> []" "history w dk \<noteq> []" by (simp_all add: history_def)
  ultimately have "history w' dk' = history w dk" using step(5) by (metis list.collapse)
  then show ?thesis using eq step by (simp add: flushed_def)
qed

section \<open>Rotation\<close>

lemma reopened:
  assumes "dk_ok dk" and "dk_names dk p = None" and "lw_path w = p" and "lw_buffer w = []"
    and "lw_reopen (dk_open_append p dk) w = (r, w', dk')"
  shows "r = Inr ()" and "w_ok w' dk'" and "content w' dk' = []" and "same_log w w'" and "lw_buffer w' = []"
    and "\<forall>q. q \<noteq> p \<longrightarrow> dk_names dk' q = dk_names dk q" and "\<forall>i. i < dk_next dk \<longrightarrow> dk_data dk' i = dk_data dk i"
proof -
  let ?dk = "dk\<lparr> dk_names := (dk_names dk)(p \<mapsto> dk_next dk), dk_data := (dk_data dk)(dk_next dk := []),
    dk_next := Suc (dk_next dk) \<rparr>"
  have o: "dk_open_append p dk = (Inr (dk_next dk), ?dk)"
    using assms(1,2) by (simp add: dk_open_append_def dk_create_def dk_answer_ok)
  have eq: "r = Inr ()" "w' = w\<lparr> lw_file := dk_next dk, lw_buffer := [], lw_size := 0 \<rparr>" "dk' = ?dk"
    using assms(1,4,5) o by (simp_all add: lw_reopen_def buf_flush_def)
  have "dk_ok ?dk"
    using dk_ok_less [OF assms(1)] dk_ok_inj [OF assms(1)] assms(1)
    by (intro dk_okI) (auto split: if_splits simp: less_Suc_eq dest: order.strict_implies_not_eq)
  then show "w_ok w' dk'" "content w' dk' = []"
    unfolding eq using assms(3) by (simp_all add: w_ok_def w_at_def content_def)
  show "r = Inr ()" "same_log w w'" "lw_buffer w' = []"
    "\<forall>q. q \<noteq> p \<longrightarrow> dk_names dk' q = dk_names dk q" "\<forall>i. i < dk_next dk \<longrightarrow> dk_data dk' i = dk_data dk i"
    using eq by (simp_all add: same_log_def)
qed

definition advanced :: "log_writer \<Rightarrow> disk \<Rightarrow> log_writer \<Rightarrow> disk \<Rightarrow> bool" where
  "advanced w dk w' dk' \<longleftrightarrow> w_ok w' dk' \<and> same_log w w' \<and> spares (lw_path w) dk dk'"

lemma truncated:
  assumes "w_at w dk" and "lw_buffer w = []" and "lw_max_files w = 0"
    and "lw_reopen (dk_open_truncate (lw_path w) dk) w = (r, w', dk')"
  shows "r = Inr () \<and> advanced w dk w' dk' \<and> history w' dk' = [Some []]"
proof -
  let ?dk = "dk\<lparr> dk_data := (dk_data dk)(lw_file w := []) \<rparr>"
  have "dk_open_truncate (lw_path w) dk = (Inr (lw_file w), ?dk)"
    using assms(1) by (simp add: dk_open_truncate_def dk_create_def dk_answer_ok w_at_def)
  then have eq: "r = Inr ()" "w' = w\<lparr> lw_file := lw_file w, lw_buffer := [], lw_size := 0 \<rparr>" "dk' = ?dk"
    using assms(1,2,4) by (simp_all add: lw_reopen_def buf_flush_def)
  have "dk_ok ?dk" using assms(1) by (simp add: w_at_def dk_ok_def)
  moreover have "spares (lw_path w) dk ?dk"
    unfolding spares_def
  proof (intro allI impI conjI)
    fix q i assume q: "\<forall>n. q \<noteq> nth_path (lw_path w) n" and i: "dk_names dk q = Some i"
    from q have "q \<noteq> lw_path w" by (metis nth_path_simps(1))
    with i have "i \<noteq> lw_file w" using assms(1) dk_ok_inj unfolding w_at_def by metis
    then show "dk_data ?dk i = dk_data dk i" by simp
  qed simp
  moreover have "tl (files (lw_path w) 0 ?dk) = []" by (simp add: files_Cons)
  ultimately show ?thesis
    using assms(1,3) unfolding eq
    by (simp add: advanced_def w_ok_def w_at_def content_def same_log_def history_def)
qed

lemma rotated:
  assumes "w_at w dk" and "lw_buffer w = []" and "0 < lw_max_files w"
    and "rotate_files (lw_path w) (lw_max_files w) dk = (rr, dk1)"
    and "lw_reopen (dk_open_append (lw_path w) dk1) w = (r, w', dk')"
  shows "rr = Inr () \<and> r = Inr () \<and> advanced w dk w' dk'
    \<and> history w' dk' = Some [] # take (lw_max_files w) (history w dk)"
proof -
  let ?p = "lw_path w" and ?m = "lw_max_files w"
  have ok: "dk_ok dk" and cur: "dk_names dk ?p = Some (lw_file w)" using assms(1) by (simp_all add: w_at_def)
  from rotate_files_ok [OF ok cur assms(3)] assms(4) obtain names where n:
    "rr = Inr ()" "dk1 = dk\<lparr> dk_names := names \<rparr>" "dk_ok dk1"
    "\<forall>n<?m. names (rotated_path ?p (Suc n)) = dk_names dk (nth_path ?p n)" "names ?p = None"
    "\<forall>q. (\<forall>n. q \<noteq> nth_path ?p n) \<longrightarrow> names q = dk_names dk q" by auto
  have none: "dk_names dk1 ?p = None" using n(2,5) by simp
  note re = reopened [OF n(3) none refl assms(2,5)]
  have data: "dk_data dk' i = dk_data dk i" if "dk_names dk q = Some i" for q i
    using re(7) dk_ok_less [OF ok that] n(2) by simp
  have "spares ?p dk dk'"
    unfolding spares_def
  proof (intro allI impI conjI)
    fix q i assume q: "\<forall>n. q \<noteq> nth_path ?p n"
    then have "q \<noteq> ?p" by (metis nth_path_simps(1))
    with re(6) n(2,6) q show "dk_names dk' q = dk_names dk q" by simp
    show "dk_data dk' i = dk_data dk i" if "dk_names dk q = Some i" by (rule data [OF that])
  qed
  moreover have "tl (files ?p ?m dk') = take ?m (history w dk)"
  proof (rule nth_equalityI)
    show "length (tl (files ?p ?m dk')) = length (take ?m (history w dk))" by (simp add: history_def)
    fix k assume "k < length (tl (files ?p ?m dk'))"
    then have k: "k < ?m" by simp
    have "tl (files ?p ?m dk') ! k = map_option (dk_data dk') (dk_names dk' (rotated_path ?p (Suc k)))"
      using k by (simp add: files_Cons)
    also have "dk_names dk' (rotated_path ?p (Suc k)) = dk_names dk (nth_path ?p k)"
      using re(6) n(2,4) k by simp
    also have "map_option (dk_data dk') (dk_names dk (nth_path ?p k)) = map_option (dk_data dk) (dk_names dk (nth_path ?p k))"
      by (auto simp: map_option_case data split: option.split)
    also have "\<dots> = history w dk ! k"
      using k cur assms(2) by (cases k) (simp_all add: history_def files_Cons content_def)
    finally show "tl (files ?p ?m dk') ! k = take ?m (history w dk) ! k" using k by simp
  qed
  ultimately show ?thesis
    using re(1-4) n(1) by (simp add: advanced_def history_def same_log_def)
qed


lemma lw_rotate_ok:
  assumes "w_ok w dk" and "lw_rotate w dk = (r, w', dk')"
  shows "r = Inr () \<and> advanced w dk w' dk' \<and> content w' dk' = []
    \<and> history w' dk' = Some [] # take (lw_max_files w) (history w dk)"
proof -
  from assms(1) have at: "w_at w dk" by (simp add: w_ok_def)
  obtain r1 w1 dk1 where f: "lw_flush w dk = (r1, w1, dk1)" by (metis prod_cases3)
  note fl = lw_flush_flushed [OF at f]
  have r1: "r1 = Inr ()" and at1: "w_at w1 dk1" and buf: "lw_buffer w1 = []" and same: "same_log w w1"
    and sp: "spares (lw_path w) dk dk1" and h: "history w1 dk1 = history w dk"
    using fl by (simp_all add: flushed_def)
  have p: "lw_path w1 = lw_path w" "lw_max_files w1 = lw_max_files w" using same by (simp_all add: same_log_def)
  have lift: "advanced w dk w' dk'" if "advanced w1 dk1 w' dk'"
    using that same sp p spares_trans by (auto simp: advanced_def same_log_def)
  have head: "content w' dk' = []" if "history w' dk' = Some [] # t" for t
    using that by (simp add: history_def)
  show ?thesis
  proof (cases "lw_max_files w = 0")
    case True
    then have "lw_reopen (dk_open_truncate (lw_path w1) dk1) w1 = (r, w', dk')"
      using assms(2) f r1 p by (simp add: lw_rotate_def io_then_def)
    from truncated [OF at1 buf _ this] True p lift head show ?thesis by simp
  next
    case False
    obtain rr dk2 where rot: "rotate_files (lw_path w1) (lw_max_files w1) dk1 = (rr, dk2)" by (meson prod.exhaust)
    obtain r2 w2 dk3 where re: "lw_reopen (dk_open_append (lw_path w1) dk2) w1 = (r2, w2, dk3)" by (metis prod_cases3)
    note ro = rotated [OF at1 buf _ rot re]
    have "(r, w', dk') = (r2, w2, dk3)"
      using assms(2) f r1 p False rot re ro by (simp add: lw_rotate_def io_then_def)
    with ro False p lift head h show ?thesis by auto
  qed
qed

section \<open>Lines\<close>

lemma put_line_ok:
  assumes "w_ok w dk"
    and "io_then (buf_write line w dk) (\<lambda>w dk. io_then (buf_write [CHR 10] w dk) (\<lambda>w dk.
           let w = w\<lparr> lw_size := lw_size w + (length line + 1), lw_unflushed := lw_unflushed w + 1 \<rparr> in
           if flush_every_lines \<le> lw_unflushed w then lw_flush w dk else (Inr (), w, dk))) = (r, w', dk')"
  shows "r = Inr () \<and> advanced w dk w' dk'
    \<and> history w' dk' = Some (content w dk @ line @ [CHR 10]) # tl (history w dk)"
proof -
  have at: "w_at w dk" and sz: "lw_size w = length (content w dk)" using assms(1) by (simp_all add: w_ok_def)
  then have ans: "dk_answers dk = []" by (simp add: w_at_def)
  from buf_write_ok [OF ans, of w line] obtain a b where ab: "a @ b = lw_buffer w @ line"
    "buf_write line w dk = (Inr (), w\<lparr> lw_buffer := b \<rparr>, dk_append (lw_file w) a dk)" by blast
  let ?w1 = "w\<lparr> lw_buffer := b \<rparr>" and ?dk1 = "dk_append (lw_file w) a dk"
  from buf_write_ok [of ?dk1 ?w1 "[CHR 10]"] ans obtain c d where cd: "c @ d = b @ [CHR 10]"
    "buf_write [CHR 10] ?w1 ?dk1 = (Inr (), ?w1\<lparr> lw_buffer := d \<rparr>, dk_append (lw_file w) c ?dk1)" by auto
  let ?w2 = "w\<lparr> lw_buffer := d, lw_size := lw_size w + (length line + 1), lw_unflushed := lw_unflushed w + 1 \<rparr>"
  let ?dk2 = "dk_append (lw_file w) (a @ c) dk"
  have "(a @ c) @ d = lw_buffer w @ (line @ [CHR 10])" using ab(1) cd(1) by (metis append.assoc)
  note step = append_step [OF at this, where n = "lw_size w + (length line + 1)" and u = "lw_unflushed w + 1", OF refl refl]
  have w2: "(?w1\<lparr> lw_buffer := d \<rparr>)\<lparr> lw_size := lw_size w + (length line + 1), lw_unflushed := lw_unflushed w + 1 \<rparr> = ?w2"
    by (cases w) simp
  have ok2: "w_ok ?w2 ?dk2" using step(1,2) sz by (simp add: w_ok_def)
  have h2: "history ?w2 ?dk2 = Some (content w dk @ line @ [CHR 10]) # tl (history w dk)"
    using step(2,5) by (simp add: history_def)
  have adv2: "advanced w dk ?w2 ?dk2" using ok2 step(3,4) by (simp add: advanced_def)
  have run: "(if flush_every_lines \<le> lw_unflushed ?w2 then lw_flush ?w2 ?dk2 else (Inr (), ?w2, ?dk2)) = (r, w', dk')"
    using assms(2) ab(2) cd(2) w2 by (simp add: io_then_def dk_append_append Let_def split: if_splits)
  show ?thesis
  proof (cases "flush_every_lines \<le> lw_unflushed ?w2")
    case True
    with run have f: "lw_flush ?w2 ?dk2 = (r, w', dk')" by simp
    have "r = Inr () \<and> flushed ?w2 ?dk2 w' dk'" by (rule lw_flush_flushed [OF step(1) f])
    moreover from this ok2 have "w_ok w' dk'" by (simp add: w_ok_def flushed_def)
    ultimately show ?thesis
      using adv2 h2 spares_trans by (auto simp: advanced_def flushed_def same_log_def)
  next
    case False
    with run h2 adv2 show ?thesis by simp
  qed
qed

text \<open>The refinement of one line.\<close>

lemma write_line_refines:
  assumes "w_ok w dk" and "lw_write_line line w dk = (r, w', dk')"
  shows "r = Inr () \<and> advanced w dk w' dk'
    \<and> history w' dk' = spec_write (lw_max_size w) (lw_max_files w) line (history w dk)"
proof (cases "lw_needs_rotation line w")
  case True
  obtain r1 w1 dk1 where rot: "lw_rotate w dk = (r1, w1, dk1)" by (metis prod_cases3)
  note ro = lw_rotate_ok [OF assms(1) rot]
  have ok1: "w_ok w1 dk1" using ro by (simp add: advanced_def)
  have "r = Inr () \<and> advanced w1 dk1 w' dk' \<and> history w' dk' = Some (content w1 dk1 @ line @ [CHR 10]) # tl (history w1 dk1)"
    by (rule put_line_ok [OF ok1]) (use assms(2) True rot ro in \<open>simp add: lw_write_line_def io_then_def\<close>)
  moreover have "history w dk = Some (content w dk) # tl (history w dk)" by (simp add: history_def)
  moreover have "content w dk \<noteq> []" "lw_max_size w < length (content w dk) + (length line + 1)"
    using True assms(1) by (auto simp: lw_needs_rotation_def w_ok_def)
  ultimately have "history w' dk' = spec_write (lw_max_size w) (lw_max_files w) line (history w dk)"
    using ro by (metis (no_types, lifting) append_Nil list.sel(3) spec_write.simps(1))
  moreover have "advanced w dk w' dk'"
    using ro \<open>r = Inr () \<and> advanced w1 dk1 w' dk' \<and> _\<close> spares_trans by (auto simp: advanced_def same_log_def)
  ultimately show ?thesis using \<open>r = Inr () \<and> _\<close> by blast
next
  case False
  have p: "r = Inr () \<and> advanced w dk w' dk' \<and> history w' dk' = Some (content w dk @ line @ [CHR 10]) # tl (history w dk)"
    by (rule put_line_ok [OF assms(1)]) (use assms(2) False in \<open>simp add: lw_write_line_def io_then_def\<close>)
  moreover have "\<not> (content w dk \<noteq> [] \<and> lw_max_size w < length (content w dk) + (length line + 1))"
    using False assms(1) by (auto simp: lw_needs_rotation_def w_ok_def)
  ultimately show ?thesis by (simp add: history_def)
qed

end
