(* ===== verification/Log_Names.thy ===== *)
theory Log_Names
  imports Logs_Facts
begin

text \<open>
  The names that the log writer of \<open>runtime/logs.rs\<close> gives to files: for each service its log file
  and the rotated ones up to the last that the settings allow, whatever the disk answers.
\<close>

definition names_grow :: "path set \<Rightarrow> disk \<Rightarrow> disk \<Rightarrow> bool" where
  "names_grow P dk dk' \<longleftrightarrow> (\<forall>q. dk_names dk' q \<noteq> None \<longrightarrow> dk_names dk q \<noteq> None \<or> q \<in> P)"

lemma grows_refl [simp]: "names_grow P dk dk"
  by (simp add: names_grow_def)

lemma grows_trans [trans]: "names_grow P dk dk' \<Longrightarrow> names_grow P dk' dk'' \<Longrightarrow> names_grow P dk dk''"
  unfolding names_grow_def by blast

lemma grows_mono: "names_grow P dk dk' \<Longrightarrow> P \<subseteq> Q \<Longrightarrow> names_grow Q dk dk'"
  unfolding names_grow_def by blast

lemma grows_names: "dk_names dk' = dk_names dk \<Longrightarrow> names_grow P dk dk'"
  by (simp add: names_grow_def)

section \<open>The disk\<close>

lemma names_answer: "dk_names (snd (dk_answer dk)) = dk_names dk"
  by (simp add: dk_answer_def split: list.split)

lemma names_write: "dk_names (snd (snd (dk_write i s dk))) = dk_names dk"
  using names_answer [of dk] by (auto simp: dk_write_def dk_append_def split: prod.splits option.splits)

lemma names_length: "dk_names (snd (dk_length i dk)) = dk_names dk"
  using names_answer [of dk] by (auto simp: dk_length_def split: prod.splits option.splits)

lemma names_make_dirs: "dk_names (snd (dk_make_dirs dk)) = dk_names dk"
  using names_answer [of dk] by (auto simp: dk_make_dirs_def split: prod.splits option.splits)

lemma grows_create: "names_grow {p} dk (snd (dk_create p dk))"
  by (auto simp: names_grow_def dk_create_def split: option.splits if_splits)

lemma grows_open:
  "names_grow {p} dk (snd (dk_open_append p dk))" "names_grow {p} dk (snd (dk_open_truncate p dk))"
  using names_answer [of dk] grows_create [of p "snd (dk_answer dk)"]
  by (auto simp: dk_open_append_def dk_open_truncate_def names_grow_def split: prod.splits option.splits)

lemma grows_remove: "names_grow P dk (snd (dk_remove p dk))"
  using names_answer [of dk] by (auto simp: dk_remove_def names_grow_def split: prod.splits option.splits if_splits)

lemma grows_rename: "names_grow {q} dk (snd (dk_rename p q dk))"
  using names_answer [of dk] by (auto simp: dk_rename_def names_grow_def split: prod.splits option.splits if_splits)

section \<open>One writer\<close>

definition log_names :: "path \<Rightarrow> nat \<Rightarrow> path set" where
  "log_names p m = nth_path p ` {..m}"

lemma own_log_name: "p \<in> log_names p m"
  unfolding log_names_def by (rule image_eqI [of _ _ 0]) simp_all

lemma grows_shift: "n < m \<Longrightarrow> names_grow (log_names p m) dk (snd (shift_files p n dk))"
proof (induction n arbitrary: dk)
  case (Suc n)
  obtain r dk' where ren: "dk_rename (rotated_path p (Suc n)) (rotated_path p (Suc (Suc n))) dk = (r, dk')" by fastforce
  have "rotated_path p (Suc (Suc n)) \<in> log_names p m"
    unfolding log_names_def using Suc.prems by (intro image_eqI [of _ _ "Suc (Suc n)"]) simp_all
  then have "names_grow (log_names p m) dk dk'"
    using grows_rename [of "rotated_path p (Suc (Suc n))" dk "rotated_path p (Suc n)"] ren by (auto intro: grows_mono)
  with Suc show ?case by (auto simp: ren split: sum.splits intro: grows_trans)
qed simp

lemma grows_rotate:
  assumes "0 < m"
  shows "names_grow (log_names p m) dk (snd (rotate_files p m dk))"
proof -
  obtain r1 dk1 where drop: "drop_oldest p m dk = (r1, dk1)" by fastforce
  obtain r2 dk2 where shift: "shift_files p (m - 1) dk1 = (r2, dk2)" by fastforce
  have "names_grow (log_names p m) dk dk1"
    using drop grows_remove [of "log_names p m" dk "rotated_path p m"] by (auto simp: drop_oldest_def split: if_splits)
  moreover have "names_grow (log_names p m) dk1 dk2" using grows_shift [of "m - 1" m p dk1] shift assms by simp
  moreover have "rotated_path p 1 \<in> log_names p m"
    unfolding log_names_def using assms by (intro image_eqI [of _ _ 1]) (simp_all add: nth_path_def)
  then have "names_grow (log_names p m) dk2 (snd (dk_rename p (rotated_path p 1) dk2))"
    using grows_rename by (rule_tac grows_mono) auto
  ultimately show ?thesis
    by (auto simp: rotate_files_def drop shift simp del: One_nat_def split: sum.splits intro: grows_trans)
qed

definition tame :: "log_writer \<Rightarrow> disk \<Rightarrow> written \<Rightarrow> bool" where
  "tame w dk x \<longleftrightarrow> (case x of (r, w', dk') \<Rightarrow> lw_path w' = lw_path w \<and> lw_max_files w' = lw_max_files w
     \<and> names_grow (log_names (lw_path w) (lw_max_files w)) dk dk')"

lemma tame_then:
  assumes "tame w dk x"
    and "\<And>w' dk'. lw_path w' = lw_path w \<Longrightarrow> lw_max_files w' = lw_max_files w \<Longrightarrow> tame w' dk' (k w' dk')"
  shows "tame w dk (io_then x k)"
proof -
  obtain r w' dk' where x: "x = (r, w', dk')" by (metis prod_cases3)
  with assms(1) have w': "lw_path w' = lw_path w" "lw_max_files w' = lw_max_files w"
    and g: "names_grow (log_names (lw_path w) (lw_max_files w)) dk dk'" by (simp_all add: tame_def)
  show ?thesis
    using assms(2) [OF w', of dk'] x w' g by (cases r) (auto simp: io_then_def tame_def intro: grows_trans)
qed

lemma tame_done [simp]: "tame w dk (r, w, dk)"
  by (simp add: tame_def)

lemma tame_buf_flush: "tame w dk (buf_flush w dk)"
  using names_write [of "lw_file w" "lw_buffer w" dk]
  by (auto simp: buf_flush_def tame_def split: prod.splits intro: grows_names)

lemma tame_buf_put: "tame w dk (buf_put s w dk)"
  using names_write [of "lw_file w" s dk] by (auto simp: buf_put_def tame_def split: prod.splits intro: grows_names)

lemma tame_buf_write: "tame w dk (buf_write s w dk)"
  by (simp add: buf_write_def tame_buf_put tame_then [OF tame_buf_flush])

lemma tame_flush: "tame w dk (lw_flush w dk)"
  using tame_buf_flush [of "w\<lparr> lw_unflushed := 0 \<rparr>" dk] by (simp add: lw_flush_def tame_def)

lemma tame_reopen:
  assumes "names_grow (log_names (lw_path w) (lw_max_files w)) dk (snd opened)"
  shows "tame w dk (lw_reopen opened w)"
proof -
  obtain r dk' where o: "opened = (r, dk')" by fastforce
  show ?thesis
    using assms tame_buf_flush [of w dk']
    by (auto simp: o lw_reopen_def tame_def Let_def split: sum.splits prod.splits intro: grows_trans)
qed

lemma tame_rotate: "tame w dk (lw_rotate w dk)"
  unfolding lw_rotate_def
proof (rule tame_then [OF tame_flush])
  fix w' :: log_writer and dk'
  let ?P = "log_names (lw_path w') (lw_max_files w')"
  have one: "{lw_path w'} \<subseteq> ?P" by (simp add: own_log_name)
  show "tame w' dk' (if lw_max_files w' = 0 then lw_reopen (dk_open_truncate (lw_path w') dk') w'
      else case rotate_files (lw_path w') (lw_max_files w') dk' of
        (Inl e, dk) \<Rightarrow> (Inl e, w', dk) | (Inr _, dk) \<Rightarrow> lw_reopen (dk_open_append (lw_path w') dk) w')"
  proof (cases "lw_max_files w' = 0")
    case True
    with tame_reopen [OF grows_mono [OF grows_open(2) one]] show ?thesis by simp
  next
    case False
    obtain r dk1 where rot: "rotate_files (lw_path w') (lw_max_files w') dk' = (r, dk1)" by fastforce
    then have g: "names_grow ?P dk' dk1" using grows_rotate [of "lw_max_files w'" "lw_path w'" dk'] False by simp
    have "names_grow ?P dk' (snd (dk_open_append (lw_path w') dk1))"
      using g grows_mono [OF grows_open(1) one] by (rule grows_trans)
    from tame_reopen [OF this] show ?thesis using False g by (auto simp: rot tame_def split: sum.splits)
  qed
qed

lemma tame_write_line: "tame w dk (lw_write_line line w dk)"
  unfolding lw_write_line_def
proof (intro tame_then)
  show "tame w dk (if lw_needs_rotation line w then lw_rotate w dk else (Inr (), w, dk))"
    by (simp add: tame_rotate)
  show "tame v dk' (buf_write line v dk')" "tame v dk' (buf_write [CHR 10] v dk')" for v dk'
    by (rule tame_buf_write)+
  show "tame v dk' (let w = v\<lparr> lw_size := lw_size v + (length line + 1), lw_unflushed := lw_unflushed v + 1 \<rparr>
      in if flush_every_lines \<le> lw_unflushed w then lw_flush w dk' else (Inr (), w, dk'))" for v dk'
    using tame_flush [of "v\<lparr> lw_size := lw_size v + (length line + 1), lw_unflushed := lw_unflushed v + 1 \<rparr>" dk']
    by (auto simp: Let_def tame_def)
qed

section \<open>All services\<close>

text \<open>The names the services \<open>A\<close> may have for their logs.\<close>

definition service_names :: "log_settings \<Rightarrow> service_name set \<Rightarrow> path set" where
  "service_names S A = (\<Union>s\<in>A. log_names (file_for S s) (unat (ls_max_files S)))"

definition own_writers :: "log_settings \<Rightarrow> service_name set \<Rightarrow> (service_name, log_writer) btmap \<Rightarrow> bool" where
  "own_writers S A ws \<longleftrightarrow>
     (\<forall>(s, w)\<in>set ws. s \<in> A \<and> lw_path w = file_for S s \<and> lw_max_files w = unat (ls_max_files S))"

definition names_inv :: "log_settings \<Rightarrow> service_name set \<Rightarrow> disk \<Rightarrow> log_sink \<Rightarrow> bool" where
  "names_inv S A dk sk \<longleftrightarrow> lr_settings (sk_router sk) = S \<and> own_writers S A (lr_writers (sk_router sk))
     \<and> names_grow (service_names S A) dk (sk_disk sk)"

lemma tame_service:
  assumes "tame w dk (r, w', dk')" and "s \<in> A" and "lw_path w = file_for S s" and "lw_max_files w = unat (ls_max_files S)"
  shows "names_grow (service_names S A) dk dk'" and "lw_path w' = file_for S s" and "lw_max_files w' = unat (ls_max_files S)"
  using assms by (auto simp: tame_def service_names_def elim!: grows_mono)

lemma open_service:
  assumes "s \<in> A" and "lw_open S s dk = (r, dk')"
  shows "names_grow (service_names S A) dk dk'"
    and "r = Inr w \<Longrightarrow> lw_path w = file_for S s \<and> lw_max_files w = unat (ls_max_files S)"
proof -
  obtain r1 dk1 where d: "dk_make_dirs dk = (r1, dk1)" by fastforce
  obtain r2 dk2 where o: "dk_open_append (file_for S s) dk1 = (r2, dk2)" by fastforce
  have "dk_names dk1 = dk_names dk" using names_make_dirs [of dk] d by simp
  then have g1: "names_grow (service_names S A) dk dk1" by (rule grows_names)
  have "{file_for S s} \<subseteq> service_names S A" using assms(1) own_log_name by (auto simp: service_names_def)
  then have g2: "names_grow (service_names S A) dk1 dk2"
    using grows_open(1) [of "file_for S s" dk1] o by (auto intro: grows_mono)
  have g3: "names_grow (service_names S A) dk2 (snd (dk_length i dk2))" for i
    by (rule grows_names) (rule names_length)
  show "names_grow (service_names S A) dk dk'"
    using assms(2) g1 g2 g3 by (auto simp: lw_open_def d o Let_def split: sum.splits prod.splits intro: grows_trans)
       (metis grows_trans snd_conv)+
  show "r = Inr w \<Longrightarrow> lw_path w = file_for S s \<and> lw_max_files w = unat (ls_max_files S)"
    using assms(2) by (auto simp: lw_open_def d o Let_def split: sum.splits prod.splits)
qed

lemma own_writers_insert:
  "own_writers S A ws \<Longrightarrow> s \<in> A \<Longrightarrow> lw_path w = file_for S s \<Longrightarrow> lw_max_files w = unat (ls_max_files S) \<Longrightarrow>
     own_writers S A (bt_insert s w ws)"
  by (induction s w ws rule: bt_insert.induct) (auto simp: own_writers_def)

lemma own_writers_get:
  "own_writers S A ws \<Longrightarrow> bt_get ws s = Some w \<Longrightarrow> lw_path w = file_for S s \<and> lw_max_files w = unat (ls_max_files S)"
  by (auto simp: own_writers_def bt_get_def dest!: map_of_SomeD)

lemma names_record:
  assumes "own_writers S A (lr_writers r)" and "lr_settings r = S" and "s \<in> A" and "lr_record s line r dk = (m, r', dk')"
  shows "own_writers S A (lr_writers r') \<and> lr_settings r' = S \<and> names_grow (service_names S A) dk dk'"
proof (cases "s \<in> lr_excluded r")
  case True
  with assms show ?thesis by (simp add: lr_record_def)
next
  case False
  have report: "lr_writers (snd (lr_report e r)) = lr_writers r \<and> lr_settings (snd (lr_report e r)) = lr_settings r" for e r
    by (simp add: lr_report_def)
  obtain res dk1 where e: "lr_ensure s r dk = (res, dk1)" by fastforce
  have g1: "names_grow (service_names S A) dk dk1"
    and w: "res = Inr w \<Longrightarrow> lw_path w = file_for S s \<and> lw_max_files w = unat (ls_max_files S)" for w
    using e open_service [OF assms(3), of S dk] own_writers_get [OF assms(1), of s] assms(2)
    by (auto simp: lr_ensure_def split: option.splits)
  show ?thesis
  proof (cases res)
    case (Inl err)
    with assms False e g1 report [of "''could not open a log file: '' @ err" r] show ?thesis
      by (auto simp: lr_record_def Let_def split: prod.splits)
  next
    case (Inr w)
    obtain x w2 dk2 where wr: "lw_write_line line w dk1 = (x, w2, dk2)" by (metis prod_cases3)
    have "tame w dk1 (x, w2, dk2)" using tame_write_line [of w dk1 line] wr by simp
    note t = tame_service [OF this assms(3), of S] 
    let ?r = "r\<lparr> lr_writers := bt_insert s w2 (lr_writers r) \<rparr>"
    have g: "names_grow (service_names S A) dk dk2" using g1 t(1) w [OF Inr] by (blast intro: grows_trans)
    have "own_writers S A (lr_writers ?r)" using own_writers_insert [OF assms(1,3)] t w [OF Inr] by simp
    with assms False e Inr wr g report [of "could_not_write w2 e" ?r for e] show ?thesis
      by (auto simp: lr_record_def Let_def split: sum.splits prod.splits) (metis snd_conv)+
  qed
qed

lemma names_flush_writers:
  assumes "own_writers S A ws" and "flush_writers ws dk = (m, ws', dk')"
  shows "own_writers S A ws' \<and> names_grow (service_names S A) dk dk'"
  using assms
proof (induction ws arbitrary: dk m ws' dk')
  case (Cons e ws)
  obtain s w where e: "e = (s, w)" by (cases e)
  obtain x w1 dk1 where f: "lw_flush w dk = (x, w1, dk1)" by (metis prod_cases3)
  obtain m2 ws2 dk2 where g: "flush_writers ws dk1 = (m2, ws2, dk2)" by (metis prod_cases3)
  have s: "s \<in> A" "lw_path w = file_for S s" "lw_max_files w = unat (ls_max_files S)" and ws: "own_writers S A ws"
    using Cons.prems(1) by (simp_all add: e own_writers_def)
  have "tame w dk (x, w1, dk1)" using tame_flush [of w dk] f by simp
  note t = tame_service [OF this s]
  have "ws' = (s, w1) # ws2" "dk' = dk2" using Cons.prems(2) e f g by (simp_all add: Let_def)
  with Cons.IH [OF ws g] t s(1) show ?case by (auto simp: own_writers_def intro: grows_trans)
qed (simp add: own_writers_def)

lemma names_lr_flush:
  assumes "own_writers S A (lr_writers r)" and "lr_settings r = S" and "lr_flush r dk = (m, r', dk')"
  shows "own_writers S A (lr_writers r') \<and> lr_settings r' = S \<and> names_grow (service_names S A) dk dk'"
proof -
  obtain f ws dk1 where fl: "flush_writers (lr_writers r) dk = (f, ws, dk1)" by (metis prod_cases3)
  from names_flush_writers [OF assms(1) fl] assms(2,3) fl show ?thesis
    by (auto simp: lr_flush_def lr_report_def Let_def split: option.splits prod.splits if_splits)
qed

lemma names_drop:
  assumes "own_writers S A ws"
  shows "names_grow (service_names S A) dk (fold (\<lambda>(_, w). lw_drop w) ws dk)"
  using assms
proof (induction ws arbitrary: dk)
  case (Cons e ws)
  obtain s w where e: "e = (s, w)" by (cases e)
  have s: "s \<in> A" "lw_path w = file_for S s" "lw_max_files w = unat (ls_max_files S)" and ws: "own_writers S A ws"
    using Cons.prems by (simp_all add: e own_writers_def)
  obtain x w1 dk1 where f: "buf_flush w dk = (x, w1, dk1)" by (metis prod_cases3)
  obtain y w2 dk2 where f2: "buf_flush w1 dk1 = (y, w2, dk2)" by (metis prod_cases3)
  have t: "tame w dk (x, w1, dk1)" "tame w1 dk1 (y, w2, dk2)"
    using tame_buf_flush [of w dk] tame_buf_flush [of w1 dk1] f f2 by simp_all
  note g = tame_service [OF t(1) s]
  have "names_grow (service_names S A) dk dk2" using g tame_service(1) [OF t(2) s(1) g(2,3)] by (blast intro: grows_trans)
  moreover have "lw_drop w dk = dk2" by (simp add: lw_drop_def f f2)
  ultimately show ?case using Cons.IH [OF ws, of dk2] by (simp add: e) (blast intro: grows_trans)
qed simp

section \<open>The sink\<close>

lemma sk_remember_simps [simp]:
  "sk_router (sk_remember m sk) = sk_router sk" "sk_disk (sk_remember m sk) = sk_disk sk"
  "sk_queue (sk_remember m sk) = sk_queue sk"
  by (simp_all add: sk_remember_def split: option.split)

lemma names_sk_write: "names_inv S A dk sk \<Longrightarrow> fst e \<in> A \<Longrightarrow> names_inv S A dk (sk_write e sk)"
  using names_record [of S A "sk_router sk" "fst e" "snd e" "sk_disk sk"]
  by (auto simp: names_inv_def sk_write_def split: prod.split intro: grows_trans)

lemma names_sk_flush: "names_inv S A dk sk \<Longrightarrow> names_inv S A dk (sk_flush sk)"
  using names_lr_flush [of S A "sk_router sk" "sk_disk sk"]
  by (auto simp: names_inv_def sk_flush_def split: prod.split intro: grows_trans)

lemma queue_sk_write: "sk_queue (sk_write e sk) = sk_queue sk" "sk_queue (sk_flush sk) = sk_queue sk"
  by (simp_all add: sk_write_def sk_flush_def split: prod.split)

definition queue_in :: "service_name set \<Rightarrow> log_sink \<Rightarrow> bool" where
  "queue_in A sk \<longleftrightarrow> fst ` set (sk_queue sk) \<subseteq> A"

lemma names_sink_step:
  assumes "names_inv S A dk sk" and "queue_in A sk" and "\<forall>s line. act = SK_Record s line \<longrightarrow> s \<in> A"
  shows "names_inv S A dk (sink_step act sk) \<and> queue_in A (sink_step act sk)"
proof (cases act)
  case (SK_Record s line)
  with assms show ?thesis
    by (auto simp: sk_record_def sk_take_problem_def names_inv_def queue_in_def Let_def)
next
  case SK_Pump
  show ?thesis
  proof (cases "sk_queue sk")
    case Nil
    let ?sk = "sk\<lparr> sk_parked := True \<rparr>"
    have "names_inv S A dk ?sk" using assms(1) by (simp add: names_inv_def)
    from names_sk_flush [OF this] assms SK_Pump Nil show ?thesis
      by (simp add: pump_turn_def queue_in_def queue_sk_write)
  next
    case (Cons e es)
    let ?sk = "sk\<lparr> sk_queue := es, sk_parked := False \<rparr>"
    have "names_inv S A dk ?sk" "fst e \<in> A" using assms(1,2) Cons by (simp_all add: names_inv_def queue_in_def)
    from names_sk_write [OF this] assms(2) SK_Pump Cons show ?thesis
      by (simp add: pump_turn_def queue_in_def queue_sk_write)
  qed
qed

lemma names_sink_run:
  assumes "\<forall>s line. SK_Record s line \<in> set acts \<longrightarrow> s \<in> A" and "names_inv S A dk sk" and "queue_in A sk"
  shows "names_inv S A dk (fold sink_step acts sk) \<and> queue_in A (fold sink_step acts sk)"
  using assms
proof (induction acts arbitrary: sk)
  case (Cons act acts)
  have "names_inv S A dk (sink_step act sk) \<and> queue_in A (sink_step act sk)"
    using names_sink_step [OF Cons.prems(2,3), of act] Cons.prems(1) by auto
  then have "names_inv S A dk (sink_step act sk)" "queue_in A (sink_step act sk)" by blast+
  moreover have "\<forall>s line. SK_Record s line \<in> set acts \<longrightarrow> s \<in> A" using Cons.prems(1) by auto
  ultimately show ?case using Cons.IH [of "sink_step act sk"] by simp
qed simp

lemma names_shutdown:
  assumes "names_inv S A dk sk" and "queue_in A sk"
  shows "names_grow (service_names S A) dk (snd (sk_shutdown sk))"
proof -
  have all: "names_inv S A dk sk \<Longrightarrow> fst ` set es \<subseteq> A \<Longrightarrow> names_inv S A dk (fold sk_write es sk)" for es sk
    by (induction es arbitrary: sk) (simp_all add: names_sk_write)
  have "names_inv S A dk (sk\<lparr> sk_queue := [] \<rparr>)" using assms(1) by (simp add: names_inv_def)
  from names_sk_flush [OF all [OF this, of "sk_queue sk"]] assms(2)
  have "names_inv S A dk (sk_flush (fold sk_write (sk_queue sk) (sk\<lparr> sk_queue := [] \<rparr>)))" by (simp add: queue_in_def)
  then show ?thesis
    using names_drop by (auto simp: sk_shutdown_def drop_writers_def names_inv_def Let_def intro: grows_trans)
qed

text \<open>Whatever the disk answers, a run of the sink makes no log file of a service beyond the last
  rotated one that its settings allow.\<close>

lemma no_file_beyond:
  assumes "\<forall>s line. SK_Record s line \<in> set acts \<longrightarrow> \<not> is_absolute s" and "\<not> is_absolute service"
    and "unat (ls_max_files settings) < k"
    and "dk_names (snd (sk_shutdown (fold sink_step acts (sk_spawn (lr_new settings excluded) dk))))
      (rotated_path (file_for settings service) k) \<noteq> None"
  shows "dk_names dk (rotated_path (file_for settings service) k) \<noteq> None"
proof -
  let ?A = "{s. \<not> is_absolute s}" and ?sk = "sk_spawn (lr_new settings excluded) dk"
  have "names_inv settings ?A dk ?sk" "queue_in ?A ?sk"
    by (simp_all add: names_inv_def queue_in_def sk_spawn_def lr_new_def own_writers_def)
  from names_sink_run [OF _ this, of acts] assms(1)
  have "names_inv settings ?A dk (fold sink_step acts ?sk)" "queue_in ?A (fold sink_step acts ?sk)" by simp_all
  note g = names_shutdown [OF this]
  have path: "rotated_path (file_for settings service) k = nth_path (file_for settings service) k"
    using assms(3) by (simp add: nth_path_def)
  have "nth_path (file_for settings service) k \<noteq> nth_path (file_for settings s) j"
    if "\<not> is_absolute s" "j \<le> unat (ls_max_files settings)" for s j
    using file_for_distinct [of service s settings k j] that assms(2,3) by (cases "s = service") auto
  then have "rotated_path (file_for settings service) k \<notin> service_names settings ?A"
    by (auto simp: path service_names_def log_names_def)
  with g assms(4) show ?thesis unfolding names_grow_def by blast
qed

end
