(* ===== verification/Log_Router.thy ===== *)
theory Log_Router
  imports Log_Files Log_Names "HOL-Library.Sublist"
begin

text \<open>
  The log files of all services and the queue in front of them, on a disk without errors.
\<close>

section \<open>Opening and other services\<close>

lemma spares_keeps:
  assumes "spares p dk dk'" and "\<And>m n. nth_path q m \<noteq> nth_path p n"
  shows "dk_names dk' (nth_path q m) = dk_names dk (nth_path q m)"
    and "dk_names dk (nth_path q m) = Some i \<Longrightarrow> dk_data dk' i = dk_data dk i"
    and "files q k dk' = files q k dk"
proof -
  show names: "dk_names dk' (nth_path q m) = dk_names dk (nth_path q m)" for m
    using assms unfolding spares_def by blast
  show data: "dk_data dk' i = dk_data dk i" if "dk_names dk (nth_path q m) = Some i" for i m
    using assms that unfolding spares_def by blast
  show "files q k dk' = files q k dk"
    unfolding files_def by (rule map_cong) (auto simp: names map_option_case data split: option.split)
qed

lemma spares_writer:
  assumes "spares p dk dk'" and "\<And>m n. nth_path (lw_path w) m \<noteq> nth_path p n" and "dk_ok dk'" and "w_ok w dk"
  shows "w_ok w dk'" and "history w dk' = history w dk"
proof -
  note k = spares_keeps [OF assms(1,2)]
  have n: "dk_names dk' (lw_path w) = Some (lw_file w)"
    using k(1) [of 0] assms(4) by (simp add: w_ok_def w_at_def)
  have d: "dk_data dk' (lw_file w) = dk_data dk (lw_file w)"
    using k(2) [of 0] assms(4) by (simp add: w_ok_def w_at_def)
  show "w_ok w dk'" "history w dk' = history w dk"
    using n d k(3) assms(3,4) by (simp_all add: w_ok_def w_at_def history_def content_def)
qed

lemma lw_open_ok:
  assumes "dk_ok dk" and "lw_open settings s dk = (res, dk')"
  shows "\<exists>w. res = Inr w \<and> w_ok w dk' \<and> spares (file_for settings s) dk dk' \<and> lw_path w = file_for settings s
    \<and> lw_max_size w = unat (ls_max_size settings) \<and> lw_max_files w = unat (ls_max_files settings)
    \<and> spec_write a b line (history w dk') =
        spec_write a b line (files (file_for settings s) (unat (ls_max_files settings)) dk)"
proof -
  let ?p = "file_for settings s" and ?m = "unat (ls_max_files settings)"
  let ?w = "\<lambda>i dk. \<lparr> lw_path = ?p, lw_file = i, lw_buffer = [], lw_size = length (dk_data dk i),
    lw_max_size = unat (ls_max_size settings), lw_max_files = ?m, lw_unflushed = 0 \<rparr>"
  have op: "(res, dk') = (let (i, dk1) = dk_create ?p dk in (Inr (?w i dk1), dk1))"
  proof (cases "dk_names dk ?p")
    case None
    with assms show ?thesis
      by (auto simp: lw_open_def dk_make_dirs_def dk_answer_ok dk_open_append_def dk_create_def dk_length_def Let_def)
  next
    case (Some i)
    with assms show ?thesis
      by (auto simp: lw_open_def dk_make_dirs_def dk_answer_ok dk_open_append_def dk_create_def dk_length_def Let_def)
  qed
  show ?thesis
  proof (cases "dk_names dk ?p")
    case (Some i)
    then have "res = Inr (?w i dk)" "dk' = dk" using op by (simp_all add: dk_create_def)
    moreover have "w_ok (?w i dk) dk" using Some assms(1) by (simp add: w_ok_def w_at_def content_def)
    moreover have "history (?w i dk) dk = files ?p ?m dk" using Some by (simp add: history_def files_Cons content_def)
    ultimately show ?thesis by simp
  next
    case None
    let ?dk = "dk\<lparr> dk_names := (dk_names dk)(?p \<mapsto> dk_next dk), dk_data := (dk_data dk)(dk_next dk := []),
      dk_next := Suc (dk_next dk) \<rparr>"
    let ?w1 = "?w (dk_next dk) ?dk"
    have eq: "res = Inr ?w1" "dk' = ?dk" using op None by (simp_all add: dk_create_def)
    have other: "(dk_data ?dk) i = dk_data dk i" if "dk_names dk q = Some i" for q i
      using dk_ok_less [OF assms(1) that] by simp
    have "dk_ok ?dk"
      using dk_ok_less [OF assms(1)] dk_ok_inj [OF assms(1)] assms(1)
      by (intro dk_okI) (auto split: if_splits simp: less_Suc_eq dest: order.strict_implies_not_eq)
    then have ok: "w_ok ?w1 ?dk" by (simp add: w_ok_def w_at_def content_def)
    have sp: "spares ?p dk ?dk"
      unfolding spares_def
    proof (intro allI impI conjI)
      fix q i assume q: "\<forall>n. q \<noteq> nth_path ?p n"
      then have "q \<noteq> ?p" by (metis nth_path_simps(1))
      then show "dk_names ?dk q = dk_names dk q" by simp
      show "dk_data ?dk i = dk_data dk i" if "dk_names dk q = Some i" by (rule other [OF that])
    qed
    have "tl (files ?p ?m ?dk) = tl (files ?p ?m dk)"
      unfolding files_Cons list.sel
      by (rule map_cong) (auto simp: map_option_case split: option.split dest: dk_ok_less [OF assms(1)])
    then have "history ?w1 ?dk = Some [] # tl (files ?p ?m dk)" by (simp add: history_def content_def)
    moreover have "files ?p ?m dk = None # tl (files ?p ?m dk)" using None by (simp add: files_Cons)
    ultimately have "spec_write a b line (history ?w1 ?dk) = spec_write a b line (files ?p ?m dk)"
      by (metis append_Nil spec_write.simps(1,2))
    then show ?thesis unfolding eq using ok sp by simp
  qed
qed

section \<open>The router\<close>

definition writer_of :: "log_settings \<Rightarrow> service_name \<Rightarrow> log_writer \<Rightarrow> bool" where
  "writer_of settings s w \<longleftrightarrow> \<not> is_absolute s \<and> lw_path w = file_for settings s
     \<and> lw_max_size w = unat (ls_max_size settings) \<and> lw_max_files w = unat (ls_max_files settings)"

definition lr_ok :: "log_router \<Rightarrow> disk \<Rightarrow> bool" where
  "lr_ok r dk \<longleftrightarrow> dk_ok dk \<and> bt_wf (lr_writers r)
     \<and> (\<forall>s w. bt_get (lr_writers r) s = Some w \<longrightarrow> writer_of (lr_settings r) s w \<and> w_ok w dk)"

definition service_files :: "log_settings \<Rightarrow> disk \<Rightarrow> service_name \<Rightarrow> string option list" where
  "service_files settings dk s = files (file_for settings s) (unat (ls_max_files settings)) dk"

definition lr_history :: "log_router \<Rightarrow> disk \<Rightarrow> service_name \<Rightarrow> string option list" where
  "lr_history r dk s =
     (case bt_get (lr_writers r) s of Some w \<Rightarrow> history w dk | None \<Rightarrow> service_files (lr_settings r) dk s)"

definition spec_record :: "log_settings \<Rightarrow> string \<Rightarrow> string option list \<Rightarrow> string option list" where
  "spec_record settings line h = spec_write (unat (ls_max_size settings)) (unat (ls_max_files settings)) line h"

text \<open>A new writer of one service leaves the histories of the others alone.\<close>

lemma lr_update:
  assumes "lr_ok r dk" and "spares (file_for (lr_settings r) s) dk dk'" and "w_ok w dk'"
    and "writer_of (lr_settings r) s w" and "\<not> is_absolute s"
    and "r' = r\<lparr> lr_writers := bt_insert s w (lr_writers r) \<rparr>"
  shows "lr_ok r' dk'" and "lr_history r' dk' s = history w dk'"
    and "\<not> is_absolute t \<Longrightarrow> t \<noteq> s \<Longrightarrow> lr_history r' dk' t = lr_history r dk t"
proof -
  have ok': "dk_ok dk'" using assms(3) by (simp add: w_ok_def w_at_def)
  have apart: "nth_path (file_for (lr_settings r) t) m \<noteq> nth_path (file_for (lr_settings r) s) n"
    if "\<not> is_absolute t" "t \<noteq> s" for t m n
    using file_for_distinct that assms(5) by metis
  have keep: "w_ok v dk' \<and> history v dk' = history v dk" if "bt_get (lr_writers r) t = Some v" "t \<noteq> s" for t v
  proof -
    have v: "\<not> is_absolute t" "lw_path v = file_for (lr_settings r) t" "w_ok v dk"
      using assms(1) that(1) by (simp_all add: lr_ok_def writer_of_def)
    with spares_writer [OF assms(2) _ ok' v(3)] apart that(2) show ?thesis by simp
  qed
  show "lr_ok r' dk'"
    using assms(1,3,4) ok' keep by (auto simp: lr_ok_def assms(6) bt_simps bt_wf_insert)
  show "lr_history r' dk' s = history w dk'" by (simp add: lr_history_def assms(6) bt_simps)
  show "lr_history r' dk' t = lr_history r dk t" if "\<not> is_absolute t" "t \<noteq> s"
    using keep that spares_keeps(3) [OF assms(2) apart [OF that]]
    by (simp add: lr_history_def assms(6) bt_simps service_files_def split: option.split)
qed

lemma lr_record_ok:
  assumes "lr_ok r dk" and "\<not> is_absolute s" and "lr_record s line r dk = (m, r', dk')"
  shows "m = None \<and> lr_ok r' dk' \<and> lr_settings r' = lr_settings r \<and> lr_excluded r' = lr_excluded r
    \<and> (\<forall>t. \<not> is_absolute t \<longrightarrow> lr_history r' dk' t =
          (if t = s \<and> s \<notin> lr_excluded r then spec_record (lr_settings r) line (lr_history r dk t) else lr_history r dk t))"
proof (cases "s \<in> lr_excluded r")
  case True
  with assms show ?thesis by (simp add: lr_record_def)
next
  case False
  let ?S = "lr_settings r"
  have ok: "dk_ok dk" using assms(1) by (simp add: lr_ok_def)
  have "\<exists>w dk1. lr_ensure s r dk = (Inr w, dk1) \<and> w_ok w dk1 \<and> writer_of ?S s w \<and> spares (file_for ?S s) dk dk1
      \<and> spec_record ?S line (history w dk1) = spec_record ?S line (lr_history r dk s)"
  proof (cases "bt_get (lr_writers r) s")
    case (Some w)
    with assms(1) show ?thesis by (simp add: lr_ensure_def lr_ok_def lr_history_def)
  next
    case None
    obtain res dk1 where o: "lw_open ?S s dk = (res, dk1)" by (meson prod.exhaust)
    from lw_open_ok [OF ok o, of "unat (ls_max_size ?S)" "unat (ls_max_files ?S)" line] None assms(2) o show ?thesis
      by (auto simp: lr_ensure_def writer_of_def spec_record_def lr_history_def service_files_def)
  qed
  then obtain w dk1 where e: "lr_ensure s r dk = (Inr w, dk1)" "w_ok w dk1" "writer_of ?S s w"
    "spares (file_for ?S s) dk dk1" "spec_record ?S line (history w dk1) = spec_record ?S line (lr_history r dk s)" by blast
  obtain res w2 dk2 where wr: "lw_write_line line w dk1 = (res, w2, dk2)" by (metis prod_cases3)
  note wl = write_line_refines [OF e(2) wr]
  have w2: "w_ok w2 dk2" "writer_of ?S s w2" "spares (file_for ?S s) dk dk2"
    using wl e(3,4) spares_trans by (auto simp: advanced_def same_log_def writer_of_def)
  have h: "history w2 dk2 = spec_record ?S line (lr_history r dk s)"
    using wl e(3,5) by (simp add: spec_record_def writer_of_def)
  let ?r = "r\<lparr> lr_writers := bt_insert s w2 (lr_writers r) \<rparr>"
  note up = lr_update [OF assms(1) w2(3,1,2) assms(2) refl]
  have "m = None" "r' = ?r" "dk' = dk2"
    using assms(3) False e(1) wr wl by (simp_all add: lr_record_def Let_def)
  then show ?thesis using up h False by auto
qed

text \<open>What a step that touches only the files of the services \<open>ss\<close> keeps.\<close>

definition keeps_others :: "log_settings \<Rightarrow> service_name set \<Rightarrow> disk \<Rightarrow> disk \<Rightarrow> bool" where
  "keeps_others S ss dk dk' \<longleftrightarrow> (\<forall>t. \<not> is_absolute t \<longrightarrow> t \<notin> ss \<longrightarrow>
     service_files S dk' t = service_files S dk t
     \<and> (\<forall>v. writer_of S t v \<longrightarrow> w_ok v dk \<longrightarrow> w_ok v dk' \<and> history v dk' = history v dk))"

lemma keeps_others_trans:
  "keeps_others S ss dk dk' \<Longrightarrow> keeps_others S ss' dk' dk'' \<Longrightarrow> ss \<union> ss' \<subseteq> ss'' \<Longrightarrow> keeps_others S ss'' dk dk''"
  unfolding keeps_others_def by (metis Un_iff subsetD)

lemma spares_others:
  assumes "spares (file_for S s) dk dk'" and "dk_ok dk'" and "\<not> is_absolute s"
  shows "keeps_others S {s} dk dk'"
  unfolding keeps_others_def
proof (intro allI impI conjI)
  fix t assume t: "\<not> is_absolute t" "t \<notin> {s}"
  then have apart: "nth_path (file_for S t) m \<noteq> nth_path (file_for S s) n" for m n
    using file_for_distinct assms(3) by auto
  show "service_files S dk' t = service_files S dk t"
    using spares_keeps(3) [OF assms(1) apart] by (simp add: service_files_def)
  fix v assume v: "writer_of S t v" "w_ok v dk"
  then have "lw_path v = file_for S t" by (simp add: writer_of_def)
  with spares_writer [OF assms(1) _ assms(2) v(2)] apart
  show "w_ok v dk'" "history v dk' = history v dk" by simp_all
qed

lemma keeps_othersD:
  assumes "keeps_others S ss dk dk'" and "writer_of S t v" and "w_ok v dk" and "t \<notin> ss"
  shows "w_ok v dk'" and "history v dk' = history v dk"
  using assms by (auto simp: keeps_others_def writer_of_def)

definition writers_ok :: "log_settings \<Rightarrow> (service_name, log_writer) btmap \<Rightarrow> disk \<Rightarrow> bool" where
  "writers_ok S ws dk \<longleftrightarrow> bt_wf ws \<and> (\<forall>(s, w)\<in>set ws. writer_of S s w \<and> w_ok w dk)"

lemma writers_ok_Cons:
  "writers_ok S ((s, w) # ws) dk \<longleftrightarrow>
     (\<forall>t\<in>fst ` set ws. s < t) \<and> writer_of S s w \<and> w_ok w dk \<and> writers_ok S ws dk"
  by (auto simp: writers_ok_def)

lemma writers_ok_keeps:
  assumes "writers_ok S ws dk" and "keeps_others S ss dk dk'" and "fst ` set ws \<inter> ss = {}"
  shows "writers_ok S ws dk'" and "\<forall>(s, w)\<in>set ws. history w dk' = history w dk"
proof -
  have "w_ok w dk' \<and> history w dk' = history w dk" if "(s, w) \<in> set ws" for s w
  proof -
    have "writer_of S s w" "w_ok w dk" "s \<notin> ss" using assms(1,3) that by (force simp: writers_ok_def)+
    with keeps_othersD [OF assms(2)] show ?thesis by blast
  qed
  then show "writers_ok S ws dk'" "\<forall>(s, w)\<in>set ws. history w dk' = history w dk"
    using assms(1) by (auto simp: writers_ok_def)
qed

text \<open>Two lists of writers with the same histories.\<close>

definition same_histories :: "(service_name, log_writer) btmap \<Rightarrow> disk \<Rightarrow> (service_name, log_writer) btmap \<Rightarrow> disk \<Rightarrow> bool" where
  "same_histories ws dk ws' dk' \<longleftrightarrow>
     list_all2 (\<lambda>(s, w) (s', w'). s' = s \<and> history w' dk' = history w dk \<and> lw_buffer w' = []) ws ws'"

lemma same_histories_keys: "same_histories ws dk ws' dk' \<Longrightarrow> map fst ws' = map fst ws"
  unfolding same_histories_def by (induction ws ws' rule: list_all2_induct) auto

lemma same_histories_get:
  assumes "same_histories ws dk ws' dk'"
  shows "case bt_get ws s of
      None \<Rightarrow> bt_get ws' s = None
    | Some w \<Rightarrow> \<exists>w'. bt_get ws' s = Some w' \<and> history w' dk' = history w dk \<and> lw_buffer w' = []"
  using assms unfolding same_histories_def
  by (induction ws ws' rule: list_all2_induct) (auto simp: bt_get_Cons split: option.splits if_splits)

lemma flush_writers_ok:
  assumes "writers_ok S ws dk" and "flush_writers ws dk = (m, ws', dk')" and "dk_ok dk"
  shows "m = None \<and> dk_ok dk' \<and> writers_ok S ws' dk' \<and> same_histories ws dk ws' dk'
    \<and> keeps_others S (fst ` set ws) dk dk'"
  using assms
proof (induction ws arbitrary: dk m ws' dk')
  case Nil
  then show ?case by (simp add: writers_ok_def same_histories_def keeps_others_def)
next
  case (Cons e ws)
  obtain s w where e: "e = (s, w)" by (cases e)
  note wo = Cons.prems(1) [unfolded e writers_ok_Cons]
  have s: "\<not> is_absolute s" "lw_path w = file_for S s" using wo by (simp_all add: writer_of_def)
  obtain res w1 dk1 where f: "lw_flush w dk = (res, w1, dk1)" by (metis prod_cases3)
  have at: "w_at w dk" using wo by (simp add: w_ok_def)
  note fl = lw_flush_flushed [OF at f]
  have w1: "w_ok w1 dk1" "writer_of S s w1" "history w1 dk1 = history w dk" "lw_buffer w1 = []" "dk_ok dk1"
    using fl wo by (auto simp: flushed_def w_at_def w_ok_def writer_of_def same_log_def)
  have k1: "keeps_others S {s} dk dk1"
    using fl s w1(5) by (intro spares_others) (simp_all add: flushed_def)
  have rest: "writers_ok S ws dk1" "\<forall>(t, v)\<in>set ws. history v dk1 = history v dk"
    by (rule writers_ok_keeps [OF _ k1]; use wo in auto)+
  obtain m2 ws2 dk2 where g: "flush_writers ws dk1 = (m2, ws2, dk2)" by (metis prod_cases3)
  note ih = Cons.IH [OF rest(1) g w1(5)]
  have own: "w_ok w1 dk2" "history w1 dk2 = history w1 dk1"
    using keeps_othersD [OF _ w1(2,1), of "fst ` set ws" dk2] ih wo by auto
  have sh: "same_histories ws dk ws2 dk2"
    using ih rest(2) unfolding same_histories_def
    by (auto elim!: list_all2_mono [rotated] simp: list_all2_conv_all_nth case_prod_beta all_set_conv_all_nth)
  have keys: "fst ` set ws2 = fst ` set ws"
    using same_histories_keys ih by (metis list.set_map)
  have "m = None" "ws' = (s, w1) # ws2" "dk' = dk2"
    using Cons.prems(2) e f g fl ih by (simp_all add: Let_def)
  moreover have "writers_ok S ((s, w1) # ws2) dk2"
    unfolding writers_ok_Cons using ih own w1(2) wo keys by simp
  moreover have "same_histories ((s, w) # ws) dk ((s, w1) # ws2) dk2"
    using sh own w1(3,4) by (simp add: same_histories_def)
  moreover have "keeps_others S (fst ` set (e # ws)) dk dk2"
    by (rule keeps_others_trans [OF k1]) (use ih e in auto)
  ultimately show ?case using ih e by simp
qed


lemma lr_ok_writers: "lr_ok r dk \<longleftrightarrow> dk_ok dk \<and> writers_ok (lr_settings r) (lr_writers r) dk"
  by (auto simp: lr_ok_def writers_ok_def bt_get_eq_iff)

text \<open>A flush puts the history on the disk.\<close>

definition lr_flushed :: "log_router \<Rightarrow> bool" where
  "lr_flushed r \<longleftrightarrow> (\<forall>s w. bt_get (lr_writers r) s = Some w \<longrightarrow> lw_buffer w = [])"

lemma lr_flush_ok:
  assumes "lr_ok r dk" and "lr_flush r dk = (m, r', dk')"
  shows "m = None \<and> lr_ok r' dk' \<and> lr_settings r' = lr_settings r \<and> lr_excluded r' = lr_excluded r \<and> lr_flushed r'
    \<and> (\<forall>t. \<not> is_absolute t \<longrightarrow> lr_history r' dk' t = lr_history r dk t)"
proof -
  let ?S = "lr_settings r"
  obtain f ws dk1 where fw: "flush_writers (lr_writers r) dk = (f, ws, dk1)" by (metis prod_cases3)
  have ok: "dk_ok dk" "writers_ok ?S (lr_writers r) dk" using assms(1) by (simp_all add: lr_ok_writers)
  note fl = flush_writers_ok [OF ok(2) fw ok(1)]
  have eq: "m = None" "r' = r\<lparr> lr_writers := ws \<rparr>" "dk' = dk1"
    using assms(2) fw fl by (simp_all add: lr_flush_def Let_def)
  note get = same_histories_get [of "lr_writers r" dk ws dk1]
  have "lr_history r' dk' t = lr_history r dk t" if "\<not> is_absolute t" for t
  proof (cases "bt_get (lr_writers r) t")
    case None
    then have "t \<notin> fst ` set (lr_writers r)" by (simp add: bt_get_dom)
    with fl that have "service_files ?S dk1 t = service_files ?S dk t" by (simp add: keeps_others_def)
    with None get [of t] fl eq show ?thesis by (simp add: lr_history_def)
  next
    case (Some w)
    with get [of t] fl eq show ?thesis by (auto simp: lr_history_def)
  qed
  moreover have "lr_flushed r'"
    unfolding lr_flushed_def eq
  proof (intro allI impI)
    fix s w assume "bt_get (lr_writers (r\<lparr> lr_writers := ws \<rparr>)) s = Some w"
    with get [of s] fl show "lw_buffer w = []" by (auto split: option.splits)
  qed
  ultimately show ?thesis using fl eq by (simp add: lr_ok_writers)
qed

lemma history_flushed:
  assumes "w_ok w dk" and "lw_buffer w = []"
  shows "history w dk = files (lw_path w) (lw_max_files w) dk"
  using assms by (simp add: history_def files_Cons content_def w_ok_def w_at_def)

lemma lr_history_flushed:
  assumes "lr_ok r dk" and "lr_flushed r"
  shows "lr_history r dk s = service_files (lr_settings r) dk s"
  using assms history_flushed
  by (auto simp: lr_history_def lr_ok_def lr_flushed_def writer_of_def service_files_def split: option.split)

lemma drop_writers_flushed:
  assumes "lr_ok r dk" and "lr_flushed r"
  shows "drop_writers r dk = dk"
proof -
  have empty: "lw_buffer w = []" if "(s, w) \<in> set (lr_writers r)" for s w
    using assms that by (auto simp: lr_ok_def lr_flushed_def bt_get_eq_iff)
  have "fold (\<lambda>(_, w). lw_drop w) ws dk = dk" if "set ws \<subseteq> set (lr_writers r)" for ws
    using that by (induction ws) (auto simp: lw_drop_def buf_flush_def empty)
  then show ?thesis by (simp add: drop_writers_def)
qed

section \<open>The sink\<close>

definition sk_history :: "log_sink \<Rightarrow> service_name \<Rightarrow> string option list" where
  "sk_history sk = lr_history (sk_router sk) (sk_disk sk)"

text \<open>The lines of a service among the entries, in their order.\<close>

definition lines_of_service :: "service_name \<Rightarrow> log_entry list \<Rightarrow> string list" where
  "lines_of_service s es = map snd (filter (\<lambda>e. fst e = s) es)"

definition sk_ok :: "log_settings \<Rightarrow> service_name set \<Rightarrow> log_sink \<Rightarrow> bool" where
  "sk_ok S ex sk \<longleftrightarrow> lr_ok (sk_router sk) (sk_disk sk) \<and> lr_settings (sk_router sk) = S \<and> lr_excluded (sk_router sk) = ex
     \<and> (\<forall>e\<in>set (sk_queue sk). \<not> is_absolute (fst e)) \<and> length (sk_queue sk) \<le> queue_capacity \<and> sk_problem sk = None"

text \<open>What the files of a service will be when the queue has been written.\<close>

definition sk_future :: "log_settings \<Rightarrow> service_name set \<Rightarrow> log_sink \<Rightarrow> service_name \<Rightarrow> string option list" where
  "sk_future S ex sk s =
     (if s \<in> ex then sk_history sk s else fold (spec_record S) (lines_of_service s (sk_queue sk)) (sk_history sk s))"

lemma sk_queue_kept [simp]: "sk_queue (sk_write e sk) = sk_queue sk" "sk_queue (sk_flush sk) = sk_queue sk"
  by (simp_all add: sk_write_def sk_flush_def sk_remember_def case_prod_beta Let_def split: option.split)

lemma sk_write_ok:
  assumes "sk_ok S ex sk" and "\<not> is_absolute (fst e)"
  shows "sk_ok S ex (sk_write e sk) \<and> sk_queue (sk_write e sk) = sk_queue sk
    \<and> (\<forall>t. \<not> is_absolute t \<longrightarrow> sk_history (sk_write e sk) t =
          (if t = fst e \<and> t \<notin> ex then spec_record S (snd e) (sk_history sk t) else sk_history sk t))"
proof -
  obtain m r dk where rec: "lr_record (fst e) (snd e) (sk_router sk) (sk_disk sk) = (m, r, dk)" by (metis prod_cases3)
  have "lr_ok (sk_router sk) (sk_disk sk)" using assms(1) by (simp add: sk_ok_def)
  from lr_record_ok [OF this assms(2) rec] assms(1) rec show ?thesis
    by (auto simp: sk_write_def sk_remember_def sk_ok_def sk_history_def)
qed

lemma sk_flush_ok:
  assumes "sk_ok S ex sk"
  shows "sk_ok S ex (sk_flush sk) \<and> sk_queue (sk_flush sk) = sk_queue sk \<and> lr_flushed (sk_router (sk_flush sk))
    \<and> (\<forall>t. \<not> is_absolute t \<longrightarrow> sk_history (sk_flush sk) t = sk_history sk t)"
proof -
  obtain m r dk where fl: "lr_flush (sk_router sk) (sk_disk sk) = (m, r, dk)" by (metis prod_cases3)
  have "lr_ok (sk_router sk) (sk_disk sk)" using assms by (simp add: sk_ok_def)
  from lr_flush_ok [OF this fl] assms fl show ?thesis
    by (auto simp: sk_flush_def sk_remember_def sk_ok_def sk_history_def)
qed

lemma pump_turn_ok:
  assumes "sk_ok S ex sk"
  shows "sk_ok S ex (pump_turn sk) \<and> (\<forall>t. \<not> is_absolute t \<longrightarrow> sk_future S ex (pump_turn sk) t = sk_future S ex sk t)"
proof (cases "sk_queue sk")
  case Nil
  let ?sk = "sk\<lparr> sk_parked := True \<rparr>"
  have "sk_ok S ex ?sk" using assms by (simp add: sk_ok_def)
  from sk_flush_ok [OF this] Nil assms show ?thesis
    by (auto simp: pump_turn_def sk_future_def sk_history_def)
next
  case (Cons e es)
  let ?sk = "sk\<lparr> sk_queue := es, sk_parked := False \<rparr>"
  have "sk_ok S ex ?sk" "\<not> is_absolute (fst e)" using assms Cons by (simp_all add: sk_ok_def)
  from sk_write_ok [OF this] Cons show ?thesis
    by (auto simp: pump_turn_def sk_future_def sk_history_def lines_of_service_def)
qed

text \<open>The entries that the queue takes in a run.\<close>

fun accepted :: "sink_act list \<Rightarrow> log_sink \<Rightarrow> log_entry list" where
  "accepted [] sk = []"
| "accepted (act # acts) sk =
     (case act of
        SK_Record s line \<Rightarrow> if length (sk_queue sk) < queue_capacity then [(s, line)] else []
      | SK_Pump \<Rightarrow> []) @ accepted acts (sink_step act sk)"

lemma sk_record_ok:
  assumes "sk_ok S ex sk" and "\<not> is_absolute s"
  shows "sk_ok S ex (snd (sk_record s line sk))
    \<and> (\<forall>t. sk_future S ex (snd (sk_record s line sk)) t =
         (if length (sk_queue sk) < queue_capacity \<and> t = s \<and> t \<notin> ex then spec_record S line (sk_future S ex sk t)
          else sk_future S ex sk t))"
  using assms
  by (auto simp: sk_record_def sk_take_problem_def Let_def sk_ok_def sk_future_def sk_history_def lines_of_service_def)

lemma fold_sink_ok:
  assumes "sk_ok S ex sk" and "\<forall>s line. SK_Record s line \<in> set acts \<longrightarrow> \<not> is_absolute s"
  shows "sk_ok S ex (fold sink_step acts sk)
    \<and> (\<forall>t. \<not> is_absolute t \<longrightarrow> sk_future S ex (fold sink_step acts sk) t =
          (if t \<in> ex then sk_future S ex sk t
           else fold (spec_record S) (lines_of_service t (accepted acts sk)) (sk_future S ex sk t)))"
  using assms
proof (induction acts arbitrary: sk)
  case Nil
  then show ?case by (simp add: lines_of_service_def)
next
  case (Cons act acts)
  have rest: "\<forall>s line. SK_Record s line \<in> set acts \<longrightarrow> \<not> is_absolute s" using Cons.prems(2) by auto
  note ih = Cons.IH [OF _ rest]
  show ?case
  proof (cases act)
    case (SK_Record s line)
    have s: "\<not> is_absolute s" using Cons.prems(2) SK_Record by simp
    note r = sk_record_ok [OF Cons.prems(1) s, of line]
    from ih [of "snd (sk_record s line sk)"] r SK_Record show ?thesis
      by (auto simp: lines_of_service_def)
  next
    case SK_Pump
    note p = pump_turn_ok [OF Cons.prems(1)]
    from ih [of "pump_turn sk"] p SK_Pump show ?thesis
      by (auto simp: lines_of_service_def)
  qed
qed

lemma fold_write_ok:
  assumes "sk_ok S ex sk" and "\<forall>e\<in>set es. \<not> is_absolute (fst e)"
  shows "sk_ok S ex (fold sk_write es sk)
    \<and> (\<forall>t. \<not> is_absolute t \<longrightarrow> sk_history (fold sk_write es sk) t =
          (if t \<in> ex then sk_history sk t else fold (spec_record S) (lines_of_service t es) (sk_history sk t)))"
  using assms
proof (induction es arbitrary: sk)
  case Nil
  then show ?case by (simp add: lines_of_service_def)
next
  case (Cons e es)
  have e: "\<not> is_absolute (fst e)" using Cons.prems(2) by simp
  note w = sk_write_ok [OF Cons.prems(1) e]
  from Cons.IH [of "sk_write e sk"] w Cons.prems(2) show ?case
    by (auto simp: lines_of_service_def)
qed

lemma sk_shutdown_ok:
  assumes "sk_ok S ex sk"
  shows "fst (sk_shutdown sk) = None
    \<and> (\<forall>t. \<not> is_absolute t \<longrightarrow> service_files S (snd (sk_shutdown sk)) t = sk_future S ex sk t)"
proof -
  let ?sk = "sk\<lparr> sk_queue := [] \<rparr>"
  let ?w = "fold sk_write (sk_queue sk) ?sk"
  have ok: "sk_ok S ex ?sk" "\<forall>e\<in>set (sk_queue sk). \<not> is_absolute (fst e)" using assms by (simp_all add: sk_ok_def)
  note w = fold_write_ok [OF ok]
  have "sk_ok S ex ?w" using w by blast
  note f = sk_flush_ok [OF this]
  let ?f = "sk_flush ?w"
  have lr: "lr_ok (sk_router ?f) (sk_disk ?f)" "lr_flushed (sk_router ?f)" "lr_settings (sk_router ?f) = S" "sk_problem ?f = None"
    using f by (simp_all add: sk_ok_def)
  have "snd (sk_shutdown sk) = sk_disk ?f" "fst (sk_shutdown sk) = None"
    using drop_writers_flushed [OF lr(1,2)] lr(4) by (simp_all add: sk_shutdown_def Let_def)
  moreover have "service_files S (sk_disk ?f) t = sk_history ?f t" for t
    using lr_history_flushed [OF lr(1,2), of t] lr(3) by (simp add: sk_history_def)
  moreover have "sk_history ?f t = sk_future S ex sk t" if "\<not> is_absolute t" for t
    using f w that by (simp add: sk_future_def sk_history_def)
  ultimately show ?thesis by simp
qed

lemma sk_spawn_ok:
  assumes "dk_ok dk"
  shows "sk_ok S ex (sk_spawn (lr_new S ex) dk)" and "sk_future S ex (sk_spawn (lr_new S ex) dk) t = service_files S dk t"
  using assms by (simp_all add: sk_ok_def sk_spawn_def lr_new_def lr_ok_def sk_future_def sk_history_def lr_history_def lines_of_service_def)

section \<open>Properties\<close>

text \<open>C22: Every line that the queue accepts reaches its file: however the callers and the writer
  interleave, after the shutdown the files of each service are those that result from writing its
  accepted lines one by one, in their order, into a rotating set of files; a service that opted out
  has its files untouched, and nothing is reported on a disk without errors.\<close>

theorem accepted_lines_are_written:
  assumes "dk_ok dk" and "\<forall>s line. SK_Record s line \<in> set acts \<longrightarrow> \<not> is_absolute s" and "\<not> is_absolute service"
  shows "fst (sk_shutdown (fold sink_step acts (sk_spawn (lr_new settings excluded) dk))) = None
    \<and> service_files settings (snd (sk_shutdown (fold sink_step acts (sk_spawn (lr_new settings excluded) dk)))) service =
        (if service \<in> excluded then service_files settings dk service
         else fold (spec_record settings)
           (lines_of_service service (accepted acts (sk_spawn (lr_new settings excluded) dk)))
           (service_files settings dk service))"
proof -
  note start = sk_spawn_ok [OF assms(1), of settings excluded]
  note run = fold_sink_ok [OF start(1) assms(2)]
  from run have "sk_ok settings excluded (fold sink_step acts (sk_spawn (lr_new settings excluded) dk))" by blast
  from sk_shutdown_ok [OF this] run start(2) assms(3) show ?thesis by simp
qed

definition empty_disk :: disk where
  "empty_disk = \<lparr> dk_names = Map.empty, dk_data = (\<lambda>_. []), dk_next = 0, dk_answers = [] \<rparr>"

definition small_logs :: log_settings where
  "small_logs = \<lparr> ls_dir = ''/logs'', ls_max_size = 8, ls_max_files = 1 \<rparr>"

definition example_acts :: "sink_act list" where
  "example_acts = [SK_Record ''db'' ''one'', SK_Pump, SK_Record ''api'' ''x'', SK_Record ''db'' ''two'', SK_Record ''db'' ''three'']"

lemma example_acts_facts:
  "dk_ok empty_disk" "service_files small_logs empty_disk ''db'' = [None, None]"
  "\<forall>s line. SK_Record s line \<in> set example_acts \<longrightarrow> \<not> is_absolute s" "\<not> is_absolute ''db''"
  "lines_of_service ''db'' (accepted example_acts (sk_spawn (lr_new small_logs {''web''}) empty_disk)) = [''one'', ''two'', ''three'']"
  by (simp_all add: dk_ok_def empty_disk_def service_files_def files_def small_logs_def example_acts_def is_absolute_def
      starts_with_def sk_record_def sk_take_problem_def pump_turn_def sk_spawn_def lines_of_service_def queue_capacity_def)

theorem accepted_lines_are_written_witness:
  "service_files small_logs
     (snd (sk_shutdown (fold sink_step example_acts (sk_spawn (lr_new small_logs {''web''}) empty_disk)))) ''db''
   = [Some (''three'' @ [CHR 10]), Some (''one'' @ [CHR 10] @ ''two'' @ [CHR 10])]"
  using accepted_lines_are_written [OF example_acts_facts(1,3,4), of small_logs "{''web''}"]
  by (simp add: example_acts_facts(2,5) spec_record_def) (simp add: small_logs_def)

section \<open>What the rotation keeps\<close>

definition log_line :: "string \<Rightarrow> string" where
  "log_line line = line @ [CHR 10]"

text \<open>The text of the files, the oldest first.\<close>

definition log_text :: "string option list \<Rightarrow> string" where
  "log_text h = concat (map (\<lambda>f. case f of Some s \<Rightarrow> s | None \<Rightarrow> []) (rev h))"

definition whole_lines :: "string list \<Rightarrow> string" where
  "whole_lines ls = concat (map log_line ls)"

text \<open>The files of a service are made of whole lines: their text is that of the lines \<open>ls\<close> cut into
  files, each within the limit unless it holds a single line.\<close>

definition log_files :: "nat \<Rightarrow> string list list \<Rightarrow> string option list \<Rightarrow> bool" where
  "log_files max_size parts h \<longleftrightarrow>
     list_all2 (\<lambda>ls f. (case f of None \<Rightarrow> ls = [] | Some s \<Rightarrow> s = whole_lines ls)
       \<and> (length (whole_lines ls) \<le> max_size \<or> length ls \<le> 1)) parts h"

lemma whole_lines_simps [simp]:
  "whole_lines [] = []" "whole_lines [l] = log_line l" "whole_lines (ls @ [l]) = whole_lines ls @ log_line l"
  "whole_lines (xs @ ys) = whole_lines xs @ whole_lines ys"
  by (simp_all add: whole_lines_def)

lemma whole_lines_empty [simp]: "whole_lines ls = [] \<longleftrightarrow> ls = []"
  by (cases ls) (simp_all add: whole_lines_def log_line_def)

lemma log_files_step:
  assumes "log_files max_size parts h" and "length h = Suc max_files"
  shows "\<exists>parts'. log_files max_size parts' (spec_write max_size max_files line h)
    \<and> length (spec_write max_size max_files line h) = Suc max_files
    \<and> suffix (concat (rev parts')) (concat (rev parts) @ [line]) \<and> line \<in> set (hd parts')"
proof -
  obtain f rest where h: "h = f # rest" using assms(2) by (cases h) auto
  then obtain ls parts1 where p: "parts = ls # parts1" using assms(1) by (cases parts) (auto simp: log_files_def)
  have len: "length rest = max_files" using assms(2) h by simp
  have rest: "log_files max_size parts1 rest" using assms(1) h p by (simp add: log_files_def)
  have hd: "(case f of None \<Rightarrow> ls = [] | Some s \<Rightarrow> s = whole_lines ls)" "length (whole_lines ls) \<le> max_size \<or> length ls \<le> 1"
    using assms(1) h p by (simp_all add: log_files_def)
  show ?thesis
  proof (cases "ls \<noteq> [] \<and> max_size < length (whole_lines ls) + (length line + 1)")
    case True
    then have f: "f = Some (whole_lines ls)" using hd(1) by (cases f) auto
    have w: "spec_write max_size max_files line h = Some (log_line line) # take max_files h"
      using True f h by (simp add: log_line_def)
    let ?parts = "[line] # take max_files parts"
    have "log_files max_size ?parts (Some (log_line line) # take max_files h)"
      using assms(1) by (simp add: log_files_def list_all2_takeI whole_lines_def)
    moreover have "concat (rev parts) = concat (rev (drop max_files parts)) @ concat (rev (take max_files parts))"
      by (metis append_take_drop_id concat_append rev_append)
    then have "suffix (concat (rev ?parts)) (concat (rev parts) @ [line])" by (simp add: suffix_def)
    moreover have "length (Some (log_line line) # take max_files h) = Suc max_files" using assms(2) by simp
    ultimately show ?thesis unfolding w by (intro exI [of _ ?parts]) simp
  next
    case False
    let ?parts = "(ls @ [line]) # parts1"
    have w: "spec_write max_size max_files line h = Some (whole_lines ls @ log_line line) # rest"
      using False hd(1) h by (cases f) (auto simp: log_line_def)
    have "log_files max_size ?parts (Some (whole_lines ls @ log_line line) # rest)"
      using rest False by (auto simp: log_files_def log_line_def)
    moreover have "suffix (concat (rev ?parts)) (concat (rev parts) @ [line])" using p by simp
    ultimately show ?thesis unfolding w using len by (intro exI [of _ ?parts]) simp
  qed
qed

lemma log_files_fold:
  assumes "log_files max_size parts h" and "length h = Suc max_files"
  shows "\<exists>parts'. log_files max_size parts' (fold (spec_write max_size max_files) lines h)
    \<and> length (fold (spec_write max_size max_files) lines h) = Suc max_files
    \<and> suffix (concat (rev parts')) (concat (rev parts) @ lines) \<and> (lines \<noteq> [] \<longrightarrow> last lines \<in> set (hd parts'))"
proof (induction lines rule: rev_induct)
  case Nil
  show ?case using assms by (intro exI [of _ parts]) (simp add: suffix_def)
next
  case (snoc line lines)
  then obtain parts1 where p: "log_files max_size parts1 (fold (spec_write max_size max_files) lines h)"
    "length (fold (spec_write max_size max_files) lines h) = Suc max_files"
    "suffix (concat (rev parts1)) (concat (rev parts) @ lines)" by blast
  from log_files_step [OF p(1,2), of line] obtain parts2 where q:
    "log_files max_size parts2 (fold (spec_write max_size max_files) (lines @ [line]) h)"
    "length (fold (spec_write max_size max_files) (lines @ [line]) h) = Suc max_files"
    "suffix (concat (rev parts2)) (concat (rev parts1) @ [line])" "line \<in> set (hd parts2)" by auto
  have "suffix (concat (rev parts1) @ [line]) (concat (rev parts) @ lines @ [line])"
    using p(3) by (auto simp: suffix_def)
  with q(3) have "suffix (concat (rev parts2)) (concat (rev parts) @ lines @ [line])" by (rule suffix_order.trans)
  with q(1,2,4) show ?case by (intro exI [of _ parts2]) simp
qed

text \<open>C23: The files of a service always hold the newest of its lines, whole and in order: started
  where the service has no log file yet, on a disk that answers every call, after any run of the
  sink the lines that the queue accepted end with those in the files, cut between lines, and the
  last line is among them; a file exceeds \<open>max_size\<close> only when it is a single line that is too long
  by itself; and the run makes no rotated file with a number above \<open>max_files\<close>: the oldest one is
  dropped.\<close>

theorem logs_hold_the_newest_lines:
  assumes "dk_ok dk" and "\<forall>s line. SK_Record s line \<in> set acts \<longrightarrow> \<not> is_absolute s" and "\<not> is_absolute service"
    and "service \<notin> excluded" and "\<forall>f\<in>set (service_files settings dk service). f = None"
    and "lines = lines_of_service service (accepted acts (sk_spawn (lr_new settings excluded) dk))"
    and "(m, dk') = sk_shutdown (fold sink_step acts (sk_spawn (lr_new settings excluded) dk))"
    and "h = service_files settings dk' service"
  shows "(\<exists>parts. log_files (unat (ls_max_size settings)) parts h \<and> length h = Suc (unat (ls_max_files settings))
      \<and> suffix (concat (rev parts)) lines \<and> (lines \<noteq> [] \<longrightarrow> last lines \<in> set (hd parts)))
    \<and> (\<forall>k > unat (ls_max_files settings). dk_names dk (rotated_path (file_for settings service) k) = None \<longrightarrow>
         dk_names dk' (rotated_path (file_for settings service) k) = None)"
proof -
  let ?h = "service_files settings dk service" and ?m = "unat (ls_max_files settings)"
  note start = sk_spawn_ok [OF assms(1), of settings excluded]
  note run = fold_sink_ok [OF start(1) assms(2)]
  from run have sk: "sk_ok settings excluded (fold sink_step acts (sk_spawn (lr_new settings excluded) dk))" by blast
  have dk': "dk' = snd (sk_shutdown (fold sink_step acts (sk_spawn (lr_new settings excluded) dk)))"
    using assms(7) by (metis snd_conv)
  from sk_shutdown_ok [OF sk] run start(2) assms(3,4,6,8) have h: "h = fold (spec_record settings) lines ?h"
    unfolding dk' by simp
  have none: "?h = replicate (Suc ?m) None"
    using assms(5) by (intro replicate_eqI) (auto simp: service_files_def)
  have "log_files (unat (ls_max_size settings)) (replicate (Suc ?m) []) ?h"
    unfolding none log_files_def by (rule list_all2_all_nthI) (auto simp: nth_Cons' simp del: replicate_Suc)
  from log_files_fold [OF this, of ?m lines] none
  have "\<exists>parts. log_files (unat (ls_max_size settings)) parts h \<and> length h = Suc ?m
      \<and> suffix (concat (rev parts)) lines \<and> (lines \<noteq> [] \<longrightarrow> last lines \<in> set (hd parts))"
    unfolding h spec_record_def [abs_def] by simp
  moreover have "dk_names dk' (rotated_path (file_for settings service) k) = None"
    if "?m < k" "dk_names dk (rotated_path (file_for settings service) k) = None" for k
    using no_file_beyond [OF assms(2,3) that(1)] that(2) unfolding dk' by blast
  ultimately show ?thesis by blast
qed

theorem logs_hold_the_newest_lines_witness:
  "\<exists>parts. log_files 8 parts (service_files small_logs
       (snd (sk_shutdown (fold sink_step example_acts (sk_spawn (lr_new small_logs {''web''}) empty_disk)))) ''db'')
     \<and> suffix (concat (rev parts)) [''one'', ''two'', ''three''] \<and> ''three'' \<in> set (hd parts)"
proof -
  have none: "\<forall>f\<in>set (service_files small_logs empty_disk ''db''). f = None"
    by (simp add: example_acts_facts(2))
  have "''db'' \<notin> {''web''}" by simp
  from conjunct1 [OF logs_hold_the_newest_lines
      [OF example_acts_facts(1,3,4) this none refl prod.collapse refl]] show ?thesis
    unfolding example_acts_facts(5) by (auto simp: small_logs_def)
qed

end
