(* ===== verification/Wire.thy ===== *)
theory Wire
  imports Status Stack
begin

text \<open>
  The messages of the daemon socket: the types of the crate \<open>servicrab-protocol\<close>
  (\<open>request.rs\<close>, \<open>response.rs\<close>, \<open>frame.rs\<close>) and the translation of the runtime's values into them
  (\<open>servicrab-cli/src/wire.rs\<close>).  The rendering of a message as JSON and its parsing are those of
  serde; the \<open>type\<close> of a line is a parameter.
\<close>

section \<open>Protocol types\<close>

definition unknown_tag :: string where
  "unknown_tag = ''unknown''"

definition protocol_version :: u32 where
  "protocol_version = 1"

definition schema_version :: u32 where
  "schema_version = 1"

datatype wire_state =
    WS_Pending | WS_Starting | WS_Running | WS_Backoff | WS_Stopping | WS_Stopped | WS_Exited
  | WS_Failed | WS_Unknown

fun show_wire_state :: "wire_state \<Rightarrow> string" where
  "show_wire_state WS_Pending = ''pending''"
| "show_wire_state WS_Starting = ''starting''"
| "show_wire_state WS_Running = ''running''"
| "show_wire_state WS_Backoff = ''backoff''"
| "show_wire_state WS_Stopping = ''stopping''"
| "show_wire_state WS_Stopped = ''stopped''"
| "show_wire_state WS_Exited = ''exited''"
| "show_wire_state WS_Failed = ''failed''"
| "show_wire_state WS_Unknown = unknown_tag"

datatype wire_health = WH_None | WH_Starting | WH_Healthy | WH_Unhealthy | WH_Unknown

fun show_wire_health :: "wire_health \<Rightarrow> string" where
  "show_wire_health WH_None = ''-''"
| "show_wire_health WH_Starting = ''starting''"
| "show_wire_health WH_Healthy = ''healthy''"
| "show_wire_health WH_Unhealthy = ''unhealthy''"
| "show_wire_health WH_Unknown = unknown_tag"

record service_info =
  si_name :: string
  si_state :: wire_state
  si_pgid :: "int option"
  si_pid :: "int option"
  si_uptime_secs :: "nat option"
  si_restarts :: u32
  si_health :: wire_health
  si_message :: "string option"

datatype wire_stream = WT_Stdout | WT_Stderr | WT_Unknown

fun show_wire_stream :: "wire_stream \<Rightarrow> string" where
  "show_wire_stream WT_Stdout = ''stdout''"
| "show_wire_stream WT_Stderr = ''stderr''"
| "show_wire_stream WT_Unknown = unknown_tag"

datatype wire_event =
    WE_State wire_state
  | WE_Started int
  | WE_Log wire_stream string
  | WE_Exited string "int option" "int option" u64
  | WE_Backoff u64 u32
  | WE_Skipped string
  | WE_Stopping string
  | WE_Finished string
  | WE_Healthy
  | WE_HealthProbeFailed string u32 u32
  | WE_Unhealthy string
  | WE_WatchTriggered string nat
  | WE_WatchFailed string
  | WE_WatchTruncated nat
  | WE_LogLinesDropped nat
  | WE_Failed string
  | WE_Unknown

datatype error_code =
    EC_UnknownService | EC_Busy | EC_NotRunning | EC_AlreadyRunning | EC_ValidationFailed
  | EC_Unsupported | EC_Failed

fun show_error_code :: "error_code \<Rightarrow> string" where
  "show_error_code EC_UnknownService = ''unknown_service''"
| "show_error_code EC_Busy = ''busy''"
| "show_error_code EC_NotRunning = ''not_running''"
| "show_error_code EC_AlreadyRunning = ''already_running''"
| "show_error_code EC_ValidationFailed = ''validation_failed''"
| "show_error_code EC_Unsupported = ''unsupported''"
| "show_error_code EC_Failed = ''failed''"

record reload_changes =
  rc_added :: nat
  rc_changed :: nat
  rc_removed :: nat

definition changes_empty :: "reload_changes \<Rightarrow> bool" where
  "changes_empty c = (rc_added c = 0 \<and> rc_changed c = 0 \<and> rc_removed c = 0)"

datatype response =
    Resp_Ok "string option" "reload_changes option" "u32 option"
  | Resp_Pong string u32 "u32 option"
  | Resp_Status "service_info list"
  | Resp_Event string wire_event
  | Resp_Lagged nat
  | Resp_Error error_code string "string list"
  | Resp_Unknown

definition response_ok :: response where
  "response_ok = Resp_Ok None None None"

definition response_message :: "string \<Rightarrow> response" where
  "response_message message = Resp_Ok (Some message) None None"

definition response_error :: "error_code \<Rightarrow> string \<Rightarrow> response" where
  "response_error code message = Resp_Error code message []"

definition max_subscribe_services :: nat where
  "max_subscribe_services = 256"

text \<open>A set of names is its sorted list.\<close>

datatype request =
    Req_Ping "u32 option"
  | Req_Status
  | Req_Shutdown
  | Req_StartService string
  | Req_StopService string
  | Req_RestartService string
  | Req_Reload
  | Req_Subscribe "string list" bool
  | Req_Unknown

definition supported_requests :: "string list" where
  "supported_requests =
     [''ping'', ''status'', ''shutdown'', ''start_service'', ''stop_service'', ''restart_service'', ''reload'', ''subscribe'']"

definition request_ping :: request where
  "request_ping = Req_Ping (Some protocol_version)"

text \<open>The names after the largest are popped; \<open>names\<close> are those of the line.\<close>

definition bounded_services :: "string list \<Rightarrow> string list" where
  "bounded_services names = take max_subscribe_services (sort (remdups names))"

section \<open>Lines\<close>

text \<open>\<open>trim_end_matches(['\r', '\n'])\<close>.\<close>

definition trim_newlines :: "string \<Rightarrow> string" where
  "trim_newlines s = rev (dropWhile (\<lambda>c. c = CHR 13 \<or> c = CHR 10) (rev s))"

definition max_tag :: nat where
  "max_tag = 48"

text \<open>The first \<open>n\<close> characters of UTF-8 text: a byte \<open>10xxxxxx\<close> continues a character.\<close>

definition continues_char :: "char \<Rightarrow> bool" where
  "continues_char c = (128 \<le> (of_char c :: nat) \<and> (of_char c :: nat) < 192)"

fun take_chars :: "nat \<Rightarrow> string \<Rightarrow> string" where
  "take_chars n [] = []"
| "take_chars n (c # s) =
     (if continues_char c then c # take_chars n s
      else case n of 0 \<Rightarrow> [] | Suc m \<Rightarrow> c # take_chars m s)"

definition frame_tag :: "(string \<Rightarrow> string option) \<Rightarrow> string \<Rightarrow> string option" where
  "frame_tag type_of line = map_option (take_chars max_tag) (type_of (trim_newlines line))"

section \<open>Translation\<close>

fun to_wire_state :: "service_state \<Rightarrow> wire_state" where
  "to_wire_state Pending = WS_Pending"
| "to_wire_state Starting = WS_Starting"
| "to_wire_state Running = WS_Running"
| "to_wire_state Backoff = WS_Backoff"
| "to_wire_state Stopping = WS_Stopping"
| "to_wire_state Stopped = WS_Stopped"
| "to_wire_state Exited = WS_Exited"
| "to_wire_state Failed = WS_Failed"

fun to_wire_stream :: "log_stream \<Rightarrow> wire_stream" where
  "to_wire_stream Stdout = WT_Stdout"
| "to_wire_stream Stderr = WT_Stderr"

text \<open>\<open>as_millis() as u64\<close> of a duration in nanoseconds.\<close>

definition wire_millis :: "duration \<Rightarrow> u64" where
  "wire_millis d = of_nat (d div 1000000)"

fun to_wire_event :: "event_kind \<Rightarrow> wire_event" where
  "to_wire_event (EK_State s) = WE_State (to_wire_state s)"
| "to_wire_event (EK_Started pgid) = WE_Started pgid"
| "to_wire_event (EK_Log stream line) = WE_Log (to_wire_stream stream) line"
| "to_wire_event (EK_Exited reason uptime) =
     WE_Exited (show_exit_reason reason)
       (case reason of ER_Code code \<Rightarrow> Some code | _ \<Rightarrow> None)
       (case reason of ER_Signal sig \<Rightarrow> Some sig | _ \<Rightarrow> None)
       (wire_millis uptime)"
| "to_wire_event (EK_Backoff delay attempt) = WE_Backoff (wire_millis delay) attempt"
| "to_wire_event (EK_Skipped dependency) = WE_Skipped dependency"
| "to_wire_event (EK_Stopping reason) = WE_Stopping (show_shutdown_reason reason)"
| "to_wire_event (EK_Finished summary) = WE_Finished summary"
| "to_wire_event EK_Healthy = WE_Healthy"
| "to_wire_event (EK_HealthProbeFailed message consecutive retries) = WE_HealthProbeFailed message consecutive retries"
| "to_wire_event (EK_Unhealthy message) = WE_Unhealthy message"
| "to_wire_event (EK_WatchTriggered p changed) = WE_WatchTriggered p changed"
| "to_wire_event (EK_WatchFailed message) = WE_WatchFailed message"
| "to_wire_event (EK_WatchTruncated limit) = WE_WatchTruncated limit"
| "to_wire_event (EK_LogLinesDropped n) = WE_LogLinesDropped n"
| "to_wire_event (EK_Failed message) = WE_Failed message"

fun to_wire_health :: "health \<Rightarrow> wire_health" where
  "to_wire_health HealthNone = WH_None"
| "to_wire_health HealthStarting = WH_Starting"
| "to_wire_health HealthHealthy = WH_Healthy"
| "to_wire_health HealthUnhealthy = WH_Unhealthy"

definition to_wire_status :: "service_status \<Rightarrow> service_info" where
  "to_wire_status st =
     \<lparr> si_name = st_name st, si_state = to_wire_state (st_state st), si_pgid = st_pid st, si_pid = st_pid st,
       si_uptime_secs = map_option (\<lambda>d. d div nanos_per_sec) (st_uptime st), si_restarts = st_restarts st,
       si_health = to_wire_health (st_health st), si_message = st_message st \<rparr>"

text \<open>What a reader of the wire can tell: states and health come back, and nothing the runtime
  reports reads as unknown.\<close>

lemma to_wire_state_inj [simp]: "to_wire_state a = to_wire_state b \<longleftrightarrow> a = b"
  by (cases a; cases b) simp_all

lemma to_wire_state_known [simp]: "to_wire_state s \<noteq> WS_Unknown"
  by (cases s) simp_all

lemma to_wire_event_known [simp]: "to_wire_event k \<noteq> WE_Unknown"
  by (cases k) simp_all

lemma length_bounded_services: "length (bounded_services names) \<le> max_subscribe_services"
  by (simp add: bounded_services_def)

lemma count_take_chars: "length (filter (\<lambda>c. \<not> continues_char c) (take_chars n s)) \<le> n"
proof (induction n s rule: take_chars.induct)
  case (2 n c s)
  then show ?case by (cases n) auto
qed simp

end
