(* ===== verification/Stopped.thy ===== *)
theory Stopped
  imports Plan Envfile Paths Field_Checks
begin

text \<open>
  \<open>crates/servicrab-cli/src/daemon/stopped.rs\<close>: the services an operator stopped by hand, as a
  file next to the socket.  The file is its text, or \<open>None\<close> when it is missing or cannot be read;
  the mutex of the module makes each operation one step.
\<close>

section \<open>The file\<close>

type_synonym stopped_file = "string option"

definition version_line :: string where
  "version_line = ''# servicrab stopped v1''"

definition parse_stopped :: "string \<Rightarrow> string set" where
  "parse_stopped text =
     set (filter (\<lambda>line. line \<noteq> [] \<and> \<not> starts_with ''#'' line) (map trim (str_lines text)))"

definition read_stopped :: "stopped_file \<Rightarrow> string set" where
  "read_stopped f = (case f of None \<Rightarrow> {} | Some text \<Rightarrow> parse_stopped text)"

text \<open>A \<open>BTreeSet\<close> is walked in the order of its elements.\<close>

definition render_stopped :: "string set \<Rightarrow> string" where
  "render_stopped names =
     version_line @ [CHR 10] @ concat (map (\<lambda>name. name @ [CHR 10]) (sorted_list_of_set names))"

text \<open>\<open>write_atomically\<close>: \<open>problem\<close> is the first of its calls that fails; the rename comes last, so
  the old text stays.\<close>

definition write_atomically :: "path \<Rightarrow> string option \<Rightarrow> string \<Rightarrow> stopped_file \<Rightarrow> (string + unit) \<times> stopped_file" where
  "write_atomically p problem contents f =
     (case problem of
        None \<Rightarrow> (Inr (), Some contents)
      | Some e \<Rightarrow>
          (Inl (''could not write '' @ p @ '' (via ''
             @ (case path_parent p of Some d \<Rightarrow> d | None \<Rightarrow> ''.'') @ ''): '' @ e), f))"

definition record_stopped :: "path \<Rightarrow> string option \<Rightarrow> string \<Rightarrow> bool \<Rightarrow> stopped_file \<Rightarrow> (string + unit) \<times> stopped_file" where
  "record_stopped p problem service stopped f =
     (let names = read_stopped f;
          names' = (if stopped then insert service names else names - {service});
          changed = (if stopped then service \<notin> names else service \<in> names) in
      if \<not> changed then (Inr (), f) else write_atomically p problem (render_stopped names') f)"

section \<open>The start of a stack\<close>

definition reconcile :: "path \<Rightarrow> string option \<Rightarrow> config \<Rightarrow> stopped_file \<Rightarrow> (string + string set) \<times> stopped_file" where
  "reconcile p problem config f =
     (let remembered = read_stopped f in
      if remembered = {} then (Inr {}, f)
      else
        (let known = set (bt_keys (cfg_services config));
             kept = {name \<in> remembered. name \<in> known};
             dropped = {name \<in> remembered. name \<notin> known} in
         if dropped = {} then (Inr dropped, f)
         else if kept = {} then
           (case problem of
              None \<Rightarrow> (Inr dropped, None)
            | Some e \<Rightarrow> (Inl (''could not remove '' @ p @ '': '' @ e), f))
         else
           (case write_atomically p problem (render_stopped kept) f of
              (Inl e, f) \<Rightarrow> (Inl e, f)
            | (Inr _, f) \<Rightarrow> (Inr dropped, f))))"

definition stop_holds :: "config \<Rightarrow> service_name \<Rightarrow> bool" where
  "stop_holds config name =
     (case bt_get (cfg_services config) name of
        None \<Rightarrow> False
      | Some service \<Rightarrow> svc_restart service = UnlessStopped)"

definition held_back :: "config \<Rightarrow> service_name list \<Rightarrow> string set \<Rightarrow> service_name set" where
  "held_back config plan remembered =
     (let seeds = set (filter (stop_holds config) (filter (\<lambda>name. name \<in> remembered) plan)) in
      if seeds = {} then {} else with_dependents config plan seeds)"

section \<open>Reading back\<close>

definition plain_name :: "string \<Rightarrow> bool" where
  "plain_name n \<longleftrightarrow> n \<noteq> [] \<and> hd n \<noteq> CHR ''#'' \<and> (\<forall>c\<in>set n. graphic c)"

lemma name_char_graphic: "name_char c \<Longrightarrow> graphic c"
  by (auto simp: name_char_def graphic_def is_ascii_alphanumeric_def is_ascii_alphabetic_def is_ascii_digit_def
      less_eq_char_def)

lemma valid_name_plain: "valid_name k n \<Longrightarrow> plain_name n"
  using name_char_graphic
  by (auto simp: valid_name_def plain_name_def is_ascii_alphanumeric_def is_ascii_alphabetic_def is_ascii_digit_def
      less_eq_char_def)

lemma plain_line:
  assumes "\<forall>c\<in>set n. c \<noteq> CHR 10 \<and> c \<noteq> CHR 13"
  shows "str_lines (n @ CHR 10 # s) = n # str_lines s"
proof -
  have b: "byte 10 = CHR 10" "byte 13 = CHR 13" by (code_simp, code_simp)
  have "split_once (byte 10) (n @ CHR 10 # s) = Some (n, s)"
    using assms by (auto simp: split_once_Some b)
  moreover have "strip_suffix [byte 13] n = None"
    using assms by (cases "strip_suffix [byte 13] n") (auto simp: strip_suffix_Some b)
  ultimately show ?thesis by (simp add: str_lines.simps [of "n @ CHR 10 # s"] strip_cr_def)
qed

lemma graphic_line: "graphic c \<Longrightarrow> c \<noteq> CHR 10 \<and> c \<noteq> CHR 13"
  by (auto simp: graphic_def)

lemma names_lines:
  assumes "\<forall>n\<in>set ns. plain_name n"
  shows "str_lines (concat (map (\<lambda>name. name @ [CHR 10]) ns)) = ns"
  using assms
proof (induction ns)
  case Nil
  show ?case by (simp add: str_lines.simps)
next
  case (Cons n ns)
  then have "\<forall>c\<in>set n. c \<noteq> CHR 10 \<and> c \<noteq> CHR 13" using graphic_line by (auto simp: plain_name_def)
  with Cons show ?case by (simp add: plain_line)
qed

lemma plain_kept: "plain_name n \<Longrightarrow> trim n = n \<and> n \<noteq> [] \<and> \<not> starts_with ''#'' n"
  by (cases n) (auto simp: plain_name_def trim_all_graphic starts_with_def)

lemma parse_render:
  assumes "finite names" and "\<forall>n\<in>names. plain_name n"
  shows "parse_stopped (render_stopped names) = names"
proof -
  let ?ns = "sorted_list_of_set names"
  have ns: "set ?ns = names" using assms(1) by simp
  have "str_lines (render_stopped names) = version_line # ?ns"
    using plain_line [of version_line "concat (map (\<lambda>name. name @ [CHR 10]) ?ns)"] names_lines [of ?ns] assms
    by (simp add: render_stopped_def) (simp add: version_line_def)
  moreover have "trim version_line = version_line"
    by (rule trim_graphic) (simp add: version_line_def graphic_def)
  moreover have "starts_with ''#'' version_line" by (simp add: starts_with_def version_line_def)
  ultimately show ?thesis using plain_kept assms(2) ns by (auto simp: parse_stopped_def)
qed

lemma finite_read [simp]: "finite (read_stopped f)"
  by (simp add: read_stopped_def parse_stopped_def split: option.split)

lemma recorded:
  assumes "\<forall>n\<in>read_stopped f. plain_name n" and "plain_name service"
  shows "case record_stopped p problem service stopped f of
      (Inr _, f') \<Rightarrow> read_stopped f' = (if stopped then insert service (read_stopped f) else read_stopped f - {service})
    | (Inl _, f') \<Rightarrow> f' = f"
proof -
  let ?names = "if stopped then insert service (read_stopped f) else read_stopped f - {service}"
  have "parse_stopped (render_stopped ?names) = ?names"
    by (rule parse_render) (use assms in auto)
  then show ?thesis
    by (cases problem) (auto simp: record_stopped_def write_atomically_def Let_def read_stopped_def)
qed

section \<open>A memory of stops\<close>

text \<open>The interface that the daemon uses: reading gives a set of names, and recording that a service
  is stopped, or is not, changes this name and keeps the memory readable.\<close>

locale stop_memory =
  fixes known :: "'m \<Rightarrow> string set"
    and note_stop :: "string \<Rightarrow> bool \<Rightarrow> 'm \<Rightarrow> 'm"
    and readable :: "'m \<Rightarrow> bool"
    and nameable :: "string \<Rightarrow> bool"
  assumes known_note: "readable m \<Longrightarrow> nameable n \<Longrightarrow>
      known (note_stop n b m) = (if b then insert n (known m) else known m - {n})"
    and readable_note: "readable m \<Longrightarrow> nameable n \<Longrightarrow> readable (note_stop n b m)"
begin

definition note_all :: "(string \<times> bool) list \<Rightarrow> 'm \<Rightarrow> 'm" where
  "note_all log m = fold (\<lambda>(n, b). note_stop n b) log m"

lemma note_all_simps [simp]:
  "note_all [] m = m"
  "note_all ((n, b) # log) m = note_all log (note_stop n b m)"
  by (simp_all add: note_all_def)

text \<open>The last word on a service counts.\<close>

lemma last_word_counts:
  assumes "readable m" and "\<forall>(n, _)\<in>set log. nameable n"
  shows "readable (note_all log m)
    \<and> (x \<in> known (note_all log m) \<longleftrightarrow> (case map_of (rev log) x of Some b \<Rightarrow> b | None \<Rightarrow> x \<in> known m))"
  using assms
proof (induction log arbitrary: m)
  case (Cons e log)
  obtain n b where e: "e = (n, b)" by (cases e)
  from Cons.prems have ok: "readable (note_stop n b m)" "known (note_stop n b m) = (if b then insert n (known m) else known m - {n})"
    using known_note readable_note by (auto simp: e)
  from Cons.IH [OF ok(1)] Cons.prems(2) show ?case
    by (auto simp: e ok(2) map_add_def split: option.split)
qed simp

end

definition note_stopped :: "path \<Rightarrow> string \<Rightarrow> bool \<Rightarrow> stopped_file \<Rightarrow> stopped_file" where
  "note_stopped p service stopped f = snd (record_stopped p None service stopped f)"

definition plain_file :: "stopped_file \<Rightarrow> bool" where
  "plain_file f \<longleftrightarrow> (\<forall>n\<in>read_stopped f. plain_name n)"

lemma note_stopped_known:
  assumes "plain_file f" and "plain_name service"
  shows "read_stopped (note_stopped p service stopped f) =
    (if stopped then insert service (read_stopped f) else read_stopped f - {service})"
proof -
  have "\<exists>f'. record_stopped p None service stopped f = (Inr (), f')"
    by (simp add: record_stopped_def write_atomically_def Let_def)
  then obtain f' where "record_stopped p None service stopped f = (Inr (), f')" by blast
  with recorded [where f = f and p = p and problem = None and service = service and stopped = stopped] assms
  show ?thesis by (simp add: note_stopped_def plain_file_def)
qed

interpretation stops: stop_memory read_stopped "note_stopped p" plain_file plain_name
  by unfold_locales (auto simp: note_stopped_known plain_file_def split: if_splits)

section \<open>Who is held back\<close>

text \<open>The services held back at a start are exactly the planned ones that depend, directly or not,
  on a remembered service with \<open>restart = "unless-stopped"\<close>, these included.\<close>

lemma held_back_dependents:
  assumes "planned_config config" and "plan_stack config sel = Inr plan"
  shows "held_back config plan remembered =
     {n \<in> set plan. \<exists>s \<in> set plan. s \<in> remembered \<and> stop_holds config s \<and> (n, s) \<in> (depends config)\<^sup>*}"
proof -
  let ?seeds = "set (filter (stop_holds config) (filter (\<lambda>name. name \<in> remembered) plan))"
  show ?thesis
  proof (cases "?seeds = {}")
    case True
    then have "held_back config plan remembered = {}" by (simp add: held_back_def)
    with True show ?thesis by auto
  next
    case False
    then have "held_back config plan remembered = with_dependents config plan ?seeds"
      unfolding held_back_def Let_def by (rule if_not_P)
    also have "\<dots> = {n \<in> set plan. \<exists>s \<in> ?seeds \<inter> set plan. (n, s) \<in> (depends config)\<^sup>*}"
      by (rule transitive_dependents [OF assms])
    finally show ?thesis by auto
  qed
qed

definition stoppable_stack :: config where
  "stoppable_stack = example_stack\<lparr> cfg_services :=
     bt_insert ''db'' ((plain_service ''db'' [])\<lparr> svc_restart := UnlessStopped \<rparr>) (cfg_services example_stack) \<rparr>"

lemma stoppable_graph: "graph_of stoppable_stack = graph_of example_stack"
  by code_simp

lemma stoppable_planned: "planned_config stoppable_stack"
proof -
  have "bt_wf (cfg_services stoppable_stack)" "names_consistent stoppable_stack"
    "cfg_start_order stoppable_stack = cfg_start_order example_stack"
    by code_simp+
  with planned_example stoppable_graph show ?thesis by (simp add: planned_config_def)
qed

lemma stoppable_plan: "plan_stack stoppable_stack (selection_services [''web'']) = Inr [''db'', ''api'', ''web'']"
  by code_simp

end
