(* ===== verification/Server.thy ===== *)
theory Server
  imports Wire Stopped Filewatch Runtime Logs
begin

text \<open>
  \<open>crates/servicrab-cli/src/daemon/server.rs\<close>: the socket side of the daemon.  The record
  \<open>session\<close> is the struct of that name with what its handles reach: the channel to the supervisor
  is the list of the commands sent, the shutdown channel the list of the requests made, and the
  broadcast of events the feed of a subscriber.  A request is one step of the session, as
  \<open>reloading\<close> makes a reload and the mutexes the rest.  What a request meets outside (the
  supervisor's answer, the configuration file, the disk, the client reading its answer) is the
  record \<open>request_env\<close>.  \<open>Stack\<close> models which answers the supervisor gives.

  Serde's parsing of a line, and how errors and \<open>{:?}\<close> are printed, are fields of \<open>wire_codec\<close>.
\<close>

section \<open>Limits\<close>

definition max_frame :: nat where
  "max_frame = 65536"

definition max_connections :: nat where
  "max_connections = 64"

definition max_malformed :: u32 where
  "max_malformed = 3"

section \<open>The session\<close>

record daemon_options =
  do_no_restart :: bool
  do_profiles :: "string list"

definition daemon_selection :: "string list \<Rightarrow> selection" where
  "daemon_selection profiles = \<lparr> sel_services = [], sel_profiles = profiles \<rparr>"

record session =
  ses_registry :: status_registry
  ses_stop :: shutdown_requests
  ses_control :: "control list"
  ses_names :: "service_name list"
  ses_project :: string
  ses_pid :: u32
  ses_config_path :: path
  ses_profiles :: "string list"
  ses_stopped_path :: path
  ses_stopped :: stopped_file
  ses_events :: bool
  ses_watchers :: "(service_name \<times> watch_settings) list"

record wire_codec =
  wc_decode :: "string \<Rightarrow> string + request"
  wc_type_of :: "string \<Rightarrow> string option"
  wc_debug :: "string \<Rightarrow> string"
  wc_config_error :: "config_error \<Rightarrow> string"
  wc_runtime_error :: "runtime_error \<Rightarrow> string"

text \<open>The channel to the supervisor may be closed, the acknowledgement dropped, or answered.\<close>

datatype reply = RP_Gone | RP_Dropped | RP_Answer ack_answer

text \<open>What a subscriber's receiver yields until it is closed.\<close>

datatype feed_item = FI_Event service_event | FI_Lagged nat

record request_env =
  re_now :: instant
  re_reply :: reply
  re_config :: "config_error list + config \<times> config_warning list"
  re_problem :: "string option"
  re_written :: bool
  re_feed :: "(feed_item \<times> bool) list"

text \<open>A failed write is logged and the command still succeeds.\<close>

definition remember :: "request_env \<Rightarrow> string \<Rightarrow> bool \<Rightarrow> session \<Rightarrow> session" where
  "remember e service is_stopped s =
     s\<lparr> ses_stopped := snd (record_stopped (ses_stopped_path s) (re_problem e) service is_stopped (ses_stopped s)) \<rparr>"

definition respawn_watchers :: "config \<Rightarrow> service_name list \<Rightarrow> session \<Rightarrow> session" where
  "respawn_watchers config plan s =
     (if \<not> ses_events s then s else s\<lparr> ses_watchers := spawn_watchers config plan \<rparr>)"

definition session_shutdown :: "session \<Rightarrow> session" where
  "session_shutdown s = s\<lparr> ses_watchers := [], ses_events := False \<rparr>"

section \<open>Commands\<close>

fun refusal_code :: "control_refusal \<Rightarrow> error_code" where
  "refusal_code (CR_UnknownService s) = EC_UnknownService"
| "refusal_code (CR_Busy s) = EC_Busy"
| "refusal_code (CR_AlreadyRunning s) = EC_AlreadyRunning"

text \<open>A new acknowledgement channel has the number of the commands sent before.\<close>

definition send_control :: "(ack \<Rightarrow> control) \<Rightarrow> session \<Rightarrow> session" where
  "send_control build s = s\<lparr> ses_control := ses_control s @ [build (length (ses_control s))] \<rparr>"

definition command :: "wire_codec \<Rightarrow> request_env \<Rightarrow> string \<Rightarrow> (service_name \<Rightarrow> ack \<Rightarrow> control) \<Rightarrow> session \<Rightarrow> response \<times> session" where
  "command c e name build s =
     (case find (\<lambda>known. known = name) (ses_names s) of
        None \<Rightarrow>
          (response_error EC_UnknownService
             (''unknown service '' @ wc_debug c name @ ''; this daemon supervises: '' @ join '', '' (ses_names s)), s)
      | Some service \<Rightarrow>
          (case re_reply e of
             RP_Gone \<Rightarrow> (response_error EC_Failed ''the supervisor is no longer accepting commands'', s)
           | RP_Dropped \<Rightarrow>
               (response_error EC_Failed ''the stack stopped before the command completed'', send_control (build service) s)
           | RP_Answer (Inr outcome) \<Rightarrow>
               (response_message (name @ '' '' @ show_control_outcome outcome), send_control (build service) s)
           | RP_Answer (Inl refusal) \<Rightarrow>
               (response_error (refusal_code refusal) (show_control_refusal refusal), send_control (build service) s)))"

fun response_is_ok :: "response \<Rightarrow> bool" where
  "response_is_ok (Resp_Ok message changes version) = True"
| "response_is_ok _ = False"

text \<open>The arms of \<open>StartService\<close>, \<open>StopService\<close> and \<open>RestartService\<close> differ in what they send and
  whether they remember a stop or take one back.\<close>

definition service_request :: "wire_codec \<Rightarrow> request_env \<Rightarrow> string \<Rightarrow> (service_name \<Rightarrow> ack \<Rightarrow> control) \<Rightarrow> bool
    \<Rightarrow> session \<Rightarrow> response \<times> session" where
  "service_request c e name build is_stopped s =
     (case command c e name build s of
        (response, s) \<Rightarrow> (response, if response_is_ok response then remember e name is_stopped s else s))"

section \<open>Reload\<close>

definition has_health :: "config \<Rightarrow> service_name \<Rightarrow> bool" where
  "has_health config name =
     (case bt_get (cfg_services config) name of None \<Rightarrow> False | Some svc \<Rightarrow> svc_health svc \<noteq> None)"

definition sync_registry :: "config \<Rightarrow> service_name list \<Rightarrow> session \<Rightarrow> session" where
  "sync_registry config plan s =
     s\<lparr> ses_registry := registry_sync (map (\<lambda>name. (name, has_health config name)) plan) (ses_registry s),
        ses_names := plan \<rparr>"

definition restore_registry :: "config \<Rightarrow> service_name list \<Rightarrow> session \<Rightarrow> session" where
  "restore_registry config previous = sync_registry config previous"

fun reload_changes_of :: "control_outcome \<Rightarrow> reload_changes" where
  "reload_changes_of (CO_Reloaded added changed removed) =
     \<lparr> rc_added = added, rc_changed = changed, rc_removed = removed \<rparr>"
| "reload_changes_of _ = \<lparr> rc_added = 0, rc_changed = 0, rc_removed = 0 \<rparr>"

definition send_reload :: "request_env \<Rightarrow> config \<Rightarrow> service_name list \<Rightarrow> session \<Rightarrow> response \<times> session" where
  "send_reload e config plan s =
     (let previous = ses_names s;
          s = sync_registry config plan s in
      case re_reply e of
        RP_Gone \<Rightarrow>
          (response_error EC_Failed ''the supervisor is no longer accepting commands'', restore_registry config previous s)
      | RP_Answer (Inr outcome) \<Rightarrow>
          (Resp_Ok (Some (''reloaded '' @ ses_project s @ '': '' @ show_control_outcome outcome))
             (Some (reload_changes_of outcome)) None,
           respawn_watchers config plan (send_control (C_Reload config plan) s))
      | RP_Answer (Inl refusal) \<Rightarrow>
          (response_error (refusal_code refusal) (show_control_refusal refusal),
           restore_registry config previous (send_control (C_Reload config plan) s))
      | RP_Dropped \<Rightarrow>
          (response_error EC_Failed ''the stack stopped before the reload completed'',
           restore_registry config previous (send_control (C_Reload config plan) s)))"

definition reload_request :: "wire_codec \<Rightarrow> request_env \<Rightarrow> session \<Rightarrow> response \<times> session" where
  "reload_request c e s =
     (case re_config e of
        Inl errors \<Rightarrow>
          (Resp_Error EC_ValidationFailed
             (ses_config_path s @ '' has '' @ show_nat (length errors) @ '' error(s); the stack was left untouched'')
             (map (wc_config_error c) errors), s)
      | Inr (config, _) \<Rightarrow>
          (case plan_stack config (daemon_selection (ses_profiles s)) of
             Inl err \<Rightarrow>
               (response_error EC_ValidationFailed (wc_runtime_error c err @ ''; the stack was left untouched''), s)
           | Inr plan \<Rightarrow> send_reload e config plan s))"

section \<open>Requests\<close>

definition unsupported :: "wire_codec \<Rightarrow> string option \<Rightarrow> string" where
  "unsupported c named =
     (case named of
        Some tag \<Rightarrow> ''this daemon does not support the request '' @ wc_debug c tag @ ''; it supports: ''
      | None \<Rightarrow> ''this daemon does not support that request; it supports: '')
     @ join '', '' supported_requests"

text \<open>A subscription does not get here.\<close>

fun respond :: "wire_codec \<Rightarrow> request_env \<Rightarrow> request \<Rightarrow> string option \<Rightarrow> session \<Rightarrow> response \<times> session" where
  "respond c e (Req_Ping version) named s = (Resp_Pong (ses_project s) (ses_pid s) (Some protocol_version), s)"
| "respond c e Req_Status named s = (Resp_Status (map to_wire_status (registry_snapshot (re_now e) (ses_registry s))), s)"
| "respond c e Req_Shutdown named s = (response_message ''stopping the stack'', s\<lparr> ses_stop := ses_stop s @ [SR_Terminated] \<rparr>)"
| "respond c e (Req_StartService name) named s = service_request c e name C_Start False s"
| "respond c e (Req_StopService name) named s = service_request c e name C_Stop True s"
| "respond c e (Req_RestartService name) named s = service_request c e name C_Restart False s"
| "respond c e Req_Reload named s = reload_request c e s"
| "respond c e _ named s = (response_error EC_Unsupported (unsupported c named), s)"

section \<open>Subscribers\<close>

record event_filter =
  fl_services :: "string list"
  fl_logs :: bool

definition filter_wants :: "event_filter \<Rightarrow> service_event \<Rightarrow> bool" where
  "filter_wants fl ev =
     (if \<not> fl_logs fl \<and> is_log ev then False
      else fl_services fl = [] \<or> ev_service ev \<in> set (fl_services fl))"

text \<open>The answers that were written; the flag of an item is whether the client took it.\<close>

fun stream_events :: "event_filter \<Rightarrow> (feed_item \<times> bool) list \<Rightarrow> response list" where
  "stream_events fl [] = []"
| "stream_events fl ((FI_Event ev, written) # feed) =
     (if \<not> filter_wants fl ev then stream_events fl feed
      else if written then Resp_Event (ev_service ev) (to_wire_event (ev_kind ev)) # stream_events fl feed
      else [])"
| "stream_events fl ((FI_Lagged skipped, written) # feed) =
     (if written then Resp_Lagged skipped # stream_events fl feed else [])"

section \<open>Reading requests\<close>

datatype read_outcome = RQ_Line | RQ_Closed | RQ_TooLong | RQ_Idle | RQ_Broken string

datatype io_result = IO_Read nat | IO_Error string | IO_Timeout

definition newline :: char where
  "newline = CHR 10"

text \<open>\<open>read_until\<close> on a reader limited to \<open>n\<close> bytes: the line and the bytes left.\<close>

fun read_until :: "nat \<Rightarrow> string \<Rightarrow> string \<times> string" where
  "read_until n [] = ([], [])"
| "read_until n (b # bytes) =
     (if n = 0 then ([], b # bytes)
      else if b = newline then ([b], bytes)
      else (case read_until (n - 1) bytes of (line, rest) \<Rightarrow> (b # line, rest)))"

definition ends_with_newline :: "string \<Rightarrow> bool" where
  "ends_with_newline line = (line \<noteq> [] \<and> last line = newline)"

definition read_outcome_of :: "io_result \<Rightarrow> string \<Rightarrow> read_outcome" where
  "read_outcome_of result line =
     (if result = IO_Read 0 \<and> line = [] then RQ_Closed
      else case result of
        IO_Timeout \<Rightarrow> RQ_Idle
      | IO_Read _ \<Rightarrow>
          if \<not> ends_with_newline line then (if max_frame < length line then RQ_TooLong else RQ_Closed) else RQ_Line
      | IO_Error err \<Rightarrow>
          if \<not> ends_with_newline line then (if max_frame < length line then RQ_TooLong else RQ_Closed) else RQ_Broken err)"

text \<open>The bytes a client sends before it closes, breaks or goes quiet; the read meets that end when
  they run out before a newline and the cap.\<close>

datatype stream_end = SE_Closed | SE_Broken string | SE_Quiet

definition read_request :: "stream_end \<Rightarrow> string \<Rightarrow> read_outcome \<times> string \<times> string" where
  "read_request ending bytes =
     (let (line, rest) = read_until (max_frame + 1) bytes;
          result = (if ends_with_newline line \<or> length line = max_frame + 1 then IO_Read (length line)
                    else case ending of
                        SE_Closed \<Rightarrow> IO_Read (length line)
                      | SE_Broken e \<Rightarrow> IO_Error e
                      | SE_Quiet \<Rightarrow> IO_Timeout)
      in (read_outcome_of result line, line, rest))"

text \<open>\<open>str::from_utf8\<close>: how many bytes follow a leading byte, and the bounds of the first of
  them.\<close>

definition utf8_lead :: "nat \<Rightarrow> (nat \<times> nat \<times> nat) option" where
  "utf8_lead b =
     (if b < 128 then Some (0, 0, 0)
      else if 194 \<le> b \<and> b \<le> 223 then Some (1, 128, 191)
      else if b = 224 then Some (2, 160, 191)
      else if b = 237 then Some (2, 128, 159)
      else if 225 \<le> b \<and> b \<le> 239 then Some (2, 128, 191)
      else if b = 240 then Some (3, 144, 191)
      else if 241 \<le> b \<and> b \<le> 243 then Some (3, 128, 191)
      else if b = 244 then Some (3, 128, 143)
      else None)"

fun utf8_bytes :: "nat \<Rightarrow> nat \<Rightarrow> nat \<Rightarrow> nat list \<Rightarrow> bool" where
  "utf8_bytes n lo hi [] = (n = 0)"
| "utf8_bytes 0 lo hi (b # bytes) =
     (case utf8_lead b of None \<Rightarrow> False | Some (n, lo, hi) \<Rightarrow> utf8_bytes n lo hi bytes)"
| "utf8_bytes (Suc n) lo hi (b # bytes) = (lo \<le> b \<and> b \<le> hi \<and> utf8_bytes n 128 191 bytes)"

definition valid_utf8 :: "string \<Rightarrow> bool" where
  "valid_utf8 bytes = utf8_bytes 0 0 0 (map of_char bytes)"

section \<open>A connection\<close>

definition struck_out :: "u32 \<Rightarrow> u32 \<times> bool" where
  "struck_out strikes = (strikes + 1, \<not> max_malformed \<le> strikes + 1)"

text \<open>A turn of \<open>handle_client\<close>: the answers the client took, and the strikes unless the connection
  is over.\<close>

type_synonym turn_result = "response list \<times> u32 option"

definition strike :: "request_env \<Rightarrow> string \<Rightarrow> u32 \<Rightarrow> turn_result" where
  "strike e message strikes =
     (if \<not> re_written e then ([], None)
      else ([response_error EC_Failed message],
            case struck_out strikes of (strikes, alive) \<Rightarrow> if alive then Some strikes else None))"

definition answer_request :: "wire_codec \<Rightarrow> request_env \<Rightarrow> request \<Rightarrow> string \<Rightarrow> u32 \<Rightarrow> session \<Rightarrow> turn_result \<times> session" where
  "answer_request c e request line strikes s =
     (let unusable = (request = Req_Unknown);
          strikes = (if \<not> unusable then 0 else strikes) in
      case respond c e request (frame_tag (wc_type_of c) line) s of
        (response, s) \<Rightarrow>
          (if \<not> re_written e then ([], None)
           else ([response],
                 if unusable then (case struck_out strikes of (strikes, alive) \<Rightarrow> if alive then Some strikes else None)
                 else Some strikes), s))"

definition subscribe_client :: "request_env \<Rightarrow> string list \<Rightarrow> bool \<Rightarrow> turn_result" where
  "subscribe_client e services logs =
     (if \<not> re_written e then ([], None)
      else (Resp_Ok None None (Some schema_version)
              # stream_events \<lparr> fl_services = services, fl_logs = logs \<rparr> (re_feed e), None))"

definition client_line :: "wire_codec \<Rightarrow> request_env \<Rightarrow> string \<Rightarrow> u32 \<Rightarrow> session \<Rightarrow> turn_result \<times> session" where
  "client_line c e line strikes s =
     (if \<not> valid_utf8 line then (strike e ''a request must be valid UTF-8'' strikes, s)
      else if trim line = [] then (([], Some strikes), s)
      else
        (case wc_decode c line of
           Inl err \<Rightarrow> (strike e err strikes, s)
         | Inr (Req_Subscribe services logs) \<Rightarrow> (subscribe_client e services logs, s)
         | Inr request \<Rightarrow> answer_request c e request line strikes s))"

definition oversized :: response where
  "oversized = response_error EC_Failed (''a request may not exceed '' @ show_nat max_frame @ '' bytes'')"

lemma read_until_split: "read_until n bytes = (line, rest) \<Longrightarrow> bytes = line @ rest \<and> length line \<le> n"
  by (induction n bytes arbitrary: line rest rule: read_until.induct)
    (fastforce split: if_splits prod.splits)+

lemma read_request_line:
  assumes "read_request ending bytes = (RQ_Line, line, rest)"
  shows "bytes = line @ rest \<and> line \<noteq> [] \<and> last line = newline \<and> length line \<le> max_frame + 1"
  using assms read_until_split [of "max_frame + 1" bytes line rest]
  by (auto simp: read_request_def read_outcome_of_def ends_with_newline_def Let_def
      split: if_splits prod.splits stream_end.splits io_result.splits)

text \<open>\<open>i\<close> counts the turns, and \<open>env i\<close> is what turn \<open>i\<close> meets.\<close>

function handle_client :: "wire_codec \<Rightarrow> (nat \<Rightarrow> request_env) \<Rightarrow> stream_end \<Rightarrow> nat \<Rightarrow> u32 \<Rightarrow> string \<Rightarrow> session
    \<Rightarrow> response list \<times> session" where
  "handle_client c env ending i strikes bytes s =
     (case read_request ending bytes of
        (RQ_Line, line, rest) \<Rightarrow>
          (case client_line c (env i) line strikes s of
             ((responses, None), s) \<Rightarrow> (responses, s)
           | ((responses, Some strikes), s) \<Rightarrow>
               (case handle_client c env ending (Suc i) strikes rest s of
                  (later, s) \<Rightarrow> (responses @ later, s)))
      | (RQ_TooLong, line, rest) \<Rightarrow> (if re_written (env i) then [oversized] else [], s)
      | (_, line, rest) \<Rightarrow> ([], s))"
  by pat_completeness auto
termination
  by (relation "measure (\<lambda>(_, _, _, _, _, bytes, _). length bytes)")
    (auto dest!: read_request_line [OF sym] read_request_line)

definition serve_client :: "wire_codec \<Rightarrow> (nat \<Rightarrow> request_env) \<Rightarrow> stream_end \<Rightarrow> string \<Rightarrow> session \<Rightarrow> response list \<times> session" where
  "serve_client c env ending bytes s = handle_client c env ending 0 0 bytes s"

section \<open>Admission\<close>

definition wrong_user_message :: "u32 \<Rightarrow> u32 \<Rightarrow> string" where
  "wrong_user_message ours theirs =
     ''this daemon runs as uid '' @ show_nat (unat ours) @ ''; you are uid '' @ show_nat (unat theirs)
     @ '' '' @ [CHR 0xE2, CHR 0x80, CHR 0x94] @ '' servicrab only answers the user that started it''"

text \<open>\<open>admit\<close> and \<open>refuse\<close>: \<open>Inl\<close> is the refusal the peer is sent.\<close>

definition admit :: "u32 \<Rightarrow> string + u32 \<Rightarrow> response + unit" where
  "admit ours peer =
     (case peer of
        Inr uid \<Rightarrow> if uid = ours then Inr () else Inl (response_error EC_Failed (wrong_user_message ours uid))
      | Inl problem \<Rightarrow> Inl (response_error EC_Failed ''this daemon could not confirm who is connecting''))"

text \<open>\<open>accept_loop\<close> and its semaphore: \<open>live\<close> are the connections that hold a permit.\<close>

datatype accept_input = AI_Failed string | AI_Connected nat | AI_Over nat

fun accept_step :: "accept_input \<Rightarrow> nat list \<Rightarrow> nat list" where
  "accept_step (AI_Failed err) live = live"
| "accept_step (AI_Connected client) live = (if length live < max_connections then live @ [client] else live)"
| "accept_step (AI_Over client) live = remove1 client live"

definition admitted_client :: "wire_codec \<Rightarrow> u32 \<Rightarrow> string + u32 \<Rightarrow> (nat \<Rightarrow> request_env) \<Rightarrow> stream_end \<Rightarrow> string
    \<Rightarrow> session \<Rightarrow> response list \<times> session" where
  "admitted_client c ours peer env ending bytes s =
     (case admit ours peer of
        Inl refusal \<Rightarrow> ([refusal], s)
      | Inr _ \<Rightarrow> serve_client c env ending bytes s)"

section \<open>The collector\<close>

text \<open>\<open>router_for\<close> of \<open>commands/logs.rs\<close>.\<close>

definition router_for :: "config \<Rightarrow> log_router option" where
  "router_for config =
     (case proj_logs (cfg_project config) of
        None \<Rightarrow> None
      | Some settings \<Rightarrow>
          Some (lr_new settings
            (set (map (\<lambda>(_, svc). svc_name svc) (filter (\<lambda>(_, svc). \<not> svc_log_to_file svc) (cfg_services config))))))"

record collector =
  co_registry :: status_registry
  co_sink :: "log_sink option"
  co_warnings :: "string list"
  co_stream :: "service_event list"

definition warn_of :: "string option \<Rightarrow> string list" where
  "warn_of problem = (case problem of None \<Rightarrow> [] | Some p \<Rightarrow> [p])"

definition collect_log :: "service_event \<Rightarrow> collector \<Rightarrow> collector" where
  "collect_log ev co =
     (case (co_sink co, ev_kind ev) of
        (Some sink, EK_Log _ line) \<Rightarrow>
          (case sk_record (ev_service ev) line sink of
             (problem, sink) \<Rightarrow> co\<lparr> co_sink := Some sink, co_warnings := co_warnings co @ warn_of problem \<rparr>)
      | _ \<Rightarrow> co)"

definition collect_event :: "instant \<Rightarrow> service_event \<Rightarrow> collector \<Rightarrow> collector" where
  "collect_event now ev co =
     (let co = collect_log ev co in
      co\<lparr> co_registry := registry_apply now ev (co_registry co), co_stream := co_stream co @ [ev] \<rparr>)"

text \<open>Between two events the writer behind the queue may take any number of turns.\<close>

datatype collect_act = CA_Event instant service_event | CA_Pump

fun collect_step :: "collect_act \<Rightarrow> collector \<Rightarrow> collector" where
  "collect_step (CA_Event now ev) co = collect_event now ev co"
| "collect_step CA_Pump co = co\<lparr> co_sink := map_option pump_turn (co_sink co) \<rparr>"

end
