(* ===== verification/Machines.thy ===== *)
theory Machines
  imports Main
begin

text \<open>
  Machines that take one input at a time: an invariant of the steps is one of the runs.
\<close>

locale machine =
  fixes step :: "'i \<Rightarrow> 's \<Rightarrow> 's"
    and inv :: "'s \<Rightarrow> bool"
  assumes step_inv: "inv s \<Longrightarrow> inv (step i s)"
begin

lemma run_inv: "inv s \<Longrightarrow> inv (fold step is s)"
  by (induction "is" arbitrary: s) (simp_all add: step_inv)

text \<open>What no step changes while the invariant holds, no run changes.\<close>

lemma run_keeps:
  assumes "\<And>s i. inv s \<Longrightarrow> f (step i s) = f s" and "inv s"
  shows "f (fold step is s) = f s"
  using assms(2) by (induction "is" arbitrary: s) (simp_all add: assms(1) step_inv)

end

end
