(* ===== verification/Server_Facts.thy ===== *)
theory Server_Facts
  imports Server Machines
begin

text \<open>
  What a client can do to the daemon: the framing of requests, the cost of garbage, what a request
  changes in the session, and what a refused reload leaves behind.
\<close>

section \<open>Framing\<close>

lemma read_until_newline:
  "newline \<notin> set xs \<Longrightarrow> length xs < n \<Longrightarrow> read_until n (xs @ newline # rest) = (xs @ [newline], rest)"
  by (induction xs arbitrary: n) auto

lemma read_until_cap:
  "newline \<notin> set (take n bytes) \<Longrightarrow> read_until n bytes = (take n bytes, drop n bytes)"
proof (induction n bytes rule: read_until.induct)
  case (2 n b bytes)
  then show ?case by (cases n) auto
qed simp

lemma read_until_cases:
  obtains (Line) xs rest where "newline \<notin> set xs" "length xs < n" "bytes = xs @ newline # rest"
      "read_until n bytes = (xs @ [newline], rest)"
    | (Cap) "newline \<notin> set (take n bytes)" "read_until n bytes = (take n bytes, drop n bytes)"
proof (cases "newline \<in> set (take n bytes)")
  case True
  then obtain xs ys where split: "take n bytes = xs @ newline # ys" "newline \<notin> set xs"
    using split_list_first by metis
  then have "bytes = xs @ newline # (ys @ drop n bytes)"
    using append_take_drop_id [of n bytes] by simp
  moreover have "length xs < n"
    using arg_cong [OF split(1), of length] by simp
  ultimately show ?thesis using split(2) read_until_newline Line by metis
next
  case False
  then show ?thesis using Cap read_until_cap by blast
qed

text \<open>A request is a line of at most 65536 bytes and its newline, whatever follows; a stream with
  no newline within 65537 bytes is refused as oversized, and one that ends, breaks or goes quiet
  before is closed without an answer.  No more than 65537 bytes are ever held.\<close>

theorem requests_are_framed:
  "(case read_request ending bytes of
      (RQ_Line, line, rest) \<Rightarrow> \<exists>xs. line = xs @ [newline] \<and> bytes = line @ rest \<and> newline \<notin> set xs \<and> length xs \<le> 65536
    | (RQ_TooLong, line, rest) \<Rightarrow> 65537 \<le> length bytes \<and> newline \<notin> set (take 65537 bytes) \<and> line = take 65537 bytes
    | (RQ_Closed, line, rest) \<Rightarrow> line = bytes \<and> length bytes \<le> 65536 \<and> newline \<notin> set bytes \<and> ending \<noteq> SE_Quiet
    | (RQ_Idle, line, rest) \<Rightarrow> line = bytes \<and> length bytes \<le> 65536 \<and> newline \<notin> set bytes \<and> ending = SE_Quiet
    | (RQ_Broken err, line, rest) \<Rightarrow> False)"
proof (cases rule: read_until_cases [of "max_frame + 1" bytes])
  case (Line xs rest)
  then have "read_request ending bytes = (RQ_Line, xs @ [newline], rest)"
    by (simp add: read_request_def read_outcome_of_def ends_with_newline_def)
  with Line show ?thesis by (auto simp: max_frame_def)
next
  case Cap
  have no: "\<not> ends_with_newline (take (max_frame + 1) bytes)"
    using Cap(1) last_in_set [of "take (max_frame + 1) bytes"] unfolding ends_with_newline_def by metis
  show ?thesis
  proof (cases "max_frame < length bytes")
    case True
    then have "read_request ending bytes = (RQ_TooLong, take (max_frame + 1) bytes, drop (max_frame + 1) bytes)"
      using Cap no by (auto simp: read_request_def read_outcome_of_def)
    with Cap True show ?thesis by (simp add: max_frame_def)
  next
    case False
    then have "take (max_frame + 1) bytes = bytes" "length bytes \<noteq> max_frame + 1" by simp_all
    moreover from this(1) Cap(1) no have "newline \<notin> set bytes" "\<not> ends_with_newline bytes" by simp_all
    moreover have "read_until (max_frame + 1) bytes = (bytes, [])" using Cap(2) False by simp
    moreover have "length bytes \<le> 65536" using False by (simp add: max_frame_def)
    ultimately show ?thesis
      using False by (cases ending) (simp_all add: read_request_def read_outcome_of_def)
  qed
qed

section \<open>The cost of garbage\<close>

text \<open>The lines a stream is cut into, until it ends or is refused.\<close>

function lines_read :: "stream_end \<Rightarrow> string \<Rightarrow> string list" where
  "lines_read ending bytes =
     (case read_request ending bytes of
        (RQ_Line, line, rest) \<Rightarrow> line # lines_read ending rest
      | _ \<Rightarrow> [])"
  by pat_completeness auto
termination
  by (relation "measure (\<lambda>(_, bytes). length bytes)") (auto dest!: read_request_line [OF sym] read_request_line)

declare lines_read.simps [simp del] handle_client.simps [simp del]

text \<open>A line that the daemon can act on.\<close>

definition understood :: "wire_codec \<Rightarrow> string \<Rightarrow> bool" where
  "understood c line \<longleftrightarrow> valid_utf8 line \<and> trim line \<noteq> [] \<and> (\<exists>r. wc_decode c line = Inr r \<and> r \<noteq> Req_Unknown)"

definition subscribes :: "wire_codec \<Rightarrow> string \<Rightarrow> bool" where
  "subscribes c line \<longleftrightarrow> (\<exists>services logs. wc_decode c line = Inr (Req_Subscribe services logs))"

lemma struck_out_step:
  assumes "strikes < 3"
  shows "case struck_out strikes of (k, alive) \<Rightarrow> alive \<longrightarrow> k < 3 \<and> unat k = Suc (unat strikes)"
proof -
  have "unat (strikes + 1) = Suc (unat strikes)"
    using assms by (simp add: word_less_nat_alt unat_word_ariths)
  then show ?thesis
    by (simp add: struck_out_def max_malformed_def not_le)
qed

text \<open>The events a subscriber is sent are no answers to what it wrote.\<close>

fun is_streamed :: "response \<Rightarrow> bool" where
  "is_streamed (Resp_Event service event) = True"
| "is_streamed (Resp_Lagged skipped) = True"
| "is_streamed _ = False"

definition own_answers :: "response list \<Rightarrow> response list" where
  "own_answers rs = filter (\<lambda>r. \<not> is_streamed r) rs"

lemma own_answers_append [simp]: "own_answers (rs @ rs') = own_answers rs @ own_answers rs'"
  by (simp add: own_answers_def)

lemma own_answers_simps [simp]: "own_answers [] = []" "own_answers (r # rs) = (if is_streamed r then [] else [r]) @ own_answers rs"
  by (simp_all add: own_answers_def)

lemma own_answers_le: "length (own_answers rs) \<le> length rs"
  by (simp add: own_answers_def)

lemma stream_events_own [simp]: "own_answers (stream_events fl feed) = []"
  by (induction fl feed rule: stream_events.induct) simp_all

lemma response_not_streamed [simp]:
  "\<not> is_streamed (response_error code message)" "\<not> is_streamed (response_message message)" "\<not> is_streamed oversized"
  by (simp_all add: response_error_def response_message_def oversized_def)

lemma respond_not_streamed: "\<not> is_streamed (fst (respond c e request named s))"
  by (cases request)
    (auto simp: service_request_def command_def reload_request_def send_reload_def Let_def
      split: prod.splits option.splits reply.splits sum.splits)

text \<open>Only an understood subscription opens a stream.\<close>

lemma client_line_streams:
  assumes "client_line c e line strikes s = ((rs, st), s')" and "r \<in> set rs" and "is_streamed r"
  shows "subscribes c line \<and> understood c line"
proof (rule ccontr)
  assume no: "\<not> ?thesis"
  have strike: "\<not> is_streamed r" if "(strike e m strikes, s) = ((rs, st), s')" for m
    using that assms(2) by (auto simp: strike_def split: if_splits prod.splits)
  have answer: "\<not> is_streamed r" if "answer_request c e q line strikes s = ((rs, st), s')" for q
  proof -
    obtain response s1 where "respond c e q (frame_tag (wc_type_of c) line) s = (response, s1)" by (metis surj_pair)
    moreover from this have "\<not> is_streamed response" by (metis respond_not_streamed fst_conv)
    ultimately show ?thesis using that assms(2) by (auto simp: answer_request_def Let_def split: if_splits)
  qed
  show False
  proof (cases "valid_utf8 line \<and> trim line \<noteq> []")
    case False
    with assms strike show False by (auto simp: client_line_def split: if_splits)
  next
    case True
    show False
    proof (cases "wc_decode c line")
      case (Inl err)
      with True assms strike [of err] show False by (simp add: client_line_def)
    next
      case (Inr q)
      then have "\<nexists>services logs. q = Req_Subscribe services logs"
        using no True by (auto simp: subscribes_def understood_def)
      with True Inr assms answer [of q] show False by (cases q) (simp_all add: client_line_def)
    qed
  qed
qed

text \<open>A line costs a client without an understood request one strike for every answer it gets.\<close>

lemma client_line_cost:
  assumes "strikes < 3" and "client_line c e line strikes s = ((rs, st), s')"
  shows "length (own_answers rs) \<le> 1
    \<and> (if understood c line then st = None \<or> st = Some 0
       else s' = s \<and> (\<forall>k. st = Some k \<longrightarrow> k < 3 \<and> length (own_answers rs) + unat strikes \<le> unat k))"
proof (cases "understood c line")
  case True
  then obtain r where r: "wc_decode c line = Inr r" "r \<noteq> Req_Unknown" "valid_utf8 line" "trim line \<noteq> []"
    by (auto simp: understood_def)
  show ?thesis
  proof (cases "\<exists>services logs. r = Req_Subscribe services logs")
    case True
    with assms(2) r \<open>understood c line\<close> show ?thesis
      by (auto simp: client_line_def subscribe_client_def split: if_splits)
  next
    case False
    with r have "client_line c e line strikes s = answer_request c e r line strikes s"
      by (cases r) (simp_all add: client_line_def)
    with assms(2) r(2) \<open>understood c line\<close> show ?thesis
      by (auto simp: answer_request_def Let_def split: prod.splits if_splits)
  qed
next
  case False
  have strike: "strike e m strikes = (rs, st) \<Longrightarrow> length (own_answers rs) \<le> 1
      \<and> (\<forall>k. st = Some k \<longrightarrow> k < 3 \<and> length (own_answers rs) + unat strikes \<le> unat k)" for m
    using struck_out_step [OF assms(1)] by (auto simp: strike_def split: prod.splits if_splits)
  consider (bad) m where "client_line c e line strikes s = (strike e m strikes, s)"
    | (blank) "client_line c e line strikes s = (([], Some strikes), s)"
    | (unknown) "client_line c e line strikes s = answer_request c e Req_Unknown line strikes s"
  proof (cases "valid_utf8 line")
    case False
    show ?thesis by (rule bad) (simp add: client_line_def False)
  next
    case utf8: True
    show ?thesis
    proof (cases "trim line = []")
      case True
      show ?thesis by (rule blank) (simp add: client_line_def utf8 True)
    next
      case words: False
      show ?thesis
      proof (cases "wc_decode c line")
        case (Inl err)
        show ?thesis by (rule bad) (simp add: client_line_def utf8 words Inl)
      next
        case (Inr r)
        with utf8 words False have "r = Req_Unknown" by (auto simp: understood_def)
        with Inr utf8 words show ?thesis by (intro unknown) (simp add: client_line_def)
      qed
    qed
  qed
  then show ?thesis
  proof cases
    case (bad m)
    with False strike [of m] assms(2) show ?thesis by auto
  next
    case blank
    with False assms show ?thesis by auto
  next
    case unknown
    with False assms(2) struck_out_step [OF assms(1)] show ?thesis
      by (auto simp: answer_request_def split: prod.splits if_splits)
  qed
qed

definition understood_lines :: "wire_codec \<Rightarrow> stream_end \<Rightarrow> string \<Rightarrow> nat" where
  "understood_lines c ending bytes = length (filter (understood c) (lines_read ending bytes))"

lemma handle_client_cost:
  assumes "strikes < 3"
  shows "length (own_answers (fst (handle_client c env ending i strikes bytes s)))
       \<le> 3 * understood_lines c ending bytes + (3 - unat strikes)
     \<and> (understood_lines c ending bytes = 0 \<longrightarrow> snd (handle_client c env ending i strikes bytes s) = s)"
  using assms
proof (induction c env ending i strikes bytes s rule: handle_client.induct)
  case (1 c env ending i strikes bytes s)
  have three: "unat strikes < 3" using 1(2) by (simp add: word_less_nat_alt)
  obtain outcome line rest where read: "read_request ending bytes = (outcome, line, rest)" by (metis prod_cases3)
  show ?case
  proof (cases "outcome = RQ_Line")
    case False
    moreover have "1 \<le> 3 * understood_lines c ending bytes + (3 - unat strikes)" using three by simp
    ultimately show ?thesis
      using read by (cases outcome) (simp_all add: handle_client.simps [of c env ending i strikes bytes s])
  next
    case True
    have lines: "lines_read ending bytes = line # lines_read ending rest"
      using read True by (simp add: lines_read.simps [of ending bytes])
    obtain rs st s' where turn: "client_line c (env i) line strikes s = ((rs, st), s')" by (metis prod.exhaust)
    note cost = client_line_cost [OF 1(2) turn]
    have count: "understood_lines c ending bytes = (if understood c line then 1 else 0) + understood_lines c ending rest"
      by (simp add: understood_lines_def lines)
    show ?thesis
    proof (cases st)
      case None
      with read True turn have "handle_client c env ending i strikes bytes s = (rs, s')"
        by (simp add: handle_client.simps [of c env ending i strikes bytes s])
      with cost count three show ?thesis by (auto split: if_splits)
    next
      case (Some k)
      let ?later = "handle_client c env ending (Suc i) k rest s'"
      have run: "handle_client c env ending i strikes bytes s = (rs @ fst ?later, snd ?later)"
        using read True turn Some by (simp add: handle_client.simps [of c env ending i strikes bytes s] split: prod.split)
      have k: "k < 3" using cost Some by (auto split: if_splits)
      have IH: "length (own_answers (fst ?later)) \<le> 3 * understood_lines c ending rest + (3 - unat k)
          \<and> (understood_lines c ending rest = 0 \<longrightarrow> snd ?later = s')"
        using 1(1) [OF read [symmetric]] True turn Some k by simp
      show ?thesis
      proof (cases "understood c line")
        case True
        then have "k = 0" using cost Some by simp
        with True IH count cost three have "length (own_answers rs) + length (own_answers (fst ?later))
            \<le> 3 * understood_lines c ending bytes + (3 - unat strikes)" "understood_lines c ending bytes \<noteq> 0"
          by auto
        with run show ?thesis by simp
      next
        case False
        then have "s' = s" "length (own_answers rs) + unat strikes \<le> unat k" using cost Some by auto
        moreover have "unat k < 3" using k by (simp add: word_less_nat_alt)
        moreover have "length (own_answers (fst ?later)) \<le> 3 * understood_lines c ending bytes + (3 - unat k)"
          using IH count False by simp
        ultimately have "length (own_answers rs) + length (own_answers (fst ?later))
            \<le> 3 * understood_lines c ending bytes + (3 - unat strikes)" by linarith
        with False IH run count \<open>s' = s\<close> show ?thesis by simp
      qed
    qed
  qed
qed

lemma handle_client_streams:
  "r \<in> set (fst (handle_client c env ending i strikes bytes s)) \<Longrightarrow> is_streamed r \<Longrightarrow>
     \<exists>line\<in>set (lines_read ending bytes). subscribes c line \<and> understood c line"
proof (induction c env ending i strikes bytes s rule: handle_client.induct)
  case (1 c env ending i strikes bytes s)
  obtain outcome line rest where read: "read_request ending bytes = (outcome, line, rest)" by (metis prod_cases3)
  show ?case
  proof (cases "outcome = RQ_Line")
    case False
    with 1(2,3) read show ?thesis
      by (cases outcome) (auto simp: handle_client.simps [of c env ending i strikes bytes s] split: if_splits)
  next
    case True
    have lines: "lines_read ending bytes = line # lines_read ending rest"
      using read True by (simp add: lines_read.simps [of ending bytes])
    obtain rs st s' where turn: "client_line c (env i) line strikes s = ((rs, st), s')" by (metis prod.exhaust)
    show ?thesis
    proof (cases "r \<in> set rs")
      case True
      from client_line_streams [OF turn this 1(3)] show ?thesis by (simp add: lines)
    next
      case False
      then obtain k where k: "st = Some k"
        "r \<in> set (fst (handle_client c env ending (Suc i) k rest s'))"
        using 1(2) read True turn
        by (cases st) (auto simp: handle_client.simps [of c env ending i strikes bytes s] split: prod.splits)
      have "\<exists>line\<in>set (lines_read ending rest). subscribes c line \<and> understood c line"
        using 1(1) [OF read [symmetric]] True turn k 1(3) by simp
      then show ?thesis by (auto simp: lines)
    qed
  qed
qed

text \<open>C11: Garbage is cheap: however much a client sends, it gets at most three answers more than
  three for every request that the daemon understands, the events of a subscription not counted;
  events are sent only to a client one of whose understood requests is a subscription; and a client
  without an understood request is cut off after at most three answers of any kind and has changed
  nothing.\<close>

theorem garbage_is_bounded:
  shows "length (own_answers (fst (serve_client c env ending bytes s))) \<le> 3 * understood_lines c ending bytes + 3
     \<and> (\<forall>r\<in>set (fst (serve_client c env ending bytes s)). is_streamed r \<longrightarrow>
          (\<exists>line\<in>set (lines_read ending bytes). subscribes c line \<and> understood c line))
     \<and> (understood_lines c ending bytes = 0 \<longrightarrow>
          length (fst (serve_client c env ending bytes s)) \<le> 3 \<and> snd (serve_client c env ending bytes s) = s)"
proof -
  note cost = handle_client_cost [of 0 c env ending 0 bytes s, folded serve_client_def, simplified]
  have streams: "\<exists>line\<in>set (lines_read ending bytes). subscribes c line \<and> understood c line"
    if "r \<in> set (fst (serve_client c env ending bytes s))" "is_streamed r" for r
    using handle_client_streams that unfolding serve_client_def by blast
  have "own_answers (fst (serve_client c env ending bytes s)) = fst (serve_client c env ending bytes s)"
    if "understood_lines c ending bytes = 0"
    using that streams by (auto simp: own_answers_def understood_lines_def filter_id_conv filter_empty_conv)
  with cost streams show ?thesis by auto
qed

section \<open>What requests change\<close>

text \<open>The registry reports the services of the running plan.\<close>

definition session_wf :: "session \<Rightarrow> bool" where
  "session_wf s \<longleftrightarrow> registry_wf (ses_registry s) \<and> sr_order (ses_registry s) = ses_names s"

lemma sync_registry_wf: "session_wf s \<Longrightarrow> session_wf (sync_registry config plan s)"
  using registry_sync_spec(1) by (simp add: session_wf_def sync_registry_def comp_def)

lemma command_keeps:
  "ses_registry (snd (command c e name build s)) = ses_registry s"
  "ses_names (snd (command c e name build s)) = ses_names s"
  "ses_stopped (snd (command c e name build s)) = ses_stopped s"
  "ses_stopped_path (snd (command c e name build s)) = ses_stopped_path s"
  by (simp_all add: command_def send_control_def split: option.splits reply.splits sum.splits)

lemma command_ok_known: "response_is_ok (fst (command c e name build s)) \<Longrightarrow> name \<in> set (ses_names s)"
  by (auto simp: command_def response_error_def find_Some_iff split: option.splits reply.splits sum.splits)

lemma service_request_keeps:
  "ses_registry (snd (service_request c e name build b s)) = ses_registry s"
  "ses_names (snd (service_request c e name build b s)) = ses_names s"
  using command_keeps [of c e name build s]
  by (auto simp: service_request_def remember_def split: prod.splits)

lemma reload_stopped:
  "ses_stopped (snd (reload_request c e s)) = ses_stopped s
   \<and> ses_stopped_path (snd (reload_request c e s)) = ses_stopped_path s"
  by (simp add: reload_request_def send_reload_def sync_registry_def restore_registry_def respawn_watchers_def
      send_control_def Let_def split: sum.splits reply.splits prod.splits)

lemma reload_wf:
  assumes "session_wf s"
  shows "session_wf (snd (reload_request c e s))"
proof -
  have send: "session_wf (send_control build s) = session_wf s" for build s
    by (simp add: session_wf_def send_control_def)
  have spawn: "session_wf (respawn_watchers config plan s) = session_wf s" for config plan s
    by (simp add: session_wf_def respawn_watchers_def)
  show ?thesis using assms
    by (simp add: reload_request_def send_reload_def restore_registry_def sync_registry_wf send spawn Let_def
        split: sum.splits reply.splits prod.splits)
qed

lemma respond_wf: "session_wf s \<Longrightarrow> session_wf (snd (respond c e r named s))"
  by (cases r) (simp_all add: reload_wf service_request_keeps session_wf_def [of "snd (service_request c e n b i s)" for n b i],
      simp_all add: session_wf_def)

interpretation sessions: machine "\<lambda>(e, r) s. snd (respond c e r named s)" session_wf
  by unfold_locales (auto simp: respond_wf)

text \<open>What an answered request confirms about the stops by hand.\<close>

fun confirms :: "request \<Rightarrow> response \<Rightarrow> (string \<times> bool) list" where
  "confirms (Req_StopService name) answer = (if response_is_ok answer then [(name, True)] else [])"
| "confirms (Req_StartService name) answer = (if response_is_ok answer then [(name, False)] else [])"
| "confirms (Req_RestartService name) answer = (if response_is_ok answer then [(name, False)] else [])"
| "confirms r answer = []"

lemma service_request_notes:
  assumes "re_problem e = None"
  shows "ses_stopped (snd (service_request c e name build b s)) =
      (if response_is_ok (fst (service_request c e name build b s))
       then note_stopped (ses_stopped_path s) name b (ses_stopped s) else ses_stopped s)
    \<and> ses_stopped_path (snd (service_request c e name build b s)) = ses_stopped_path s"
proof -
  obtain answer s' where cmd: "command c e name build s = (answer, s')" by fastforce
  with command_keeps [of c e name build s] assms show ?thesis
    by (simp add: service_request_def remember_def note_stopped_def)
qed

lemma respond_notes:
  assumes "re_problem e = None"
  shows "ses_stopped (snd (respond c e r named s)) =
      stops.note_all (ses_stopped_path s) (confirms r (fst (respond c e r named s))) (ses_stopped s)
    \<and> ses_stopped_path (snd (respond c e r named s)) = ses_stopped_path s"
  using service_request_notes [OF assms] reload_stopped [of c e s]
  by (cases r) simp_all

text \<open>A run of requests with their answers; it confirms what its answers do.\<close>

fun session_answers :: "wire_codec \<Rightarrow> (request_env \<times> request) list \<Rightarrow> session \<Rightarrow> (request \<times> response) list \<times> session" where
  "session_answers c [] s = ([], s)"
| "session_answers c ((e, r) # rs) s =
     (case respond c e r None s of
        (answer, s) \<Rightarrow> (case session_answers c rs s of (later, s) \<Rightarrow> ((r, answer) # later, s)))"

definition confirmed :: "(request \<times> response) list \<Rightarrow> (string \<times> bool) list" where
  "confirmed log = concat (map (\<lambda>(r, answer). confirms r answer) log)"

lemma session_answers_note:
  assumes "\<forall>(e, r)\<in>set rs. re_problem e = None"
  shows "ses_stopped (snd (session_answers c rs s)) =
      stops.note_all (ses_stopped_path s) (confirmed (fst (session_answers c rs s))) (ses_stopped s)"
  using assms
proof (induction rs arbitrary: s)
  case (Cons x rs)
  obtain e r where x: "x = (e, r)" by (cases x)
  have append: "stops.note_all p (log @ log') f = stops.note_all p log' (stops.note_all p log f)" for p log log' f
    by (induction log arbitrary: f) auto
  obtain answer s1 where one: "respond c e r None s = (answer, s1)" by fastforce
  obtain later s2 where rest: "session_answers c rs s1 = (later, s2)" by fastforce
  have "re_problem e = None" "\<forall>(e, r)\<in>set rs. re_problem e = None" using Cons.prems by (auto simp: x)
  with respond_notes [of e c r None s] Cons.IH [of s1] one rest show ?case
    by (simp add: x confirmed_def append)
qed (simp add: confirmed_def)

text \<open>The services that a request can name.\<close>

fun request_name :: "request \<Rightarrow> string option" where
  "request_name (Req_StopService name) = Some name"
| "request_name (Req_StartService name) = Some name"
| "request_name (Req_RestartService name) = Some name"
| "request_name r = None"

lemma confirmed_names:
  "(n, b) \<in> set (confirmed (fst (session_answers c rs s))) \<Longrightarrow> \<exists>(e, r)\<in>set rs. request_name r = Some n"
proof (induction rs arbitrary: s)
  case (Cons x rs)
  obtain e r where x: "x = (e, r)" by (cases x)
  have "(n, b) \<in> set (confirms r answer) \<Longrightarrow> request_name r = Some n" for answer
    by (cases r) (auto split: if_splits)
  moreover obtain answer s1 where one: "respond c e r None s = (answer, s1)" by fastforce
  moreover obtain later s2 where rest: "session_answers c rs s1 = (later, s2)" by fastforce
  ultimately show ?case
    using Cons.prems Cons.IH [of s1] by (auto simp: x confirmed_def)
qed (simp add: confirmed_def)

text \<open>C10: The daemon remembers what it confirmed: after any requests a service counts as stopped by
  hand exactly when the last request about it that was answered Ok was a stop, and, when none was,
  when it did before; refusals, reloads and everything else leave the memory alone.\<close>

theorem confirmed_stops_are_remembered:
  assumes "\<forall>n\<in>read_stopped (ses_stopped s). plain_name n"
    and "\<forall>(e, r)\<in>set rs. re_problem e = None \<and> (\<forall>n. request_name r = Some n \<longrightarrow> plain_name n)"
    and "session_answers c rs s = (log, s')"
  shows "n \<in> read_stopped (ses_stopped s') \<longleftrightarrow>
     (case map_of (rev (confirmed log)) n of Some stopped \<Rightarrow> stopped | None \<Rightarrow> n \<in> read_stopped (ses_stopped s))"
proof -
  have log: "log = fst (session_answers c rs s)" and s': "s' = snd (session_answers c rs s)" using assms(3) by simp_all
  have "\<forall>(n, b)\<in>set (confirmed log). plain_name n"
    using confirmed_names [of _ _ c rs s] assms(2) unfolding log by fastforce
  moreover have "plain_file (ses_stopped s)" using assms(1) by (simp add: plain_file_def)
  moreover have "ses_stopped s' = stops.note_all (ses_stopped_path s) (confirmed log) (ses_stopped s)"
    unfolding log s' by (rule session_answers_note) (use assms(2) in auto)
  ultimately show ?thesis using stops.last_word_counts by simp
qed

section \<open>A refused reload\<close>

text \<open>C14: A reload that the supervisor refuses, or does not answer, restores the services the daemon
  knows and keeps its watchers and the status of every service that is in both plans; but a service
  that the new plan leaves out has lost its status: it is reported as pending although it runs.\<close>

theorem refused_reload_forgets:
  assumes "session_wf s" and "re_config e = Inr (config, warnings)"
    and "plan_stack config (daemon_selection (ses_profiles s)) = Inr plan"
    and "\<nexists>outcome. re_reply e = RP_Answer (Inr outcome)"
    and "reload_request c e s = (answer, s')" and "n \<in> set (ses_names s)"
  shows "\<not> response_is_ok answer \<and> ses_names s' = ses_names s \<and> ses_watchers s' = ses_watchers s
     \<and> bt_get (sr_services (ses_registry s')) n =
         (if n \<in> set plan then bt_get (sr_services (ses_registry s)) n
          else Some (entry_new (has_health config n)))"
proof -
  let ?entries = "\<lambda>ns. map (\<lambda>name. (name, has_health config name)) ns"
  have run: "\<not> response_is_ok answer \<and> ses_names s' = ses_names s \<and> ses_watchers s' = ses_watchers s
      \<and> ses_registry s' = registry_sync (?entries (ses_names s)) (registry_sync (?entries plan) (ses_registry s))"
    using assms(2-5)
    by (auto simp: reload_request_def send_reload_def sync_registry_def restore_registry_def send_control_def
        response_error_def Let_def split: reply.splits sum.splits)
  have wf: "registry_wf (ses_registry s)" using assms(1) by (simp add: session_wf_def)
  have wf': "registry_wf (registry_sync (?entries plan) (ses_registry s))"
    using registry_sync_spec(1) [OF wf] by blast
  have keys: "n \<in> fst ` set (?entries ns) \<longleftrightarrow> n \<in> set ns" for ns by force
  have fresh: "map_of (?entries ns) n = (if n \<in> set ns then Some (has_health config n) else None)" for ns
    by (induction ns) auto
  have "bt_get (sr_services (ses_registry s)) n \<noteq> None"
    using assms(1,6) bt_get_dom [of "sr_services (ses_registry s)" n]
    by (auto simp: session_wf_def registry_wf_def)
  then show ?thesis
    using run registry_sync_spec(2) [OF wf', of "?entries (ses_names s)" n] registry_sync_spec(2) [OF wf, of "?entries plan" n]
      assms(6) unfolding keys fresh by (auto split: option.splits)
qed

section \<open>Reports\<close>

text \<open>A daemon runs on: its collector takes an event or its log writer a turn, or it answers a
  request.  Session and collector share the registry.\<close>

datatype daemon_turn = DT_Collect collect_act | DT_Request request_env request "string option"

fun daemon_step :: "wire_codec \<Rightarrow> daemon_turn \<Rightarrow> collector \<times> session \<Rightarrow> collector \<times> session" where
  "daemon_step c (DT_Collect act) (co, s) =
     (let co = collect_step act (co\<lparr> co_registry := ses_registry s \<rparr>) in (co, s\<lparr> ses_registry := co_registry co \<rparr>))"
| "daemon_step c (DT_Request e request named) (co, s) = (co, snd (respond c e request named s))"

text \<open>What a status report rests on: the names of the plan and, for each service, whether it was
  taken in with a health check and the events collected since.\<close>

type_synonym memory = "service_name list \<times> (service_name \<Rightarrow> (bool \<times> (instant \<times> event_kind) list) option)"

definition take_in :: "config \<Rightarrow> service_name list \<Rightarrow> memory \<Rightarrow> memory" where
  "take_in config plan m =
     (plan, \<lambda>n. if n \<notin> set plan then None
                else case snd m n of Some past \<Rightarrow> Some past | None \<Rightarrow> Some (has_health config n, []))"

text \<open>A reload whose file is invalid or has no plan changes nothing; one that the supervisor does
  not carry out takes the new plan in and then the old one again.\<close>

fun recall :: "string list \<Rightarrow> daemon_turn \<Rightarrow> memory \<Rightarrow> memory" where
  "recall profiles (DT_Collect (CA_Event now ev)) (names, past) =
     (names, past(ev_service ev := map_option (\<lambda>(h, es). (h, es @ [(now, ev_kind ev)])) (past (ev_service ev))))"
| "recall profiles (DT_Collect CA_Pump) m = m"
| "recall profiles (DT_Request e Req_Reload named) m =
     (case re_config e of
        Inl errors \<Rightarrow> m
      | Inr (config, warnings) \<Rightarrow>
          (case plan_stack config (daemon_selection profiles) of
             Inl err \<Rightarrow> m
           | Inr plan \<Rightarrow>
               (case re_reply e of
                  RP_Answer (Inr outcome) \<Rightarrow> take_in config plan m
                | _ \<Rightarrow> take_in config (fst m) (take_in config plan m))))"
| "recall profiles (DT_Request e request named) m = m"

text \<open>The last of the events that says something on a question, and what it says.\<close>

definition latest :: "(instant \<Rightarrow> event_kind \<Rightarrow> 'a option) \<Rightarrow> (instant \<times> event_kind) list \<Rightarrow> 'a option" where
  "latest says es = (case List.map_filter (\<lambda>(at, k). says at k) es of [] \<Rightarrow> None | answers \<Rightarrow> Some (last answers))"

lemma latest_Nil [simp]: "latest says [] = None"
  by (simp add: latest_def map_filter_simps)

lemma latest_snoc [simp]:
  "latest says (es @ [(at, k)]) = (case says at k of Some v \<Rightarrow> Some v | None \<Rightarrow> latest says es)"
  by (auto simp: latest_def map_filter_def split: option.split list.split) (metis last.simps last_snoc)

fun says_state :: "event_kind \<Rightarrow> wire_state option" where
  "says_state (EK_State st) = Some (case st of
      Pending \<Rightarrow> WS_Pending | Starting \<Rightarrow> WS_Starting | Running \<Rightarrow> WS_Running | Backoff \<Rightarrow> WS_Backoff
    | Stopping \<Rightarrow> WS_Stopping | Stopped \<Rightarrow> WS_Stopped | Exited \<Rightarrow> WS_Exited | Failed \<Rightarrow> WS_Failed)"
| "says_state _ = None"

text \<open>The process that runs and since when, or that there is none.\<close>

fun says_process :: "instant \<Rightarrow> event_kind \<Rightarrow> (int \<times> instant) option option" where
  "says_process at (EK_Started pgid) = Some (Some (pgid, at))"
| "says_process at (EK_State st) = (if st = Running then None else Some None)"
| "says_process at _ = None"

fun says_restarts :: "event_kind \<Rightarrow> u32 option" where
  "says_restarts (EK_Backoff delay attempt) = Some attempt"
| "says_restarts _ = None"

fun says_health :: "event_kind \<Rightarrow> wire_health option" where
  "says_health EK_Healthy = Some WH_Healthy"
| "says_health (EK_Unhealthy message) = Some WH_Unhealthy"
| "says_health (EK_State st) = (if st = Starting then Some WH_Starting else None)"
| "says_health _ = None"

definition health_verdict :: "event_kind \<Rightarrow> bool" where
  "health_verdict k \<longleftrightarrow> k = EK_Healthy \<or> (\<exists>message. k = EK_Unhealthy message)"

fun says_message :: "event_kind \<Rightarrow> string option option" where
  "says_message (EK_State st) = (if st = Starting then Some None else None)"
| "says_message (EK_Failed message) = Some (Some message)"
| "says_message (EK_Finished summary) = Some (Some summary)"
| "says_message (EK_Skipped dependency) = Some (Some (''skipped: '' @ dependency @ '' never became available''))"
| "says_message (EK_Unhealthy message) = Some (Some (''unhealthy: '' @ message))"
| "says_message (EK_HealthProbeFailed message n m) =
     Some (Some (''probe failed ('' @ show_nat (unat n) @ ''/'' @ show_nat (unat m) @ ''): '' @ message))"
| "says_message (EK_WatchTriggered p changed) =
     Some (Some (''restarting: '' @ (case path_file_name p of Some n \<Rightarrow> n | None \<Rightarrow> p)
       @ (if changed = 1 then '' changed'' else '' and '' @ show_nat (changed - 1) @ '' more changed'')))"
| "says_message (EK_WatchFailed message) = Some (Some (''watch: '' @ message))"
| "says_message (EK_WatchTruncated limit) =
     Some (Some (''watch: more than '' @ show_nat limit @ '' files; narrow `paths` or add `ignore` entries''))"
| "says_message (EK_LogLinesDropped n) = Some (Some (''dropped '' @ show_nat n @ '' output line(s)''))"
| "says_message _ = None"

definition or_else :: "'a \<Rightarrow> 'a option \<Rightarrow> 'a" where
  "or_else v x = (case x of None \<Rightarrow> v | Some y \<Rightarrow> y)"

definition told_health :: "bool \<Rightarrow> (instant \<times> event_kind) list \<Rightarrow> wire_health" where
  "told_health checked es =
     (if \<not> checked \<and> (\<forall>(at, k)\<in>set es. \<not> health_verdict k) then WH_None
      else or_else WH_Starting (latest (\<lambda>at. says_health) es))"

definition told_line :: "instant \<Rightarrow> service_name \<Rightarrow> bool \<Rightarrow> (instant \<times> event_kind) list \<Rightarrow> service_info" where
  "told_line now n checked es =
     (let running = or_else None (latest says_process es) in
      \<lparr> si_name = n, si_state = or_else WS_Pending (latest (\<lambda>at. says_state) es),
        si_pgid = map_option fst running, si_pid = map_option fst running,
        si_uptime_secs = map_option (\<lambda>(_, since). (now - since) div nanos_per_sec) running,
        si_restarts = or_else 0 (latest (\<lambda>at. says_restarts) es), si_health = told_health checked es,
        si_message = or_else None (latest (\<lambda>at. says_message) es) \<rparr>)"

definition entry_of :: "bool \<Rightarrow> (instant \<times> event_kind) list \<Rightarrow> entry" where
  "entry_of checked es = foldl (\<lambda>en (at, k). apply_kind at k en) (entry_new checked) es"

lemma entry_of_snoc: "entry_of checked (es @ [(at, k)]) = apply_kind at k (entry_of checked es)"
  by (simp add: entry_of_def)

lemma entry_of_health: "to_wire_health (en_health (entry_of checked es)) = told_health checked es
    \<and> (en_health (entry_of checked es) = HealthNone \<longleftrightarrow> \<not> checked \<and> (\<forall>(at, k)\<in>set es. \<not> health_verdict k))"
proof (induction es rule: rev_induct)
  case (snoc e es)
  obtain at k where e: "e = (at, k)" by (cases e)
  show ?case using snoc
    by (cases k) (auto simp: e entry_of_snoc told_health_def or_else_def health_verdict_def Let_def split: if_splits option.splits)
qed (simp add: entry_of_def entry_new_def told_health_def or_else_def)

lemma entry_of_line: "to_wire_status (status_of now n (entry_of checked es)) = told_line now n checked es"
proof -
  have "to_wire_state (en_state (entry_of checked es)) = or_else WS_Pending (latest (\<lambda>at. says_state) es)"
    "en_restarts (entry_of checked es) = or_else 0 (latest (\<lambda>at. says_restarts) es)"
    "en_message (entry_of checked es) = or_else None (latest (\<lambda>at. says_message) es)"
  proof (induction es rule: rev_induct)
    case (snoc e es)
    obtain at k where e: "e = (at, k)" by (cases e)
    { case 1 show ?case using snoc(1)
        by (cases k) (auto simp: e entry_of_snoc or_else_def Let_def split: service_state.splits) }
    { case 2 show ?case using snoc(2) by (cases k) (simp_all add: e entry_of_snoc or_else_def Let_def) }
    { case 3 show ?case using snoc(3) by (cases k) (auto simp: e entry_of_snoc or_else_def Let_def) }
  qed (simp_all add: entry_of_def entry_new_def or_else_def)
  moreover have "en_pid (entry_of checked es) = map_option fst (or_else None (latest says_process es))
      \<and> en_started_at (entry_of checked es) = map_option snd (or_else None (latest says_process es))"
  proof (induction es rule: rev_induct)
    case (snoc e es)
    obtain at k where e: "e = (at, k)" by (cases e)
    show ?case using snoc by (cases k) (auto simp: e entry_of_snoc or_else_def Let_def)
  qed (simp add: entry_of_def entry_new_def or_else_def)
  ultimately show ?thesis
    using entry_of_health [of checked es]
    by (simp add: to_wire_status_def status_of_def told_line_def Let_def option.map_comp comp_def case_prod_unfold)
qed

text \<open>The registry holds what its memory makes of fresh entries.\<close>

definition remembers :: "session \<Rightarrow> memory \<Rightarrow> bool" where
  "remembers s m \<longleftrightarrow> session_wf s \<and> ses_names s = fst m
     \<and> (\<forall>n. bt_get (sr_services (ses_registry s)) n = map_option (\<lambda>(h, es). entry_of h es) (snd m n))"

lemma remembers_sync: "remembers s m \<Longrightarrow> remembers (sync_registry config plan s) (take_in config plan m)"
proof -
  assume r: "remembers s m"
  then have wf: "registry_wf (ses_registry s)" by (simp add: remembers_def session_wf_def)
  have fresh: "map_of (map (\<lambda>name. (name, has_health config name)) plan) n
      = (if n \<in> set plan then Some (has_health config n) else None)" for n
    by (induction plan) auto
  have "bt_get (sr_services (ses_registry (sync_registry config plan s))) n
      = map_option (\<lambda>(h, es). entry_of h es) (snd (take_in config plan m) n)" for n
    using r registry_sync_spec(2) [OF wf, of "map (\<lambda>name. (name, has_health config name)) plan" n]
    by (auto simp: sync_registry_def take_in_def remembers_def fresh entry_of_def image_image split: option.splits)
  then show ?thesis using r sync_registry_wf by (simp add: remembers_def) (simp add: sync_registry_def take_in_def)
qed

lemma remembers_cong:
  "ses_registry s' = ses_registry s \<Longrightarrow> ses_names s' = ses_names s \<Longrightarrow> remembers s' m = remembers s m"
  by (simp add: remembers_def session_wf_def)

lemma remembers_control [simp]: "remembers (send_control build s) m = remembers s m"
  "remembers (respawn_watchers config plan s) m = remembers s m"
  by (rule remembers_cong; simp add: send_control_def respawn_watchers_def)+

lemma remembers_reload:
  "remembers s m \<Longrightarrow> remembers (snd (reload_request c e s)) (recall (ses_profiles s) (DT_Request e Req_Reload named) m)"
proof -
  assume r: "remembers s m"
  then have "fst m = ses_names s" by (simp add: remembers_def)
  with r show ?thesis
    by (auto simp: reload_request_def send_reload_def restore_registry_def Let_def remembers_sync
        split: sum.splits reply.splits prod.splits)
qed

lemma remembers_request:
  assumes "remembers s m"
  shows "remembers (snd (respond c e request named s)) (recall (ses_profiles s) (DT_Request e request named) m)"
proof -
  have "remembers (snd (service_request c e name build b s)) m" for name build b
    using remembers_cong [OF service_request_keeps] assms by blast
  moreover have "remembers (s\<lparr> ses_stop := stop \<rparr>) m" for stop using assms by (simp add: remembers_def session_wf_def)
  ultimately show ?thesis using assms remembers_reload [OF assms] by (cases request) simp_all
qed

lemma remembers_collect:
  assumes "remembers s m"
  shows "remembers (snd (daemon_step c (DT_Collect act) (co, s))) (recall profiles (DT_Collect act) m)"
proof (cases act)
  case (CA_Event now ev)
  obtain names past where m: "m = (names, past)" by (cases m)
  have log: "co_registry (collect_log ev co) = co_registry co" for co
    by (simp add: collect_log_def split: option.split event_kind.split prod.split)
  have "snd (daemon_step c (DT_Collect act) (co, s)) = s\<lparr> ses_registry := registry_apply now ev (ses_registry s) \<rparr>"
    by (simp add: CA_Event collect_event_def Let_def log)
  then show ?thesis using assms registry_apply_wf
    by (auto simp: CA_Event m remembers_def session_wf_def registry_apply_spec entry_of_snoc option.map_comp comp_def
        case_prod_unfold)
next
  case CA_Pump
  with assms show ?thesis by (simp add: Let_def remembers_def session_wf_def)
qed

lemma daemon_step_profiles: "ses_profiles (snd (daemon_step c turn (co, s))) = ses_profiles s"
proof (cases turn)
  case (DT_Request e request named)
  have control: "ses_profiles (snd (command c e name build s)) = ses_profiles s" for name build
    by (simp add: command_def send_control_def split: option.splits reply.splits sum.splits)
  have "ses_profiles (snd (service_request c e name build b s)) = ses_profiles s" for name build b
    using control [of name build] by (auto simp: service_request_def remember_def split: prod.splits)
  moreover have "ses_profiles (snd (reload_request c e s)) = ses_profiles s"
    by (simp add: reload_request_def send_reload_def restore_registry_def sync_registry_def send_control_def
        respawn_watchers_def Let_def split: sum.splits reply.splits prod.splits)
  ultimately show ?thesis by (cases request) (simp_all add: DT_Request)
qed (simp add: Let_def)

lemma remembers_run:
  "remembers s m \<Longrightarrow> remembers (snd (fold (daemon_step c) turns (co, s))) (fold (recall (ses_profiles s)) turns m)"
proof (induction turns arbitrary: co s m)
  case (Cons turn turns)
  obtain co' s' where step: "daemon_step c turn (co, s) = (co', s')" by (metis surj_pair)
  have "remembers s' (recall (ses_profiles s) turn m)"
    using remembers_collect [OF Cons.prems] remembers_request [OF Cons.prems] step
    by (cases turn) (metis snd_conv, auto)
  moreover have "ses_profiles s' = ses_profiles s" using daemon_step_profiles [of c turn co s] step by simp
  ultimately show ?case using Cons.IH [of s' "recall (ses_profiles s) turn m" co'] step by simp
qed simp

lemma remembers_status:
  assumes "remembers s (names, past)"
  shows "respond c e Req_Status named s =
       (Resp_Status (map (\<lambda>n. case the (past n) of (checked, es) \<Rightarrow> told_line (re_now e) n checked es) names), s)"
    and "n \<in> set names \<Longrightarrow> past n \<noteq> None"
proof -
  let ?entry = "\<lambda>n. case the (past n) of (h, es) \<Rightarrow> entry_of h es"
  have order: "sr_order (ses_registry s) = names" and keys: "fst ` set (sr_services (ses_registry s)) = set names"
    and get: "\<And>n. bt_get (sr_services (ses_registry s)) n = map_option (\<lambda>(h, es). entry_of h es) (past n)"
    using assms by (auto simp: remembers_def session_wf_def registry_wf_def)
  have known: "past n \<noteq> None" if "n \<in> set names" for n
    using that get [of n] bt_get_dom [of "sr_services (ses_registry s)" n] keys by auto
  then show "n \<in> set names \<Longrightarrow> past n \<noteq> None" .
  have "\<forall>n\<in>set names. bt_get (sr_services (ses_registry s)) n = Some (?entry n)"
    using known get by force
  from snapshot_map [OF this, of "status_of (re_now e)"]
  show "respond c e Req_Status named s =
       (Resp_Status (map (\<lambda>n. case the (past n) of (checked, es) \<Rightarrow> told_line (re_now e) n checked es) names), s)"
    by (simp add: registry_snapshot_def order comp_def entry_of_line case_prod_unfold)
qed

definition first_memory :: "config \<Rightarrow> service_name list \<Rightarrow> memory" where
  "first_memory config names = take_in config names ([], \<lambda>_. None)"

lemma remembers_new:
  assumes "ses_registry s = registry_new (map (\<lambda>n. (n, has_health config n)) (ses_names s))"
  shows "remembers s (first_memory config (ses_names s))"
proof -
  have "map_of (rev (map (\<lambda>n. (n, has_health config n)) ns)) n = (if n \<in> set ns then Some (has_health config n) else None)"
    for ns n
    by (induction ns rule: rev_induct) auto
  then show ?thesis
    by (auto simp: remembers_def session_wf_def assms registry_new_wf registry_new_order registry_new_get
        first_memory_def take_in_def entry_of_def comp_def)
qed

text \<open>C15: After any run of events and requests, reloads included, a status request is answered
  with one line per service of the plan last taken in, in its order; a line tells of the events
  collected of this service alone since it was taken in: its state is the last one reported, its
  process and uptime are of the last start unless it has left \<open>Running\<close> since, its restarts those of
  the last backoff, its health the last verdict unless it has started again since, its message the
  last one since it last started.  Events and requests are taken one at a time.\<close>

theorem status_tells_the_events:
  assumes "ses_registry s = registry_new (map (\<lambda>n. (n, has_health config n)) (ses_names s))"
    and "fold (daemon_step c) turns (co, s) = (co', s')"
    and "fold (recall (ses_profiles s)) turns (first_memory config (ses_names s)) = (names, past)"
  shows "(\<forall>n\<in>set names. past n \<noteq> None)
    \<and> respond c e Req_Status named s' =
        (Resp_Status (map (\<lambda>n. case the (past n) of (checked, es) \<Rightarrow> told_line (re_now e) n checked es) names), s')"
proof -
  have "remembers s' (names, past)"
    using remembers_run [OF remembers_new [OF assms(1)], of c turns co] assms(2,3) by simp
  from remembers_status [OF this] show ?thesis by blast
qed

text \<open>A subscriber that keeps reading gets every event it asked for.\<close>

lemma stream_all_written:
  "\<forall>x\<in>set feed. snd x \<Longrightarrow> stream_events fl feed =
     map (\<lambda>x. case fst x of FI_Event ev \<Rightarrow> Resp_Event (ev_service ev) (to_wire_event (ev_kind ev))
                | FI_Lagged skipped \<Rightarrow> Resp_Lagged skipped)
       (filter (\<lambda>x. case fst x of FI_Event ev \<Rightarrow> filter_wants fl ev | FI_Lagged _ \<Rightarrow> True) feed)"
  by (induction fl feed rule: stream_events.induct) auto

text \<open>The semaphore caps the connections.\<close>

lemma accept_cap: "length live \<le> max_connections \<Longrightarrow> length (accept_step i live) \<le> max_connections"
  by (cases i) (auto simp: length_remove1)

interpretation accepting: machine accept_step "\<lambda>live. length live \<le> max_connections"
  by unfold_locales (rule accept_cap)

lemma connections_are_capped: "length (fold accept_step is []) \<le> max_connections"
  by (rule accepting.run_inv) simp

text \<open>A peer of another user gets one line and changes nothing.\<close>

lemma stranger_is_refused:
  "peer \<noteq> Inr ours \<Longrightarrow> \<exists>refusal. admitted_client c ours peer env ending bytes s = ([refusal], s)"
  by (cases peer) (auto simp: admitted_client_def admit_def)

section \<open>Witnesses\<close>

definition example_codec :: wire_codec where
  "example_codec =
     \<lparr> wc_decode = (\<lambda>_. Inl ''expected value''), wc_type_of = (\<lambda>_. None), wc_debug = (\<lambda>s. s),
       wc_config_error = (\<lambda>_. ''invalid''), wc_runtime_error = (\<lambda>_. ''failed'') \<rparr>"

definition example_env :: "reply \<Rightarrow> request_env" where
  "example_env reply =
     \<lparr> re_now = 7, re_reply = reply, re_config = Inr (example_stack, []), re_problem = None, re_written = True,
       re_feed = [] \<rparr>"

text \<open>A daemon on \<open>db\<close> and \<open>tool\<close>, of which \<open>tool\<close> is running.\<close>

definition example_registry :: status_registry where
  "example_registry =
     registry_run [(3, service_event_new ''tool'' (EK_State Running))] (registry_new [(''db'', False), (''tool'', False)])"

definition example_session :: session where
  "example_session =
     \<lparr> ses_registry = example_registry, ses_stop = [], ses_control = [], ses_names = [''db'', ''tool''],
       ses_project = ''p'', ses_pid = 42, ses_config_path = ''/p/servicrab.toml'', ses_profiles = [],
       ses_stopped_path = ''/p/.servicrab/stopped'', ses_stopped = None, ses_events = True, ses_watchers = [] \<rparr>"

theorem garbage_is_bounded_witness:
  "length (fst (serve_client example_codec (\<lambda>_. example_env RP_Gone) SE_Closed
      (concat (replicate 100 (''{'' @ [newline]))) example_session)) \<le> 3"
proof -
  have "\<not> understood example_codec line" for line by (simp add: understood_def example_codec_def)
  then have "understood_lines example_codec ending bytes = 0" for ending bytes
    by (simp add: understood_lines_def)
  then show ?thesis by (rule conjunct1 [OF mp [OF conjunct2 [OF conjunct2 [OF garbage_is_bounded]]]])
qed

text \<open>A stop that is confirmed, a start that is refused, and one that is confirmed for another.\<close>

definition example_requests :: "(request_env \<times> request) list" where
  "example_requests =
     [(example_env (RP_Answer (Inr CO_Stopped)), Req_StopService ''tool''),
      (example_env (RP_Answer (Inl (CR_Busy ''tool''))), Req_StartService ''tool''),
      (example_env (RP_Answer (Inr CO_Started)), Req_StartService ''db'')]"

lemma example_confirmed:
  "confirmed (fst (session_answers example_codec example_requests example_session)) = [(''tool'', True), (''db'', False)]"
  by (simp add: example_requests_def confirmed_def service_request_def command_def example_session_def example_env_def
      response_message_def response_error_def remember_def send_control_def split: prod.splits)

theorem confirmed_stops_are_remembered_witness:
  "''tool'' \<in> read_stopped (ses_stopped (snd (session_answers example_codec example_requests example_session)))
   \<and> ''db'' \<notin> read_stopped (ses_stopped (snd (session_answers example_codec example_requests example_session)))"
proof -
  have "\<forall>n\<in>read_stopped (ses_stopped example_session). plain_name n"
    by (simp add: example_session_def read_stopped_def)
  moreover have "\<forall>(e, r)\<in>set example_requests. re_problem e = None \<and> (\<forall>n. request_name r = Some n \<longrightarrow> plain_name n)"
    by (simp add: example_requests_def example_env_def plain_name_def graphic_def)
  ultimately show ?thesis
    using confirmed_stops_are_remembered [OF _ _ prod.collapse [symmetric], of example_session example_requests]
    by (simp add: example_confirmed)
qed

lemma example_session_wf: "session_wf example_session"
  using registry_new_wf [of "[(''db'', False), (''tool'', False)]"] registry_new_order [of "[(''db'', False), (''tool'', False)]"]
  by (simp add: session_wf_def example_session_def example_registry_def registry_run_def registry_apply_wf
      registry_apply_spec)

theorem refused_reload_forgets_witness:
  "map_option en_state (bt_get (sr_services (ses_registry example_session)) ''tool'') = Some Running
   \<and> bt_get (sr_services (ses_registry (snd (reload_request example_codec
        (example_env (RP_Answer (Inl (CR_Busy ''db'')))) example_session)))) ''tool'' = Some (entry_new False)"
proof -
  let ?e = "example_env (RP_Answer (Inl (CR_Busy ''db'')))"
  have config: "re_config ?e = Inr (example_stack, [])" by (simp add: example_env_def)
  have plan: "plan_stack example_stack (daemon_selection (ses_profiles example_session)) = Inr [''db'', ''api'', ''web'']"
    by code_simp
  have reply: "\<nexists>outcome. re_reply ?e = RP_Answer (Inr outcome)" by (simp add: example_env_def)
  have known: "''tool'' \<in> set (ses_names example_session)" by (simp add: example_session_def)
  have "\<not> has_health example_stack ''tool''" by code_simp
  moreover have "map_option en_state (bt_get (sr_services (ses_registry example_session)) ''tool'') = Some Running"
    by code_simp
  ultimately show ?thesis
    using refused_reload_forgets [OF example_session_wf config plan reply prod.collapse [symmetric] known, of example_codec]
    by simp
qed

text \<open>A daemon on \<open>db\<close> and \<open>tool\<close> that \<open>tool\<close> has started in, before and after a reload that the
  supervisor refuses.\<close>

definition example_fresh :: session where
  "example_fresh = example_session\<lparr> ses_registry := registry_new [(''db'', False), (''tool'', False)] \<rparr>"

definition example_turns :: "daemon_turn list" where
  "example_turns =
     [DT_Collect CA_Pump, DT_Request (example_env (RP_Answer (Inl (CR_Busy ''db'')))) Req_Reload None,
      DT_Collect (CA_Event 3 (service_event_new ''tool'' (EK_Started 9))),
      DT_Collect (CA_Event 4 (service_event_new ''tool'' (EK_State Running)))]"

theorem status_tells_the_events_witness:
  "\<exists>lines. fst (respond example_codec (example_env RP_Gone) Req_Status None
        (snd (fold (daemon_step example_codec) example_turns
           (\<lparr> co_registry = registry_new [], co_sink = None, co_warnings = [], co_stream = [] \<rparr>, example_fresh))))
       = Resp_Status lines
     \<and> map si_name lines = [''db'', ''tool''] \<and> map si_state lines = [WS_Pending, WS_Running]
     \<and> map si_pid lines = [None, Some 9]"
proof -
  let ?co = "\<lparr> co_registry = registry_new [], co_sink = None, co_warnings = [], co_stream = [] \<rparr>"
  let ?run = "fold (daemon_step example_codec) example_turns (?co, example_fresh)"
  let ?past = "(\<lambda>_. None)(''db'' := Some (False, []),
     ''tool'' := Some (False, [(3, EK_Started 9), (4, EK_State Running)]))"
  have plan: "plan_stack example_stack (daemon_selection []) = Inr [''db'', ''api'', ''web'']"
    by code_simp
  have health: "\<not> has_health example_stack ''db''" "\<not> has_health example_stack ''tool''" by code_simp+
  have past: "fold (recall (ses_profiles example_fresh)) example_turns (first_memory example_stack (ses_names example_fresh))
      = ([''db'', ''tool''], ?past)"
    by (auto simp: example_turns_def example_fresh_def example_session_def example_env_def first_memory_def plan
        take_in_def health service_event_new_def fun_eq_iff)
  have fresh: "ses_registry example_fresh
      = registry_new (map (\<lambda>n. (n, has_health example_stack n)) (ses_names example_fresh))"
    by (simp add: example_fresh_def example_session_def health)
  have "respond example_codec (example_env RP_Gone) Req_Status None (snd ?run)
      = (Resp_Status (map (\<lambda>n. case the (?past n) of (checked, es) \<Rightarrow> told_line (re_now (example_env RP_Gone)) n checked es)
          [''db'', ''tool'']), snd ?run)"
    by (rule conjunct2 [OF status_tells_the_events [OF fresh prod.collapse [symmetric] past]])
  then show ?thesis by (simp only: fst_conv) (simp add: told_line_def or_else_def latest_def map_filter_simps Let_def)
qed

end
