(* ===== verification/Project_Lock.thy ===== *)
theory Project_Lock
  imports Logs
begin

text \<open>
  \<open>crates/servicrab-cli/src/daemon/lock.rs\<close>: one daemon per project, by an exclusive \<open>flock\<close> on
  the pidfile.  Several daemons, named by their process ids, run the calls of \<open>acquire\<close> and
  \<open>Drop\<close> in any order, one system call at a turn; the program counter of a daemon is the call it
  makes next, with the loop attempts that are left after this one and the inode it has open.
\<close>

section \<open>The lock pf and the daemons\<close>

definition lock_attempts :: nat where
  "lock_attempts = 8"

datatype lock_error = LE_Held | LE_Failed string

datatype lock_pc =
    PC_Outside
  | PC_Open nat
  | PC_Flock nat inode
  | PC_Check nat inode
  | PC_Truncate inode
  | PC_Write inode
  | PC_Holding inode
  | PC_Unlink inode
  | PC_Unlock inode
  | PC_Refused lock_error

text \<open>\<open>lk_owner\<close> is the kernel's table of exclusive locks, \<open>lk_at\<close> the inode the path names.\<close>

record lock_world =
  lk_at :: "inode option"
  lk_fresh :: inode
  lk_owner :: "inode \<Rightarrow> nat option"
  lk_text :: "inode \<Rightarrow> string"
  lk_pc :: "nat \<Rightarrow> lock_pc"

definition lock_world_new :: lock_world where
  "lock_world_new =
     \<lparr> lk_at = None, lk_fresh = 0, lk_owner = (\<lambda>_. None), lk_text = (\<lambda>_. []), lk_pc = (\<lambda>_. PC_Outside) \<rparr>"

definition goto :: "nat \<Rightarrow> lock_pc \<Rightarrow> lock_world \<Rightarrow> lock_world" where
  "goto p pc w = w\<lparr> lk_pc := (lk_pc w)(p := pc) \<rparr>"

text \<open>A file is unlocked when its descriptor is closed.\<close>

definition release :: "inode \<Rightarrow> lock_world \<Rightarrow> lock_world" where
  "release i w = w\<lparr> lk_owner := (lk_owner w)(i := None) \<rparr>"

definition set_text :: "inode \<Rightarrow> string \<Rightarrow> lock_world \<Rightarrow> lock_world" where
  "set_text i s w = w\<lparr> lk_text := (lk_text w)(i := s) \<rparr>"

section \<open>Taking and dropping the lock\<close>

text \<open>The answer of the system to the call: it works, or fails with an error.\<close>

type_synonym os_answer = "string option"

text \<open>The pass over the loop that \<open>n\<close> of them are left of.\<close>

definition next_attempt :: "nat \<Rightarrow> path \<Rightarrow> nat \<Rightarrow> lock_world \<Rightarrow> lock_world" where
  "next_attempt p pf n =
     goto p (case n of 0 \<Rightarrow> PC_Refused (LE_Failed (pf @ '' kept being replaced while taking the daemon lock''))
             | Suc m \<Rightarrow> PC_Open m)"

definition open_pidfile :: "nat \<Rightarrow> path \<Rightarrow> nat \<Rightarrow> os_answer \<Rightarrow> lock_world \<Rightarrow> lock_world" where
  "open_pidfile p pf n a w =
     (case a of
        Some e \<Rightarrow> goto p (PC_Refused (LE_Failed (''could not open '' @ pf @ '': '' @ e))) w
      | None \<Rightarrow>
          (case lk_at w of
             Some i \<Rightarrow> goto p (PC_Flock n i) w
           | None \<Rightarrow>
               (let i = lk_fresh w in
                goto p (PC_Flock n i) (set_text i [] (w\<lparr> lk_at := Some i, lk_fresh := Suc i \<rparr>)))))"

definition flock_pidfile :: "nat \<Rightarrow> path \<Rightarrow> nat \<Rightarrow> inode \<Rightarrow> os_answer \<Rightarrow> lock_world \<Rightarrow> lock_world" where
  "flock_pidfile p pf n i a w =
     (case a of
        Some e \<Rightarrow> goto p (PC_Refused (LE_Failed (''could not lock '' @ pf @ '': '' @ e))) w
      | None \<Rightarrow>
          (case lk_owner w i of
             Some _ \<Rightarrow> goto p (PC_Refused LE_Held) w
           | None \<Rightarrow> goto p (PC_Check n i) (w\<lparr> lk_owner := (lk_owner w)(i \<mapsto> p) \<rparr>)))"

text \<open>\<open>still_at\<close>: a failed \<open>stat\<close> is a no.\<close>

definition still_at :: "inode \<Rightarrow> os_answer \<Rightarrow> lock_world \<Rightarrow> bool" where
  "still_at i a w = (a = None \<and> lk_at w = Some i)"

definition check_pidfile :: "nat \<Rightarrow> path \<Rightarrow> nat \<Rightarrow> inode \<Rightarrow> os_answer \<Rightarrow> lock_world \<Rightarrow> lock_world" where
  "check_pidfile p pf n i a w =
     (if \<not> still_at i a w then next_attempt p pf n (release i w) else goto p (PC_Truncate i) w)"

text \<open>\<open>write_pid\<close>: \<open>set_len\<close>, and then the seek, the write and the flush as one call.\<close>

definition pid_line :: "nat \<Rightarrow> string" where
  "pid_line p = show_nat p @ [CHR 10]"

definition could_not_write_pid :: "nat \<Rightarrow> path \<Rightarrow> inode \<Rightarrow> string \<Rightarrow> lock_world \<Rightarrow> lock_world" where
  "could_not_write_pid p pf i e w =
     goto p (PC_Refused (LE_Failed (''could not write '' @ pf @ '': '' @ e))) (release i w)"

definition truncate_pidfile :: "nat \<Rightarrow> path \<Rightarrow> inode \<Rightarrow> os_answer \<Rightarrow> lock_world \<Rightarrow> lock_world" where
  "truncate_pidfile p pf i a w =
     (case a of
        Some e \<Rightarrow> could_not_write_pid p pf i e w
      | None \<Rightarrow> goto p (PC_Write i) (set_text i [] w))"

definition write_pidfile :: "nat \<Rightarrow> path \<Rightarrow> inode \<Rightarrow> os_answer \<Rightarrow> lock_world \<Rightarrow> lock_world" where
  "write_pidfile p pf i a w =
     (case a of
        Some e \<Rightarrow> could_not_write_pid p pf i e w
      | None \<Rightarrow> goto p (PC_Holding i) (set_text i (pid_line p) w))"

text \<open>\<open>Drop\<close>: the body removes the file, whatever becomes of it, and then the field is dropped.\<close>

definition unlink_pidfile :: "nat \<Rightarrow> inode \<Rightarrow> os_answer \<Rightarrow> lock_world \<Rightarrow> lock_world" where
  "unlink_pidfile p i a w =
     goto p (PC_Unlock i) (case a of None \<Rightarrow> w\<lparr> lk_at := None \<rparr> | Some _ \<Rightarrow> w)"

section \<open>Turns\<close>

text \<open>A daemon outside may begin, a holder may let go; otherwise the next call is made.\<close>

definition lock_turn :: "path \<Rightarrow> nat \<Rightarrow> os_answer \<Rightarrow> lock_world \<Rightarrow> lock_world" where
  "lock_turn pf p a w =
     (case lk_pc w p of
        PC_Outside \<Rightarrow> next_attempt p pf lock_attempts w
      | PC_Open n \<Rightarrow> open_pidfile p pf n a w
      | PC_Flock n i \<Rightarrow> flock_pidfile p pf n i a w
      | PC_Check n i \<Rightarrow> check_pidfile p pf n i a w
      | PC_Truncate i \<Rightarrow> truncate_pidfile p pf i a w
      | PC_Write i \<Rightarrow> write_pidfile p pf i a w
      | PC_Holding i \<Rightarrow> goto p (PC_Unlink i) w
      | PC_Unlink i \<Rightarrow> unlink_pidfile p i a w
      | PC_Unlock i \<Rightarrow> goto p PC_Outside (release i w)
      | PC_Refused e \<Rightarrow> w)"

text \<open>A daemon that is killed loses its descriptors and with them its lock; its file stays.\<close>

fun pc_lock :: "lock_pc \<Rightarrow> inode option" where
  "pc_lock (PC_Check n i) = Some i"
| "pc_lock (PC_Truncate i) = Some i"
| "pc_lock (PC_Write i) = Some i"
| "pc_lock (PC_Holding i) = Some i"
| "pc_lock (PC_Unlink i) = Some i"
| "pc_lock (PC_Unlock i) = Some i"
| "pc_lock _ = None"

definition killed :: "nat \<Rightarrow> lock_world \<Rightarrow> lock_world" where
  "killed p w = goto p PC_Outside (case pc_lock (lk_pc w p) of None \<Rightarrow> w | Some i \<Rightarrow> release i w)"

datatype lock_act = LA_Turn nat os_answer | LA_Kill nat

fun lock_step :: "path \<Rightarrow> lock_act \<Rightarrow> lock_world \<Rightarrow> lock_world" where
  "lock_step pf (LA_Turn p a) w = lock_turn pf p a w"
| "lock_step pf (LA_Kill p) w = killed p w"

inductive lock_reach :: "path \<Rightarrow> lock_world \<Rightarrow> bool" for pf where
  start: "lock_reach pf lock_world_new"
| act: "lock_reach pf w \<Longrightarrow> lock_reach pf (lock_step pf a w)"

definition lock_run :: "path \<Rightarrow> lock_act list \<Rightarrow> lock_world \<Rightarrow> lock_world" where
  "lock_run pf as w = fold (lock_step pf) as w"

section \<open>Mutual exclusion\<close>

text \<open>Who has the authority over the project: from the check of the file to its removal.\<close>

fun pc_inside :: "lock_pc \<Rightarrow> inode option" where
  "pc_inside (PC_Truncate i) = Some i"
| "pc_inside (PC_Write i) = Some i"
| "pc_inside (PC_Holding i) = Some i"
| "pc_inside (PC_Unlink i) = Some i"
| "pc_inside _ = None"

definition inside :: "lock_world \<Rightarrow> nat \<Rightarrow> bool" where
  "inside w p \<longleftrightarrow> pc_inside (lk_pc w p) \<noteq> None"

fun pc_open :: "lock_pc \<Rightarrow> inode option" where
  "pc_open (PC_Flock n i) = Some i"
| "pc_open pc = pc_lock pc"

definition lock_inv :: "lock_world \<Rightarrow> bool" where
  "lock_inv w \<longleftrightarrow>
     (\<forall>p i. lk_owner w i = Some p \<longleftrightarrow> pc_lock (lk_pc w p) = Some i)
     \<and> (\<forall>p i. pc_inside (lk_pc w p) = Some i \<longrightarrow> lk_at w = Some i)
     \<and> (\<forall>p i. pc_open (lk_pc w p) = Some i \<longrightarrow> i < lk_fresh w)
     \<and> (\<forall>i. lk_at w = Some i \<longrightarrow> i < lk_fresh w)
     \<and> (\<forall>p i. lk_pc w p \<in> {PC_Holding i, PC_Unlink i} \<longrightarrow> lk_text w i = pid_line p)"

lemma pc_inside_lock: "pc_inside pc = Some i \<Longrightarrow> pc_lock pc = Some i"
  by (cases pc) auto

lemma pc_lock_open: "pc_lock pc = Some i \<Longrightarrow> pc_open pc = Some i"
  by (cases pc) auto

lemma lock_inv_new: "lock_inv lock_world_new"
  by (simp add: lock_inv_def lock_world_new_def)

lemma lock_inv_owner: "lock_inv w \<Longrightarrow> lk_owner w i = Some p \<longleftrightarrow> pc_lock (lk_pc w p) = Some i"
  by (simp add: lock_inv_def)

lemma lock_inv_inside: "lock_inv w \<Longrightarrow> pc_inside (lk_pc w p) = Some i \<Longrightarrow> lk_at w = Some i"
  by (simp add: lock_inv_def)

lemma lock_inv_fresh: "lock_inv w \<Longrightarrow> pc_open (lk_pc w p) = Some i \<Longrightarrow> i < lk_fresh w"
  by (simp add: lock_inv_def)

lemma lock_inv_text: "lock_inv w \<Longrightarrow> lk_pc w p \<in> {PC_Holding i, PC_Unlink i} \<Longrightarrow> lk_text w i = pid_line p"
  by (auto simp: lock_inv_def)

lemma lock_inv_unique:
  assumes "lock_inv w" and "pc_lock (lk_pc w p) = Some i" and "pc_lock (lk_pc w q) = Some i"
  shows "p = q"
  using lock_inv_owner [OF assms(1), of i] assms(2,3) by (metis option.inject)

lemma lock_inv_goto:
  assumes "lock_inv w" and "pc_lock pc = pc_lock (lk_pc w p)"
    and "\<And>i. pc_inside pc = Some i \<Longrightarrow> lk_at w = Some i"
    and "\<And>i. pc_open pc = Some i \<Longrightarrow> i < lk_fresh w"
    and "\<And>i. pc \<in> {PC_Holding i, PC_Unlink i} \<Longrightarrow> lk_text w i = pid_line p"
  shows "lock_inv (goto p pc w)"
  using assms unfolding lock_inv_def goto_def by auto

lemma lock_inv_release:
  assumes inv: "lock_inv w" and mine: "pc_lock (lk_pc w p) = Some i" and out: "pc_lock pc = None"
    and fresh: "\<And>j. pc_open pc = Some j \<Longrightarrow> j < lk_fresh w"
  shows "lock_inv (goto p pc (release i w))"
proof -
  let ?w = "goto p pc (release i w)"
  have pc: "lk_pc ?w q = (if q = p then pc else lk_pc w q)" for q by (simp add: goto_def release_def)
  have same: "lk_at ?w = lk_at w" "lk_fresh ?w = lk_fresh w" "lk_text ?w = lk_text w"
    by (simp_all add: goto_def release_def)
  have owner: "lk_owner ?w j = (if j = i then None else lk_owner w j)" for j
    by (simp add: goto_def release_def)
  have "lk_owner ?w j = Some q \<longleftrightarrow> pc_lock (lk_pc ?w q) = Some j" for q j
  proof (cases "q = p")
    case True
    with lock_inv_owner [OF inv, of j p] mine out show ?thesis by (auto simp: pc owner)
  next
    case False
    then have "pc_lock (lk_pc w q) \<noteq> Some i" using lock_inv_unique [OF inv mine] by blast
    with False lock_inv_owner [OF inv, of j q] show ?thesis by (auto simp: pc owner)
  qed
  moreover have "pc_inside pc = None" using out by (cases pc) auto
  moreover have "pc \<notin> {PC_Holding j, PC_Unlink j}" for j using out by auto
  ultimately show ?thesis using inv fresh by (simp add: lock_inv_def pc same)
qed

lemma next_attempt_inv:
  assumes "lock_inv w" and "pc_lock (lk_pc w p) = None"
  shows "lock_inv (next_attempt p pf n w)"
  using assms unfolding next_attempt_def by (intro lock_inv_goto) (auto split: nat.splits)

lemma next_attempt_release_inv:
  assumes "lock_inv w" and "pc_lock (lk_pc w p) = Some i"
  shows "lock_inv (next_attempt p pf n (release i w))"
  unfolding next_attempt_def by (rule lock_inv_release [OF assms]) (auto split: nat.splits)

lemma open_pidfile_inv:
  assumes "lock_inv w" and "lk_pc w p = PC_Open n"
  shows "lock_inv (open_pidfile p pf n a w)"
proof (cases a)
  case (Some e)
  then show ?thesis unfolding open_pidfile_def using assms by (auto intro!: lock_inv_goto)
next
  case None
  show ?thesis
  proof (cases "lk_at w")
    case (Some i)
    then have "i < lk_fresh w" using assms(1) by (simp add: lock_inv_def)
    with None Some show ?thesis unfolding open_pidfile_def using assms by (auto intro!: lock_inv_goto)
  next
    case at: None
    let ?i = "lk_fresh w"
    have no: "pc_inside (lk_pc w q) = None" for q
      using at assms(1) unfolding lock_inv_def by (cases "pc_inside (lk_pc w q)") auto
    have "lock_inv (set_text ?i [] (w\<lparr> lk_at := Some ?i, lk_fresh := Suc ?i \<rparr>))"
      using assms(1) no unfolding lock_inv_def set_text_def
      by (auto simp: less_Suc_eq) (metis no option.distinct(1) pc_inside.simps(3,4))+
    then show ?thesis
      using None at assms(2) unfolding open_pidfile_def
      by (auto intro!: lock_inv_goto simp: set_text_def Let_def)
  qed
qed

lemma flock_pidfile_inv:
  assumes "lock_inv w" and "lk_pc w p = PC_Flock n i"
  shows "lock_inv (flock_pidfile p pf n i a w)"
proof (cases "a = None \<and> lk_owner w i = None")
  case False
  then show ?thesis unfolding flock_pidfile_def using assms
    by (auto intro!: lock_inv_goto split: option.split)
next
  case True
  let ?w = "goto p (PC_Check n i) (w\<lparr> lk_owner := (lk_owner w)(i \<mapsto> p) \<rparr>)"
  have "i < lk_fresh w" using lock_inv_fresh [OF assms(1), of p i] assms(2) by simp
  have "lk_owner ?w j = Some q \<longleftrightarrow> pc_lock (lk_pc ?w q) = Some j" for q j
    using lock_inv_owner [OF assms(1), of j q] assms(2) True by (auto simp: goto_def)
  then have "lock_inv ?w"
    using assms(1) \<open>i < lk_fresh w\<close> by (auto simp: lock_inv_def goto_def)
  with True show ?thesis by (simp add: flock_pidfile_def)
qed

lemma check_pidfile_inv:
  assumes "lock_inv w" and "lk_pc w p = PC_Check n i"
  shows "lock_inv (check_pidfile p pf n i a w)"
proof (cases "still_at i a w")
  case False
  with assms show ?thesis by (simp add: check_pidfile_def next_attempt_release_inv)
next
  case True
  then have "lk_at w = Some i" by (simp add: still_at_def)
  moreover have "i < lk_fresh w" using lock_inv_fresh [OF assms(1), of p i] assms(2) by simp
  ultimately show ?thesis using True assms by (auto simp: check_pidfile_def intro!: lock_inv_goto)
qed

text \<open>The one who is inside may write into the file: nobody else is at \<open>Holding\<close> or \<open>Unlink\<close>.\<close>

lemma set_text_inv:
  assumes inv: "lock_inv w" and mine: "pc_inside (lk_pc w p) = Some i"
    and "\<And>j. lk_pc w p \<notin> {PC_Holding j, PC_Unlink j}"
  shows "lock_inv (set_text i s w)"
proof -
  have "lk_text (set_text i s w) j = pid_line q" if "lk_pc w q \<in> {PC_Holding j, PC_Unlink j}" for q j
  proof -
    have "pc_lock (lk_pc w q) = Some j" using that by auto
    moreover have "q \<noteq> p" using that assms(3) by blast
    ultimately have "j \<noteq> i" using lock_inv_unique [OF inv pc_inside_lock [OF mine]] by blast
    with lock_inv_text [OF inv that] show ?thesis by (simp add: set_text_def)
  qed
  with inv show ?thesis by (simp add: lock_inv_def set_text_def)
qed

lemma inside_fresh:
  assumes "lock_inv w" and "pc_inside (lk_pc w p) = Some i"
  shows "lk_at w = Some i \<and> i < lk_fresh w"
  using lock_inv_inside [OF assms] assms(1) by (auto simp: lock_inv_def)

lemma could_not_write_pid_inv:
  assumes "lock_inv w" and "pc_lock (lk_pc w p) = Some i"
  shows "lock_inv (could_not_write_pid p pf i e w)"
  unfolding could_not_write_pid_def by (rule lock_inv_release [OF assms]) auto

lemma truncate_pidfile_inv:
  assumes "lock_inv w" and "lk_pc w p = PC_Truncate i"
  shows "lock_inv (truncate_pidfile p pf i a w)"
proof (cases a)
  case None
  have "lock_inv (set_text i [] w)" using assms by (intro set_text_inv [of w p]) auto
  with None inside_fresh [OF assms(1), of p i] assms(2) show ?thesis
    by (auto simp: truncate_pidfile_def set_text_def intro!: lock_inv_goto)
qed (use assms could_not_write_pid_inv in \<open>simp add: truncate_pidfile_def\<close>)

lemma write_pidfile_inv:
  assumes "lock_inv w" and "lk_pc w p = PC_Write i"
  shows "lock_inv (write_pidfile p pf i a w)"
proof (cases a)
  case None
  have "lock_inv (set_text i (pid_line p) w)" using assms by (intro set_text_inv [of w p]) auto
  with None inside_fresh [OF assms(1), of p i] assms(2) show ?thesis
    by (auto simp: write_pidfile_def set_text_def intro!: lock_inv_goto)
qed (use assms could_not_write_pid_inv in \<open>simp add: write_pidfile_def\<close>)

text \<open>The one who removes the file was alone inside.\<close>

lemma unlink_pidfile_inv:
  assumes inv: "lock_inv w" and here: "lk_pc w p = PC_Unlink i"
  shows "lock_inv (unlink_pidfile p i a w)"
proof (cases a)
  case None
  let ?w = "unlink_pidfile p i a w"
  have alone: "pc_inside (lk_pc w q) = None" if "q \<noteq> p" for q
  proof (rule ccontr)
    assume "pc_inside (lk_pc w q) \<noteq> None"
    then obtain j where j: "pc_inside (lk_pc w q) = Some j" by auto
    moreover have "pc_inside (lk_pc w p) = Some i" using here by simp
    ultimately have "j = i" using lock_inv_inside [OF inv] by (metis option.inject)
    then have "p = q" using lock_inv_unique [OF inv, of p i q] pc_inside_lock [OF j] here by simp
    with that show False by simp
  qed
  have pc: "lk_pc ?w q = (if q = p then PC_Unlock i else lk_pc w q)" for q
    by (simp add: unlink_pidfile_def goto_def None)
  have "lk_owner ?w = lk_owner w" "lk_fresh ?w = lk_fresh w" "lk_text ?w = lk_text w" "lk_at ?w = None"
    by (simp_all add: unlink_pidfile_def goto_def None)
  moreover have "lk_owner w j = Some q \<longleftrightarrow> pc_lock (lk_pc ?w q) = Some j" for q j
    using lock_inv_owner [OF inv, of j q] here by (auto simp: pc)
  moreover have "i < lk_fresh w" using inside_fresh [OF inv, of p i] here by simp
  ultimately show ?thesis using inv alone by (auto simp: lock_inv_def pc)
qed (use inv here lock_inv_fresh [OF inv, of p i] in \<open>auto simp: unlink_pidfile_def intro!: lock_inv_goto\<close>)

lemma lock_turn_inv:
  assumes "lock_inv w"
  shows "lock_inv (lock_turn pf p a w)"
proof (cases "lk_pc w p")
  case (PC_Holding i)
  then have "lk_text w i = pid_line p" "lk_at w = Some i" "i < lk_fresh w"
    using inside_fresh [OF assms, of p i] assms by (auto simp: lock_inv_def)
  with PC_Holding assms show ?thesis by (auto simp: lock_turn_def intro!: lock_inv_goto)
next
  case (PC_Unlock i)
  then show ?thesis using lock_inv_release [OF assms, of p i PC_Outside] by (simp add: lock_turn_def)
qed (use assms in \<open>simp_all add: lock_turn_def next_attempt_inv open_pidfile_inv flock_pidfile_inv
  check_pidfile_inv truncate_pidfile_inv write_pidfile_inv unlink_pidfile_inv\<close>)

lemma killed_inv:
  assumes "lock_inv w"
  shows "lock_inv (killed p w)"
proof (cases "pc_lock (lk_pc w p)")
  case None
  with assms show ?thesis by (auto simp: killed_def intro!: lock_inv_goto)
next
  case (Some i)
  with lock_inv_release [OF assms, of p i PC_Outside] show ?thesis by (simp add: killed_def)
qed

lemma lock_step_inv: "lock_inv w \<Longrightarrow> lock_inv (lock_step pf a w)"
  by (cases a) (simp_all add: lock_turn_inv killed_inv)

lemma lock_reach_inv: "lock_reach pf w \<Longrightarrow> lock_inv w"
  by (induction rule: lock_reach.induct) (simp_all add: lock_inv_new lock_step_inv)

lemma lock_run_reach: "lock_reach pf w \<Longrightarrow> lock_reach pf (lock_run pf as w)"
  unfolding lock_run_def by (induction as arbitrary: w) (simp_all add: lock_reach.act)

text \<open>C8: At most one daemon is inside, from the check of its lock until it has removed the file;
  the path then names the file it has locked, and while it holds the lock the file has its pid.\<close>

theorem one_daemon_per_project:
  assumes "lock_reach pf w" and "inside w p"
  shows "(\<forall>q. inside w q \<longrightarrow> q = p)
     \<and> (\<exists>i. lk_at w = Some i \<and> lk_owner w i = Some p \<and> (lk_pc w p = PC_Holding i \<longrightarrow> lk_text w i = pid_line p))"
proof -
  note inv = lock_reach_inv [OF assms(1)]
  from assms(2) obtain i where i: "pc_inside (lk_pc w p) = Some i" by (auto simp: inside_def)
  have "q = p" if q: "inside w q" for q
  proof -
    obtain j where j: "pc_inside (lk_pc w q) = Some j" using q by (auto simp: inside_def)
    then have "j = i" using lock_inv_inside [OF inv] i by (metis option.inject)
    with j i show ?thesis using lock_inv_unique [OF inv] pc_inside_lock by blast
  qed
  moreover have "lk_at w = Some i" "lk_owner w i = Some p"
    using i inside_fresh [OF inv] lock_inv_owner [OF inv] pc_inside_lock by blast+
  moreover have "lk_text w i = pid_line p" if "lk_pc w p = PC_Holding i"
    using inv that by (simp add: lock_inv_def)
  ultimately show ?thesis by blast
qed

section \<open>Taking over from the dead\<close>

text \<open>C16: A dead daemon never blocks its project: whatever happened before, a daemon that starts
  when no other has the file locked holds the lock after its six calls, if none of them fails.\<close>

theorem dead_daemons_block_nobody:
  assumes "lock_reach pf w" and "\<forall>q. pc_lock (lk_pc w q) = None" and "lk_pc w p = PC_Outside"
  shows "\<exists>i. lk_pc (lock_run pf (replicate 6 (LA_Turn p None)) w) p = PC_Holding i
     \<and> lk_at (lock_run pf (replicate 6 (LA_Turn p None)) w) = Some i"
proof -
  note inv = lock_reach_inv [OF assms(1)]
  have free: "lk_owner w i = None" for i
    using lock_inv_owner [OF inv] assms(2) by (metis not_Some_eq option.distinct(1))
  have six: "replicate 6 x = [x, x, x, x, x, x]" for x :: lock_act by (simp add: numeral_eq_Suc)
  let ?w = "lock_turn pf p None (lock_turn pf p None w)"
  define i where "i = (case lk_at w of Some i \<Rightarrow> i | None \<Rightarrow> lk_fresh w)"
  have "lk_pc ?w p = PC_Flock 7 i \<and> lk_at ?w = Some i \<and> lk_owner ?w = lk_owner w"
    using assms(3) by (simp add: lock_turn_def next_attempt_def goto_def lock_attempts_def
        open_pidfile_def i_def set_text_def Let_def eval_nat_numeral split: option.split)
  then have w: "lk_pc ?w p = PC_Flock 7 i" "lk_at ?w = Some i" "lk_owner ?w i = None"
    using free by simp_all
  let ?w' = "lock_turn pf p None (lock_turn pf p None ?w)"
  have w': "lk_pc ?w' p = PC_Truncate i" "lk_at ?w' = Some i"
    using w by (simp_all add: lock_turn_def flock_pidfile_def check_pidfile_def still_at_def goto_def)
  have "lk_pc (lock_turn pf p None (lock_turn pf p None ?w')) p = PC_Holding i
    \<and> lk_at (lock_turn pf p None (lock_turn pf p None ?w')) = Some i"
    using w' by (simp add: lock_turn_def truncate_pidfile_def write_pidfile_def goto_def set_text_def)
  then show ?thesis by (simp add: lock_run_def six)
qed

section \<open>An attempt ends\<close>

fun calls_left :: "lock_pc \<Rightarrow> nat" where
  "calls_left PC_Outside = 27"
| "calls_left (PC_Open n) = 3 * n + 5"
| "calls_left (PC_Flock n i) = 3 * n + 4"
| "calls_left (PC_Check n i) = 3 * n + 3"
| "calls_left (PC_Truncate i) = 2"
| "calls_left (PC_Write i) = 1"
| "calls_left pc = 0"

fun acquire_over :: "lock_pc \<Rightarrow> bool" where
  "acquire_over (PC_Holding i) = True"
| "acquire_over (PC_Refused e) = True"
| "acquire_over _ = False"

fun acquiring :: "lock_pc \<Rightarrow> bool" where
  "acquiring (PC_Unlink i) = False"
| "acquiring (PC_Unlock i) = False"
| "acquiring pc = (\<not> acquire_over pc)"

lemma turn_of_other: "q \<noteq> p \<Longrightarrow> lk_pc (lock_turn pf q a w) p = lk_pc w p"
  by (cases "lk_pc w q") (auto simp: lock_turn_def next_attempt_def open_pidfile_def flock_pidfile_def
      check_pidfile_def truncate_pidfile_def write_pidfile_def could_not_write_pid_def unlink_pidfile_def
      goto_def release_def set_text_def Let_def split: option.split)

lemma kill_of_other: "q \<noteq> p \<Longrightarrow> lk_pc (killed q w) p = lk_pc w p"
  by (simp add: killed_def goto_def release_def split: option.split)

lemma own_turn:
  assumes "acquiring (lk_pc w p)"
  shows "calls_left (lk_pc (lock_turn pf p a w) p) < calls_left (lk_pc w p)
     \<and> (acquiring (lk_pc (lock_turn pf p a w) p) \<or> acquire_over (lk_pc (lock_turn pf p a w) p))"
  using assms
  by (cases "lk_pc w p") (auto simp: lock_turn_def next_attempt_def open_pidfile_def flock_pidfile_def
      check_pidfile_def truncate_pidfile_def write_pidfile_def could_not_write_pid_def lock_attempts_def
      goto_def release_def set_text_def Let_def eval_nat_numeral split: option.split nat.split)

definition own_turns :: "nat \<Rightarrow> lock_act list \<Rightarrow> nat" where
  "own_turns p as = length (filter (\<lambda>a. \<exists>e. a = LA_Turn p e) as)"

lemma acquire_counts:
  assumes "acquiring (lk_pc w p) \<or> acquire_over (lk_pc w p)" and "LA_Kill p \<notin> set as"
    and "calls_left (lk_pc w p) \<le> own_turns p as"
  shows "\<exists>k \<le> length as. acquire_over (lk_pc (lock_run pf (take k as) w) p)"
  using assms
proof (induction as arbitrary: w)
  case Nil
  then show ?case by (cases "lk_pc w p") (auto simp: own_turns_def lock_run_def)
next
  case (Cons a as)
  show ?case
  proof (cases "acquire_over (lk_pc w p)")
    case True
    then show ?thesis by (intro exI [of _ 0]) (simp add: lock_run_def)
  next
    case False
    let ?w = "lock_step pf a w"
    have "(acquiring (lk_pc ?w p) \<or> acquire_over (lk_pc ?w p)) \<and> calls_left (lk_pc ?w p) \<le> own_turns p as"
    proof (cases "\<exists>e. a = LA_Turn p e")
      case True
      then obtain e where "a = LA_Turn p e" by blast
      with own_turn [of w p pf e] Cons.prems False show ?thesis by (auto simp: own_turns_def)
    next
      case other: False
      then have "lk_pc ?w p = lk_pc w p"
        using Cons.prems(2) turn_of_other kill_of_other by (cases a) auto
      with Cons.prems other show ?thesis by (simp add: own_turns_def)
    qed
    with Cons.IH [of ?w] Cons.prems(2) obtain k where
      "k \<le> length as" "acquire_over (lk_pc (lock_run pf (take k as) ?w) p)" by auto
    then show ?thesis by (intro exI [of _ "Suc k"]) (simp add: lock_run_def)
  qed
qed

text \<open>Whatever the other daemons do and the system answers, an attempt to take the lock ends,
  in the lock or in an error, within 27 calls of its own.\<close>

theorem lock_attempt_ends:
  assumes "lk_pc w p = PC_Outside" and "LA_Kill p \<notin> set as" and "27 \<le> own_turns p as"
  shows "\<exists>k \<le> length as. acquire_over (lk_pc (lock_run pf (take k as) w) p)"
  by (rule acquire_counts) (use assms in simp_all)

section \<open>Witnesses\<close>

text \<open>Daemon 1 takes the lock and is killed; daemon 2 finds its file and takes over, while 3 is
  refused.\<close>

definition example_takeover :: "lock_act list" where
  "example_takeover =
     replicate 6 (LA_Turn 1 None) @ [LA_Kill 1] @ replicate 6 (LA_Turn 2 None) @ replicate 3 (LA_Turn 3 None)"

lemma example_takeover_reach: "lock_reach pf (lock_run pf as lock_world_new)"
  by (rule lock_run_reach [OF lock_reach.start])

lemma example_takeover_end:
  "lk_pc (lock_run ''p'' example_takeover lock_world_new) 2 = PC_Holding 0
   \<and> lk_pc (lock_run ''p'' example_takeover lock_world_new) 3 = PC_Refused LE_Held"
  by code_simp

theorem one_daemon_per_project_witness:
  "lk_text (lock_run ''p'' example_takeover lock_world_new) 0 = pid_line 2"
  using one_daemon_per_project [OF example_takeover_reach, of "''p''" example_takeover 2] example_takeover_end
    lock_inv_owner [OF lock_reach_inv [OF example_takeover_reach, of "''p''" example_takeover], of _ 2]
  by (auto simp: inside_def)

theorem dead_daemons_block_nobody_witness:
  "\<exists>i. lk_pc (lock_run ''p'' (replicate 6 (LA_Turn 2 None))
      (lock_run ''p'' (replicate 6 (LA_Turn 1 None) @ [LA_Kill 1]) lock_world_new)) 2 = PC_Holding i"
proof -
  let ?as = "replicate 6 (LA_Turn 1 None) @ [LA_Kill 1]"
  have "lk_pc (lock_run ''p'' ?as lock_world_new) q = PC_Outside" for q
  proof (cases "q = 1")
    case True
    then show ?thesis by (simp add: lock_run_def killed_def goto_def)
  next
    case False
    have other: "\<forall>a\<in>set as. a = LA_Turn 1 None \<or> a = LA_Kill 1
      \<Longrightarrow> lk_pc (fold (lock_step ''p'') as w) q = lk_pc w q" for as w
      using False turn_of_other [of 1 q] kill_of_other [of 1 q] by (induction as arbitrary: w) auto
    show ?thesis unfolding lock_run_def by (subst other) (auto simp: lock_world_new_def)
  qed
  with dead_daemons_block_nobody [OF example_takeover_reach, of "''p''" ?as 2] show ?thesis by auto
qed

theorem lock_attempt_ends_witness:
  "\<exists>k \<le> 27. acquire_over (lk_pc (lock_run ''p'' (take k (replicate 27 (LA_Turn 1 (Some ''EIO'')))) lock_world_new) 1)"
  using lock_attempt_ends [of lock_world_new 1 "replicate 27 (LA_Turn 1 (Some ''EIO''))" "''p''"]
  by (simp add: own_turns_def lock_world_new_def)

end
