(* ===== verification/Daemon_Paths.thy ===== *)
theory Daemon_Paths
  imports Paths Errors "HOL-Library.Word"
begin

unbundle bit_operations_syntax

text \<open>
  \<open>crates/servicrab-cli/src/daemon/paths.rs\<close>, on Linux: where a daemon keeps its socket and files,
  and the private directory the socket moves to when its path is too long to bind.  Paths are byte
  strings; a parent directory is written with single separators.
\<close>

section \<open>The host\<close>

record dir_meta =
  dm_is_dir :: bool
  dm_uid :: u32
  dm_mode :: u32

text \<open>What the module asks the system, the two environment variables included.\<close>

record host =
  h_canonicalize :: "path \<Rightarrow> string + path"
  h_metadata :: "path \<Rightarrow> string + dir_meta"
  h_uid :: u32
  h_cwd :: "path option"
  h_runtime_dir :: "path option"
  h_temp_dir :: path

definition sun_path :: nat where
  "sun_path = 108"

definition max_socket_path :: nat where
  "max_socket_path = sun_path - 1"

record daemon_paths =
  dp_dir :: path
  dp_socket :: path
  dp_pid :: path
  dp_log :: path
  dp_stopped :: path
  dp_socket_rejections :: "string list"

section \<open>The directory of the project\<close>

text \<open>\<open>PathBuf::pop\<close> and \<open>push\<close> of one component.\<close>

definition comps_pop :: "component list \<Rightarrow> component list" where
  "comps_pop cs = (if cs = [] \<or> last cs = RootDir then cs else butlast cs)"

fun normalize_part :: "component \<Rightarrow> component list \<Rightarrow> component list" where
  "normalize_part CurDir out = out"
| "normalize_part ParentDir out = comps_pop out"
| "normalize_part RootDir out = [RootDir]"
| "normalize_part (Normal s) out = out @ [Normal s]"

definition normalize :: "path \<Rightarrow> path" where
  "normalize p = show_path (fold normalize_part (components p) [])"

definition project_dir :: "host \<Rightarrow> path \<Rightarrow> path" where
  "project_dir h config =
     (let parent = (case path_parent config of Some p \<Rightarrow> p | None \<Rightarrow> ''.'') in
      case h_canonicalize h parent of
        Inr resolved \<Rightarrow> resolved
      | Inl _ \<Rightarrow>
          (case h_cwd h of
             Some cwd \<Rightarrow> if \<not> is_absolute parent then normalize (path_join cwd parent) else parent
           | None \<Rightarrow> parent))"

section \<open>Private directories\<close>

definition octal4 :: "u32 \<Rightarrow> string" where
  "octal4 mode = concat (map (\<lambda>k. show_nat (unat (drop_bit (3 * k) mode AND 7))) [3, 2, 1, 0])"

definition belongs_to_us_alone :: "host \<Rightarrow> dir_meta \<Rightarrow> string + unit" where
  "belongs_to_us_alone h meta =
     (let us = h_uid h; mode = dm_mode meta AND 4095 in
      if dm_uid meta \<noteq> us then
        Inl (''is owned by uid '' @ show_nat (unat (dm_uid meta)) @ '' and not by you (uid '' @ show_nat (unat us) @ '')'')
      else if mode AND 63 \<noteq> 0 then
        Inl (''is mode '' @ octal4 mode @ '', which lets other users in; it must have no group or other permissions at all'')
      else Inr ())"

definition is_private_dir :: "host \<Rightarrow> path \<Rightarrow> string + path" where
  "is_private_dir h p =
     (if \<not> is_absolute p then Inl ''is not an absolute path''
      else
        (case h_canonicalize h p of
           Inl e \<Rightarrow> Inl (''cannot be resolved: '' @ e)
         | Inr resolved \<Rightarrow>
             (case h_metadata h resolved of
                Inl e \<Rightarrow> Inl (''cannot be read: '' @ e)
              | Inr meta \<Rightarrow>
                  if \<not> dm_is_dir meta then Inl ''is not a directory''
                  else
                    (case belongs_to_us_alone h meta of
                       Inl why \<Rightarrow> Inl why
                     | Inr _ \<Rightarrow> Inr resolved))))"

section \<open>The name of the project\<close>

definition fnv_step :: "char \<Rightarrow> u64 \<Rightarrow> u64" where
  "fnv_step b hash = (hash XOR of_char b) * 0x100000001b3"

definition fnv1a :: "string \<Rightarrow> u64" where
  "fnv1a s = fold fnv_step s 0xcbf29ce484222325"

definition hex_char :: "nat \<Rightarrow> char" where
  "hex_char d = ''0123456789abcdef'' ! d"

definition hex16 :: "u64 \<Rightarrow> string" where
  "hex16 w = map (\<lambda>k. hex_char (unat (drop_bit (4 * k) w AND 15))) (rev [0..<16])"

definition project_slug :: "path \<Rightarrow> string" where
  "project_slug dir = hex16 (fnv1a dir)"

section \<open>The socket\<close>

fun move_socket :: "host \<Rightarrow> path \<Rightarrow> string \<Rightarrow> (string \<times> path option) list \<Rightarrow> string list \<Rightarrow> path \<times> string list" where
  "move_socket h socket name [] rejections = (socket, rejections)"
| "move_socket h socket name ((label, None) # cs) rejections =
     move_socket h socket name cs (rejections @ [label @ '' is not set''])"
| "move_socket h socket name ((label, Some v) # cs) rejections =
     (case is_private_dir h v of
        Inl why \<Rightarrow> move_socket h socket name cs (rejections @ [label @ '' ('' @ v @ '') '' @ why])
      | Inr candidate \<Rightarrow>
          (let moved = path_join candidate name in
           if length moved \<le> max_socket_path then (moved, [])
           else move_socket h socket name cs
             (rejections @ [label @ '' ('' @ candidate @ '') is itself too long to hold a socket''])))"

definition socket_name :: "path \<Rightarrow> string" where
  "socket_name dir = ''servicrab-'' @ project_slug dir @ ''.sock''"

definition choose_socket_among :: "host \<Rightarrow> path \<Rightarrow> path \<Rightarrow> (string \<times> path option) list \<Rightarrow> path \<times> string list" where
  "choose_socket_among h socket dir cs =
     (if length socket \<le> max_socket_path then (socket, [])
      else move_socket h socket (socket_name dir) cs [])"

definition candidates :: "host \<Rightarrow> (string \<times> path option) list" where
  "candidates h = [(''$XDG_RUNTIME_DIR'', h_runtime_dir h), (''the temp directory'', Some (h_temp_dir h))]"

definition choose_socket :: "host \<Rightarrow> path \<Rightarrow> path \<Rightarrow> path \<times> string list" where
  "choose_socket h socket dir = choose_socket_among h socket dir (candidates h)"

definition for_config :: "host \<Rightarrow> path \<Rightarrow> daemon_paths" where
  "for_config h config =
     (let dir = path_join (project_dir h config) ''.servicrab'';
          (socket, rejections) = choose_socket h (path_join dir ''daemon.sock'') dir in
      \<lparr> dp_dir = dir, dp_socket = socket, dp_pid = path_join dir ''daemon.pid'',
        dp_log = path_join dir ''daemon.log'', dp_stopped = path_join dir ''stopped'',
        dp_socket_rejections = rejections \<rparr>)"

definition socket_is_in_place :: "daemon_paths \<Rightarrow> bool" where
  "socket_is_in_place dp = comps_starts_with (components (dp_socket dp)) (components (dp_dir dp))"

text \<open>The bullet is one character of three bytes.\<close>

definition bullet :: string where
  "bullet = [CHR 0xE2, CHR 0x80, CHR 0xA2]"

definition socket_advice :: "daemon_paths \<Rightarrow> string" where
  "socket_advice dp =
     (if dp_socket_rejections dp = [] then []
      else [CHR 10] @ ''the path is '' @ show_nat (length (dp_socket dp)) @ '' bytes and the limit is ''
        @ show_nat max_socket_path @ ''; nowhere private was available to move it to:'' @ [CHR 10]
        @ join [CHR 10] (map (\<lambda>why. ''  '' @ bullet @ '' '' @ why) (dp_socket_rejections dp)))"

section \<open>Where the socket ends up\<close>

text \<open>A directory that this user owns and nobody else has any permission on.\<close>

definition private_dir :: "host \<Rightarrow> path \<Rightarrow> path \<Rightarrow> bool" where
  "private_dir h v r \<longleftrightarrow>
     is_absolute v \<and> h_canonicalize h v = Inr r
     \<and> (\<exists>m. h_metadata h r = Inr m \<and> dm_is_dir m \<and> dm_uid m = h_uid h \<and> dm_mode m AND 63 = 0)"

lemma and_63: "(m AND 4095) AND 63 = m AND (63 :: u32)"
  by (simp add: and.assoc)

lemma is_private_dir_iff: "is_private_dir h v = Inr r \<longleftrightarrow> private_dir h v r"
  by (auto simp: is_private_dir_def private_dir_def belongs_to_us_alone_def and_63 Let_def
      split: sum.splits if_splits)

text \<open>A candidate that can hold a socket of this name.\<close>

definition usable :: "host \<Rightarrow> string \<Rightarrow> path option \<Rightarrow> path \<Rightarrow> bool" where
  "usable h name v s \<longleftrightarrow>
     (\<exists>p r. v = Some p \<and> private_dir h p r \<and> s = path_join r name \<and> length s \<le> max_socket_path)"

lemma move_socket_spec:
  assumes "move_socket h socket name cs rejections = (s, why)"
  shows "(\<exists>before label v after. cs = before @ (label, v) # after \<and> usable h name v s \<and> why = []
       \<and> (\<forall>(_, v')\<in>set before. \<forall>s'. \<not> usable h name v' s'))
     \<or> s = socket \<and> length why = length rejections + length cs \<and> (\<forall>(_, v')\<in>set cs. \<forall>s'. \<not> usable h name v' s')"
  using assms
proof (induction h socket name cs rejections rule: move_socket.induct)
  case (1 h socket name rejections)
  then show ?case by simp
next
  case (2 h socket name label cs rejections)
  then have "move_socket h socket name cs (rejections @ [label @ '' is not set'']) = (s, why)" by simp
  note IH = 2(1) [OF this]
  have no: "\<not> usable h name None s'" for s' by (simp add: usable_def)
  from IH show ?case
  proof
    assume "\<exists>before l v after. cs = before @ (l, v) # after \<and> usable h name v s \<and> why = []
       \<and> (\<forall>(_, v')\<in>set before. \<forall>s'. \<not> usable h name v' s')"
    then obtain before l v after where "cs = before @ (l, v) # after" "usable h name v s" "why = []"
      "\<forall>(_, v')\<in>set before. \<forall>s'. \<not> usable h name v' s'" by blast
    then have "(label, None) # cs = ((label, None) # before) @ (l, v) # after \<and> usable h name v s \<and> why = []
      \<and> (\<forall>(_, v')\<in>set ((label, None) # before). \<forall>s'. \<not> usable h name v' s')" using no by simp
    then show ?thesis by blast
  qed (use no in simp)
next
  case (3 h socket name label v cs rejections)
  show ?case
  proof (cases "\<exists>s'. usable h name (Some v) s'")
    case True
    then obtain r where r: "private_dir h v r" "length (path_join r name) \<le> max_socket_path"
      by (auto simp: usable_def)
    then have "is_private_dir h v = Inr r" by (simp add: is_private_dir_iff)
    with 3(3) r have "s = path_join r name" "why = []" by (simp_all add: Let_def)
    with r have "(label, Some v) # cs = [] @ (label, Some v) # cs \<and> usable h name (Some v) s \<and> why = []"
      by (auto simp: usable_def)
    then show ?thesis by fastforce
  next
    case no: False
    obtain rej where rej: "move_socket h socket name cs rej = (s, why)" "length rej = Suc (length rejections)"
      and IH: "(\<exists>before l v after. cs = before @ (l, v) # after \<and> usable h name v s \<and> why = []
       \<and> (\<forall>(_, v')\<in>set before. \<forall>s'. \<not> usable h name v' s'))
     \<or> s = socket \<and> length why = length rej + length cs \<and> (\<forall>(_, v')\<in>set cs. \<forall>s'. \<not> usable h name v' s')"
    proof (cases "is_private_dir h v")
      case (Inl why')
      with 3(3) have m: "move_socket h socket name cs (rejections @ [label @ '' ('' @ v @ '') '' @ why']) = (s, why)"
        by simp
      show ?thesis by (rule that [OF m _ 3(1) [OF Inl m]]) simp
    next
      case (Inr r)
      then have long: "\<not> length (path_join r name) \<le> max_socket_path"
        using no by (auto simp: usable_def is_private_dir_iff)
      with Inr 3(3) have m: "move_socket h socket name cs
          (rejections @ [label @ '' ('' @ r @ '') is itself too long to hold a socket'']) = (s, why)"
        by (simp add: Let_def)
      show ?thesis by (rule that [OF m _ 3(2) [OF Inr refl long m]]) simp
    qed
    from IH show ?thesis
    proof
      assume "\<exists>before l v after. cs = before @ (l, v) # after \<and> usable h name v s \<and> why = []
         \<and> (\<forall>(_, v')\<in>set before. \<forall>s'. \<not> usable h name v' s')"
      then obtain before l v' after where "cs = before @ (l, v') # after" "usable h name v' s" "why = []"
        "\<forall>(_, v')\<in>set before. \<forall>s'. \<not> usable h name v' s'" by blast
      then have "(label, Some v) # cs = ((label, Some v) # before) @ (l, v') # after \<and> usable h name v' s \<and> why = []
        \<and> (\<forall>(_, v')\<in>set ((label, Some v) # before). \<forall>s'. \<not> usable h name v' s')" using no by simp
      then show ?thesis by blast
    qed (use no rej(2) in simp)
  qed
qed

text \<open>C13: The socket is moved only when its path is too long, and then to the first candidate
  that is an absolute path to a directory which this user owns, nobody else can enter, and whose
  path leaves room; otherwise it stays, with one reason for each candidate that was rejected.\<close>

theorem moved_socket_is_private:
  assumes "choose_socket_among h socket dir cs = (s, why)"
  shows "if length socket \<le> max_socket_path then s = socket \<and> why = []
     else (\<exists>before label v after. cs = before @ (label, v) # after
         \<and> usable h (socket_name dir) v s \<and> why = []
         \<and> (\<forall>(_, v')\<in>set before. \<forall>s'. \<not> usable h (socket_name dir) v' s'))
       \<or> s = socket \<and> length why = length cs
         \<and> (\<forall>(_, v')\<in>set cs. \<forall>s'. \<not> usable h (socket_name dir) v' s')"
  using assms move_socket_spec [of h socket "socket_name dir" cs "[]" s why]
  by (simp add: choose_socket_among_def split: if_splits)

section \<open>Two projects, two names\<close>

lemma fnv_prime_unit: "(0x100000001b3 :: u64) * 14886173955864302971 = 1"
  by simp

lemma fnv_prime_cancel:
  assumes "x * (0x100000001b3 :: u64) = y * 0x100000001b3"
  shows "x = y"
  using arg_cong [OF assms, of "\<lambda>z. z * 14886173955864302971"] by (simp only: mult.assoc fnv_prime_unit mult_1_right)

lemma fnv_step_inj: "fnv_step b x = fnv_step b y \<longleftrightarrow> x = y"
proof
  assume "fnv_step b x = fnv_step b y"
  then have "x XOR of_char b = y XOR of_char b"
    unfolding fnv_step_def by (rule fnv_prime_cancel)
  then have "(x XOR of_char b) XOR of_char b = (y XOR of_char b) XOR of_char b" by simp
  then show "x = y" by (simp add: xor.assoc)
qed simp

lemma of_char_u64_inj: "(of_char b :: u64) = of_char c \<longleftrightarrow> b = c"
proof
  assume "(of_char b :: u64) = of_char c"
  then have "(of_nat (of_char b) :: u64) = of_nat (of_char c)" by (simp only: of_nat_of_char)
  then have "(of_char b :: nat) mod 2 ^ 64 = of_char c mod 2 ^ 64" by (simp add: word_of_nat_eq_iff take_bit_eq_mod)
  moreover have "(of_char d :: nat) mod 2 ^ 64 = of_char d" for d
    by (rule mod_less) (rule less_trans [OF nat_of_char_less_256], simp)
  ultimately show "b = c" by simp
qed simp

lemma fnv_step_char: "fnv_step b x = fnv_step c x \<longleftrightarrow> b = c"
proof
  assume "fnv_step b x = fnv_step c x"
  then have "x XOR of_char b = x XOR of_char c"
    unfolding fnv_step_def by (rule fnv_prime_cancel)
  then have "x XOR (x XOR of_char b) = x XOR (x XOR of_char c)" by simp
  then have "(of_char b :: u64) = of_char c" by (simp add: xor.assoc [symmetric])
  then show "b = c" by (simp add: of_char_u64_inj)
qed simp

lemma fold_fnv_inj: "fold fnv_step s x = fold fnv_step s y \<longleftrightarrow> x = y"
  by (induction s arbitrary: x y) (simp_all add: fnv_step_inj)

lemma hex_char_inj: "a < 16 \<Longrightarrow> b < 16 \<Longrightarrow> hex_char a = hex_char b \<longleftrightarrow> a = b"
proof -
  have "\<forall>a\<in>{..<16}. \<forall>b\<in>{..<16}. hex_char a = hex_char b \<longrightarrow> a = b" by code_simp
  then show "a < 16 \<Longrightarrow> b < 16 \<Longrightarrow> hex_char a = hex_char b \<longleftrightarrow> a = b" by auto
qed

lemma and_15: "(w :: u64) AND 15 = take_bit 4 w"
  by (simp add: take_bit_eq_mask mask_numeral)

lemma nibble_bound: "unat ((w :: u64) AND 15) < 16"
  using take_bit_nat_less_exp [of 4 "unat w"] by (simp add: and_15 unsigned_take_bit_eq)

lemma hex16_inj: "hex16 v = hex16 w \<longleftrightarrow> v = w"
proof
  assume eq: "hex16 v = hex16 w"
  have nibble: "drop_bit (4 * k) v AND 15 = drop_bit (4 * k) w AND 15" if "k < 16" for k
  proof -
    have "\<forall>k\<in>set (rev [0..<16]). hex_char (unat (drop_bit (4 * k) v AND 15)) = hex_char (unat (drop_bit (4 * k) w AND 15))"
      using eq unfolding hex16_def map_eq_conv .
    with that have "hex_char (unat (drop_bit (4 * k) v AND 15)) = hex_char (unat (drop_bit (4 * k) w AND 15))" by simp
    then show ?thesis using hex_char_inj [OF nibble_bound nibble_bound] by (simp add: word_unat_eq_iff)
  qed
  show "v = w"
  proof (rule bit_word_eqI)
    fix n :: nat
    assume "n < LENGTH(64)"
    then have "n div 4 < 16" by simp
    have "bit (drop_bit (4 * (n div 4)) u AND 15) (n mod 4) = bit u n" for u :: u64
      using \<open>n < LENGTH(64)\<close> by (simp add: and_15 bit_take_bit_iff bit_drop_bit_eq)
    with nibble [OF \<open>n div 4 < 16\<close>] show "bit v n = bit w n" by metis
  qed
qed simp

text \<open>The socket names of two projects whose directories differ in a single byte never
  collide: no step of the hash loses anything, and the sixteen digits are the whole hash.\<close>

theorem slugs_tell_siblings_apart:
  "project_slug (before @ [b] @ after) = project_slug (before @ [c] @ after) \<longleftrightarrow> b = c"
  by (simp add: project_slug_def hex16_inj fnv1a_def fold_fnv_inj fnv_step_char)

section \<open>Witnesses\<close>

definition example_host :: host where
  "example_host =
     \<lparr> h_canonicalize = (\<lambda>p. Inr p), h_metadata = (\<lambda>p. Inr \<lparr> dm_is_dir = True, dm_uid = 1000,
         dm_mode = (if p = ''/run'' then 448 else 1023) \<rparr>),
       h_uid = 1000, h_cwd = Some ''/w'', h_runtime_dir = Some ''/run'', h_temp_dir = ''/tmp'' \<rparr>"

theorem moved_socket_is_private_witness:
  "usable example_host (socket_name ''/w'') (Some ''/run'')
     (fst (choose_socket_among example_host (replicate 108 CHR ''a'') ''/w'' [(''tmp'', Some ''/tmp''), (''run'', Some ''/run'')]))"
proof -
  let ?cs = "[(''tmp'', Some ''/tmp''), (''run'', Some ''/run'')]"
  have choice: "choose_socket_among example_host (replicate 108 CHR ''a'') ''/w'' ?cs
    = (''/run/servicrab-'' @ project_slug ''/w'' @ ''.sock'', [])"
    by code_simp
  have "replicate 108 CHR ''a'' \<noteq> ''/run/servicrab-'' @ project_slug ''/w'' @ ''.sock''"
    by (simp add: eval_nat_numeral)
  moreover have "\<not> usable example_host name (Some ''/tmp'') s" for name s
    by (simp add: usable_def private_dir_def example_host_def)
  ultimately show ?thesis
    using moved_socket_is_private [OF choice]
    by (auto simp: max_socket_path_def sun_path_def choice Cons_eq_append_conv)
qed

end
