(* ===== verification/Daemon_Start.thy ===== *)
theory Daemon_Start
  imports Server_Facts Project_Lock Daemon_Paths Stack_Reach
begin

unbundle bit_operations_syntax

text \<open>
  The life of a daemon process, from \<open>serve\<close> of \<open>daemon/server.rs\<close>: the plan, the signals claimed
  early (\<open>daemon/signals.rs\<close>), the lock, the stops by hand, the private socket, the run of the stack
  and the cleaning up.  The answers of the system are the record \<open>boot_env\<close>, and what the process
  does to its surroundings is a list of \<open>boot_effect\<close>s.  The run itself is \<open>Stack\<close> for the
  supervisor and \<open>Server\<close> for the socket; here it is one effect, with its outcome given.
\<close>

section \<open>Early signals\<close>

definition sig_hup :: int where "sig_hup = 1"
definition sig_int :: int where "sig_int = 2"

text \<open>The handler: a compare-and-exchange of the number that was recorded first.\<close>

definition record_signal :: "int \<Rightarrow> int \<Rightarrow> int" where
  "record_signal signum early = (if early = 0 then signum else early)"

definition arrived :: "int \<Rightarrow> shutdown_reason option" where
  "arrived early =
     (if early = 0 then None
      else if early = sig_int then Some SR_UserInterrupt
      else if early = sig_hup then Some SR_HangUp
      else Some SR_Terminated)"

lemma first_signal_wins: "signals \<noteq> [] \<Longrightarrow> 0 \<notin> set signals \<Longrightarrow> fold record_signal signals 0 = hd signals"
proof -
  have "early \<noteq> 0 \<Longrightarrow> fold record_signal signals early = early" for early signals
    by (induction signals) (simp_all add: record_signal_def)
  then show "signals \<noteq> [] \<Longrightarrow> 0 \<notin> set signals \<Longrightarrow> fold record_signal signals 0 = hd signals"
    by (cases signals) (simp_all add: record_signal_def)
qed

section \<open>The private socket\<close>

text \<open>The umask of the process and the mode of the socket file, if there is one.\<close>

record socket_state =
  bs_umask :: u32
  bs_mode :: "u32 option"

record socket_env =
  se_honoured :: bool
  se_bind :: "string option"
  se_stat :: bool
  se_chmod :: "string option"
  se_nonblocking :: "string option"

text \<open>The system creates the file with all permissions that the umask leaves, on a platform that
  honours it for sockets.\<close>

definition created_mode :: "bool \<Rightarrow> u32 \<Rightarrow> u32" where
  "created_mode honoured um = (if honoured then 0x1FF AND NOT um else 0x1FF)"

definition owner_only :: u32 where
  "owner_only = 0x180"

text \<open>The states the steps go through, the latest last.\<close>

definition bind_socket :: "path \<Rightarrow> socket_env \<Rightarrow> socket_state \<Rightarrow> (string + unit) \<times> socket_state list" where
  "bind_socket socket e st =
     (let masked = st\<lparr> bs_umask := 0x7F \<rparr>;
          bound = (case se_bind e of
                     Some _ \<Rightarrow> masked
                   | None \<Rightarrow> masked\<lparr> bs_mode := Some (created_mode (se_honoured e) (bs_umask masked)) \<rparr>);
          restored = bound\<lparr> bs_umask := bs_umask st \<rparr>;
          before = [masked, bound, restored] in
      case se_bind e of
        Some err \<Rightarrow> (Inl (''could not listen on '' @ socket @ '': '' @ err), before)
      | None \<Rightarrow>
          (let mode = (if se_stat e then (case bs_mode restored of Some m \<Rightarrow> m AND 0x1FF | None \<Rightarrow> 0) else 0) in
           case (if mode \<noteq> owner_only then se_chmod e else None) of
             Some err \<Rightarrow> (Inl (''could not restrict '' @ socket @ '' to its owner: '' @ err), before)
           | None \<Rightarrow>
               (let restricted = (if mode \<noteq> owner_only then restored\<lparr> bs_mode := Some owner_only \<rparr> else restored) in
                case se_nonblocking e of
                  Some err \<Rightarrow> (Inl (''could not prepare '' @ socket @ '': '' @ err), before @ [restricted])
                | None \<Rightarrow> (Inr (), before @ [restricted]))))"

text \<open>The socket is never open to anybody but its owner: on a platform that honours the umask its
  mode is \<open>0600\<close> in every state it goes through; on every platform it is when \<open>bind_socket\<close>
  succeeds; and the umask of the process is restored whatever fails.\<close>

theorem socket_is_never_public:
  assumes "bs_mode st = None" and "bind_socket socket e st = (result, states)"
  shows "(se_honoured e \<longrightarrow> (\<forall>s\<in>set states. bs_mode s \<in> {None, Some 0x180}))
     \<and> (result = Inr () \<longrightarrow> bs_mode (last states) = Some 0x180)
     \<and> bs_umask (last states) = bs_umask st"
  using assms
  by (auto simp: bind_socket_def created_mode_def owner_only_def Let_def split: option.splits if_splits)

section \<open>Serving\<close>

record boot_env =
  be_claim :: "string option"
  be_dir :: "string option"
  be_lock :: "lock_error + unit"
  be_problem :: "string option"
  be_running :: bool
  be_umask :: u32
  be_socket :: socket_env
  be_runtime :: "string option"
  be_listener :: "string option"
  be_signals :: "string option"
  be_early :: int
  be_pid :: u32
  be_outcome :: stack_outcome

text \<open>\<open>BE_Unlink\<close> is a \<open>remove_file\<close> of the socket whose answer the code ignores.  \<open>BE_Run\<close> carries what
  the run starts from: the session, the supervisor and its options, and the services that are held
  back.\<close>

datatype boot_effect =
    BE_Lock
  | BE_Unlock
  | BE_Stopped stopped_file
  | BE_Unlink
  | BE_Bound
  | BE_Run session supervisor stack_options "service_name set"

definition session_new :: "config \<Rightarrow> path \<Rightarrow> daemon_paths \<Rightarrow> daemon_options \<Rightarrow> boot_env \<Rightarrow> service_name list
    \<Rightarrow> stopped_file \<Rightarrow> session" where
  "session_new config config_path paths options e plan f =
     respawn_watchers config plan
       \<lparr> ses_registry = registry_new (map (\<lambda>name. (name, has_health config name)) plan),
         ses_stop = (case arrived (be_early e) of None \<Rightarrow> shutdown_channel | Some reason \<Rightarrow> shutdown_channel @ [reason]),
         ses_control = [], ses_names = plan, ses_project = proj_name (cfg_project config), ses_pid = be_pid e,
         ses_config_path = config_path, ses_profiles = do_profiles options, ses_stopped_path = dp_stopped paths,
         ses_stopped = f, ses_events = True, ses_watchers = [] \<rparr>"

definition daemon_stack_options :: "daemon_options \<Rightarrow> stack_options" where
  "daemon_stack_options options =
     \<lparr> so_no_restart = do_no_restart options, so_abort_on_failure = False, so_keep_running = True \<rparr>"

text \<open>The block that runs on the runtime.\<close>

definition serve_stack :: "config \<Rightarrow> path \<Rightarrow> daemon_paths \<Rightarrow> daemon_options \<Rightarrow> boot_env \<Rightarrow> service_name list
    \<Rightarrow> service_name set \<Rightarrow> stopped_file \<Rightarrow> boot_effect list \<times> (string + stack_outcome)" where
  "serve_stack config config_path paths options e plan held f =
     (case be_listener e of
        Some err \<Rightarrow> ([], Inl (''could not listen on '' @ dp_socket paths @ '': '' @ err))
      | None \<Rightarrow>
          (case be_signals e of
             Some err \<Rightarrow> ([], Inl err)
           | None \<Rightarrow>
               ([BE_Run (session_new config config_path paths options e plan f) (stack_start config plan held)
                   (daemon_stack_options options) held],
                Inr (be_outcome e))))"

text \<open>From the bound socket to the exit code.\<close>

definition serve_bound :: "config \<Rightarrow> path \<Rightarrow> daemon_paths \<Rightarrow> daemon_options \<Rightarrow> boot_env \<Rightarrow> service_name list
    \<Rightarrow> service_name set \<Rightarrow> stopped_file \<Rightarrow> boot_effect list \<times> (string + int)" where
  "serve_bound config config_path paths options e plan held f =
     (case be_runtime e of
        Some err \<Rightarrow> ([BE_Unlink], Inl (''failed to start the async runtime: '' @ err))
      | None \<Rightarrow>
          (case serve_stack config config_path paths options e plan held f of
             (effects, result) \<Rightarrow>
               (effects @ [BE_Unlink],
                case result of
                  Inl err \<Rightarrow> Inl err
                | Inr outcome \<Rightarrow> if \<not> outcome_is_success outcome then Inr 1 else Inr 0)))"

text \<open>While the lock is held: the stops by hand, the socket of a dead daemon, the bind.\<close>

definition serve_locked :: "config \<Rightarrow> path \<Rightarrow> daemon_paths \<Rightarrow> daemon_options \<Rightarrow> boot_env \<Rightarrow> service_name list
    \<Rightarrow> stopped_file \<Rightarrow> boot_effect list \<times> (string + int)" where
  "serve_locked config config_path paths options e plan f =
     (let f = snd (reconcile (dp_stopped paths) (be_problem e) config f);
          held = held_back config plan (read_stopped f) in
      if be_running e then
        ([BE_Stopped f], Inl (''a daemon is already running for this project (socket: '' @ dp_socket paths @ '')''))
      else
        (case bind_socket (dp_socket paths) (be_socket e) \<lparr> bs_umask = be_umask e, bs_mode = None \<rparr> of
           (result, states) \<Rightarrow>
             (let bound = (if bs_mode (last states) = None then [] else [BE_Bound]) in
              case result of
                Inl err \<Rightarrow> ([BE_Stopped f, BE_Unlink] @ bound, Inl err)
              | Inr _ \<Rightarrow>
                  (case serve_bound config config_path paths options e plan held f of
                     (effects, result) \<Rightarrow> ([BE_Stopped f, BE_Unlink] @ bound @ effects, result)))))"

text \<open>Every return after the lock was taken drops it, last.\<close>

definition serve :: "(runtime_error \<Rightarrow> string) \<Rightarrow> config \<Rightarrow> path \<Rightarrow> daemon_paths \<Rightarrow> daemon_options \<Rightarrow> boot_env
    \<Rightarrow> stopped_file \<Rightarrow> boot_effect list \<times> (string + int)" where
  "serve show_error config config_path paths options e f =
     (case plan_stack config (daemon_selection (do_profiles options)) of
        Inl err \<Rightarrow> ([], Inl (show_error err))
      | Inr plan \<Rightarrow>
          (case be_claim e of
             Some err \<Rightarrow> ([], Inl err)
           | None \<Rightarrow>
               (case be_dir e of
                  Some err \<Rightarrow> ([], Inl (''could not create '' @ dp_dir paths @ '': '' @ err))
                | None \<Rightarrow>
                    (case be_lock e of
                       Inl LE_Held \<Rightarrow>
                         ([], Inl (''a daemon is already running for this project (pidfile: '' @ dp_pid paths @ '')''))
                     | Inl (LE_Failed problem) \<Rightarrow> ([], Inl problem)
                     | Inr _ \<Rightarrow>
                         (case serve_locked config config_path paths options e plan f of
                            (effects, result) \<Rightarrow> ([BE_Lock] @ effects @ [BE_Unlock], result))))))"

section \<open>Cleaning up\<close>

text \<open>Whether the socket of this daemon is on disk after some effects, when every \<open>remove_file\<close> of it
  succeeds.\<close>

definition socket_after :: "boot_effect list \<Rightarrow> bool" where
  "socket_after effects = fold (\<lambda>x there. if x = BE_Bound then True else if x = BE_Unlink then False else there) effects False"

lemma socket_after_simps [simp]:
  "socket_after [] = False"
  "socket_after (xs @ [BE_Bound])"
  "\<not> socket_after (xs @ [BE_Unlink])"
  "x \<noteq> BE_Bound \<Longrightarrow> x \<noteq> BE_Unlink \<Longrightarrow> socket_after (xs @ [x]) = socket_after xs"
  by (simp_all add: socket_after_def)

text \<open>The lock is the frame of everything else a daemon does.\<close>

definition framed :: "boot_effect list \<Rightarrow> bool" where
  "framed effects \<longleftrightarrow>
     effects = [] \<or> (\<exists>inner. effects = BE_Lock # inner @ [BE_Unlock] \<and> BE_Lock \<notin> set inner \<and> BE_Unlock \<notin> set inner)"

lemma serve_bound_shape:
  assumes "serve_bound config config_path paths options e plan held f = (effects, result)"
  shows "\<exists>inner. effects = inner @ [BE_Unlink] \<and>
     (inner = [] \<or> inner = [BE_Run (session_new config config_path paths options e plan f) (stack_start config plan held)
        (daemon_stack_options options) held])"
  using assms by (auto simp: serve_bound_def serve_stack_def split: option.splits)

text \<open>What becomes of the socket when \<open>bind_socket\<close> fails.\<close>

definition stranded :: "socket_env \<Rightarrow> bool" where
  "stranded e \<longleftrightarrow>
     se_bind e = None
     \<and> ((\<not> se_stat e \<or> \<not> se_honoured e) \<and> se_chmod e \<noteq> None \<or> se_nonblocking e \<noteq> None)"

lemma bind_socket_fails:
  assumes "bind_socket socket e \<lparr> bs_umask = um, bs_mode = None \<rparr> = (result, states)"
  shows "(\<exists>err. result = Inl err) \<and> bs_mode (last states) \<noteq> None \<longleftrightarrow> stranded e"
    and "result = Inr () \<Longrightarrow> bs_mode (last states) \<noteq> None"
  using assms
  by (auto simp: bind_socket_def stranded_def created_mode_def owner_only_def Let_def split: option.splits if_splits)

text \<open>C12: A daemon cleans up after itself on every way out: whatever it did lies between taking the
  lock and, last of all, releasing it, and its socket is gone by then, except when the bound socket
  could not be restricted or prepared, which leaves the file behind.\<close>

theorem serve_cleans_up:
  assumes "serve show_error config config_path paths options e f = (effects, result)"
  shows "framed effects \<and> (socket_after effects \<longleftrightarrow> effects \<noteq> [] \<and> \<not> be_running e \<and> stranded (be_socket e))"
proof (cases "effects = []")
  case False
  then obtain plan inner where inner: "effects = BE_Lock # inner @ [BE_Unlock]"
    and locked: "serve_locked config config_path paths options e plan f = (inner, result)"
    using assms by (auto simp: serve_def split: sum.splits option.splits lock_error.splits prod.splits)
  let ?f = "snd (reconcile (dp_stopped paths) (be_problem e) config f)"
  obtain r states where bind: "bind_socket (dp_socket paths) (be_socket e)
      \<lparr> bs_umask = be_umask e, bs_mode = None \<rparr> = (r, states)" by fastforce
  have after: "socket_after effects = socket_after (BE_Lock # inner)"
    unfolding inner by (simp add: socket_after_def)
  consider (running) "be_running e" "inner = [BE_Stopped ?f]"
    | (refused) err where "\<not> be_running e" "r = Inl err"
        "inner = [BE_Stopped ?f, BE_Unlink] @ (if bs_mode (last states) = None then [] else [BE_Bound])"
    | (served) body where "\<not> be_running e" "r = Inr ()" "inner = [BE_Stopped ?f, BE_Unlink, BE_Bound] @ body @ [BE_Unlink]"
        "BE_Lock \<notin> set body" "BE_Unlock \<notin> set body"
  proof (cases "be_running e")
    case True
    with locked show ?thesis by (intro running) (simp_all add: serve_locked_def Let_def)
  next
    case False
    show ?thesis
    proof (cases r)
      case (Inl err)
      with locked False bind show ?thesis by (intro refused) (auto simp: serve_locked_def Let_def)
    next
      case (Inr u)
      obtain body result' where b: "serve_bound config config_path paths options e plan
          (held_back config plan (read_stopped ?f)) ?f = (body, result')" by fastforce
      from serve_bound_shape [OF this] obtain b' where b': "body = b' @ [BE_Unlink]" "BE_Lock \<notin> set b'" "BE_Unlock \<notin> set b'"
        by auto
      moreover have "bs_mode (last states) \<noteq> None" using bind_socket_fails(2) [OF bind] Inr by simp
      ultimately show ?thesis using locked False bind b Inr
        by (intro served [of b']) (auto simp: serve_locked_def Let_def)
    qed
  qed
  then show ?thesis
  proof cases
    case running
    then show ?thesis unfolding after by (simp add: inner framed_def socket_after_def)
  next
    case (refused err)
    then have "stranded (be_socket e) \<longleftrightarrow> bs_mode (last states) \<noteq> None" using bind_socket_fails(1) [OF bind] by auto
    with refused show ?thesis unfolding after by (simp add: inner framed_def socket_after_def)
  next
    case (served body)
    then have "\<not> stranded (be_socket e)" using bind_socket_fails(1) [OF bind] by simp
    with served show ?thesis unfolding after by (simp add: inner framed_def socket_after_def)
  qed
qed (simp add: framed_def)

section \<open>The next start\<close>

text \<open>\<open>reconcile\<close> forgets no service that the configuration declares, whether it can write or not.\<close>

lemma reconcile_known:
  assumes "\<forall>n\<in>read_stopped f. plain_name n" and "bt_get (cfg_services config) n \<noteq> None"
  shows "n \<in> read_stopped (snd (reconcile p problem config f)) \<longleftrightarrow> n \<in> read_stopped f"
proof -
  let ?kept = "{name \<in> read_stopped f. name \<in> set (bt_keys (cfg_services config))}"
  have known: "n \<in> set (bt_keys (cfg_services config))"
    using assms(2) bt_get_in [of "cfg_services config" n] by (force simp: bt_keys_def)
  have "parse_stopped (render_stopped ?kept) = ?kept"
    by (rule parse_render) (use assms(1) in auto)
  then have kept: "read_stopped (Some (render_stopped ?kept)) = ?kept" by (simp add: read_stopped_def)
  have none: "read_stopped None = {}" by (simp add: read_stopped_def)
  show ?thesis
    using known kept none
    by (cases problem; cases "?kept = {}") (auto simp: reconcile_def write_atomically_def Let_def)
qed

text \<open>C9: A start after another honours the stops by hand: the stack is started without exactly those
  services that depend, directly or not, on a service of the plan that the file names and whose
  policy is \<open>unless-stopped\<close>; the session knows the whole plan and reports on it.\<close>

theorem next_start_holds_back:
  assumes "serve show_error config config_path paths options e f = (effects, result)"
    and "BE_Run s sv opts held \<in> set effects"
    and "planned_config config" and "\<forall>n\<in>read_stopped f. plain_name n"
  shows "\<exists>plan. plan_stack config (daemon_selection (do_profiles options)) = Inr plan
     \<and> held = {n \<in> set plan. \<exists>d \<in> set plan. d \<in> read_stopped f \<and> stop_holds config d \<and> (n, d) \<in> (depends config)\<^sup>*}
     \<and> sv = stack_start config plan held \<and> session_wf s \<and> ses_names s = plan"
proof -
  obtain plan inner where plan: "plan_stack config (daemon_selection (do_profiles options)) = Inr plan"
    and inner: "BE_Run s sv opts held \<in> set inner"
    and locked: "serve_locked config config_path paths options e plan f = (inner, result)"
    using assms(1,2) by (auto simp: serve_def split: sum.splits option.splits lock_error.splits prod.splits)
  let ?f = "snd (reconcile (dp_stopped paths) (be_problem e) config f)"
  let ?held = "held_back config plan (read_stopped ?f)"
  obtain body result' where body: "serve_bound config config_path paths options e plan ?held ?f = (body, result')"
    and "BE_Run s sv opts held \<in> set body"
    using locked inner by (auto simp: serve_locked_def Let_def split: if_splits prod.splits sum.splits)
  with serve_bound_shape [OF body] have s: "s = session_new config config_path paths options e plan ?f"
    and sv: "sv = stack_start config plan held" and held: "held = ?held" by auto
  have "d \<in> read_stopped ?f \<longleftrightarrow> d \<in> read_stopped f" if "d \<in> set plan" for d
    using planned_is_valid [OF assms(3) plan] that reconcile_known [OF assms(4)] by (auto simp: valid_plan_def)
  then have "held = {n \<in> set plan. \<exists>d \<in> set plan. d \<in> read_stopped f \<and> stop_holds config d \<and> (n, d) \<in> (depends config)\<^sup>*}"
    unfolding held held_back_dependents [OF assms(3) plan] by blast
  moreover have "session_wf s" "ses_names s = plan"
    using registry_new_wf registry_new_order
    by (simp_all add: s session_new_def session_wf_def respawn_watchers_def comp_def)
  ultimately show ?thesis using plan sv by blast
qed

section \<open>Witnesses\<close>

definition example_socket :: socket_env where
  "example_socket = \<lparr> se_honoured = True, se_bind = None, se_stat = True, se_chmod = None, se_nonblocking = None \<rparr>"

theorem socket_is_never_public_witness:
  "bs_mode (last (snd (bind_socket ''/s'' example_socket \<lparr> bs_umask = 2, bs_mode = None \<rparr>))) = Some 0x180"
proof -
  have "fst (bind_socket ''/s'' example_socket \<lparr> bs_umask = 2, bs_mode = None \<rparr>) = Inr ()"
    by (simp add: bind_socket_def example_socket_def created_mode_def owner_only_def Let_def)
  with socket_is_never_public [OF _ prod.collapse [symmetric], of "\<lparr> bs_umask = 2, bs_mode = None \<rparr>" example_socket "''/s''"]
  show ?thesis by simp
qed

definition example_boot :: boot_env where
  "example_boot =
     \<lparr> be_claim = None, be_dir = None, be_lock = Inr (), be_problem = None, be_running = False, be_umask = 2,
       be_socket = example_socket, be_runtime = None, be_listener = None, be_signals = None, be_early = 0,
       be_pid = 42, be_outcome = \<lparr> out_reports = [], out_shutdown = Some SR_Terminated \<rparr> \<rparr>"

definition example_daemon_paths :: daemon_paths where
  "example_daemon_paths =
     \<lparr> dp_dir = ''/p/.servicrab'', dp_socket = ''/p/.servicrab/daemon.sock'', dp_pid = ''/p/.servicrab/daemon.pid'',
       dp_log = ''/p/.servicrab/daemon.log'', dp_stopped = ''/p/.servicrab/stopped'', dp_socket_rejections = [] \<rparr>"

definition example_serve :: "stopped_file \<Rightarrow> boot_effect list \<times> (string + int)" where
  "example_serve f = serve (\<lambda>_. []) stoppable_stack ''/p/servicrab.toml'' example_daemon_paths
     \<lparr> do_no_restart = False, do_profiles = [] \<rparr> example_boot f"

lemma example_serve_plan: "plan_stack stoppable_stack (daemon_selection []) = Inr [''db'', ''api'', ''web'']"
  by code_simp

lemma example_serve_runs: "\<exists>s sv opts held. BE_Run s sv opts held \<in> set (fst (example_serve f))"
  by (simp add: example_serve_def serve_def example_serve_plan example_boot_def serve_locked_def serve_bound_def
      serve_stack_def bind_socket_def example_socket_def created_mode_def owner_only_def Let_def)

theorem serve_cleans_up_witness: "\<not> socket_after (fst (example_serve None)) \<and> framed (fst (example_serve None))"
  using serve_cleans_up [OF prod.collapse [symmetric], of "\<lambda>_. []" stoppable_stack "''/p/servicrab.toml''"
      example_daemon_paths "\<lparr> do_no_restart = False, do_profiles = [] \<rparr>" example_boot None]
  by (simp add: example_serve_def example_boot_def example_socket_def stranded_def)

theorem next_start_holds_back_witness:
  "\<exists>s sv opts. BE_Run s sv opts {''db'', ''api'', ''web''} \<in> set (fst (example_serve (Some (''db'' @ [CHR 10]))))"
proof -
  let ?f = "Some (''db'' @ [CHR 10])"
  have f: "read_stopped ?f = {''db''}"
    by (simp add: read_stopped_def parse_stopped_def)
      (use plain_line [of "''db''" "[]"] plain_kept [of "''db''"] in
        \<open>auto simp: plain_name_def graphic_def str_lines.simps [of "[]"]\<close>)
  then have names: "\<forall>n\<in>read_stopped ?f. plain_name n" by (simp add: plain_name_def graphic_def)
  obtain s sv opts held where run: "BE_Run s sv opts held \<in> set (fst (example_serve ?f))"
    using example_serve_runs by blast
  let ?opts = "\<lparr> do_no_restart = False, do_profiles = [] \<rparr>"
  have "serve (\<lambda>_. []) stoppable_stack ''/p/servicrab.toml'' example_daemon_paths ?opts example_boot ?f
      = (fst (example_serve ?f), snd (example_serve ?f))"
    by (simp add: example_serve_def)
  from next_start_holds_back [OF this run stoppable_planned names] obtain plan where
    plan: "plan_stack stoppable_stack (daemon_selection (do_profiles ?opts)) = Inr plan"
    and held': "held = {n \<in> set plan. \<exists>d \<in> set plan. d \<in> read_stopped ?f \<and> stop_holds stoppable_stack d
      \<and> (n, d) \<in> (depends stoppable_stack)\<^sup>*}" by blast
  have "plan = [''db'', ''api'', ''web'']" using plan example_serve_plan by simp
  note held = held' [unfolded this f]
  have "stop_holds stoppable_stack ''db''" by code_simp
  moreover have "(''api'', ''db'') \<in> depends stoppable_stack" "(''web'', ''api'') \<in> depends stoppable_stack"
    unfolding depends_def stoppable_graph graph_example by (auto simp: deps_at_def bt_get_Cons)
  then have "(''api'', ''db'') \<in> (depends stoppable_stack)\<^sup>*" "(''web'', ''db'') \<in> (depends stoppable_stack)\<^sup>*"
    by auto
  ultimately have "held = {''db'', ''api'', ''web''}" unfolding held by auto
  with run show ?thesis by blast
qed

end
