(* ===== verification/Generate.thy ===== *)
theory Generate
  imports Shutdown Envfile Paths Field_Checks
begin

text \<open>
  \<open>crates/servicrab-cli/src/commands/generate.rs\<close>: the systemd unit and the launchd job that run
  the daemon of a project.  The loaded configuration, the path of the executable and the kind of
  the output path are arguments, and so is the version of the package; paths are UTF-8 text.
\<close>

section \<open>Options\<close>

datatype target = Systemd | Launchd

datatype unit_scope = System | User

record generate_options =
  go_scope :: unit_scope
  go_output :: "path option"
  go_user :: "string option"
  go_profiles :: "string list"

record unit_context =
  uc_program :: path
  uc_config :: path
  uc_working_dir :: path
  uc_scope :: unit_scope
  uc_user :: "string option"
  uc_stop_timeout :: duration
  uc_profiles :: "string list"

definition profile_flags :: "unit_context \<Rightarrow> string" where
  "profile_flags ctx = concat (map (\<lambda>profile. '' --profile '' @ profile) (uc_profiles ctx))"

definition stop_margin :: duration where
  "stop_margin = dur_secs 15"

definition min_stop_timeout :: duration where
  "min_stop_timeout = dur_secs 30"

definition stop_timeout :: "config \<Rightarrow> duration" where
  "stop_timeout config =
     (let slowest = fold (\<lambda>(_, service) m. max m (svc_shutdown_timeout service)) (cfg_services config) 0
      in max (slowest + stop_margin) min_stop_timeout)"

definition launchd_label :: "config \<Rightarrow> string" where
  "launchd_label config = ''com.servicrab.'' @ proj_name (cfg_project config)"

fun unit_file_name :: "target \<Rightarrow> config \<Rightarrow> string" where
  "unit_file_name Systemd config = ''servicrab-'' @ proj_name (cfg_project config) @ ''.service''"
| "unit_file_name Launchd config = launchd_label config @ ''.plist''"

section \<open>Text\<close>

definition nl :: string where
  "nl = [CHR 10]"

definition tab :: string where
  "tab = [CHR 9]"

definition quo :: string where
  "quo = [CHR 34]"

fun has_white :: "string \<Rightarrow> bool" where
  "has_white [] = False"
| "has_white (c # s) = (white_start (c # s) \<noteq> None \<or> has_white s)"

definition quote_systemd :: "path \<Rightarrow> string" where
  "quote_systemd p =
     (if has_white p then quo @ concat (map (\<lambda>c. if c = CHR 34 then [CHR 92, CHR 34] else [c]) p) @ quo
      else p)"

definition escape_char :: "char \<Rightarrow> string" where
  "escape_char c =
     (if c = CHR ''&'' then ''&amp;''
      else if c = CHR ''<'' then ''&lt;''
      else if c = CHR ''>'' then ''&gt;''
      else if c = CHR 34 then ''&quot;''
      else if c = CHR 39 then ''&apos;''
      else [c])"

definition escape_xml :: "string \<Rightarrow> string" where
  "escape_xml s = concat (map escape_char s)"

section \<open>Systemd\<close>

definition systemd_unit :: "string \<Rightarrow> config \<Rightarrow> unit_context \<Rightarrow> string" where
  "systemd_unit version config ctx =
     (let program = quote_systemd (uc_program ctx); file_path = quote_systemd (uc_config ctx);
          name = proj_name (cfg_project config) in
      ''# systemd unit for the servicrab project '' @ quo @ name @ quo @ ''.'' @ nl
      @ ''# Generated by servicrab '' @ version @ ''; edit it freely, it is never regenerated.'' @ nl @ nl
      @ ''[Unit]'' @ nl
      @ ''Description=servicrab stack '' @ quo @ name @ quo @ nl
      @ ''Documentation=https://github.com/gaborini/servicrab'' @ nl
      @ (if uc_scope ctx = System then ''Wants=network-online.target'' @ nl @ ''After=network-online.target'' @ nl else [])
      @ nl
      @ ''[Service]'' @ nl
      @ ''Type=simple'' @ nl
      @ ''WorkingDirectory='' @ quote_systemd (uc_working_dir ctx) @ nl
      @ ''ExecStart='' @ program @ '' daemon --config '' @ file_path @ profile_flags ctx @ nl
      @ ''ExecReload='' @ program @ '' reload --config '' @ file_path @ nl
      @ ''Restart=on-failure'' @ nl
      @ ''RestartSec=5'' @ nl
      @ ''KillSignal=SIGTERM'' @ nl
      @ ''KillMode=mixed'' @ nl
      @ ''TimeoutStopSec='' @ show_nat (uc_stop_timeout ctx div nanos_per_sec) @ nl
      @ (if uc_scope ctx = System
         then (case uc_user ctx of None \<Rightarrow> [] | Some user \<Rightarrow> ''User='' @ user @ nl @ ''Group='' @ user @ nl)
         else [])
      @ nl
      @ ''[Install]'' @ nl
      @ (case uc_scope ctx of System \<Rightarrow> ''WantedBy=multi-user.target'' @ nl | User \<Rightarrow> ''WantedBy=default.target'' @ nl))"

section \<open>Launchd\<close>

definition xml_string :: "string \<Rightarrow> string" where
  "xml_string s = ''<string>'' @ escape_xml s @ ''</string>''"

definition plist_key :: "string \<Rightarrow> string" where
  "plist_key k = tab @ ''<key>'' @ k @ ''</key>'' @ nl"

definition plist_string :: "string \<Rightarrow> string \<Rightarrow> string" where
  "plist_string k s = plist_key k @ tab @ xml_string s @ nl"

definition daemon_arguments :: "unit_context \<Rightarrow> string list" where
  "daemon_arguments ctx =
     [uc_program ctx, ''daemon'', ''--config'', uc_config ctx]
     @ concat (map (\<lambda>profile. [''--profile'', profile]) (uc_profiles ctx))"

definition plist_head :: "string \<Rightarrow> config \<Rightarrow> string" where
  "plist_head version config =
     ''<?xml version='' @ quo @ ''1.0'' @ quo @ '' encoding='' @ quo @ ''UTF-8'' @ quo @ ''?>'' @ nl
     @ ''<!DOCTYPE plist PUBLIC '' @ quo @ ''-//Apple//DTD PLIST 1.0//EN'' @ quo @ '' ''
     @ quo @ ''http://www.apple.com/DTDs/PropertyList-1.0.dtd'' @ quo @ ''>'' @ nl
     @ ''<!-- launchd job for the servicrab project '' @ quo @ escape_xml (proj_name (cfg_project config)) @ quo
     @ '', generated by servicrab '' @ version @ ''. -->'' @ nl
     @ ''<plist version='' @ quo @ ''1.0'' @ quo @ ''>'' @ nl @ ''<dict>'' @ nl"

definition launchd_plist :: "string \<Rightarrow> config \<Rightarrow> unit_context \<Rightarrow> string" where
  "launchd_plist version config ctx =
     (let logs = path_join (uc_working_dir ctx) ''.servicrab'' in
      plist_head version config
      @ plist_string ''Label'' (launchd_label config)
      @ plist_key ''ProgramArguments'' @ tab @ ''<array>'' @ nl
      @ concat (map (\<lambda>argument. tab @ tab @ xml_string argument @ nl) (daemon_arguments ctx))
      @ tab @ ''</array>'' @ nl
      @ plist_string ''WorkingDirectory'' (uc_working_dir ctx)
      @ plist_key ''RunAtLoad'' @ tab @ ''<true/>'' @ nl
      @ plist_key ''KeepAlive'' @ tab @ ''<dict>'' @ nl @ tab @ tab @ ''<key>SuccessfulExit</key>'' @ nl
      @ tab @ tab @ ''<false/>'' @ nl @ tab @ ''</dict>'' @ nl
      @ plist_string ''StandardOutPath'' (path_join logs ''launchd.out.log'')
      @ plist_string ''StandardErrorPath'' (path_join logs ''launchd.err.log'')
      @ plist_key ''ExitTimeOut'' @ tab @ ''<integer>'' @ show_nat (uc_stop_timeout ctx div nanos_per_sec) @ ''</integer>'' @ nl
      @ plist_key ''ProcessType'' @ tab @ ''<string>Background</string>'' @ nl
      @ (if uc_scope ctx = System
         then (case uc_user ctx of None \<Rightarrow> [] | Some user \<Rightarrow> plist_string ''UserName'' user)
         else [])
      @ ''</dict>'' @ nl @ ''</plist>'' @ nl)"

section \<open>The command\<close>

fun install_hint :: "target \<Rightarrow> unit_scope \<Rightarrow> string \<Rightarrow> string" where
  "install_hint Systemd System f =
     nl @ ''Install with:'' @ nl @ ''  sudo cp '' @ f @ '' /etc/systemd/system/'' @ nl
     @ ''  sudo systemctl daemon-reload'' @ nl @ ''  sudo systemctl enable --now '' @ f @ nl @ nl
     @ ''Then `sudo systemctl reload '' @ f @ ''` applies config changes.''"
| "install_hint Systemd User f =
     nl @ ''Install with:'' @ nl @ ''  mkdir -p ~/.config/systemd/user'' @ nl
     @ ''  cp '' @ f @ '' ~/.config/systemd/user/'' @ nl @ ''  systemctl --user daemon-reload'' @ nl
     @ ''  systemctl --user enable --now '' @ f @ nl @ nl
     @ ''Then `systemctl --user reload '' @ f @ ''` applies config changes.''"
| "install_hint Launchd System f =
     nl @ ''Install with:'' @ nl @ ''  sudo cp '' @ f @ '' /Library/LaunchDaemons/'' @ nl
     @ ''  sudo launchctl bootstrap system /Library/LaunchDaemons/'' @ f @ nl @ nl
     @ ''Then `servicrab reload` applies config changes.''"
| "install_hint Launchd User f =
     nl @ ''Install with:'' @ nl @ ''  cp '' @ f @ '' ~/Library/LaunchAgents/'' @ nl
     @ ''  launchctl bootstrap gui/$(id -u) ~/Library/LaunchAgents/'' @ f @ nl @ nl
     @ ''Then `servicrab reload` applies config changes.''"

definition unit_context_of :: "generate_options \<Rightarrow> path \<Rightarrow> path \<Rightarrow> config \<Rightarrow> unit_context" where
  "unit_context_of options program config_path config =
     \<lparr> uc_program = program, uc_config = config_path,
       uc_working_dir = (case path_parent config_path of Some d \<Rightarrow> d | None \<Rightarrow> ''.''),
       uc_scope = go_scope options, uc_user = go_user options, uc_stop_timeout = stop_timeout config,
       uc_profiles = go_profiles options \<rparr>"

text \<open>The file that is written, if any, the unit, and the hint, or the error of the executable's path.\<close>

definition generate_unit :: "string \<Rightarrow> target \<Rightarrow> generate_options \<Rightarrow> string + path \<Rightarrow> (path \<Rightarrow> bool) \<Rightarrow> path \<Rightarrow> config
    \<Rightarrow> string + path option \<times> string \<times> string" where
  "generate_unit version t options current_exe is_dir config_path config =
     (case current_exe of
        Inl e \<Rightarrow> Inl (''could not find the servicrab executable: '' @ e)
      | Inr program \<Rightarrow>
          (let ctx = unit_context_of options program config_path config;
               text_of_unit = (case t of Systemd \<Rightarrow> systemd_unit version config ctx | Launchd \<Rightarrow> launchd_plist version config ctx);
               file_name = unit_file_name t config in
           Inr (map_option (\<lambda>out. if is_dir out then path_join out file_name else out) (go_output options),
                text_of_unit, install_hint t (go_scope options) file_name)))"

section \<open>Reading a plist\<close>

text \<open>What a reader makes of the predefined entities, and of the strings of a property list: a string
  element runs to the next tag.\<close>

definition entities :: "(string \<times> char) list" where
  "entities =
     [(''&amp;'', CHR ''&''), (''&lt;'', CHR ''<''), (''&gt;'', CHR ''>''), (''&quot;'', CHR 34), (''&apos;'', CHR 39)]"

function unescape_xml :: "string \<Rightarrow> string" where
  "unescape_xml [] = []"
| "unescape_xml (c # s) =
     (case find (\<lambda>(e, _). starts_with e (c # s)) entities of
        Some (e, d) \<Rightarrow> d # unescape_xml (drop (length e - 1) s)
      | None \<Rightarrow> c # unescape_xml s)"
  by pat_completeness auto
termination by (relation "measure length") auto

function xml_strings :: "string \<Rightarrow> string list" where
  "xml_strings [] = []"
| "xml_strings (c # s) =
     (case strip_prefix ''<string>'' (c # s) of
        Some r \<Rightarrow> unescape_xml (takeWhile (\<lambda>d. d \<noteq> CHR ''<'') r) # xml_strings (dropWhile (\<lambda>d. d \<noteq> CHR ''<'') r)
      | None \<Rightarrow> xml_strings s)"
  by pat_completeness auto
termination
proof (relation "measure length")
  fix c s r
  assume "strip_prefix ''<string>'' (c # s) = Some r"
  then have "c # s = ''<string>'' @ r" unfolding strip_prefix_Some .
  then have "length r < length (c # s)" by simp
  then show "(dropWhile (\<lambda>d. d \<noteq> CHR ''<'') r, c # s) \<in> measure length"
    using length_dropWhile_le [of "\<lambda>d. d \<noteq> CHR ''<''" r] unfolding in_measure by (rule le_less_trans [rotated])
qed auto

section \<open>The job runs what was asked for\<close>

lemma escape_char_plain: "CHR ''<'' \<notin> set (escape_char c)"
  by (simp add: escape_char_def)

lemma escape_xml_plain: "CHR ''<'' \<notin> set (escape_xml s)"
  by (induction s) (simp_all add: escape_xml_def escape_char_plain)

lemma starts_with_Cons: "starts_with (a # p) (b # s) \<longleftrightarrow> a = b \<and> starts_with p s"
  by (simp add: starts_with_def)

lemma starts_with_Nil [simp]: "starts_with [] s"
  by (simp add: starts_with_def)

lemma unescape_escape: "unescape_xml (escape_xml s) = s"
proof (induction s)
  case Nil
  show ?case by (simp add: escape_xml_def)
next
  case (Cons c s)
  have "unescape_xml (escape_char c @ r) = c # unescape_xml r" for r
    by (auto simp: escape_char_def entities_def starts_with_Cons)
  with Cons show ?case by (simp add: escape_xml_def)
qed

text \<open>Text without a string element: no \<open><\<close> in it is followed by an \<open>s\<close>.\<close>

fun untagged :: "string \<Rightarrow> bool" where
  "untagged [] = True"
| "untagged (c # s) = ((c = CHR ''<'' \<longrightarrow> s \<noteq> [] \<and> hd s \<noteq> CHR ''s'') \<and> untagged s)"

lemma untagged_append: "untagged xs \<Longrightarrow> untagged ys \<Longrightarrow> untagged (xs @ ys)"
  by (induction xs) auto

lemma untagged_plain: "CHR ''<'' \<notin> set s \<Longrightarrow> untagged s"
  by (induction s) auto

lemma strings_untagged: "untagged xs \<Longrightarrow> xml_strings (xs @ s) = xml_strings s"
proof (induction xs)
  case (Cons c xs)
  then have "strip_prefix ''<string>'' (c # xs @ s) = None"
    by (cases xs) auto
  with Cons show ?case by simp
qed simp

lemma strings_element: "xml_strings (xml_string t @ s) = t # xml_strings s"
proof -
  have "xml_strings (''<string>'' @ escape_xml t @ ''</string>'' @ s) =
      t # xml_strings (''</string>'' @ s)"
    using escape_xml_plain [of t] by (simp add: takeWhile_append dropWhile_append unescape_escape takeWhile_eq_all_conv)
  also have "xml_strings (''</string>'' @ s) = xml_strings s" by (rule strings_untagged) simp
  finally show ?thesis by (simp add: xml_string_def)
qed

lemma strings_key: "CHR ''<'' \<notin> set k \<Longrightarrow> xml_strings (plist_key k @ s) = xml_strings s"
  unfolding plist_key_def
  by (rule strings_untagged) (simp add: untagged_append untagged_plain tab_def nl_def)

lemma strings_nl: "xml_strings (nl @ s) = xml_strings s" and strings_end: "xml_strings nl = []"
  and strings_tab: "xml_strings (tab @ s) = xml_strings s"
  using strings_untagged [of nl s] strings_untagged [of tab s] by (simp_all add: nl_def tab_def)

lemma strings_pair:
  assumes "CHR ''<'' \<notin> set k"
  shows "xml_strings (plist_string k t @ s) = t # xml_strings s"
  unfolding plist_string_def append_assoc by (simp only: strings_key [OF assms] strings_tab strings_element strings_nl)

lemma strings_arguments:
  "xml_strings (concat (map (\<lambda>argument. tab @ tab @ xml_string argument @ nl) args) @ s) = args @ xml_strings s"
proof (induction args)
  case (Cons a args)
  have "xml_strings (concat (map (\<lambda>argument. tab @ tab @ xml_string argument @ nl) (a # args)) @ s)
      = a # xml_strings (concat (map (\<lambda>argument. tab @ tab @ xml_string argument @ nl) args) @ s)"
    unfolding list.map concat.simps append_assoc by (simp only: strings_tab strings_element strings_nl)
  with Cons show ?case by simp
qed simp

lemma strings_literals:
  "xml_strings (''<array>'' @ s) = xml_strings s" "xml_strings (''</array>'' @ s) = xml_strings s"
  "xml_strings (''<true/>'' @ s) = xml_strings s" "xml_strings (''<dict>'' @ s) = xml_strings s"
  "xml_strings (''<key>SuccessfulExit</key>'' @ s) = xml_strings s" "xml_strings (''<false/>'' @ s) = xml_strings s"
  "xml_strings (''</dict>'' @ s) = xml_strings s" "xml_strings (''</plist>'' @ s) = xml_strings s"
  "xml_strings (''<integer>'' @ s) = xml_strings s" "xml_strings (''</integer>'' @ s) = xml_strings s"
  by (rule strings_untagged, simp)+

lemma strings_number: "xml_strings (show_nat n @ s) = xml_strings s"
proof (intro strings_untagged untagged_plain notI)
  assume "CHR ''<'' \<in> set (show_nat n)"
  then have "is_ascii_digit (CHR ''<'')" using show_nat_digits [of n] by (auto simp: list_all_iff)
  then show False by (simp add: is_ascii_digit_def less_eq_char_def)
qed

lemma background_string: "''<string>Background</string>'' = xml_string ''Background''"
  by code_simp

lemma strings_head:
  assumes "CHR ''<'' \<notin> set version"
  shows "xml_strings (plist_head version config @ s) = xml_strings s"
  unfolding plist_head_def
  by (rule strings_untagged, intro untagged_append untagged_plain [OF assms] untagged_plain [OF escape_xml_plain])
    (simp_all add: quo_def nl_def)

text \<open>A launchd job starts exactly the daemon that was asked for: whatever characters the paths,
  the profiles and the user have, a reader of the property list gets back the label, the arguments
  in their order, the directory, the two logs and the user, and no other string but the type of the
  process.\<close>

theorem plist_runs_the_daemon:
  assumes "CHR ''<'' \<notin> set version"
  shows "xml_strings (launchd_plist version config ctx) =
     [launchd_label config] @ daemon_arguments ctx
     @ [uc_working_dir ctx, path_join (path_join (uc_working_dir ctx) ''.servicrab'') ''launchd.out.log'',
        path_join (path_join (uc_working_dir ctx) ''.servicrab'') ''launchd.err.log'', ''Background'']
     @ (if uc_scope ctx = System then (case uc_user ctx of None \<Rightarrow> [] | Some user \<Rightarrow> [user]) else [])"
proof -
  let ?user = "if uc_scope ctx = System
    then (case uc_user ctx of None \<Rightarrow> [] | Some user \<Rightarrow> plist_string ''UserName'' user) else []"
  have user: "xml_strings (?user @ s) =
      (if uc_scope ctx = System then (case uc_user ctx of None \<Rightarrow> [] | Some user \<Rightarrow> [user]) else []) @ xml_strings s" for s
    using strings_pair [of "''UserName''"] by (cases "uc_user ctx") simp_all
  have keys: "CHR ''<'' \<notin> set ''Label''" "CHR ''<'' \<notin> set ''ProgramArguments''" "CHR ''<'' \<notin> set ''WorkingDirectory''"
    "CHR ''<'' \<notin> set ''RunAtLoad''" "CHR ''<'' \<notin> set ''KeepAlive''" "CHR ''<'' \<notin> set ''StandardOutPath''"
    "CHR ''<'' \<notin> set ''StandardErrorPath''" "CHR ''<'' \<notin> set ''ExitTimeOut''" "CHR ''<'' \<notin> set ''ProcessType''"
    by simp_all
  have "xml_strings (launchd_plist version config ctx) =
     launchd_label config # daemon_arguments ctx
     @ uc_working_dir ctx # path_join (path_join (uc_working_dir ctx) ''.servicrab'') ''launchd.out.log''
     # path_join (path_join (uc_working_dir ctx) ''.servicrab'') ''launchd.err.log'' # ''Background''
     # (if uc_scope ctx = System then (case uc_user ctx of None \<Rightarrow> [] | Some user \<Rightarrow> [user]) else []) @ []"
    unfolding launchd_plist_def Let_def background_string
    by (simp only: strings_head [OF assms] strings_pair [OF keys(1)] strings_key [OF keys(2)] strings_pair [OF keys(3)]
        strings_key [OF keys(4)] strings_key [OF keys(5)] strings_pair [OF keys(6)] strings_pair [OF keys(7)]
        strings_key [OF keys(8)] strings_key [OF keys(9)] strings_arguments strings_literals strings_number
        strings_tab strings_nl strings_end strings_element user)
  then show ?thesis by (simp only: append_Cons append_Nil append_Nil2)
qed

section \<open>The time to stop\<close>

lemma slowest_grows: "k \<le> fold (\<lambda>(_, service) m. max m (svc_shutdown_timeout service)) services k"
proof (induction services arbitrary: k)
  case (Cons e services)
  from Cons [of "max k (svc_shutdown_timeout (snd e))"] show ?case by (simp add: case_prod_unfold)
qed simp

lemma slowest_bound:
  "(n, svc) \<in> set services \<Longrightarrow>
     svc_shutdown_timeout svc \<le> fold (\<lambda>(_, service) m. max m (svc_shutdown_timeout service)) services k"
proof (induction services arbitrary: k)
  case (Cons e services)
  from Cons show ?case
    using slowest_grows [of "max k (svc_shutdown_timeout svc)" services] by (auto simp: le_max_iff_disj)
qed simp

lemma stop_timeout_covers_each:
  assumes "bt_get (cfg_services config) n = Some svc"
  shows "svc_shutdown_timeout svc + dur_secs 15 \<le> stop_timeout config"
  using slowest_bound [of n svc "cfg_services config" 0] bt_get_in [OF assms]
  by (simp add: stop_timeout_def stop_margin_def Let_def le_max_iff_disj)

text \<open>How long a shutdown may wait: it waits for one service after another.\<close>

definition waiting_time :: "stop_action list \<Rightarrow> duration" where
  "waiting_time acts = sum_list (map (\<lambda>a. case a of SA_Wait _ grace \<Rightarrow> grace | _ \<Rightarrow> 0) acts)"

lemma waiting_time_concat: "waiting_time (concat xss) = sum_list (map waiting_time xss)"
  by (induction xss) (simp_all add: waiting_time_def)

lemma waiting_time_one: "waiting_time (stop_one config late reason n) = grace_of config n"
  by (cases "late n") (auto simp: waiting_time_def stop_one_def sweep_group_def)

text \<open>The seconds that a unit gives its stop.\<close>

fun allows_seconds :: "target \<Rightarrow> string \<Rightarrow> nat \<Rightarrow> bool" where
  "allows_seconds Systemd unit_text secs \<longleftrightarrow>
     (\<exists>before after. unit_text = before @ (nl @ ''TimeoutStopSec='' @ show_nat secs @ nl) @ after)"
| "allows_seconds Launchd unit_text secs \<longleftrightarrow>
     (\<exists>before after. unit_text = before @ (plist_key ''ExitTimeOut'' @ tab
        @ ''<integer>'' @ show_nat secs @ ''</integer>'' @ nl) @ after)"

lemma within_skip: "\<exists>before after. s = before @ x @ after \<Longrightarrow> \<exists>before after. p @ s = before @ x @ after"
  by (metis append_assoc)

lemma within_here: "\<exists>before after. a @ b @ c @ d @ s = before @ (a @ b @ c @ d) @ after"
  by (metis append_Nil append_assoc)

lemma within_key: "\<exists>before after. a @ b @ c @ d @ e @ f @ s = before @ (a @ b @ c @ d @ e @ f) @ after"
  by (metis append_Nil append_assoc)

lemma unit_says_seconds:
  assumes "generate_unit version t options (Inr program) is_dir config_path config = Inr (out, unit_text, hint)"
  shows "allows_seconds t unit_text (stop_timeout config div nanos_per_sec)"
proof (cases t)
  case Systemd
  let ?ctx = "unit_context_of options program config_path config"
  have "\<exists>before after. systemd_unit version config ?ctx = before @ (nl @ ''TimeoutStopSec=''
      @ show_nat (uc_stop_timeout ?ctx div nanos_per_sec) @ nl) @ after"
    unfolding systemd_unit_def Let_def by (rule within_here within_skip)+
  with assms Systemd show ?thesis by (auto simp: generate_unit_def Let_def unit_context_of_def)
next
  case Launchd
  let ?ctx = "unit_context_of options program config_path config"
  have "\<exists>before after. launchd_plist version config ?ctx = before @ (plist_key ''ExitTimeOut'' @ tab
      @ ''<integer>'' @ show_nat (uc_stop_timeout ?ctx div nanos_per_sec) @ ''</integer>'' @ nl) @ after"
    unfolding launchd_plist_def Let_def by (rule within_key within_skip)+
  with assms Launchd show ?thesis by (auto simp: generate_unit_def Let_def unit_context_of_def)
qed

lemma grace_below_seconds: "grace_of config n + dur_secs 9 < dur_secs (stop_timeout config div nanos_per_sec)"
proof -
  have "grace_of config n + dur_secs 10 \<le> stop_timeout config"
    using stop_timeout_covers_each [of config n]
    by (auto simp: grace_of_def stop_grace_def dur_secs_def stop_timeout_def stop_margin_def min_stop_timeout_def
        le_max_iff_disj Let_def split: option.splits)
  moreover have "stop_timeout config < dur_secs (stop_timeout config div nanos_per_sec) + nanos_per_sec"
    using div_mult_mod_eq [of "stop_timeout config" nanos_per_sec] mod_less_divisor [of nanos_per_sec "stop_timeout config"]
    by (simp add: dur_secs_def nanos_per_sec_def)
  ultimately show ?thesis by (simp add: dur_secs_def nanos_per_sec_def)
qed

lemma sum_list_perm:
  assumes "mset xs = mset ys"
  shows "sum_list (map (f :: 'a \<Rightarrow> nat) xs) = sum_list (map f ys)"
  using assms by (metis mset_map sum_mset_sum_list)

text \<open>C35: The seconds that a generated unit gives the daemon to stop cover the stop of each running
  service alone, its own timeout and five seconds more, with over nine seconds to spare: the margin
  leaves ten, and the unit says whole seconds.  A shutdown may wait for the sum of all of them, as it
  waits for one service after another.\<close>

theorem unit_covers_one_stop:
  assumes "stack_reach options sv sent" and "sv_shutdown sv = Some reason" and "distinct (sv_plan sv)"
    and "generate_unit version t generate (Inr program) is_dir config_path (sv_config sv) = Inr (out, unit_text, hint)"
  shows "\<exists>secs. allows_seconds t unit_text secs
     \<and> (\<forall>n\<in>set (stop_names sv). grace_of (sv_config sv) n + dur_secs 9 < dur_secs secs)
     \<and> waiting_time (take_down late sv) = sum_list (map (grace_of (sv_config sv)) (stop_names sv))"
proof -
  have inv: "sv_inv sv" by (rule stack_reach_inv [OF assms(1)])
  let ?order = "filter (\<lambda>n. n \<notin> set (sv_plan sv)) (stop_names sv)
    @ filter (\<lambda>n. n \<in> set (stop_names sv)) (rev (sv_plan sv))"
  have d: "distinct (stop_names sv)" using stop_names_set [OF inv] by blast
  have same: "mset ?order = mset (stop_names sv)"
    by (rule set_eq_iff_mset_eq_distinct [THEN iffD1]) (use assms(3) d in auto)
  have sum: "sum_list (map (grace_of (sv_config sv)) ?order) = sum_list (map (grace_of (sv_config sv)) (stop_names sv))"
    by (rule sum_list_perm [OF same])
  have "waiting_time (take_down late sv) = sum_list (map (grace_of (sv_config sv)) ?order)"
    unfolding take_down_order [OF inv assms(3,2)] waiting_time_concat
    by (simp only: waiting_time_one map_map comp_def)
  then have "waiting_time (take_down late sv) = sum_list (map (grace_of (sv_config sv)) (stop_names sv))"
    unfolding sum .
  with unit_says_seconds [OF assms(4)] grace_below_seconds show ?thesis by blast
qed

section \<open>Witnesses\<close>

definition example_context :: unit_context where
  "example_context =
     \<lparr> uc_program = ''/bin/servicrab'', uc_config = ''/a & <b>/servicrab.toml'', uc_working_dir = ''/a & <b>'',
       uc_scope = System, uc_user = Some ''ops'', uc_stop_timeout = dur_secs 30, uc_profiles = [''dev''] \<rparr>"

theorem plist_runs_the_daemon_witness:
  "take 7 (xml_strings (launchd_plist ''1.0'' example_stack example_context)) =
     [''com.servicrab.p'', ''/bin/servicrab'', ''daemon'', ''--config'', ''/a & <b>/servicrab.toml'', ''--profile'', ''dev'']"
proof -
  have v: "CHR ''<'' \<notin> set ''1.0''" by simp
  show ?thesis unfolding plist_runs_the_daemon [OF v]
    by (simp add: launchd_label_def daemon_arguments_def example_context_def example_stack_def)
qed

text \<open>Seven services that stop in no time: the unit allows some seconds, which cover each, and the stop
  may take more than 35.\<close>

definition patient_stack :: config where
  "patient_stack = example_stack\<lparr> cfg_services :=
     map (\<lambda>name. (name, plain_service name [])) [''a'', ''b'', ''c'', ''d'', ''e'', ''f'', ''g''] \<rparr>"

lemma patient_valid: "valid_plan patient_stack [''a'', ''b'', ''c'', ''d'', ''e'', ''f'', ''g'']"
  by (auto simp: valid_plan_def named_ok_def patient_stack_def bt_get_Cons plain_service_def)

definition patient_running :: supervisor where
  "patient_running = stack_start patient_stack [''a'', ''b'', ''c'', ''d'', ''e'', ''f'', ''g''] {}"

definition patient_closing :: supervisor where
  "patient_closing = stack_step example_options (IN_Shutdown SR_Terminated) patient_running"

lemma patient_facts:
  "sv_config patient_running = patient_stack" "sv_plan patient_running = [''a'', ''b'', ''c'', ''d'', ''e'', ''f'', ''g'']"
  "sv_shutdown patient_running = None" "sv_running patient_running = 7"
  "stop_names patient_running = [''a'', ''b'', ''c'', ''d'', ''e'', ''f'', ''g'']"
  by code_simp+

theorem unit_covers_one_stop_witness:
  "\<exists>out unit_text hint secs. generate_unit ''1.0'' Systemd \<lparr> go_scope = User, go_output = None, go_user = None, go_profiles = [] \<rparr>
       (Inr ''/bin/servicrab'') (\<lambda>_. False) ''/p/servicrab.toml'' patient_stack = Inr (out, unit_text, hint)
     \<and> allows_seconds Systemd unit_text secs \<and> dur_secs 14 < dur_secs secs
     \<and> waiting_time (take_down (\<lambda>_. None) patient_closing) = dur_secs 35 + 70"
proof -
  let ?options = "\<lparr> go_scope = User, go_output = None, go_user = None, go_profiles = [] \<rparr>"
  have loop: "\<not> loop_over example_options patient_running"
    by (simp add: loop_over_def patient_facts example_options_def)
  have closing: "patient_closing = patient_running\<lparr> sv_shutdown := Some SR_Terminated \<rparr>"
    using loop by (simp add: patient_closing_def stack_step_def)
  have "stack_reach example_options patient_running []"
    unfolding patient_running_def by (rule reach_start [OF patient_valid])
  then have reach: "stack_reach example_options patient_closing []"
    unfolding patient_closing_def by (rule reach_other) simp
  have stops: "stop_names patient_closing = [''a'', ''b'', ''c'', ''d'', ''e'', ''f'', ''g'']"
    using patient_facts(5) by (simp add: closing stop_names_def)
  have c: "sv_shutdown patient_closing = Some SR_Terminated" "sv_config patient_closing = patient_stack"
    "sv_plan patient_closing = [''a'', ''b'', ''c'', ''d'', ''e'', ''f'', ''g'']"
    by (simp_all add: closing patient_facts)
  have plan: "distinct (sv_plan patient_closing)" unfolding c by simp
  obtain out unit_text hint where made: "generate_unit ''1.0'' Systemd ?options (Inr ''/bin/servicrab'') (\<lambda>_. False)
      ''/p/servicrab.toml'' (sv_config patient_closing) = Inr (out, unit_text, hint)"
    by (simp add: generate_unit_def Let_def)
  obtain secs where secs: "allows_seconds Systemd unit_text secs"
    "\<forall>n\<in>set (stop_names patient_closing). grace_of (sv_config patient_closing) n + dur_secs 9 < dur_secs secs"
    "waiting_time (take_down (\<lambda>_. None) patient_closing)
       = sum_list (map (grace_of (sv_config patient_closing)) (stop_names patient_closing))"
    using unit_covers_one_stop [OF reach c(1) plan made, of "\<lambda>_. None"] by blast
  have grace: "grace_of patient_stack n = dur_secs 5 + 10" if "n \<in> set [''a'', ''b'', ''c'', ''d'', ''e'', ''f'', ''g'']" for n
    using that by (auto simp: grace_of_def patient_stack_def bt_get_Cons plain_service_def stop_grace_def)
  have "dur_secs 14 < dur_secs secs"
    using secs(2) grace [of "''a''"] unfolding c stops by (simp add: dur_secs_def nanos_per_sec_def)
  moreover have "waiting_time (take_down (\<lambda>_. None) patient_closing) = dur_secs 35 + 70"
    using secs(3) grace unfolding c stops by (simp add: dur_secs_def)
  ultimately show ?thesis using made secs(1) unfolding c by blast
qed

end
