(* ===== verification/Terminal.thy ===== *)
theory Terminal
  imports Wire Daemon_Paths
begin

text \<open>
  How commands write: colours (\<open>servicrab-cli/src/style.rs\<close>) and the errors they end with
  (\<open>servicrab-cli/src/output.rs\<close>).  What a command writes is a list of lines, each for one of the two
  streams.  The environment and whether a stream is a terminal are arguments; the rendering of an
  error as JSON is serde's.
\<close>

section \<open>Colours\<close>

definition reset_code :: string where "reset_code = [CHR 0x1B] @ ''[0m''"
definition dim :: string where "dim = [CHR 0x1B] @ ''[2m''"
definition bold :: string where "bold = [CHR 0x1B] @ ''[1m''"
definition green :: string where "green = [CHR 0x1B] @ ''[32m''"
definition yellow :: string where "yellow = [CHR 0x1B] @ ''[33m''"
definition red :: string where "red = [CHR 0x1B] @ ''[31m''"

definition service_colors :: "string list" where
  "service_colors =
     map (\<lambda>code. [CHR 0x1B] @ code) [''[36m'', ''[32m'', ''[33m'', ''[35m'', ''[34m'', ''[31m'']"

datatype color_choice = ChooseAuto | ChooseAlways | ChooseNever

record color_env =
  ce_no_color :: bool
  ce_clicolor_force :: bool
  ce_dumb_term :: bool

text \<open>A variable that is not Unicode counts as set for \<open>var_os\<close> only.\<close>

datatype env_value = EV_Unset | EV_Text string | EV_NotUnicode

definition color_env_of :: "(string \<Rightarrow> env_value) \<Rightarrow> color_env" where
  "color_env_of var =
     \<lparr> ce_no_color = (var ''NO_COLOR'' \<noteq> EV_Unset),
       ce_clicolor_force =
         (case var ''CLICOLOR_FORCE'' of EV_Text v \<Rightarrow> v \<noteq> [] \<and> v \<noteq> ''0'' | _ \<Rightarrow> False),
       ce_dumb_term = (var ''TERM'' = EV_Text ''dumb'') \<rparr>"

definition decide_color :: "color_choice \<Rightarrow> color_env \<Rightarrow> bool \<Rightarrow> bool" where
  "decide_color choice env on_terminal =
     (case choice of
        ChooseAlways \<Rightarrow> True
      | ChooseNever \<Rightarrow> False
      | ChooseAuto \<Rightarrow>
          if ce_no_color env then False
          else if ce_clicolor_force env then True
          else if ce_dumb_term env then False
          else on_terminal)"

definition paint :: "bool \<Rightarrow> string \<Rightarrow> string \<Rightarrow> string" where
  "paint enabled code t = (if enabled then code @ t @ reset_code else t)"

text \<open>\<open>{:02}\<close> of a number.\<close>

definition two_digits :: "nat \<Rightarrow> string" where
  "two_digits n = (if n < 10 then CHR ''0'' # show_nat n else show_nat n)"

text \<open>\<open>since_epoch\<close> is \<open>None\<close> before 1970.\<close>

definition utc_hms :: "duration option \<Rightarrow> string" where
  "utc_hms since_epoch =
     (let secs = (case since_epoch of Some d \<Rightarrow> d div nanos_per_sec | None \<Rightarrow> 0);
          day = secs mod 86400 in
      two_digits (day div 3600) @ '':'' @ two_digits (day mod 3600 div 60) @ '':'' @ two_digits (day mod 60))"

section \<open>Lines\<close>

datatype printed = PR_Out string | PR_Err string

definition out_lines :: "printed list \<Rightarrow> string list" where
  "out_lines ps = List.map_filter (\<lambda>p. case p of PR_Out l \<Rightarrow> Some l | PR_Err _ \<Rightarrow> None) ps"

definition check_mark :: string where
  "check_mark = [CHR 0xE2, CHR 0x9C, CHR 0x93]"

definition cross_mark :: string where
  "cross_mark = [CHR 0xE2, CHR 0x9C, CHR 0x97]"

definition warning_sign :: string where
  "warning_sign = [CHR 0xE2, CHR 0x9A, CHR 0xA0]"

definition em_dash :: string where
  "em_dash = [CHR 0xE2, CHR 0x80, CHR 0x94]"

text \<open>The width of a column is counted in characters.\<close>

definition chars_of :: "string \<Rightarrow> nat" where
  "chars_of s = length (filter (\<lambda>c. \<not> continues_char c) s)"

definition pad_right :: "nat \<Rightarrow> string \<Rightarrow> string" where
  "pad_right width s = s @ replicate (width - chars_of s) (CHR '' '')"

definition pad_left :: "nat \<Rightarrow> string \<Rightarrow> string" where
  "pad_left width s = replicate (width - chars_of s) (CHR '' '') @ s"

section \<open>Errors\<close>

definition exit_failure :: int where
  "exit_failure = 1"

definition exit_no_daemon :: int where
  "exit_no_daemon = 3"

record cli_error =
  cle_code :: error_code
  cle_message :: string
  cle_errors :: "string list"
  cle_hint :: "string option"
  cle_exit :: int
  cle_json :: bool

definition cli_error_new :: "error_code \<Rightarrow> string \<Rightarrow> cli_error" where
  "cli_error_new code message =
     \<lparr> cle_code = code, cle_message = message, cle_errors = [], cle_hint = None, cle_exit = exit_failure,
       cle_json = False \<rparr>"

definition with_errors :: "string list \<Rightarrow> cli_error \<Rightarrow> cli_error" where
  "with_errors errors e = e\<lparr> cle_errors := errors \<rparr>"

definition with_hint :: "string \<Rightarrow> cli_error \<Rightarrow> cli_error" where
  "with_hint hint e = e\<lparr> cle_hint := Some hint \<rparr>"

definition in_json :: "bool \<Rightarrow> cli_error \<Rightarrow> cli_error" where
  "in_json json e = e\<lparr> cle_json := json \<rparr>"

definition with_exit :: "int \<Rightarrow> cli_error \<Rightarrow> cli_error" where
  "with_exit code e = e\<lparr> cle_exit := code \<rparr>"

definition cli_failed :: "string \<Rightarrow> cli_error" where
  "cli_failed message = cli_error_new EC_Failed message"

definition no_daemon :: "string \<Rightarrow> bool \<Rightarrow> cli_error" where
  "no_daemon project json =
     in_json json (with_exit exit_no_daemon
       (cli_error_new EC_NotRunning
          (''no daemon is running for '' @ project @ '' '' @ em_dash @ '' start one with `servicrab start`'')))"

definition report_as_text :: "bool \<Rightarrow> cli_error \<Rightarrow> printed list" where
  "report_as_text color e =
     PR_Err (''error: '' @ cle_message e)
     # map (\<lambda>problem. PR_Err (''  '' @ bullet @ '' '' @ problem)) (cle_errors e)
     @ (case cle_hint e of Some hint \<Rightarrow> [PR_Err (paint color dim (''  '' @ hint))] | None \<Rightarrow> [])"

text \<open>\<open>render\<close> is serde's \<open>to_string\<close> of the document of a code, a message and the errors.\<close>

definition report_error :: "(string \<Rightarrow> string \<Rightarrow> string list \<Rightarrow> string option) \<Rightarrow> bool \<Rightarrow> cli_error \<Rightarrow> printed list" where
  "report_error render color e =
     (if cle_json e
      then (case render (show_error_code (cle_code e)) (cle_message e) (cle_errors e) of
              Some line \<Rightarrow> [PR_Err line]
            | None \<Rightarrow> report_as_text color e)
      else report_as_text color e)"

text \<open>An error never reaches standard output, and without \<open>--json\<close> its first line is the message.\<close>

lemma report_is_on_stderr: "out_lines (report_error render color e) = []"
  by (auto simp: report_error_def report_as_text_def out_lines_def map_filter_def comp_def
      split: option.splits)

lemma never_colors_nothing: "paint (decide_color ChooseNever env terminal) code t = t"
  by (simp add: decide_color_def paint_def)

lemma no_color_wins:
  "ce_no_color env \<Longrightarrow> decide_color ChooseAuto env terminal = False"
  by (simp add: decide_color_def)

end
