(* ===== verification/Client.thy ===== *)
theory Client
  imports Wire Envfile Paths
begin

text \<open>
  \<open>servicrab-cli/src/daemon/client.rs\<close>: one request, one answer.  What a connection does is the
  record \<open>exchange\<close>: the refusal to connect, or what becomes of the line that is written and what
  can be read afterwards.  Serde's rendering and parsing are the fields of \<open>client_codec\<close>.
\<close>

section \<open>One exchange\<close>

datatype client_error = CL_NotRunning | CL_Failed string

fun show_client_error :: "client_error \<Rightarrow> string" where
  "show_client_error CL_NotRunning = ''no daemon is running for this project''"
| "show_client_error (CL_Failed message) = message"

definition client_timeout :: duration where
  "client_timeout = dur_secs 10"

record client_codec =
  cc_encode :: "request \<Rightarrow> string + string"
  cc_decode :: "string \<Rightarrow> string + response"
  cc_debug :: "response \<Rightarrow> string"

datatype connect_kind = CK_NotFound | CK_ConnectionRefused | CK_Other

text \<open>\<open>tk_reply\<close> is what \<open>read_line\<close> has put into the buffer, \<open>tk_read\<close> its error; \<open>tk_rest\<close> are the
  later lines of a stream.\<close>

datatype line_read = LR_Line string | LR_Broken string

record talk =
  tk_sent :: "string option"
  tk_reply :: string
  tk_read :: "string option"
  tk_rest :: "line_read list"

record exchange =
  xc_refused :: "(connect_kind \<times> string) option"
  xc_talk :: "string \<Rightarrow> talk"

definition connect_daemon :: "path \<Rightarrow> exchange \<Rightarrow> client_error + (string \<Rightarrow> talk)" where
  "connect_daemon socket x =
     (case xc_refused x of
        None \<Rightarrow> Inr (xc_talk x)
      | Some (kind, err) \<Rightarrow>
          (case kind of
             CK_Other \<Rightarrow> Inl (CL_Failed (''could not connect to '' @ socket @ '': '' @ err))
           | _ \<Rightarrow> Inl CL_NotRunning))"

text \<open>The first line of an answer, read before the error of the write is looked at.\<close>

definition first_line :: "client_codec \<Rightarrow> path \<Rightarrow> exchange \<Rightarrow> request \<Rightarrow> client_error + talk" where
  "first_line cc socket x request =
     (case connect_daemon socket x of
        Inl err \<Rightarrow> Inl err
      | Inr conversation \<Rightarrow>
          (case cc_encode cc request of
             Inl err \<Rightarrow> Inl (CL_Failed err)
           | Inr line \<Rightarrow>
               (let t = conversation line in
                if trim (tk_reply t) = [] then
                  (case tk_sent t of
                     Some err \<Rightarrow> Inl (CL_Failed (''could not send the request: '' @ err))
                   | None \<Rightarrow>
                       (case tk_read t of
                          Some err \<Rightarrow> Inl (CL_Failed (''could not read the response: '' @ err))
                        | None \<Rightarrow> Inl (CL_Failed ''the daemon closed the connection without answering'')))
                else Inr t)))"

definition send :: "client_codec \<Rightarrow> path \<Rightarrow> exchange \<Rightarrow> request \<Rightarrow> client_error + response" where
  "send cc socket x request =
     (case first_line cc socket x request of
        Inl err \<Rightarrow> Inl err
      | Inr t \<Rightarrow>
          (case cc_decode cc (tk_reply t) of
             Inl err \<Rightarrow> Inl (CL_Failed err)
           | Inr response \<Rightarrow> Inr response))"

section \<open>Streams\<close>

text \<open>The callback has a state of its own; the stream ends when the daemon closes the socket.\<close>

fun stream_lines :: "client_codec \<Rightarrow> (string \<Rightarrow> response \<Rightarrow> 's \<Rightarrow> bool \<times> 's) \<Rightarrow> line_read list \<Rightarrow> 's
    \<Rightarrow> (client_error + unit) \<times> 's" where
  "stream_lines cc on_event [] st = (Inr (), st)"
| "stream_lines cc on_event (LR_Broken err # rest) st = (Inl (CL_Failed (''the event stream broke: '' @ err)), st)"
| "stream_lines cc on_event (LR_Line line # rest) st =
     (if trim line = [] then stream_lines cc on_event rest st
      else
        (case cc_decode cc line of
           Inl err \<Rightarrow> (Inl (CL_Failed err), st)
         | Inr response \<Rightarrow>
             (case on_event (trim_end line) response st of
                (go_on, st) \<Rightarrow> if go_on then stream_lines cc on_event rest st else (Inr (), st))))"

definition unexpected :: "client_codec \<Rightarrow> response \<Rightarrow> string" where
  "unexpected cc response = ''unexpected response from the daemon: '' @ cc_debug cc response"

definition subscribe :: "client_codec \<Rightarrow> path \<Rightarrow> exchange \<Rightarrow> request \<Rightarrow> (string \<Rightarrow> response \<Rightarrow> 's \<Rightarrow> bool \<times> 's) \<Rightarrow> 's
    \<Rightarrow> (client_error + unit) \<times> 's" where
  "subscribe cc socket x request on_event st =
     (case first_line cc socket x request of
        Inl err \<Rightarrow> (Inl err, st)
      | Inr t \<Rightarrow>
          (case cc_decode cc (tk_reply t) of
             Inr (Resp_Ok _ _ _) \<Rightarrow> stream_lines cc on_event (tk_rest t) st
           | Inr (Resp_Error _ message _) \<Rightarrow> (Inl (CL_Failed message), st)
           | Inr other \<Rightarrow> (Inl (CL_Failed (unexpected cc other)), st)
           | Inl err \<Rightarrow> (Inl (CL_Failed err), st)))"

section \<open>Is it running?\<close>

fun is_pong :: "client_error + response \<Rightarrow> bool" where
  "is_pong (Inr (Resp_Pong _ _ _)) = True"
| "is_pong _ = False"

definition is_running :: "client_codec \<Rightarrow> path \<Rightarrow> exchange \<Rightarrow> bool" where
  "is_running cc socket x = is_pong (send cc socket x request_ping)"

definition check_running :: "client_codec \<Rightarrow> path \<Rightarrow> exchange \<Rightarrow> client_error + unit" where
  "check_running cc socket x =
     (case send cc socket x request_ping of
        Inr (Resp_Pong _ _ _) \<Rightarrow> Inr ()
      | Inr (Resp_Error _ message _) \<Rightarrow> Inl (CL_Failed message)
      | Inr other \<Rightarrow> Inl (CL_Failed (unexpected cc other))
      | Inl err \<Rightarrow> Inl err)"

text \<open>The rounds of the loop: the clock at its head and the exchange of its ping.  \<open>None\<close> is a loop that
  goes on after the last of them.\<close>

fun wait_until_stopped :: "client_codec \<Rightarrow> path \<Rightarrow> instant \<Rightarrow> (instant \<times> exchange) list \<Rightarrow> bool option" where
  "wait_until_stopped cc socket deadline [] = None"
| "wait_until_stopped cc socket deadline ((now, x) # rounds) =
     (if now < deadline
      then (if \<not> is_running cc socket x then Some True else wait_until_stopped cc socket deadline rounds)
      else Some False)"

section \<open>What the answers tell\<close>

text \<open>What a daemon has written is what the client reports, whatever became of the write: a refusal is
  not replaced by a broken pipe.\<close>

lemma refusal_survives:
  assumes "xc_refused x = None" and "cc_encode cc request = Inr line" and "xc_talk x line = t"
    and "trim (tk_reply t) \<noteq> []" and "cc_decode cc (tk_reply t) = Inr response"
  shows "send cc socket (x\<lparr> xc_talk := (xc_talk x)(line := t\<lparr> tk_sent := any, tk_read := thing \<rparr>) \<rparr>) request
    = Inr response"
  using assms by (simp add: send_def first_line_def connect_daemon_def Let_def)

text \<open>A request that got no daemon is told from one that went wrong.\<close>

lemma not_running_is_refused:
  "send cc socket x request = Inl CL_NotRunning \<longleftrightarrow>
     (\<exists>kind err. xc_refused x = Some (kind, err) \<and> kind \<noteq> CK_Other)"
  by (auto simp: send_def first_line_def connect_daemon_def Let_def split: option.splits connect_kind.splits sum.splits)

lemma running_is_checked: "is_running cc socket x \<longleftrightarrow> check_running cc socket x = Inr ()"
  by (auto simp: is_running_def check_running_def split: sum.splits response.splits)

text \<open>The loop ends at the first round whose ping gets no pong or whose clock has run out; only the
  first of these counts as stopped, and it is one ping without a pong, not an absent daemon.\<close>

lemma wait_until_stopped_eq:
  "wait_until_stopped cc socket deadline rounds =
     (case dropWhile (\<lambda>(now, x). now < deadline \<and> is_running cc socket x) rounds of
        [] \<Rightarrow> None
      | (now, x) # _ \<Rightarrow> Some (now < deadline))"
  by (induction cc socket deadline rounds rule: wait_until_stopped.induct) auto

lemma wait_until_stopped_ends:
  assumes "r \<in> set rounds" and "deadline \<le> fst r"
  shows "wait_until_stopped cc socket deadline rounds \<noteq> None"
proof -
  from assms have "dropWhile (\<lambda>(now, x). now < deadline \<and> is_running cc socket x) rounds \<noteq> []"
    by (auto simp: dropWhile_eq_Nil_conv case_prod_unfold not_less intro!: bexI [of _ r])
  then show ?thesis unfolding wait_until_stopped_eq by (auto split: list.split)
qed

end
