(* ===== verification/Commands.thy ===== *)
theory Commands
  imports Terminal Client Daemon_Paths Stopped Field_Checks
begin

text \<open>
  The commands that talk to the daemon: \<open>servicrab-cli/src/commands/daemon.rs\<close>.  A command is a
  function of the answers of its surroundings, the record \<open>command_env\<close>, and of the exchanges it has
  with the daemon; it results in an exit code or an error, and in what it writes.  A loop takes one
  round of answers after the other, and \<open>None\<close> is a loop that goes on after the last of them.
\<close>

section \<open>What a command sees\<close>

record command_env =
  cm_resolve :: "string + path"
  cm_load :: "path \<Rightarrow> config_error list + config \<times> config_warning list"
  cm_config_error :: "config_error \<Rightarrow> string"
  cm_warning :: "config_warning \<Rightarrow> string"
  cm_host :: host
  cm_codec :: client_codec
  cm_error_json :: "string \<Rightarrow> string \<Rightarrow> string list \<Rightarrow> string option"
  cm_status_json :: "bool \<Rightarrow> service_info list \<Rightarrow> string + string"
  cm_format_duration :: "duration \<Rightarrow> string"
  cm_color_out :: bool
  cm_color_err :: bool

type_synonym outcome = "(cli_error + int) \<times> printed list"

definition fail_with :: "string \<Rightarrow> outcome" where
  "fail_with message = (Inl (cli_failed message), [])"

definition setup_project :: "command_env \<Rightarrow> (cli_error + config \<times> path \<times> daemon_paths) \<times> printed list" where
  "setup_project env =
     (case cm_resolve env of
        Inl e \<Rightarrow> (Inl (cli_failed (''could not find config: '' @ e)), [])
      | Inr p \<Rightarrow>
          (case cm_load env p of
             Inl errors \<Rightarrow>
               (Inl (with_errors (map (cm_config_error env) errors)
                  (cli_error_new EC_ValidationFailed (p @ '' has '' @ show_nat (length errors) @ '' error(s)''))), [])
           | Inr (config, warnings) \<Rightarrow>
               (let printed = map (\<lambda>w. PR_Err (warning_sign @ ''  '' @ cm_warning env w)) warnings;
                    paths = for_config (cm_host env) p in
                if socket_advice paths \<noteq> [] then
                  (Inl (cli_failed (''the socket for '' @ proj_name (cfg_project config) @ '' cannot be created''
                     @ socket_advice paths)), printed)
                else (Inr (config, p, paths), printed))))"

text \<open>A command that goes on after \<open>setup\<close>.\<close>

definition with_setup :: "command_env \<Rightarrow> (cli_error \<Rightarrow> cli_error) \<Rightarrow> (config \<Rightarrow> path \<Rightarrow> daemon_paths \<Rightarrow> outcome) \<Rightarrow> outcome" where
  "with_setup env mark f =
     (case setup_project env of
        (Inl e, printed) \<Rightarrow> (Inl (mark e), printed)
      | (Inr (config, p, paths), printed) \<Rightarrow> (case f config p paths of (result, more_lines) \<Rightarrow> (result, printed @ more_lines)))"

definition green_check :: "command_env \<Rightarrow> string" where
  "green_check env = paint (cm_color_out env) green check_mark"

definition red_cross :: "command_env \<Rightarrow> string" where
  "red_cross env = paint (cm_color_err env) red cross_mark"

definition failed_exchange :: "client_error \<Rightarrow> outcome" where
  "failed_exchange err = fail_with (show_client_error err)"

section \<open>Commands for single services\<close>

definition expect_a_daemon :: "command_env \<Rightarrow> config \<Rightarrow> daemon_paths \<Rightarrow> exchange \<Rightarrow> cli_error + unit" where
  "expect_a_daemon env config paths x =
     (case check_running (cm_codec env) (dp_socket paths) x of
        Inr u \<Rightarrow> Inr u
      | Inl CL_NotRunning \<Rightarrow> Inl (no_daemon (proj_name (cfg_project config)) False)
      | Inl err \<Rightarrow> Inl (cli_failed (show_client_error err)))"

text \<open>The exchanges are numbered in the order of the connections.\<close>

fun control_names :: "command_env \<Rightarrow> path \<Rightarrow> (string \<Rightarrow> request) \<Rightarrow> (nat \<Rightarrow> exchange) \<Rightarrow> nat \<Rightarrow> bool \<Rightarrow> string list
    \<Rightarrow> outcome" where
  "control_names env socket build conn k failed [] = (Inr (if failed then 1 else 0), [])"
| "control_names env socket build conn k failed (name # names) =
     (case send (cm_codec env) socket (conn k) (build name) of
        Inr (Resp_Ok message _ _) \<Rightarrow>
          (case control_names env socket build conn (Suc k) failed names of
             (result, printed) \<Rightarrow>
               (result, PR_Out (green_check env @ '' ''
                  @ (case message of Some m \<Rightarrow> m | None \<Rightarrow> name @ '' done'')) # printed))
      | Inr (Resp_Error code message errors) \<Rightarrow>
          (case control_names env socket build conn (Suc k) True names of
             (result, printed) \<Rightarrow>
               (result, report_error (cm_error_json env) (cm_color_err env) (with_errors errors (cli_error_new code message))
                  @ printed))
      | Inr other \<Rightarrow> fail_with (unexpected (cm_codec env) other)
      | Inl err \<Rightarrow> failed_exchange err)"

definition control_services :: "command_env \<Rightarrow> (string \<Rightarrow> request) \<Rightarrow> (nat \<Rightarrow> exchange) \<Rightarrow> string list \<Rightarrow> outcome" where
  "control_services env build conn names =
     with_setup env (\<lambda>e. e) (\<lambda>config p paths.
       (case expect_a_daemon env config paths (conn 0) of
          Inl e \<Rightarrow> (Inl e, [])
        | Inr _ \<Rightarrow> control_names env (dp_socket paths) build conn 1 False names))"

definition stop_services :: "command_env \<Rightarrow> (nat \<Rightarrow> exchange) \<Rightarrow> string list \<Rightarrow> outcome" where
  "stop_services env = control_services env Req_StopService"

definition restart_services :: "command_env \<Rightarrow> (nat \<Rightarrow> exchange) \<Rightarrow> string list \<Rightarrow> outcome" where
  "restart_services env = control_services env Req_RestartService"

section \<open>Waiting for readiness\<close>

datatype wait_state = WR_Ready | WR_Waiting | WR_Gone string

definition service_readiness :: "service_info \<Rightarrow> wait_state" where
  "service_readiness si =
     (case si_state si of
        WS_Running \<Rightarrow>
          (case si_health si of
             WH_None \<Rightarrow> WR_Ready
           | WH_Healthy \<Rightarrow> WR_Ready
           | _ \<Rightarrow> WR_Waiting)
      | WS_Exited \<Rightarrow> if si_health si \<noteq> WH_Unhealthy then WR_Ready else WR_Gone ''exited unhealthy''
      | WS_Failed \<Rightarrow> WR_Gone (case si_message si of Some m \<Rightarrow> m | None \<Rightarrow> ''failed'')
      | WS_Stopped \<Rightarrow> WR_Gone ''stopped''
      | _ \<Rightarrow> WR_Waiting)"

definition watched_infos :: "string list \<Rightarrow> string set \<Rightarrow> service_info list \<Rightarrow> service_info list" where
  "watched_infos only skip services =
     filter (\<lambda>si. si_name si \<notin> skip) (filter (\<lambda>si. only = [] \<or> si_name si \<in> set only) services)"

definition still_waiting :: "service_info list \<Rightarrow> string list" where
  "still_waiting infos = map si_name (filter (\<lambda>si. service_readiness si = WR_Waiting) infos)"

definition gone_services :: "service_info list \<Rightarrow> (string \<times> string) list" where
  "gone_services infos =
     List.map_filter (\<lambda>si. case service_readiness si of WR_Gone why \<Rightarrow> Some (si_name si, why) | _ \<Rightarrow> None) infos"

definition wait_timeout :: duration where
  "wait_timeout = dur_secs 60"

text \<open>One turn of the loop: \<open>None\<close> to sleep and go on.\<close>

definition judge_snapshot :: "command_env \<Rightarrow> string list \<Rightarrow> string set \<Rightarrow> duration \<Rightarrow> service_info list \<Rightarrow> bool
    \<Rightarrow> outcome option" where
  "judge_snapshot env only skip timeout services late =
     (let infos = watched_infos only skip services;
          waiting = still_waiting infos;
          gone = gone_services infos in
      if gone \<noteq> [] then
        Some (Inr 1, map (\<lambda>(name, why). PR_Err (red_cross env @ '' '' @ name @ '': '' @ why)) gone)
      else if waiting = [] then
        Some (Inr 0, [PR_Out (green_check env @ '' '' @ show_nat (length infos) @ '' service(s) ready'')])
      else if late then
        Some (Inr 1,
          [PR_Err (red_cross env @ '' timed out after '' @ cm_format_duration env timeout @ '': still waiting for ''
             @ join '', '' waiting),
           PR_Err (paint (cm_color_err env) dim
             (''  the daemon is still running '' @ em_dash @ '' see `servicrab status` and `servicrab logs`''))])
      else None)"

definition wait_turn :: "command_env \<Rightarrow> path \<Rightarrow> string list \<Rightarrow> string set \<Rightarrow> duration \<Rightarrow> exchange \<Rightarrow> bool
    \<Rightarrow> outcome option" where
  "wait_turn env socket only skip timeout x late =
     (case send (cm_codec env) socket x Req_Status of
        Inr (Resp_Status services) \<Rightarrow> judge_snapshot env only skip timeout services late
      | Inr (Resp_Error code message _) \<Rightarrow> Some (Inl (cli_error_new code message), [])
      | Inr other \<Rightarrow> Some (fail_with (unexpected (cm_codec env) other))
      | Inl CL_NotRunning \<Rightarrow>
          Some (Inl (with_exit exit_no_daemon
            (cli_error_new EC_NotRunning ''the daemon stopped while waiting for the stack'')), [])
      | Inl err \<Rightarrow> Some (failed_exchange err))"

fun wait_rounds :: "command_env \<Rightarrow> path \<Rightarrow> string list \<Rightarrow> string set \<Rightarrow> duration \<Rightarrow> instant \<Rightarrow> (exchange \<times> instant) list
    \<Rightarrow> outcome option" where
  "wait_rounds env socket only skip timeout deadline [] = None"
| "wait_rounds env socket only skip timeout deadline ((x, now) # rounds) =
     (case wait_turn env socket only skip timeout x (deadline \<le> now) of
        Some result \<Rightarrow> Some result
      | None \<Rightarrow> wait_rounds env socket only skip timeout deadline rounds)"

definition wait_for_ready :: "command_env \<Rightarrow> path \<Rightarrow> string list \<Rightarrow> string set \<Rightarrow> duration option \<Rightarrow> instant
    \<Rightarrow> (exchange \<times> instant) list \<Rightarrow> outcome option" where
  "wait_for_ready env socket only skip timeout started rounds =
     (let timeout = (case timeout of Some t \<Rightarrow> t | None \<Rightarrow> wait_timeout) in
      wait_rounds env socket only skip timeout (started + timeout) rounds)"

section \<open>Starting the daemon\<close>

record start_options =
  sta_no_restart :: bool
  sta_wait :: bool
  sta_timeout :: "duration option"

text \<open>\<open>Child::try_wait\<close>: the exit code is \<open>None\<close> after a signal.\<close>

datatype child_answer = CA_Exited "int option" | CA_Running | CA_Broken string

record start_round =
  sta_child :: child_answer
  sta_pidfile :: "string option"
  sta_exchange :: exchange
  sta_now :: instant

definition parse_u32 :: "string \<Rightarrow> u32 option" where
  "parse_u32 s =
     (let ds = (case s of c # r \<Rightarrow> if c = CHR ''+'' then r else s | [] \<Rightarrow> s) in
      if ds \<noteq> [] \<and> list_all is_ascii_digit ds \<and> digits_value ds < 2 ^ 32
      then Some (of_nat (digits_value ds)) else None)"

definition daemon_is_ours :: "u32 \<Rightarrow> string option \<Rightarrow> bool" where
  "daemon_is_ours child_pid pidfile =
     (case pidfile of None \<Rightarrow> False | Some t \<Rightarrow> parse_u32 (trim t) = Some child_pid)"

definition start_timeout :: duration where
  "start_timeout = dur_secs 15"

text \<open>The flag says whether the child was killed and reaped.\<close>

fun wait_for_the_daemon :: "client_codec \<Rightarrow> daemon_paths \<Rightarrow> u32 \<Rightarrow> instant \<Rightarrow> start_round list
    \<Rightarrow> ((cli_error + unit) \<times> bool) option" where
  "wait_for_the_daemon cc paths child_pid deadline [] = None"
| "wait_for_the_daemon cc paths child_pid deadline (r # rounds) =
     (case sta_child r of
        CA_Exited code \<Rightarrow>
          if code \<noteq> Some 0 then
            Some (Inl (cli_failed (''the daemon we started exited with ''
              @ (case code of Some c \<Rightarrow> show_int c | None \<Rightarrow> ''a signal'') @ '' '' @ em_dash @ '' see '' @ dp_log paths)), False)
          else Some (Inr (), False)
      | CA_Broken err \<Rightarrow> Some (Inl (cli_failed (''could not watch the daemon: '' @ err)), False)
      | CA_Running \<Rightarrow>
          if daemon_is_ours child_pid (sta_pidfile r) \<and> is_running cc (dp_socket paths) (sta_exchange r)
          then Some (Inr (), False)
          else if deadline \<le> sta_now r then
            Some (Inl (cli_failed (''the daemon did not come up within '' @ show_nat (start_timeout div nanos_per_sec)
              @ ''s '' @ em_dash @ '' see '' @ dp_log paths)), True)
          else wait_for_the_daemon cc paths child_pid deadline rounds)"

record start_env =
  stv_conn :: "nat \<Rightarrow> exchange"
  stv_dir :: "string option"
  stv_log :: "string option"
  stv_clone :: "string option"
  stv_exe :: "string + path"
  stv_spawn :: "string + u32"
  stv_started :: instant
  stv_rounds :: "start_round list"
  stv_stopped :: stopped_file
  stv_wait_started :: instant
  stv_wait_rounds :: "(exchange \<times> instant) list"

definition daemon_command :: "path \<Rightarrow> path \<Rightarrow> selection \<Rightarrow> start_options \<Rightarrow> string list" where
  "daemon_command exe config_path sel options =
     [exe, ''daemon'', ''--config'', config_path]
     @ (if sta_no_restart options then [''--no-restart''] else [])
     @ concat (map (\<lambda>profile. [''--profile'', profile]) (sel_profiles sel))"

text \<open>The part after the daemon has come up: the lines, and the wait if it was asked for.\<close>

definition report_started :: "command_env \<Rightarrow> start_env \<Rightarrow> config \<Rightarrow> daemon_paths \<Rightarrow> selection \<Rightarrow> start_options
    \<Rightarrow> outcome option" where
  "report_started env s config paths sel options =
     (let printed =
        [PR_Out (green_check env @ '' daemon started for ''
           @ paint (cm_color_out env) bold (proj_name (cfg_project config))
           @ '' ('' @ show_nat (length (cfg_services config)) @ '' service(s))''),
         PR_Out (paint (cm_color_out env) dim
           (''  logs: '' @ dp_log paths @ ''  '' @ [CHR 0xC2, CHR 0xB7] @ ''  socket: '' @ dp_socket paths))] in
      if sta_wait options then
        (let held = (case plan_stack config sel of
                       Inr plan \<Rightarrow> held_back config plan (read_stopped (stv_stopped s))
                     | Inl _ \<Rightarrow> {}) in
         map_option (\<lambda>(result, ps). (result, printed @ ps))
           (wait_for_ready env (dp_socket paths) [] held (sta_timeout options) (stv_wait_started s) (stv_wait_rounds s)))
      else Some (Inr 0, printed))"

definition ensure_and_spawn :: "start_env \<Rightarrow> daemon_paths \<Rightarrow> cli_error + path \<times> u32" where
  "ensure_and_spawn s paths =
     (case stv_dir s of Some e \<Rightarrow> Inl (cli_failed e) | None \<Rightarrow>
      (case stv_log s of Some e \<Rightarrow> Inl (cli_failed (''could not open '' @ dp_log paths @ '': '' @ e)) | None \<Rightarrow>
       (case stv_clone s of Some e \<Rightarrow> Inl (cli_failed (''could not open '' @ dp_log paths @ '': '' @ e)) | None \<Rightarrow>
        (case stv_exe s of Inl e \<Rightarrow> Inl (cli_failed (''could not find the servicrab executable: '' @ e)) | Inr exe \<Rightarrow>
         (case stv_spawn s of Inl e \<Rightarrow> Inl (cli_failed (''could not start the daemon: '' @ e)) | Inr pid \<Rightarrow> Inr (exe, pid))))))"

text \<open>The start of a whole stack; the second component is the command line of the daemon that was
  spawned, if one was.\<close>

definition start_daemon :: "command_env \<Rightarrow> start_env \<Rightarrow> config \<Rightarrow> path \<Rightarrow> daemon_paths \<Rightarrow> selection \<Rightarrow> start_options
    \<Rightarrow> (outcome \<times> string list option) option" where
  "start_daemon env s config config_path paths sel options =
     (case check_running (cm_codec env) (dp_socket paths) (stv_conn s 0) of
        Inr _ \<Rightarrow>
          Some ((Inl (cli_error_new EC_AlreadyRunning
            (''a daemon is already running for '' @ proj_name (cfg_project config) @ '' '' @ em_dash
             @ '' use `servicrab status` or `servicrab down`'')), []), None)
      | Inl (CL_Failed why) \<Rightarrow> Some (fail_with why, None)
      | Inl CL_NotRunning \<Rightarrow>
          (case ensure_and_spawn s paths of
             Inl e \<Rightarrow> Some ((Inl e, []), None)
           | Inr (exe, pid) \<Rightarrow>
               (case wait_for_the_daemon (cm_codec env) paths pid (stv_started s + start_timeout) (stv_rounds s) of
                  None \<Rightarrow> None
                | Some (Inl e, _) \<Rightarrow> Some ((Inl e, []), Some (daemon_command exe config_path sel options))
                | Some (Inr _, _) \<Rightarrow>
                    map_option (\<lambda>result. (result, Some (daemon_command exe config_path sel options)))
                      (report_started env s config paths sel options))))"

definition start_stack :: "command_env \<Rightarrow> start_env \<Rightarrow> selection \<Rightarrow> start_options
    \<Rightarrow> (outcome \<times> string list option) option" where
  "start_stack env s sel options =
     (if sel_services sel \<noteq> [] then
        (case control_services env Req_StartService (stv_conn s) (sel_services sel) of
           (Inr code, printed) \<Rightarrow>
             if code \<noteq> 0 \<or> \<not> sta_wait options then Some ((Inr code, printed), None)
             else
               (case setup_project env of
                  (Inl e, ps) \<Rightarrow> Some ((Inl e, printed @ ps), None)
                | (Inr (_, _, paths), ps) \<Rightarrow>
                    map_option (\<lambda>(result, qs). ((result, printed @ ps @ qs), None))
                      (wait_for_ready env (dp_socket paths) (sel_services sel) {} (sta_timeout options)
                        (stv_wait_started s) (stv_wait_rounds s)))
         | (Inl e, printed) \<Rightarrow> Some ((Inl e, printed), None))
      else
        (case setup_project env of
           (Inl e, printed) \<Rightarrow> Some ((Inl e, printed), None)
         | (Inr (config, p, paths), printed) \<Rightarrow>
             map_option (\<lambda>((result, ps), spawned). ((result, printed @ ps), spawned))
               (start_daemon env s config p paths sel options)))"

section \<open>Reload and down\<close>

definition reload_command :: "command_env \<Rightarrow> (nat \<Rightarrow> exchange) \<Rightarrow> outcome" where
  "reload_command env conn =
     with_setup env (\<lambda>e. e) (\<lambda>config config_path paths.
       (case expect_a_daemon env config paths (conn 0) of
          Inl e \<Rightarrow> (Inl e, [])
        | Inr _ \<Rightarrow>
            (case send (cm_codec env) (dp_socket paths) (conn 1) Req_Reload of
               Inr (Resp_Ok message _ _) \<Rightarrow>
                 (Inr 0, [PR_Out (green_check env @ '' '' @ (case message of Some m \<Rightarrow> m | None \<Rightarrow> ''reloaded'')),
                          PR_Out (paint (cm_color_out env) dim (''  from '' @ config_path))])
             | Inr (Resp_Error code message errors) \<Rightarrow> (Inl (with_errors errors (cli_error_new code message)), [])
             | Inr other \<Rightarrow> fail_with (unexpected (cm_codec env) other)
             | Inl err \<Rightarrow> failed_exchange err)))"

definition stop_wait :: duration where
  "stop_wait = dur_secs 30"

definition down_command :: "command_env \<Rightarrow> exchange \<Rightarrow> instant \<Rightarrow> (instant \<times> exchange) list \<Rightarrow> outcome option" where
  "down_command env x started rounds =
     (case setup_project env of
        (Inl e, printed) \<Rightarrow> Some (Inl e, printed)
      | (Inr (config, p, paths), printed) \<Rightarrow>
          (case send (cm_codec env) (dp_socket paths) x Req_Shutdown of
             Inr (Resp_Ok _ _ _) \<Rightarrow>
               (case wait_until_stopped (cm_codec env) (dp_socket paths) (started + stop_wait) rounds of
                  None \<Rightarrow> None
                | Some False \<Rightarrow>
                    Some (Inl (cli_failed (''the daemon did not stop within '' @ show_nat (stop_wait div nanos_per_sec)
                      @ ''s '' @ em_dash @ '' see '' @ dp_log paths)), printed)
                | Some True \<Rightarrow>
                    Some (Inr 0, printed @ [PR_Out (green_check env @ '' stopped ''
                      @ paint (cm_color_out env) bold (proj_name (cfg_project config)))]))
           | Inr (Resp_Error code message errors) \<Rightarrow>
               Some (Inl (with_errors errors (cli_error_new code message)), printed)
           | Inr other \<Rightarrow> Some (Inl (cli_failed (unexpected (cm_codec env) other)), printed)
           | Inl CL_NotRunning \<Rightarrow>
               Some (Inr exit_no_daemon, printed @ [PR_Err (''no daemon is running for '' @ proj_name (cfg_project config))])
           | Inl err \<Rightarrow> Some (Inl (cli_failed (show_client_error err)), printed)))"

section \<open>Status\<close>

definition format_uptime :: "nat \<Rightarrow> string" where
  "format_uptime secs =
     (if secs < 60 then show_nat secs @ ''s''
      else if secs < 3600 then show_nat (secs div 60) @ ''m'' @ two_digits (secs mod 60) @ ''s''
      else show_nat (secs div 3600) @ ''h'' @ two_digits (secs mod 3600 div 60) @ ''m'')"

fun state_tint :: "wire_state \<Rightarrow> string" where
  "state_tint WS_Running = green"
| "state_tint WS_Failed = red"
| "state_tint WS_Backoff = yellow"
| "state_tint WS_Stopping = yellow"
| "state_tint _ = reset_code"

definition table_width :: "service_info list \<Rightarrow> nat" where
  "table_width services = fold (\<lambda>si m. max m (length (si_name si))) services 7"

definition table_row :: "bool \<Rightarrow> nat \<Rightarrow> service_info \<Rightarrow> string" where
  "table_row color width si =
     pad_right width (si_name si) @ ''  ''
     @ pad_right 9 (paint color (state_tint (si_state si)) (show_wire_state (si_state si))) @ ''  ''
     @ pad_left 7 (case (case si_pgid si of Some g \<Rightarrow> Some g | None \<Rightarrow> si_pid si) of Some g \<Rightarrow> show_int g | None \<Rightarrow> ''-'') @ ''  ''
     @ pad_left 8 (case si_uptime_secs si of Some s \<Rightarrow> format_uptime s | None \<Rightarrow> ''-'') @ ''  ''
     @ pad_left 8 (show_nat (unat (si_restarts si))) @ ''  ''
     @ show_wire_health (si_health si)"

definition status_table :: "bool \<Rightarrow> service_info list \<Rightarrow> printed list" where
  "status_table color services =
     (let width = table_width services in
      PR_Out (paint color bold (pad_right width ''SERVICE'' @ ''  '' @ pad_right 9 ''STATE'' @ ''  '' @ pad_left 7 ''PID''
        @ ''  '' @ pad_left 8 ''UPTIME'' @ ''  '' @ pad_left 8 ''RESTARTS'' @ ''  HEALTH''))
      # map (\<lambda>si. PR_Out (table_row color width si)) services
      @ List.map_filter (\<lambda>si. map_option (\<lambda>m. PR_Out (paint color dim (''  '' @ si_name si @ '': '' @ m))) (si_message si))
          services)"

definition print_status_json :: "command_env \<Rightarrow> bool \<Rightarrow> service_info list \<Rightarrow> int \<Rightarrow> outcome" where
  "print_status_json env running services code =
     (case cm_status_json env running services of
        Inl e \<Rightarrow> fail_with (''could not render JSON: '' @ e)
      | Inr line \<Rightarrow> (Inr code, [PR_Out line]))"

definition status_command :: "command_env \<Rightarrow> exchange \<Rightarrow> bool \<Rightarrow> outcome" where
  "status_command env x json =
     with_setup env (in_json json) (\<lambda>config p paths.
       (case send (cm_codec env) (dp_socket paths) x Req_Status of
          Inl CL_NotRunning \<Rightarrow>
            if json then print_status_json env False [] exit_no_daemon
            else
              (let e = no_daemon (proj_name (cfg_project config)) False in
               (Inl (if \<not> socket_is_in_place paths
                     then with_hint (''its socket would be '' @ dp_socket paths
                       @ '' (the project's path is too long to hold one)'') e
                     else e), []))
        | Inl err \<Rightarrow> (Inl (in_json json (cli_failed (show_client_error err))), [])
        | Inr (Resp_Status services) \<Rightarrow>
            if json then print_status_json env True services 0
            else (Inr 0, status_table (cm_color_out env) services)
        | Inr (Resp_Error code message errors) \<Rightarrow> (Inl (in_json json (with_errors errors (cli_error_new code message))), [])
        | Inr other \<Rightarrow> (Inl (in_json json (cli_failed (unexpected (cm_codec env) other))), [])))"

end
