(* ===== verification/Commands_Facts.thy ===== *)
theory Commands_Facts
  imports Commands Server_Facts
begin

text \<open>
  What the commands of \<open>Commands\<close> can be relied on for, and where they are wrong: the verdict of
  \<open>--wait\<close> beside that of the supervisor, the daemon that \<open>start\<close> reports, the names a command
  reaches, and the table of \<open>status\<close>.
\<close>

section \<open>The verdict of a wait\<close>

fun verdict_of_wait :: "wait_state \<Rightarrow> readiness" where
  "verdict_of_wait WR_Ready = RD_Ready"
| "verdict_of_wait WR_Waiting = RD_Pending"
| "verdict_of_wait (WR_Gone _) = RD_Gone"

text \<open>The events of a service as its runner sends them: probes only where there is a health check, and
  a process that was stopped for being unhealthy has been announced so.\<close>

fun sound_health :: "bool \<Rightarrow> bool \<Rightarrow> event_kind list \<Rightarrow> bool" where
  "sound_health h unwell [] = True"
| "sound_health h unwell (EK_Healthy # ks) = (h \<and> sound_health h False ks)"
| "sound_health h unwell (EK_Unhealthy _ # ks) = (h \<and> sound_health h True ks)"
| "sound_health h unwell (EK_Exited reason _ # ks) =
     ((reason = ER_Unhealthy \<longrightarrow> unwell) \<and> sound_health h unwell ks)"
| "sound_health h unwell (EK_State s # ks) = sound_health h (unwell \<and> s \<noteq> Starting) ks"
| "sound_health h unwell (_ # ks) = sound_health h unwell ks"

definition told :: "bool \<Rightarrow> entry \<Rightarrow> dependency_status \<Rightarrow> bool" where
  "told h en t \<longleftrightarrow>
     en_state en = ds_state t \<and> \<not> ds_gone t
     \<and> (if h then en_health en \<noteq> HealthNone \<and> (en_health en = HealthHealthy \<longleftrightarrow> ds_healthy t)
             \<and> (en_health en = HealthUnhealthy \<longleftrightarrow> ds_unhealthy t)
        else en_health en = HealthNone \<and> \<not> ds_healthy t \<and> \<not> ds_unhealthy t)"

lemma told_step:
  assumes "told h en t" and "sound_health h (ds_unhealthy t) (k # ks)"
  shows "told h (apply_kind at k en) (tracker_fold k t)
    \<and> sound_health h (ds_unhealthy (tracker_fold k t)) ks"
  using assms by (cases k) (auto simp: told_def tracker_fold_def Let_def split: if_splits)

lemma told_fold:
  "told h en t \<Longrightarrow> sound_health h (ds_unhealthy t) (map snd timed) \<Longrightarrow>
     told h (fold (\<lambda>(at, k). apply_kind at k) timed en) (fold tracker_fold (map snd timed) t)"
proof (induction timed arbitrary: en t)
  case (Cons e timed)
  obtain at k where e: "e = (at, k)" by (cases e)
  have "told h (apply_kind at k en) (tracker_fold k t) \<and> sound_health h (ds_unhealthy (tracker_fold k t)) (map snd timed)"
    using Cons.prems by (intro told_step) (simp_all add: e)
  with Cons.IH show ?case by (simp add: e)
qed simp

lemma told_starting:
  "(en_health en \<noteq> HealthNone) = h \<Longrightarrow>
     told h (apply_kind at (EK_State Starting) en) (tracker_fold (EK_State Starting) status_new)"
  by (auto simp: told_def tracker_fold_def status_new_def Let_def)

lemma shared_fold: "rl_shared (relay_run kinds) = fold tracker_fold kinds status_new"
proof -
  have "rl_tracker (relay_run kinds) = fold tracker_fold kinds status_new"
    by (induction kinds rule: rev_induct)
      (simp_all add: relay_run_def relay_new_def relay_event_def tracker_observe_def Let_def)
  then show ?thesis using tracker_facts [of kinds] by simp
qed

lemma told_verdict:
  assumes "told h en t" and "h \<longleftrightarrow> svc_health target \<noteq> None" and "dep_condition d = None"
  shows "verdict_of_wait (service_readiness (to_wire_status (status_of now name en))) = readiness_of t (condition_for d target)"
  using assms
  by (cases "ds_state t"; cases "en_health en"; cases h)
    (auto simp: told_def service_readiness_def to_wire_status_def status_of_def readiness_of_def condition_for_def)

text \<open>C30: From the first event of a run on, \<open>--wait\<close> and the supervisor agree: whatever the entry of a
  service said before, the verdict of the client on the status line is the one a dependent without a
  condition of its own gets from the service's events.\<close>

theorem wait_agrees_with_gating:
  assumes "svc_health target \<noteq> None \<longleftrightarrow> en_health en \<noteq> HealthNone"
    and "sound_health (svc_health target \<noteq> None) False (map snd timed)"
    and "dep_condition d = None"
  shows "verdict_of_wait (service_readiness (to_wire_status (status_of now (svc_name target)
       (fold (\<lambda>(at, k). apply_kind at k) ((at, EK_State Starting) # timed) en))))
     = readiness_of (rl_shared (relay_run (EK_State Starting # map snd timed))) (condition_for d target)"
proof -
  let ?h = "svc_health target \<noteq> None" and ?t = "tracker_fold (EK_State Starting) status_new"
  have "told ?h (fold (\<lambda>(at, k). apply_kind at k) timed (apply_kind at (EK_State Starting) en))
      (fold tracker_fold (map snd timed) ?t)"
    using assms(1,2) by (intro told_fold told_starting) (auto simp: tracker_fold_def status_new_def)
  from told_verdict [OF this refl assms(3)] show ?thesis by (simp add: shared_fold)
qed

section \<open>Before the first event\<close>

lemma snapshot_has:
  assumes "bt_get (sr_services r) name = Some en" and "name \<in> set (sr_order r)"
  shows "to_wire_status (status_of now name en) \<in> set (map to_wire_status (registry_snapshot now r))"
  using assms by (force simp: registry_snapshot_def List.map_filter_def)

lemma find_named: "name \<in> set names \<Longrightarrow> find (\<lambda>known. known = name) names = Some name"
  by (induction names) auto

lemma gone_is_told:
  assumes "si \<in> set services" and "si_name si \<notin> skip" and "only = [] \<or> si_name si \<in> set only"
    and "service_readiness si = WR_Gone why"
  shows "\<exists>printed. judge_snapshot env only skip timeout services late = Some (Inr 1, printed)
     \<and> PR_Err (red_cross env @ '' '' @ si_name si @ '': '' @ why) \<in> set printed"
proof -
  have "(si_name si, why) \<in> set (gone_services (watched_infos only skip services))"
    using assms by (force simp: gone_services_def watched_infos_def List.map_filter_def)
  then show ?thesis by (force simp: judge_snapshot_def Let_def)
qed

text \<open>C31: Before the first event of a run, \<open>--wait\<close> answers for the run before: when a stopped service has
  been started, the daemon has confirmed it, and the supervisor waits for its dependencies, the
  status still says \<open>stopped\<close>, so \<open>start NAME --wait\<close> gives up at once with exit code 1.\<close>

theorem started_service_reads_as_stopped:
  assumes "session_wf s" and "name \<in> set (ses_names s)"
    and "bt_get (sr_services (ses_registry s)) name = Some en" and "en_state en = Stopped"
    and "re_reply e = RP_Answer (Inr CO_Started)"
    and "respond c e (Req_StartService name) tag s = (confirmation, s')"
    and "send (cm_codec env) socket x Req_Status = Inr (fst (respond c e' Req_Status tag' s'))"
  shows "confirmation = response_message (name @ '' started'')
     \<and> readiness_of (rl_shared relay_new) condition = RD_Pending
     \<and> (\<exists>printed. wait_turn env socket [name] {} timeout x late = Some (Inr 1, printed)
          \<and> PR_Err (red_cross env @ '' '' @ name @ '': stopped'') \<in> set printed)"
proof -
  have found: "find (\<lambda>known. known = name) (ses_names s) = Some name"
    using assms(2) by (rule find_named)
  have confirmed: "confirmation = response_message (name @ '' started'')"
    using assms(5,6) by (auto simp: service_request_def command_def found)
  have registry: "ses_registry s' = ses_registry s"
    using service_request_keeps(1) [of c e name C_Start False s] assms(6) by simp
  let ?si = "to_wire_status (status_of (re_now e') name en)"
  have si: "si_name ?si = name" "service_readiness ?si = WR_Gone ''stopped''"
    using assms(4) by (simp_all add: to_wire_status_def status_of_def service_readiness_def)
  have "?si \<in> set (map to_wire_status (registry_snapshot (re_now e') (ses_registry s)))"
    using assms(1,2) by (intro snapshot_has [OF assms(3)]) (simp add: session_wf_def)
  from gone_is_told [OF this _ _ si(2), of "{}" "[name]" env timeout late]
  show ?thesis
    using assms(7) confirmed
    by (simp add: si wait_turn_def registry readiness_of_def relay_new_def status_new_def)
qed

section \<open>Starting\<close>

text \<open>C33: A start reports success only for its own daemon: either the child has exited with success, or it
  is alive, the pidfile has its pid and a daemon answers; a child that dies first is reported at
  once, and one that is not up in time is killed.\<close>

theorem start_reports_its_own_daemon:
  assumes "wait_for_the_daemon cc paths pid deadline rounds = Some (result, killed)"
  shows "\<exists>before r after. rounds = before @ r # after
     \<and> (\<forall>q\<in>set before. sta_child q = CA_Running \<and> sta_now q < deadline)
     \<and> (result = Inr () \<longleftrightarrow>
          sta_child r = CA_Exited (Some 0)
          \<or> sta_child r = CA_Running \<and> daemon_is_ours pid (sta_pidfile r) \<and> is_running cc (dp_socket paths) (sta_exchange r))
     \<and> (killed \<longleftrightarrow> sta_child r = CA_Running \<and> result \<noteq> Inr () \<and> deadline \<le> sta_now r)"
  using assms
proof (induction rounds)
  case (Cons r rounds)
  show ?case
  proof (cases "sta_child r = CA_Running \<and> sta_now r < deadline
      \<and> \<not> (daemon_is_ours pid (sta_pidfile r) \<and> is_running cc (dp_socket paths) (sta_exchange r))")
    case True
    with Cons.prems have "wait_for_the_daemon cc paths pid deadline rounds = Some (result, killed)" by auto
    from Cons.IH [OF this] obtain before q after where q: "rounds = before @ q # after"
      "\<forall>p\<in>set before. sta_child p = CA_Running \<and> sta_now p < deadline"
      "result = Inr () \<longleftrightarrow> sta_child q = CA_Exited (Some 0)
          \<or> sta_child q = CA_Running \<and> daemon_is_ours pid (sta_pidfile q) \<and> is_running cc (dp_socket paths) (sta_exchange q)"
      "killed \<longleftrightarrow> sta_child q = CA_Running \<and> result \<noteq> Inr () \<and> deadline \<le> sta_now q" by blast
    with True show ?thesis by (intro exI [of _ "r # before"] exI [of _ q] exI [of _ after]) simp
  next
    case False
    with Cons.prems show ?thesis
      by (intro exI [of _ "[]"] exI [of _ r] exI [of _ rounds])
        (auto simp: not_less split: child_answer.splits if_splits)
  qed
qed simp

lemma start_is_answered:
  "r \<in> set rounds \<Longrightarrow> deadline \<le> sta_now r \<Longrightarrow> wait_for_the_daemon cc paths pid deadline rounds \<noteq> None"
  by (induction rounds) (auto split: child_answer.split)

section \<open>Commands for several services\<close>

text \<open>The answers to the requests, each in an exchange of its own.\<close>

fun replies :: "command_env \<Rightarrow> path \<Rightarrow> (string \<Rightarrow> request) \<Rightarrow> (nat \<Rightarrow> exchange) \<Rightarrow> nat \<Rightarrow> string list
    \<Rightarrow> (string \<times> (client_error + response)) list" where
  "replies env socket build conn k [] = []"
| "replies env socket build conn k (name # names) =
     (name, send (cm_codec env) socket (conn k) (build name)) # replies env socket build conn (Suc k) names"

fun was_answered :: "string \<times> (client_error + response) \<Rightarrow> bool" where
  "was_answered (name, Inr (Resp_Ok _ _ _)) = True"
| "was_answered (name, Inr (Resp_Error _ _ _)) = True"
| "was_answered _ = False"

fun ok_line :: "command_env \<Rightarrow> string \<times> (client_error + response) \<Rightarrow> string option" where
  "ok_line env (name, Inr (Resp_Ok message _ _)) =
     Some (green_check env @ '' '' @ (case message of Some m \<Rightarrow> m | None \<Rightarrow> name @ '' done''))"
| "ok_line env _ = None"

lemma out_lines_simps [simp]:
  "out_lines [] = []" "out_lines (PR_Out l # ps) = l # out_lines ps" "out_lines (PR_Err l # ps) = out_lines ps"
  "out_lines (ps @ qs) = out_lines ps @ out_lines qs"
  by (simp_all add: out_lines_def map_filter_simps List.map_filter_def)

text \<open>A command for several services goes on after a refusal: when the daemon answers each of them,
  every name is asked for in its own exchange, the lines on standard output are those of the names
  that succeeded, in order, and the exit code is 0 only if all have.\<close>

theorem control_reaches_every_name:
  assumes "list_all was_answered (replies env socket build conn k names)"
  shows "fst (control_names env socket build conn k failed names) =
      Inr (if failed \<or> list_ex (\<lambda>r. ok_line env r = None) (replies env socket build conn k names) then 1 else 0)
    \<and> out_lines (snd (control_names env socket build conn k failed names)) =
      List.map_filter (ok_line env) (replies env socket build conn k names)"
  using assms
proof (induction names arbitrary: k failed)
  case (Cons name names)
  have tail: "list_all was_answered (replies env socket build conn (Suc k) names)" using Cons.prems by simp
  consider (ok) m ch v where "send (cm_codec env) socket (conn k) (build name) = Inr (Resp_Ok m ch v)"
    | (refused) code msg errs where "send (cm_codec env) socket (conn k) (build name) = Inr (Resp_Error code msg errs)"
    using Cons.prems by (auto elim!: was_answered.elims)
  then show ?case
  proof cases
    case ok
    show ?thesis using Cons.IH [OF tail, of failed] by (cases "control_names env socket build conn (Suc k) failed names") (simp add: ok map_filter_simps)
  next
    case refused
    show ?thesis using Cons.IH [OF tail, of True]
      by (cases "control_names env socket build conn (Suc k) True names")
        (simp add: refused map_filter_simps report_is_on_stderr)
  qed
qed (simp add: map_filter_simps)

section \<open>The table\<close>

text \<open>The escapes of a colour count as characters, so a painted state is never padded: with colour
  the columns after it do not line up.\<close>

lemma painted_state_is_not_padded:
  "pad_right 9 (paint True (state_tint s) (show_wire_state s)) = paint True (state_tint s) (show_wire_state s)"
  by (cases s; simp only:; code_simp)

lemma plain_state_is_padded:
  "length (pad_right 9 (paint False (state_tint s) (show_wire_state s))) = 9"
  by (cases s; simp only:; code_simp)

section \<open>Down\<close>

text \<open>\<open>down\<close> takes the first ping without a pong for the end of the daemon, so a daemon that is still
  there and refuses a connection, as it does with more than 64 clients, is reported as stopped.\<close>

lemma refused_ping_reads_as_stopped:
  assumes "setup_project env = (Inr (config, p, paths), printed)"
    and "send (cm_codec env) (dp_socket paths) x Req_Shutdown = Inr (Resp_Ok message changes version)"
    and "send (cm_codec env) (dp_socket paths) y request_ping = Inr (Resp_Error code why errors)"
    and "now < started + stop_wait"
  shows "\<exists>lines. down_command env x started ((now, y) # rounds) = Some (Inr 0, lines)"
  using assms by (simp add: down_command_def is_running_def)

section \<open>Witnesses\<close>

text \<open>A one-shot that was unhealthy before and runs again with a health check.\<close>

definition example_target :: service where
  "example_target = (plain_service ''db'' [])\<lparr> svc_health := Some
     \<lparr> hc_probe = HP_Command ''true'' [], hc_interval = 1, hc_timeout = 1, hc_retries = 3, hc_start_period = 0,
       hc_on_unhealthy = UA_Restart \<rparr> \<rparr>"

definition stale_entry :: entry where
  "stale_entry =
     \<lparr> en_state = Exited, en_pid = None, en_started_at = None, en_restarts = 0, en_health = HealthUnhealthy,
       en_message = None \<rparr>"

theorem wait_agrees_with_gating_witness:
  "readiness_of (rl_shared (relay_run [EK_State Starting, EK_State Running, EK_Healthy]))
     (condition_for \<lparr> dep_service = ''db'', dep_condition = None \<rparr> example_target) = RD_Ready"
proof -
  let ?timed = "[(5, EK_State Running), (6, EK_Healthy)] :: (instant \<times> event_kind) list"
  have h: "svc_health example_target \<noteq> None" and n: "en_health stale_entry \<noteq> HealthNone"
    by (simp_all add: example_target_def stale_entry_def)
  have "verdict_of_wait (service_readiness (to_wire_status (status_of 9 (svc_name example_target)
       (fold (\<lambda>(at, k). apply_kind at k) ((4, EK_State Starting) # ?timed) stale_entry)))) = RD_Ready"
    by (simp add: stale_entry_def to_wire_status_def status_of_def service_readiness_def)
  then show ?thesis
    using wait_agrees_with_gating [of example_target stale_entry ?timed "\<lparr> dep_service = ''db'', dep_condition = None \<rparr>" 9 4] h n
    by simp
qed

definition example_commands :: "response \<Rightarrow> command_env" where
  "example_commands answer =
     \<lparr> cm_resolve = Inr ''/p/servicrab.toml'', cm_load = (\<lambda>_. Inr (example_stack, [])), cm_config_error = (\<lambda>_. ''invalid''),
       cm_warning = (\<lambda>_. ''warning''), cm_host = example_host,
       cm_codec = \<lparr> cc_encode = (\<lambda>_. Inr ''line''), cc_decode = (\<lambda>t. if t = ''no'' then Inr (Resp_Error EC_Busy ''busy'' []) else Inr answer), cc_debug = (\<lambda>_. ''?'') \<rparr>,
       cm_error_json = (\<lambda>_ _ _. None), cm_status_json = (\<lambda>_ _. Inr ''{}''), cm_format_duration = (\<lambda>_. ''1m''),
       cm_color_out = False, cm_color_err = False \<rparr>"

definition example_exchange :: "string \<Rightarrow> exchange" where
  "example_exchange reply_text =
     \<lparr> xc_refused = None, xc_talk = (\<lambda>_. \<lparr> tk_sent = None, tk_reply = reply_text, tk_read = None, tk_rest = [] \<rparr>) \<rparr>"

lemma example_trim:
  "trim ''no'' = ''no''" "trim ''yes'' = ''yes''" "trim ''7'' = ''7''"
  by (rule trim_all_graphic; simp add: graphic_def)+

lemma example_send:
  "send (cm_codec (example_commands answer)) socket (example_exchange ''yes'') request = Inr answer"
  "send (cm_codec (example_commands answer)) socket (example_exchange ''no'') request = Inr (Resp_Error EC_Busy ''busy'' [])"
  by (simp_all add: send_def first_line_def connect_daemon_def example_exchange_def example_commands_def example_trim Let_def)

definition stopped_session :: session where
  "stopped_session = example_session\<lparr> ses_registry :=
     registry_run [(3, service_event_new ''tool'' (EK_State Stopped))] (registry_new [(''db'', False), (''tool'', False)]) \<rparr>"

theorem started_service_reads_as_stopped_witness:
  "\<exists>confirmation s' printed.
     respond example_codec (example_env (RP_Answer (Inr CO_Started))) (Req_StartService ''tool'') None stopped_session
       = (confirmation, s')
     \<and> confirmation = response_message ''tool started''
     \<and> wait_turn (example_commands (fst (respond example_codec (example_env RP_Gone) Req_Status None s')))
         ''/s'' [''tool''] {} wait_timeout (example_exchange ''yes'') False = Some (Inr 1, printed)"
proof -
  have wf: "session_wf stopped_session"
    by (simp add: session_wf_def stopped_session_def example_session_def registry_run_def registry_apply_wf
        registry_new_wf registry_apply_spec registry_new_order)
  have named: "''tool'' \<in> set (ses_names stopped_session)" by (simp add: stopped_session_def example_session_def)
  have "map_option en_state (bt_get (sr_services (ses_registry stopped_session)) ''tool'') = Some Stopped" by code_simp
  then obtain en where en: "bt_get (sr_services (ses_registry stopped_session)) ''tool'' = Some en" "en_state en = Stopped"
    by auto
  let ?e = "example_env (RP_Answer (Inr CO_Started))"
  obtain confirmation s' where r: "respond example_codec ?e (Req_StartService ''tool'') None stopped_session = (confirmation, s')"
    by (cases "respond example_codec ?e (Req_StartService ''tool'') None stopped_session")
  have reply: "re_reply ?e = RP_Answer (Inr CO_Started)" by (simp add: example_env_def)
  have answer: "send (cm_codec (example_commands (fst (respond example_codec (example_env RP_Gone) Req_Status None s'))))
      ''/s'' (example_exchange ''yes'') Req_Status = Inr (fst (respond example_codec (example_env RP_Gone) Req_Status None s'))"
    by (rule example_send)
  have "confirmation = response_message (''tool'' @ '' started'') \<and> (\<exists>printed.
      wait_turn (example_commands (fst (respond example_codec (example_env RP_Gone) Req_Status None s')))
         ''/s'' [''tool''] {} wait_timeout (example_exchange ''yes'') False = Some (Inr 1, printed))"
    using started_service_reads_as_stopped [OF wf named en reply r answer] by blast
  then obtain printed where "confirmation = response_message ''tool started''"
    "wait_turn (example_commands (fst (respond example_codec (example_env RP_Gone) Req_Status None s')))
         ''/s'' [''tool''] {} wait_timeout (example_exchange ''yes'') False = Some (Inr 1, printed)" by auto
  with r show ?thesis by blast
qed

definition example_round :: "child_answer \<Rightarrow> string option \<Rightarrow> instant \<Rightarrow> start_round" where
  "example_round child pidfile now =
     \<lparr> sta_child = child, sta_pidfile = pidfile, sta_exchange = example_exchange ''yes'', sta_now = now \<rparr>"

text \<open>Another daemon answers all the time.\<close>

theorem start_reports_its_own_daemon_witness:
  "\<exists>cc paths result. wait_for_the_daemon cc paths 42 100
     [example_round CA_Running (Some ''7'') 0, example_round CA_Running (Some ''7'') 120] = Some (result, True)
   \<and> is_running cc (dp_socket paths) (example_exchange ''yes'') \<and> result \<noteq> Inr ()"
proof -
  let ?cc = "cm_codec (example_commands (Resp_Pong ''p'' 42 None))" and ?paths = "for_config example_host ''/p/servicrab.toml''"
  let ?rounds = "[example_round CA_Running (Some ''7'') 0, example_round CA_Running (Some ''7'') 120]"
  have "parse_u32 ''7'' = Some 7"
    by (simp add: parse_u32_def digits_value_def digit_value_def is_ascii_digit_def less_eq_char_def)
  then have foreign: "\<not> daemon_is_ours 42 (Some ''7'')" by (simp add: daemon_is_ours_def example_trim)
  have pong: "is_running ?cc (dp_socket ?paths) (example_exchange ''yes'')" by (simp add: is_running_def example_send)
  have "wait_for_the_daemon ?cc ?paths 42 100 ?rounds \<noteq> None"
    by (rule start_is_answered [of "example_round CA_Running (Some ''7'') 120"]) (simp_all add: example_round_def)
  then obtain result killed where result: "wait_for_the_daemon ?cc ?paths 42 100 ?rounds = Some (result, killed)" by auto
  from start_reports_its_own_daemon [OF this] obtain before r after where r: "?rounds = before @ r # after"
    "\<forall>q\<in>set before. sta_child q = CA_Running \<and> sta_now q < 100"
    "result = Inr () \<longleftrightarrow> sta_child r = CA_Exited (Some 0)
      \<or> sta_child r = CA_Running \<and> daemon_is_ours 42 (sta_pidfile r) \<and> is_running ?cc (dp_socket ?paths) (sta_exchange r)"
    "killed \<longleftrightarrow> sta_child r = CA_Running \<and> result \<noteq> Inr () \<and> 100 \<le> sta_now r" by blast
  have "r \<in> set ?rounds" unfolding r(1) by simp
  then have failed: "result \<noteq> Inr ()" using r(3) foreign by (auto simp: example_round_def)
  have "killed" using result foreign by (auto simp: example_round_def)
  with result have "wait_for_the_daemon ?cc ?paths 42 100 ?rounds = Some (result, True)" by simp
  with failed pong show ?thesis by blast
qed

theorem control_reaches_every_name_witness:
  "\<exists>env socket conn. fst (control_names env socket Req_StopService conn 1 False [''db'', ''api'']) = Inr 1
     \<and> length (out_lines (snd (control_names env socket Req_StopService conn 1 False [''db'', ''api'']))) = 1"
proof -
  let ?env = "example_commands (Resp_Ok None None None)"
  let ?conn = "\<lambda>k. if k = 1 then example_exchange ''no'' else example_exchange ''yes''"
  have "replies ?env [] Req_StopService ?conn 1 [''db'', ''api''] =
      [(''db'', Inr (Resp_Error EC_Busy ''busy'' [])), (''api'', Inr (Resp_Ok None None None))]"
    by (simp add: example_send)
  then show ?thesis
    using control_reaches_every_name [of ?env "[]" Req_StopService ?conn 1 "[''db'', ''api'']" False]
    by (intro exI [of _ ?env] exI [of _ "[]"] exI [of _ ?conn]) (simp add: map_filter_simps)
qed

end
