(* ===== verification/Log_Tail.thy ===== *)
theory Log_Tail
  imports Terminal Server
begin

text \<open>
  \<open>servicrab-cli/src/commands/logs.rs\<close>: the last lines of the log files, and following them.  Each look
  at a file is a \<open>file_view\<close>, as its length, its existence and its contents are asked for at different
  moments.  Only reading to the end is modelled: no error comes after a file has been opened.
\<close>

section \<open>Text\<close>

text \<open>\<open>String::from_utf8_lossy\<close>: bytes that cannot go on as a character become one replacement
  character; \<open>utf8_lead\<close> is the table of the leading bytes.\<close>

definition replacement :: string where
  "replacement = [CHR 0xEF, CHR 0xBF, CHR 0xBD]"

fun continuation :: "nat \<Rightarrow> nat \<Rightarrow> nat \<Rightarrow> string \<Rightarrow> string" where
  "continuation 0 lo hi s = []"
| "continuation (Suc n) lo hi [] = []"
| "continuation (Suc n) lo hi (b # s) =
     (if lo \<le> (of_char b :: nat) \<and> of_char b \<le> hi then b # continuation n 128 191 s else [])"

function utf8_lossy :: "string \<Rightarrow> string" where
  "utf8_lossy [] = []"
| "utf8_lossy (b # s) =
     (case utf8_lead (of_char b) of
        None \<Rightarrow> replacement @ utf8_lossy s
      | Some (n, lo, hi) \<Rightarrow>
          (let rest = continuation n lo hi s in
           (if length rest = n then b # rest else replacement) @ utf8_lossy (drop (length rest) s)))"
  by pat_completeness auto
termination by (relation "measure length") auto

definition decode_line :: "string \<Rightarrow> string" where
  "decode_line raw =
     (let t = utf8_lossy raw;
          t = (case strip_suffix [newline] t of Some u \<Rightarrow> u | None \<Rightarrow> t) in
      (case strip_suffix [CHR 13] t of Some u \<Rightarrow> u | None \<Rightarrow> t))"

section \<open>Reading a file\<close>

record chunk =
  ck_lines :: "string list"
  ck_end :: nat
  ck_partial :: "string option"

text \<open>\<open>read_until\<close> up to and including a newline.\<close>

fun until_newline :: "string \<Rightarrow> string \<times> string" where
  "until_newline [] = ([], [])"
| "until_newline (b # s) =
     (if b = newline then ([b], s) else (case until_newline s of (l, r) \<Rightarrow> (b # l, r)))"

lemma until_newline_append: "until_newline s = (l, r) \<Longrightarrow> s = l @ r"
  by (induction s arbitrary: l) (auto split: if_splits prod.splits)

function read_loop :: "string list \<Rightarrow> nat \<Rightarrow> string \<Rightarrow> chunk" where
  "read_loop lines pos s =
     (case until_newline s of (buffer, rest) \<Rightarrow>
        if buffer = [] then \<lparr> ck_lines = lines, ck_end = pos, ck_partial = None \<rparr>
        else if last buffer \<noteq> newline then \<lparr> ck_lines = lines, ck_end = pos, ck_partial = Some (decode_line buffer) \<rparr>
        else read_loop (lines @ [decode_line buffer]) (pos + length buffer) rest)"
  by pat_completeness auto
termination
  by (relation "measure (\<lambda>(lines, pos, s). length s)") (auto dest: until_newline_append until_newline_append [OF sym])

declare read_loop.simps [simp del]

record file_view =
  fv_exists :: bool
  fv_len :: nat
  fv_content :: "string + string"

definition read_lines :: "path \<Rightarrow> nat \<Rightarrow> file_view \<Rightarrow> string + chunk" where
  "read_lines p offset view =
     (case fv_content view of
        Inl e \<Rightarrow> Inl (''could not read '' @ p @ '': '' @ e)
      | Inr content \<Rightarrow> Inr (read_loop [] offset (drop offset content)))"

record tail =
  tl_lines :: "string list"
  tl_end :: nat

definition read_tail :: "path \<Rightarrow> nat \<Rightarrow> bool \<Rightarrow> file_view \<Rightarrow> string + tail" where
  "read_tail p wanted follow view =
     (if \<not> fv_exists view then Inr \<lparr> tl_lines = [], tl_end = 0 \<rparr>
      else
        (case read_lines p 0 view of
           Inl e \<Rightarrow> Inl e
         | Inr chunk \<Rightarrow>
             (let lines = (if \<not> follow then ck_lines chunk @ (case ck_partial chunk of Some l \<Rightarrow> [l] | None \<Rightarrow> [])
                           else ck_lines chunk);
                  lines = (if wanted = 0 then []
                           else if wanted < length lines then drop (length lines - wanted) lines else lines) in
              Inr \<lparr> tl_lines = lines, tl_end = ck_end chunk \<rparr>)))"

section \<open>Following\<close>

record log_source =
  ls_service :: service_name
  ls_path :: path
  ls_offset :: nat
  ls_lines :: "string list"

text \<open>One look at one file: the lines printed and the source after it.\<close>

definition follow_source :: "file_view \<Rightarrow> log_source \<Rightarrow> string list \<times> log_source" where
  "follow_source view src =
     (let len = fv_len view;
          src = (if len < ls_offset src then src\<lparr> ls_offset := 0 \<rparr> else src) in
      if len = ls_offset src then ([], src)
      else
        (case read_lines (ls_path src) (ls_offset src) view of
           Inl _ \<Rightarrow> ([], src)
         | Inr chunk \<Rightarrow> (ck_lines chunk, src\<lparr> ls_offset := ck_end chunk \<rparr>)))"

fun follow_views :: "file_view list \<Rightarrow> log_source \<Rightarrow> string list \<times> log_source" where
  "follow_views [] src = ([], src)"
| "follow_views (view # views) src =
     (case follow_source view src of (printed, src) \<Rightarrow>
        (case follow_views views src of (printed', src) \<Rightarrow> (printed @ printed', src)))"

text \<open>A turn of \<open>follow\<close> over all sources; the loop repeats it until the command is interrupted.\<close>

fun follow_turn :: "(path \<Rightarrow> file_view) \<Rightarrow> log_source list \<Rightarrow> (service_name \<times> string) list \<times> log_source list" where
  "follow_turn disk_now [] = ([], [])"
| "follow_turn disk_now (src # srcs) =
     (case follow_source (disk_now (ls_path src)) src of (lines, src) \<Rightarrow>
        (case follow_turn disk_now srcs of (printed, srcs) \<Rightarrow>
           (map (\<lambda>l. (ls_service src, l)) lines @ printed, src # srcs)))"

section \<open>The command\<close>

record logs_options =
  lo_follow :: bool
  lo_lines :: nat
  lo_no_prefix :: bool

fun select_requested :: "(string \<Rightarrow> string) \<Rightarrow> config \<Rightarrow> string list \<Rightarrow> string + service_name list" where
  "select_requested debug config [] = Inr []"
| "select_requested debug config (name # names) =
     (case find (\<lambda>(_, svc). svc_name svc = name) (cfg_services config) of
        None \<Rightarrow>
          Inl (''unknown service '' @ debug name @ ''; known services: ''
            @ join '', '' (map fst (cfg_services config)))
      | Some (_, svc) \<Rightarrow>
          if \<not> svc_log_to_file svc
          then Inl (''service '' @ debug name @ '' has [logs] enabled = false, so it has no log file'')
          else (case select_requested debug config names of Inl e \<Rightarrow> Inl e | Inr selected \<Rightarrow> Inr (svc_name svc # selected)))"

definition select_services :: "(string \<Rightarrow> string) \<Rightarrow> config \<Rightarrow> string list \<Rightarrow> string + service_name list" where
  "select_services debug config names =
     (if names = [] then
        (let logging = map (\<lambda>(_, svc). svc_name svc) (filter (\<lambda>(_, svc). svc_log_to_file svc) (cfg_services config)) in
         if logging = [] then Inl ''every service has [logs] enabled = false'' else Inr logging)
      else select_requested debug config names)"

fun open_sources :: "log_settings \<Rightarrow> (path \<Rightarrow> file_view) \<Rightarrow> logs_options \<Rightarrow> service_name list \<Rightarrow> string + log_source list" where
  "open_sources settings disk_now options [] = Inr []"
| "open_sources settings disk_now options (name # names) =
     (let p = file_for settings name in
      case read_tail p (lo_lines options) (lo_follow options) (disk_now p) of
        Inl e \<Rightarrow> Inl e
      | Inr t \<Rightarrow>
          (case open_sources settings disk_now options names of
             Inl e \<Rightarrow> Inl e
           | Inr srcs \<Rightarrow> Inr (\<lparr> ls_service = name, ls_path = p, ls_offset = tl_end t, ls_lines = tl_lines t \<rparr> # srcs)))"

record log_printer =
  lp_colors :: "(service_name, string) btmap"
  lp_width :: nat
  lp_color :: bool
  lp_no_prefix :: bool

definition log_printer_new :: "bool \<Rightarrow> service_name list \<Rightarrow> bool \<Rightarrow> log_printer" where
  "log_printer_new color services no_prefix =
     \<lparr> lp_colors = fold (\<lambda>(i, name). bt_insert name (service_colors ! (i mod length service_colors))) (enumerate 0 services) [],
       lp_width = min (fold (\<lambda>n m. max m (length n)) services 0) 20,
       lp_color = color,
       lp_no_prefix = (no_prefix \<or> length services < 2) \<rparr>"

definition log_printer_line :: "log_printer \<Rightarrow> service_name \<Rightarrow> string \<Rightarrow> printed" where
  "log_printer_line pr service line =
     PR_Out
       (if lp_no_prefix pr then line
        else paint (lp_color pr) (case bt_get (lp_colors pr) service of Some c \<Rightarrow> c | None \<Rightarrow> reset_code)
               (pad_right (lp_width pr) service) @ '' | '' @ line)"

text \<open>The lines before \<open>follow\<close>, and the sources to follow.  Loading the configuration, with the
  warnings it prints, comes before it.\<close>

definition logs_run :: "(string \<Rightarrow> string) \<Rightarrow> bool \<Rightarrow> path \<Rightarrow> config \<Rightarrow> string list \<Rightarrow> logs_options \<Rightarrow> (path \<Rightarrow> file_view)
    \<Rightarrow> string + printed list \<times> log_source list" where
  "logs_run debug color config_path config services options disk_now =
     (case proj_logs (cfg_project config) of
        None \<Rightarrow>
          Inl (''file logging is disabled: add a [project.logs] section to '' @ config_path @ '' to capture service output'')
      | Some settings \<Rightarrow>
          (case select_services debug config services of
             Inl e \<Rightarrow> Inl e
           | Inr selected \<Rightarrow>
               (case open_sources settings disk_now options selected of
                  Inl e \<Rightarrow> Inl e
                | Inr srcs \<Rightarrow>
                    if list_all (\<lambda>src. ls_lines src = []) srcs \<and> \<not> lo_follow options then
                      Inr ([PR_Err (''no log output yet in '' @ ls_dir settings @ '' '' @ em_dash
                        @ '' start the stack with `servicrab up` first'')], [])
                    else
                      (let pr = log_printer_new color selected (lo_no_prefix options) in
                       Inr (concat (map (\<lambda>src. map (log_printer_line pr (ls_service src)) (ls_lines src)) srcs),
                            if lo_follow options then map (\<lambda>src. src\<lparr> ls_lines := [] \<rparr>) srcs else [])))))"

section \<open>Complete lines\<close>

text \<open>The lines of a text that end with a newline, and how far they reach.\<close>

function whole :: "string \<Rightarrow> string list" where
  "whole s =
     (case until_newline s of (l, r) \<Rightarrow> if l = [] \<or> last l \<noteq> newline then [] else l # whole r)"
  by pat_completeness auto
termination
  by (relation "measure length") (auto dest: until_newline_append until_newline_append [OF sym])

declare whole.simps [simp del]

definition reach :: "string \<Rightarrow> nat" where
  "reach s = length (concat (whole s))"

lemma read_loop_whole:
  "ck_lines (read_loop lines pos s) = lines @ map decode_line (whole s)"
  "ck_end (read_loop lines pos s) = pos + reach s"
proof (induction lines pos s rule: read_loop.induct)
  case (1 lines pos s)
  obtain l r where u: "until_newline s = (l, r)" by fastforce
  { case 1
    then show ?case using "1.IH" u by (simp add: read_loop.simps [of _ _ s] whole.simps [of s]) }
  { case 2
    then show ?case using "1.IH" u by (simp add: read_loop.simps [of _ _ s] whole.simps [of s] reach_def) }
qed

lemma until_newline_more:
  "until_newline s = (l, r) \<Longrightarrow> l \<noteq> [] \<Longrightarrow> last l = newline \<Longrightarrow> until_newline (s @ t) = (l, r @ t)"
  by (induction s arbitrary: l) (auto split: if_splits prod.splits)

text \<open>More text leaves the complete lines alone, and the others start where they end.\<close>

lemma whole_append: "whole (s @ t) = whole s @ whole (drop (reach s) (s @ t))"
proof (induction s rule: whole.induct)
  case (1 s)
  obtain l r where u: "until_newline s = (l, r)" by fastforce
  show ?case
  proof (cases "l = [] \<or> last l \<noteq> newline")
    case True
    then show ?thesis by (simp add: whole.simps [of s] u reach_def)
  next
    case False
    have s: "s = l @ r" by (rule until_newline_append [OF u])
    have ws: "whole s = l # whole r" and wst: "whole (s @ t) = l # whole (r @ t)"
      using False until_newline_more [OF u, of t] u by (simp_all add: whole.simps [of s] whole.simps [of "s @ t"])
    have "reach s = length l + reach r" by (simp add: reach_def ws)
    then have "drop (reach s) (s @ t) = drop (reach r) (r @ t)" by (simp add: s)
    moreover have "whole (r @ t) = whole r @ whole (drop (reach r) (r @ t))"
      using "1.IH" [OF u [symmetric]] False by simp
    ultimately show ?thesis unfolding ws wst by simp
  qed
qed

lemma reach_length: "reach s \<le> length s"
proof (induction s rule: whole.induct)
  case (1 s)
  obtain l r where u: "until_newline s = (l, r)" by fastforce
  show ?case
  proof (cases "l = [] \<or> last l \<noteq> newline")
    case True
    then show ?thesis by (simp add: whole.simps [of s] u reach_def)
  next
    case False
    then have "whole s = l # whole r" by (simp add: whole.simps [of s] u)
    then have "reach s = length l + reach r" by (simp add: reach_def)
    then show ?thesis using "1.IH" [OF u [symmetric]] False until_newline_append [OF u] by simp
  qed
qed

section \<open>Every line once\<close>

text \<open>A file that only grows, as it is seen by a reader that looks at it again and again: the length is
  asked for first, the contents are read later and may be refused.\<close>

fun growing :: "string \<Rightarrow> file_view list \<Rightarrow> string \<Rightarrow> bool" where
  "growing c [] final = (c = final)"
| "growing c (view # views) final =
     (case fv_content view of
        Inl _ \<Rightarrow> length c \<le> fv_len view \<and> growing c views final
      | Inr c' \<Rightarrow> take (length c) c' = c \<and> length c \<le> fv_len view \<and> fv_len view \<le> length c' \<and> growing c' views final)"

lemma whole_prefix:
  assumes "take (length d) c = d"
  shows "whole c = whole d @ whole (drop (reach d) c)" and "reach c = reach d + reach (drop (reach d) c)"
proof -
  have "c = d @ drop (length d) c" using assms by (metis append_take_drop_id)
  then show w: "whole c = whole d @ whole (drop (reach d) c)" using whole_append [of d "drop (length d) c"] by simp
  show "reach c = reach d + reach (drop (reach d) c)" unfolding reach_def [of c] w by (simp add: reach_def)
qed

lemma prefix_trans: "take (length d) c = d \<Longrightarrow> take (length c) b = c \<Longrightarrow> take (length d) b = d"
  by (metis append_eq_conv_conj append_take_drop_id append_assoc)

lemma follow_one:
  assumes "ls_offset src = reach d" and "fv_content view = Inr c" and "take (length d) c = d"
    and "length d \<le> fv_len view"
  shows "follow_source view src =
    (if fv_len view = reach d then ([], src)
     else (map decode_line (drop (length (whole d)) (whole c)), src\<lparr> ls_offset := reach c \<rparr>))"
  using assms(1,2,4) reach_length [of d] whole_prefix [OF assms(3)]
  by (simp add: follow_source_def Let_def read_lines_def read_loop_whole)

lemma follow_refused:
  assumes "ls_offset src = reach d" and "fv_content view = Inl e" and "length d \<le> fv_len view"
  shows "follow_source view src = ([], src)"
  using assms reach_length [of d] by (simp add: follow_source_def Let_def read_lines_def)

text \<open>\<open>d\<close> is what was read last, \<open>c\<close> what the file has grown to meanwhile.\<close>

lemma follow_growing:
  assumes "ls_offset src = reach d" and "take (length d) c = d" and "growing c views final"
  shows "\<exists>b. follow_views views src = (map decode_line (drop (length (whole d)) (whole b)), src\<lparr> ls_offset := reach b \<rparr>)
     \<and> take (length d) b = d
     \<and> (views \<noteq> [] \<and> fv_len (last views) = length final \<and> fv_content (last views) = Inr final \<longrightarrow> b = final)"
  using assms
proof (induction views arbitrary: src d c)
  case Nil
  then show ?case by (intro exI [of _ d]) simp
next
  case (Cons view views)
  have len: "length d \<le> fv_len view"
    using Cons.prems(2,3) by (auto split: sum.splits) (metis length_take min.cobounded1 min.coboundedI2 le_trans)+
  show ?case
  proof (cases "fv_content view")
    case (Inl e)
    with Cons.prems(3) have "growing c views final" by simp
    from Cons.IH [OF Cons.prems(1,2) this] follow_refused [OF Cons.prems(1) Inl len] Inl show ?thesis by auto
  next
    case (Inr c')
    with Cons.prems(3) have c': "take (length c) c' = c" "growing c' views final" "fv_len view \<le> length c'" by auto
    have d: "take (length d) c' = d" by (rule prefix_trans [OF Cons.prems(2) c'(1)])
    note one = follow_one [OF Cons.prems(1) Inr d len]
    show ?thesis
    proof (cases "fv_len view = reach d")
      case True
      show ?thesis
      proof (cases "views = []")
        case True
        have "d = final" if "fv_len view = length final" "c' = final"
        proof -
          have "length final \<le> length d" using that \<open>fv_len view = reach d\<close> reach_length [of d] by simp
          with d that(2) show ?thesis by simp
        qed
        with one \<open>fv_len view = reach d\<close> \<open>views = []\<close> Cons.prems(1) Inr show ?thesis by (intro exI [of _ d]) auto
      next
        case False
        with Cons.IH [OF Cons.prems(1) d c'(2)] one True show ?thesis by auto
      qed
    next
      case False
      let ?src = "src\<lparr> ls_offset := reach c' \<rparr>"
      have src: "ls_offset ?src = reach c'" "take (length c') c' = c'" by simp_all
      obtain b where b:
        "follow_views views ?src = (map decode_line (drop (length (whole c')) (whole b)), ?src\<lparr> ls_offset := reach b \<rparr>)"
        "take (length c') b = c'"
        "views \<noteq> [] \<and> fv_len (last views) = length final \<and> fv_content (last views) = Inr final \<longrightarrow> b = final"
        "views = [] \<longrightarrow> b = c'"
      proof (cases "views = []")
        case True
        then show thesis by (intro that [of c']) simp_all
      next
        case False
        with Cons.IH [OF src c'(2)] that show thesis by blast
      qed
      have "drop (length (whole d)) (whole c') @ drop (length (whole c')) (whole b) = drop (length (whole d)) (whole b)"
        unfolding whole_prefix(1) [OF b(2)] whole_prefix(1) [OF d] by simp
      then have "follow_views (view # views) src = (map decode_line (drop (length (whole d)) (whole b)), src\<lparr> ls_offset := reach b \<rparr>)"
        using one False b(1) by (simp flip: map_append)
      moreover have "take (length d) b = d" by (rule prefix_trans [OF d b(2)])
      ultimately show ?thesis using b(3,4) Inr by (cases "views = []") (auto intro!: exI [of _ b])
    qed
  qed
qed

text \<open>C32: A follower prints every line once: while a log file only grows, the tail and what is printed after
  it are together the last lines that were complete at the first look and every line completed
  since, each once, whole and in order, however the looks fall between the writes; a look that
  finds the file as it is in the end brings them all.\<close>

theorem follow_prints_every_line_once:
  assumes "read_tail p wanted True \<lparr> fv_exists = True, fv_len = length first, fv_content = Inr first \<rparr> = Inr t"
    and "growing first views final"
    and "views \<noteq> []" and "fv_len (last views) = length final" and "fv_content (last views) = Inr final"
    and "follow_views views \<lparr> ls_service = name, ls_path = p, ls_offset = tl_end t, ls_lines = [] \<rparr> = (printed, src)"
  shows "tl_lines t @ printed =
     map decode_line (drop (length (whole first) - wanted) (whole final))"
proof -
  have t: "tl_end t = reach first" "tl_lines t = map decode_line (drop (length (whole first) - wanted) (whole first))"
    using assms(1) by (auto simp: read_tail_def read_lines_def read_loop_whole Let_def drop_map)
  let ?src = "\<lparr> ls_service = name, ls_path = p, ls_offset = tl_end t, ls_lines = [] \<rparr>"
  obtain b where b: "follow_views views ?src = (map decode_line (drop (length (whole first)) (whole b)), ?src\<lparr> ls_offset := reach b \<rparr>)"
    "take (length first) b = first" "b = final"
    using follow_growing [of ?src first first views final] t(1) assms(2-5) by auto
  have "drop (length (whole first) - wanted) (whole first) @ drop (length (whole first)) (whole final)
      = drop (length (whole first) - wanted) (whole final)"
    unfolding whole_prefix(1) [OF b(2)] b(3) [symmetric] by simp
  then show ?thesis using b(1,3) assms(6) t(2) by (simp flip: map_append)
qed

text \<open>Rotation is noticed only by a file that has become shorter: when the fresh file has grown past the
  old position before the next look, what it holds up to there is never printed.\<close>

theorem rotation_skips_lines:
  assumes "fv_content view = Inr fresh" and "ls_offset src < fv_len view"
  shows "fst (follow_source view src) = map decode_line (whole (drop (ls_offset src) fresh))"
  using assms by (simp add: follow_source_def read_lines_def read_loop_whole Let_def)

section \<open>Witnesses\<close>

definition seen :: "string \<Rightarrow> file_view" where
  "seen content = \<lparr> fv_exists = True, fv_len = length content, fv_content = Inr content \<rparr>"

lemma example_lines:
  "whole ([CHR ''a'', newline] @ [CHR ''b'', newline] @ [CHR ''c'', newline]) =
     [[CHR ''a'', newline], [CHR ''b'', newline], [CHR ''c'', newline]]"
  "whole [CHR ''a'', newline, CHR ''b''] = [[CHR ''a'', newline]]"
  "map decode_line [[CHR ''a'', newline], [CHR ''b'', newline], [CHR ''c'', newline]] = [''a'', ''b'', ''c'']"
  by code_simp+

text \<open>A follower that finds half a line first: \<open>b\<close> is printed once, when it is whole.\<close>

theorem follow_prints_every_line_once_witness:
  "\<exists>t src printed. read_tail ''/l'' 10 True (seen [CHR ''a'', newline, CHR ''b'']) = Inr t
     \<and> follow_views [seen ([CHR ''a'', newline] @ [CHR ''b'', newline] @ [CHR ''c'', newline])]
         \<lparr> ls_service = ''a'', ls_path = ''/l'', ls_offset = tl_end t, ls_lines = [] \<rparr> = (printed, src)
     \<and> tl_lines t @ printed = [''a'', ''b'', ''c'']"
proof -
  let ?first = "[CHR ''a'', newline, CHR ''b'']" and ?final = "[CHR ''a'', newline] @ [CHR ''b'', newline] @ [CHR ''c'', newline]"
  obtain t where t: "read_tail ''/l'' 10 True (seen ?first) = Inr t"
    by (simp add: read_tail_def seen_def read_lines_def Let_def)
  obtain printed src where f: "follow_views [seen ?final]
      \<lparr> ls_service = ''a'', ls_path = ''/l'', ls_offset = tl_end t, ls_lines = [] \<rparr> = (printed, src)" by fastforce
  have "growing ?first [seen ?final] ?final" by (simp add: seen_def)
  from follow_prints_every_line_once [OF t [unfolded seen_def] this _ _ _ f]
  have "tl_lines t @ printed = [''a'', ''b'', ''c'']"
    unfolding example_lines(1,2) using example_lines(3) by (simp add: seen_def)
  with t f show ?thesis by blast
qed

theorem rotation_skips_lines_witness:
  "fst (follow_source (seen ([CHR ''a'', newline] @ [CHR ''b'', newline] @ [CHR ''c'', newline]))
     \<lparr> ls_service = ''a'', ls_path = ''/l'', ls_offset = 2, ls_lines = [] \<rparr>) = [''b'', ''c'']"
proof -
  have "whole (drop 2 ([CHR ''a'', newline] @ [CHR ''b'', newline] @ [CHR ''c'', newline])) = [[CHR ''b'', newline], [CHR ''c'', newline]]"
    by code_simp
  moreover have "map decode_line [[CHR ''b'', newline], [CHR ''c'', newline]] = [''b'', ''c'']" by code_simp
  ultimately show ?thesis
    by (subst rotation_skips_lines [where fresh = "[CHR ''a'', newline] @ [CHR ''b'', newline] @ [CHR ''c'', newline]"])
      (simp_all add: seen_def)
qed

end
