(* ===== verification/Drawing.thy ===== *)
theory Drawing
  imports Commands Server
begin

text \<open>
  How events are drawn: the stack in the foreground (\<open>servicrab-cli/src/commands/up.rs\<close>) and the client
  that follows a daemon (\<open>commands/events.rs\<close>).  A printer gives lines for the two streams; the wall
  clock and serde are arguments.  The run of the stack between them is \<open>Stack\<close>.
\<close>

section \<open>Symbols\<close>

definition sym_started :: string where "sym_started = [CHR 0xE2, CHR 0x96, CHR 0xB6]"
definition sym_exited :: string where "sym_exited = [CHR 0xE2, CHR 0x96, CHR 0xA0]"
definition sym_again :: string where "sym_again = [CHR 0xE2, CHR 0x86, CHR 0xBB]"
definition sym_stopping :: string where "sym_stopping = [CHR 0xE2, CHR 0x97, CHR 0xBC]"
definition sym_skipped :: string where "sym_skipped = [CHR 0xE2, CHR 0x8A, CHR 0x98]"
definition sym_healthy :: string where "sym_healthy = [CHR 0xE2, CHR 0x9C, CHR 0x94]"
definition sym_state :: string where "sym_state = [CHR 0xC2, CHR 0xB7]"
definition sym_finished :: string where "sym_finished = [CHR 0xE2, CHR 0x96, CHR 0xA1]"
definition sym_arrow :: string where "sym_arrow = [CHR 0xE2, CHR 0x86, CHR 0x92]"

text \<open>The colours by position; the last of two equal names wins, as in \<open>collect\<close>.\<close>

definition color_map :: "string list \<Rightarrow> (string, string) btmap" where
  "color_map names =
     fold (\<lambda>(i, name). bt_insert name (service_colors ! (i mod length service_colors))) (enumerate 0 names) []"

definition widest :: "string list \<Rightarrow> nat" where
  "widest names = fold (\<lambda>n m. max m (length n)) names 0"

definition changed_detail :: "string \<Rightarrow> nat \<Rightarrow> string" where
  "changed_detail name changed =
     (if changed = 1 then name @ '' changed'' else name @ '' and '' @ show_nat (changed - 1) @ '' more changed'')"

section \<open>Up\<close>

record up_options =
  upo_no_restart :: bool
  upo_no_prefix :: bool
  upo_timestamps :: bool
  upo_abort_on_failure :: bool
  upo_require_watch :: bool
  upo_json :: bool

record up_printer =
  upp_colors :: "(service_name, string) btmap"
  upp_width :: nat
  upp_color_out :: bool
  upp_color_err :: bool
  upp_options :: up_options

definition up_printer_new :: "bool \<Rightarrow> bool \<Rightarrow> service_name list \<Rightarrow> up_options \<Rightarrow> up_printer" where
  "up_printer_new color_out color_err plan options =
     \<lparr> upp_colors = color_map plan, upp_width = widest plan, upp_color_out = color_out, upp_color_err = color_err,
       upp_options = options \<rparr>"

text \<open>\<open>print_stream_header\<close> of \<open>output.rs\<close>; a header that cannot be rendered is left out.\<close>

definition stream_header :: "(response \<Rightarrow> string option) \<Rightarrow> printed list" where
  "stream_header encode =
     (case encode (Resp_Ok None None (Some schema_version)) of Some line \<Rightarrow> [PR_Out line] | None \<Rightarrow> [])"

definition up_banner :: "(response \<Rightarrow> string option) \<Rightarrow> config \<Rightarrow> service_name list \<Rightarrow> up_printer \<Rightarrow> printed list" where
  "up_banner encode config plan pr =
     (if upo_json (upp_options pr) then stream_header encode
      else
        [PR_Err (paint (upp_color_err pr) bold
            (if upo_require_watch (upp_options pr) then ''servicrab watch'' else ''servicrab up'')
          @ '' '' @ proj_name (cfg_project config) @ '' '' @ sym_arrow @ '' '' @ join '', '' plan)])"

definition up_watching :: "service_name list \<Rightarrow> up_printer \<Rightarrow> printed list" where
  "up_watching watched pr =
     (if upo_json (upp_options pr) \<or> watched = [] then []
      else [PR_Err (paint (upp_color_err pr) dim (''watching for changes: '' @ join '', '' watched))])"

definition up_prefix :: "up_printer \<Rightarrow> service_name \<Rightarrow> bool \<Rightarrow> string" where
  "up_prefix pr service color =
     (if upo_no_prefix (upp_options pr) then []
      else paint color (case bt_get (upp_colors pr) service of Some c \<Rightarrow> c | None \<Rightarrow> reset_code)
             (pad_right (upp_width pr) service) @ '' | '')"

definition up_timestamp :: "up_printer \<Rightarrow> duration option \<Rightarrow> bool \<Rightarrow> string" where
  "up_timestamp pr now color =
     (if \<not> upo_timestamps (upp_options pr) then [] else paint color dim (utc_hms now) @ '' '')"

definition up_log :: "up_printer \<Rightarrow> duration option \<Rightarrow> service_name \<Rightarrow> log_stream \<Rightarrow> string \<Rightarrow> printed list" where
  "up_log pr now service stream line =
     (case stream of
        Stdout \<Rightarrow> [PR_Out (up_timestamp pr now (upp_color_out pr) @ up_prefix pr service (upp_color_out pr) @ line)]
      | Stderr \<Rightarrow> [PR_Err (up_timestamp pr now (upp_color_err pr) @ up_prefix pr service (upp_color_err pr) @ line)])"

definition up_status :: "up_printer \<Rightarrow> duration option \<Rightarrow> service_name \<Rightarrow> string \<Rightarrow> string \<Rightarrow> printed list" where
  "up_status pr now service symbol message =
     [PR_Err (up_timestamp pr now (upp_color_err pr) @ up_prefix pr service (upp_color_err pr)
        @ paint (upp_color_err pr) dim (symbol @ '' '' @ message))]"

definition up_humanize :: "duration \<Rightarrow> string" where
  "up_humanize d =
     (let secs = d div nanos_per_sec in
      if 60 \<le> secs then show_nat (secs div 60) @ ''m'' @ show_nat (secs mod 60) @ ''s''
      else if 0 < secs then show_nat secs @ ''s''
      else show_nat (d div 1000000) @ ''ms'')"

definition up_json :: "(response \<Rightarrow> string option) \<Rightarrow> service_name \<Rightarrow> event_kind \<Rightarrow> printed list" where
  "up_json encode service kind =
     (case encode (Resp_Event service (to_wire_event kind)) of None \<Rightarrow> [] | Some line \<Rightarrow> [PR_Out line])"

definition up_draw :: "up_printer \<Rightarrow> duration option \<Rightarrow> service_name \<Rightarrow> event_kind \<Rightarrow> printed list" where
  "up_draw pr now service kind =
     (case kind of
        EK_Log stream line \<Rightarrow> up_log pr now service stream line
      | EK_Started pgid \<Rightarrow> up_status pr now service sym_started (''started (pgid '' @ show_int pgid @ '')'')
      | EK_Exited reason uptime \<Rightarrow>
          up_status pr now service sym_exited (show_exit_reason reason @ '' after '' @ up_humanize uptime)
      | EK_Backoff delay attempt \<Rightarrow>
          up_status pr now service sym_again
            (''restarting in '' @ up_humanize delay @ '' (attempt '' @ show_nat (unat attempt) @ '')'')
      | EK_Stopping reason \<Rightarrow> up_status pr now service sym_stopping (''stopping: '' @ show_shutdown_reason reason)
      | EK_Skipped dependency \<Rightarrow>
          up_status pr now service sym_skipped (''skipped: dependency '' @ dependency @ '' never became available'')
      | EK_Failed message \<Rightarrow> up_status pr now service cross_mark message
      | EK_Healthy \<Rightarrow> up_status pr now service sym_healthy ''healthy''
      | EK_HealthProbeFailed message consecutive retries \<Rightarrow>
          up_status pr now service ''!''
            (''health probe failed ('' @ show_nat (unat consecutive) @ ''/'' @ show_nat (unat retries) @ ''): '' @ message)
      | EK_Unhealthy message \<Rightarrow> up_status pr now service cross_mark (''unhealthy: '' @ message)
      | EK_WatchTriggered p changed \<Rightarrow>
          up_status pr now service sym_again
            (changed_detail (case path_file_name p of Some n \<Rightarrow> n | None \<Rightarrow> p) changed @ ''; restarting'')
      | EK_WatchFailed message \<Rightarrow> up_status pr now service ''!'' (''watch: '' @ message)
      | EK_WatchTruncated limit \<Rightarrow>
          up_status pr now service ''!''
            (''watch: more than '' @ show_nat limit @ '' files; narrow `paths` or add `ignore` entries'')
      | EK_LogLinesDropped n \<Rightarrow>
          up_status pr now service ''!'' (''dropped '' @ show_nat n @ '' output line(s): faster than they could be consumed'')
      | EK_State _ \<Rightarrow> []
      | EK_Finished _ \<Rightarrow> [])"

definition up_event :: "(response \<Rightarrow> string option) \<Rightarrow> up_printer \<Rightarrow> duration option \<Rightarrow> service_name \<Rightarrow> event_kind
    \<Rightarrow> printed list" where
  "up_event encode pr now service kind =
     (if upo_json (upp_options pr) then up_json encode service kind else up_draw pr now service kind)"

definition up_warn :: "string \<Rightarrow> printed list" where
  "up_warn message = [PR_Err (warning_sign @ ''  '' @ message)]"

text \<open>The renderer: an event with the clock and the problem the sink reports for its line, if any, and
  the problem at the end.\<close>

definition up_render :: "(response \<Rightarrow> string option) \<Rightarrow> up_printer \<Rightarrow> (duration option \<times> service_event \<times> string option) list
    \<Rightarrow> string option \<Rightarrow> printed list" where
  "up_render encode pr events last_problem =
     concat (map (\<lambda>(now, ev, problem).
         (case problem of Some p \<Rightarrow> if is_log ev then up_warn p else [] | None \<Rightarrow> [])
         @ up_event encode pr now (ev_service ev) (ev_kind ev)) events)
     @ (case last_problem of Some p \<Rightarrow> up_warn p | None \<Rightarrow> [])"

definition up_summary :: "(runtime_error \<Rightarrow> string) \<Rightarrow> up_printer \<Rightarrow> stack_outcome \<Rightarrow> printed list" where
  "up_summary show_error pr out =
     (if upo_json (upp_options pr) then []
      else if outcome_is_success out then [PR_Err (paint (upp_color_err pr) dim ''all services stopped cleanly'')]
      else
        concat (map (\<lambda>r. case rep_result r of
            SRes_Failed err \<Rightarrow> [PR_Err (cross_mark @ '' '' @ rep_service r @ '': '' @ show_error err)]
          | SRes_Skipped dependency \<Rightarrow>
              [PR_Err (cross_mark @ '' '' @ rep_service r @ '': skipped: dependency '' @ dependency @ '' never became available'')]
          | SRes_Finished _ \<Rightarrow> []) (outcome_failures out)))"

definition up_exit_code :: "stack_outcome \<Rightarrow> int" where
  "up_exit_code out =
     (if \<not> outcome_is_success out then 1
      else
        (case out_shutdown out of
           Some SR_UserInterrupt \<Rightarrow> 130
         | Some SR_Terminated \<Rightarrow> 143
         | Some SR_HangUp \<Rightarrow> 129
         | Some _ \<Rightarrow> 1
         | None \<Rightarrow> 0))"

definition up_stack_options :: "up_options \<Rightarrow> stack_options" where
  "up_stack_options options =
     \<lparr> so_no_restart = upo_no_restart options, so_abort_on_failure = upo_abort_on_failure options, so_keep_running = False \<rparr>"

text \<open>Everything before the run: the configuration, the plan, the watched services and the banner.\<close>

definition up_prepare :: "command_env \<Rightarrow> (runtime_error \<Rightarrow> string) \<Rightarrow> (response \<Rightarrow> string option) \<Rightarrow> selection \<Rightarrow> up_options
    \<Rightarrow> (cli_error + config \<times> service_name list \<times> up_printer) \<times> printed list" where
  "up_prepare env show_error encode sel options =
     (case cm_resolve env of
        Inl e \<Rightarrow> (Inl (in_json (upo_json options) (cli_failed (''could not find config: '' @ e))), [])
      | Inr p \<Rightarrow>
          (case cm_load env p of
             Inl errors \<Rightarrow>
               (Inl (in_json (upo_json options) (with_errors (map (cm_config_error env) errors)
                  (cli_error_new EC_ValidationFailed (p @ '' has '' @ show_nat (length errors) @ '' error(s)'')))), [])
           | Inr (config, warnings) \<Rightarrow>
               (let printed = map (\<lambda>w. PR_Err (warning_sign @ ''  '' @ cm_warning env w)) warnings in
                (case plan_stack config sel of
                   Inl e \<Rightarrow> (Inl (in_json (upo_json options) (cli_failed (show_error e))), printed)
                 | Inr plan \<Rightarrow>
                     (let watched = watched_services config plan in
                      if upo_require_watch options \<and> watched = [] then
                        (Inl (in_json (upo_json options) (cli_failed
                           (''nothing to watch: none of '' @ join '', '' plan @ '' declares a [watch] block.'' @ [newline]
                            @ ''Add one, for example:'' @ [newline] @ [newline]
                            @ ''  [services.'' @ (case plan of n # _ \<Rightarrow> n | [] \<Rightarrow> ''api'') @ ''.watch]'' @ [newline]
                            @ ''  paths = ['' @ [CHR 34] @ ''src'' @ [CHR 34] @ '']''))), printed)
                      else
                        (let pr = up_printer_new (cm_color_out env) (cm_color_err env) plan options in
                         (Inr (config, plan, pr), printed @ up_banner encode config plan pr @ up_watching watched pr)))))))"

text \<open>Everything after it; \<open>drawn\<close> says whether the renderer has finished within its two seconds.\<close>

definition up_finish :: "(runtime_error \<Rightarrow> string) \<Rightarrow> up_printer \<Rightarrow> runtime_error + stack_outcome \<times> bool \<Rightarrow> outcome" where
  "up_finish show_error pr result =
     (case result of
        Inl e \<Rightarrow> fail_with (show_error e)
      | Inr (out, drawn) \<Rightarrow> (Inr (up_exit_code out), if drawn then up_summary show_error pr out else []))"

section \<open>Events\<close>

record events_options =
  evo_json :: bool
  evo_no_prefix :: bool
  evo_timestamps :: bool
  evo_no_logs :: bool

record events_printer =
  evp_colors :: "(string, string) btmap"
  evp_width :: nat
  evp_color_out :: bool
  evp_color_err :: bool
  evp_options :: events_options

definition events_printer_new :: "bool \<Rightarrow> bool \<Rightarrow> string list \<Rightarrow> events_options \<Rightarrow> events_printer" where
  "events_printer_new color_out color_err services options =
     \<lparr> evp_colors = color_map services, evp_width = widest services, evp_color_out = color_out,
       evp_color_err = color_err, evp_options = options \<rparr>"

definition events_banner :: "string \<Rightarrow> string list \<Rightarrow> events_printer \<Rightarrow> printed list" where
  "events_banner project services pr =
     [PR_Err (paint (evp_color_err pr) bold ''servicrab events'' @ '' '' @ project @ '' '' @ sym_arrow @ '' ''
        @ (if services = [] then ''all services'' else join '', '' services))]"

text \<open>A service that shows up for the first time gets the next colour and may widen the column.\<close>

definition events_prefix :: "string \<Rightarrow> bool \<Rightarrow> events_printer \<Rightarrow> string \<times> events_printer" where
  "events_prefix service color pr =
     (if evo_no_prefix (evp_options pr) then ([], pr)
      else
        (let following = service_colors ! (length (evp_colors pr) mod length service_colors);
             (tint, colors) = (case bt_get (evp_colors pr) service of
                 Some c \<Rightarrow> (c, evp_colors pr)
               | None \<Rightarrow> (following, bt_insert service following (evp_colors pr)));
             pr = pr\<lparr> evp_colors := colors, evp_width := max (evp_width pr) (length service) \<rparr> in
         (paint color tint (pad_right (evp_width pr) service) @ '' | '', pr)))"

definition events_timestamp :: "duration option \<Rightarrow> bool \<Rightarrow> events_printer \<Rightarrow> string" where
  "events_timestamp now color pr =
     (if \<not> evo_timestamps (evp_options pr) then [] else paint color dim (utc_hms now) @ '' '')"

definition events_log :: "duration option \<Rightarrow> string \<Rightarrow> wire_stream \<Rightarrow> string \<Rightarrow> events_printer \<Rightarrow> printed list \<times> events_printer" where
  "events_log now service stream line pr =
     (let color = (if stream = WT_Stderr then evp_color_err pr else evp_color_out pr) in
      case events_prefix service color pr of
        (label, pr') \<Rightarrow>
          ([(if stream = WT_Stderr then PR_Err else PR_Out) (events_timestamp now color pr @ label @ line)], pr'))"

definition events_status :: "duration option \<Rightarrow> string \<Rightarrow> string \<Rightarrow> string \<Rightarrow> events_printer \<Rightarrow> printed list \<times> events_printer" where
  "events_status now service symbol message pr =
     (case events_prefix service (evp_color_err pr) pr of
        (label, pr') \<Rightarrow>
          ([PR_Err (events_timestamp now (evp_color_err pr) pr @ label
              @ paint (evp_color_err pr) dim (symbol @ '' '' @ message))], pr'))"

definition events_note :: "string \<Rightarrow> events_printer \<Rightarrow> printed list" where
  "events_note message pr = [PR_Err (paint (evp_color_err pr) dim (warning_sign @ ''  '' @ message))]"

definition events_humanize :: "u64 \<Rightarrow> string" where
  "events_humanize millis =
     (let secs = unat millis div 1000 in
      if 60 \<le> secs then show_nat (secs div 60) @ ''m'' @ show_nat (secs mod 60) @ ''s''
      else if 0 < secs then show_nat secs @ ''s''
      else show_nat (unat millis) @ ''ms'')"

definition events_draw :: "duration option \<Rightarrow> string \<Rightarrow> wire_event \<Rightarrow> events_printer \<Rightarrow> printed list \<times> events_printer" where
  "events_draw now service event pr =
     (case event of
        WE_Log stream line \<Rightarrow> events_log now service stream line pr
      | WE_Started pgid \<Rightarrow> events_status now service sym_started (''started (pgid '' @ show_int pgid @ '')'') pr
      | WE_Exited reason _ _ uptime \<Rightarrow>
          events_status now service sym_exited (reason @ '' after '' @ events_humanize uptime) pr
      | WE_Backoff delay attempt \<Rightarrow>
          events_status now service sym_again
            (''restarting in '' @ events_humanize delay @ '' (attempt '' @ show_nat (unat attempt) @ '')'') pr
      | WE_Stopping reason \<Rightarrow> events_status now service sym_stopping (''stopping: '' @ reason) pr
      | WE_Skipped dependency \<Rightarrow>
          events_status now service sym_skipped (''skipped: dependency '' @ dependency @ '' never became available'') pr
      | WE_Failed message \<Rightarrow> events_status now service cross_mark message pr
      | WE_Healthy \<Rightarrow> events_status now service sym_healthy ''healthy'' pr
      | WE_HealthProbeFailed message consecutive retries \<Rightarrow>
          events_status now service ''!''
            (''health probe failed ('' @ show_nat (unat consecutive) @ ''/'' @ show_nat (unat retries) @ ''): '' @ message) pr
      | WE_Unhealthy message \<Rightarrow> events_status now service cross_mark (''unhealthy: '' @ message) pr
      | WE_WatchTriggered p changed \<Rightarrow>
          events_status now service sym_again
            (changed_detail (case path_file_name p of Some n \<Rightarrow> n | None \<Rightarrow> p) changed @ ''; restarting'') pr
      | WE_WatchFailed message \<Rightarrow> events_status now service ''!'' (''watch: '' @ message) pr
      | WE_WatchTruncated limit \<Rightarrow>
          events_status now service ''!''
            (''watch: more than '' @ show_nat limit @ '' files; narrow `paths` or add `ignore` entries'') pr
      | WE_LogLinesDropped n \<Rightarrow>
          events_status now service ''!'' (''dropped '' @ show_nat n @ '' output line(s): faster than they could be consumed'') pr
      | WE_State state \<Rightarrow> events_status now service sym_state (show_wire_state state) pr
      | WE_Finished summary \<Rightarrow> events_status now service sym_finished summary pr
      | WE_Unknown \<Rightarrow> ([], pr))"

definition events_response :: "duration option \<Rightarrow> response \<Rightarrow> events_printer \<Rightarrow> printed list \<times> events_printer" where
  "events_response now response pr =
     (case response of
        Resp_Event service event \<Rightarrow> events_draw now service event pr
      | Resp_Lagged skipped \<Rightarrow>
          (events_note (''dropped '' @ show_nat skipped @ '' event(s): too slow to keep up'') pr, pr)
      | Resp_Error _ message _ \<Rightarrow> (events_note message pr, pr)
      | _ \<Rightarrow> ([], pr))"

text \<open>The callback: with \<open>--json\<close> the raw line, otherwise the response; it never ends the stream.  Its
  state is the printer, with the clock of the lines to come and what has been printed.\<close>

definition events_callback :: "string \<Rightarrow> response \<Rightarrow> events_printer \<times> duration option list \<times> printed list
    \<Rightarrow> bool \<times> events_printer \<times> duration option list \<times> printed list" where
  "events_callback raw response st =
     (case st of (pr, clock, printed) \<Rightarrow>
        if evo_json (evp_options pr) then (True, pr, tl clock, printed @ [PR_Out raw])
        else (case events_response (case clock of now # _ \<Rightarrow> now | [] \<Rightarrow> None) response pr of
                (lines, pr) \<Rightarrow> (True, pr, tl clock, printed @ lines)))"

definition events_command :: "command_env \<Rightarrow> (response \<Rightarrow> string option) \<Rightarrow> exchange \<Rightarrow> string list \<Rightarrow> events_options
    \<Rightarrow> duration option list \<Rightarrow> outcome" where
  "events_command env encode x services options clock =
     with_setup env (in_json (evo_json options)) (\<lambda>config p paths.
       (case find (\<lambda>name. name \<notin> set (map fst (cfg_services config))) services of
          Some name \<Rightarrow>
            (Inl (in_json (evo_json options) (cli_error_new EC_UnknownService (''unknown service: '' @ name))), [])
        | None \<Rightarrow>
            (let request = Req_Subscribe (sort (remdups services)) (\<not> evo_no_logs options);
                 pr = events_printer_new (cm_color_out env) (cm_color_err env) services options;
                 printed = (if evo_json options then stream_header encode
                            else events_banner (proj_name (cfg_project config)) services pr) in
             (case subscribe (cm_codec env) (dp_socket paths) x request events_callback (pr, clock, printed) of
                (Inr _, (_, _, printed)) \<Rightarrow> (Inr 0, printed)
              | (Inl CL_NotRunning, (_, _, printed)) \<Rightarrow>
                  (Inl (no_daemon (proj_name (cfg_project config)) (evo_json options)), printed)
              | (Inl err, (_, _, printed)) \<Rightarrow>
                  (Inl (in_json (evo_json options) (cli_failed (show_client_error err))), printed)))))"

section \<open>Both draw the same\<close>

lemma color_map_known:
  assumes "name \<in> set names"
  shows "bt_get (color_map names) name \<noteq> None"
proof -
  have known: "bt_get m name \<noteq> None \<or> name \<in> set (map snd es) \<Longrightarrow>
      bt_get (fold (\<lambda>(i, n). bt_insert n (f i)) es m) name \<noteq> None" for es :: "(nat \<times> string) list" and f :: "nat \<Rightarrow> string" and m
    by (induction es arbitrary: m) (auto simp: bt_get_insert)
  have "name \<in> set (map snd (enumerate 0 names))" using assms by (simp only: map_snd_enumerate)
  then show ?thesis unfolding color_map_def by (intro known disjI2)
qed

lemma widest_grows: "m \<le> fold (\<lambda>n m. max m (length n)) names m"
proof (induction names arbitrary: m)
  case (Cons n names)
  from Cons [of "max m (length n)"] show ?case by simp
qed simp

lemma widest_covers: "name \<in> set names \<Longrightarrow> length name \<le> widest names"
proof -
  have "name \<in> set names \<Longrightarrow> length name \<le> fold (\<lambda>n m. max m (length n)) names m" for m
  proof (induction names arbitrary: m)
    case (Cons n names)
    then show ?case using widest_grows [of "max m (length n)" names] by auto
  qed simp
  then show "name \<in> set names \<Longrightarrow> length name \<le> widest names" by (simp add: widest_def)
qed

lemma humanize_agree:
  assumes "d div 1000000 < 2 ^ 64"
  shows "events_humanize (wire_millis d) = up_humanize d"
proof -
  have "unat (wire_millis d) = d div 1000000"
    using assms by (simp add: wire_millis_def unat_of_nat take_bit_nat_eq_self)
  moreover have "d div 1000000 div 1000 = d div nanos_per_sec" by (simp add: nanos_per_sec_def div_mult2_eq [symmetric])
  ultimately show ?thesis by (simp add: events_humanize_def up_humanize_def Let_def)
qed

definition same_look :: "up_options \<Rightarrow> events_options \<Rightarrow> bool" where
  "same_look uo eo \<longleftrightarrow> upo_no_prefix uo = evo_no_prefix eo \<and> upo_timestamps uo = evo_timestamps eo \<and> \<not> upo_json uo"

fun times_fit :: "event_kind \<Rightarrow> bool" where
  "times_fit (EK_Exited _ d) = (d div 1000000 < 2 ^ 64)"
| "times_fit (EK_Backoff d _) = (d div 1000000 < 2 ^ 64)"
| "times_fit _ = True"

text \<open>The lines that only a client draws: the states and the summary of a run, in the look of \<open>up\<close>.\<close>

fun added_line :: "up_printer \<Rightarrow> duration option \<Rightarrow> service_name \<Rightarrow> event_kind \<Rightarrow> printed list" where
  "added_line pr now service (EK_State state) =
     [PR_Err (up_timestamp pr now (upp_color_err pr) @ up_prefix pr service (upp_color_err pr)
        @ paint (upp_color_err pr) dim (sym_state @ '' '' @ show_service_state state))]"
| "added_line pr now service (EK_Finished summary) =
     [PR_Err (up_timestamp pr now (upp_color_err pr) @ up_prefix pr service (upp_color_err pr)
        @ paint (upp_color_err pr) dim (sym_finished @ '' '' @ summary))]"
| "added_line pr now service _ = []"

lemma show_state_agree: "show_wire_state (to_wire_state state) = show_service_state state"
  by (cases state) simp_all

lemma prefix_agree:
  assumes "same_look uo eo" and "service \<in> set plan"
  shows "events_prefix service color (events_printer_new co ce plan eo) =
     (up_prefix (up_printer_new co ce plan uo) service color, events_printer_new co ce plan eo)"
  using assms color_map_known [OF assms(2)] widest_covers [OF assms(2)]
  by (auto simp: events_prefix_def up_prefix_def events_printer_new_def up_printer_new_def same_look_def max_def
      Let_def split: option.splits)

lemma drawn_alike:
  assumes "same_look uo eo" and "service \<in> set plan" and "times_fit kind"
  shows "events_draw now service (to_wire_event kind) (events_printer_new co ce plan eo) =
     (up_draw (up_printer_new co ce plan uo) now service kind @ added_line (up_printer_new co ce plan uo) now service kind,
      events_printer_new co ce plan eo)"
proof -
  have look: "evp_color_err (events_printer_new co ce plan eo) = upp_color_err (up_printer_new co ce plan uo)"
    "evp_color_out (events_printer_new co ce plan eo) = upp_color_out (up_printer_new co ce plan uo)"
    "events_timestamp now color (events_printer_new co ce plan eo) = up_timestamp (up_printer_new co ce plan uo) now color" for color
    using assms(1) by (simp_all add: events_timestamp_def up_timestamp_def events_printer_new_def up_printer_new_def same_look_def)
  note [simp] = look prefix_agree [OF assms(1,2)] humanize_agree show_state_agree
  note defs = events_draw_def up_draw_def events_status_def up_status_def events_log_def up_log_def
  show ?thesis
  proof (cases kind)
    case (EK_Log stream line)
    then show ?thesis by (cases stream) (simp_all add: defs Let_def)
  qed (use assms(3) in \<open>simp_all add: defs\<close>)
qed

text \<open>C34: A client that follows the services of a plan draws of every event what \<open>up\<close> draws of it
  in the foreground, line for line, colour for colour, and nothing else but one line for each event
  that \<open>up\<close> leaves out, the changes of state and the summary of a run: in the look of the other
  lines, with the name of the state or the text of the summary.  Times of events are below 2^64
  milliseconds, where the wire does not cut them.\<close>

theorem events_draw_what_up_draws:
  assumes "same_look uo eo" and "pr = up_printer_new co ce plan uo"
    and "\<forall>(now, ev)\<in>set events. ev_service ev \<in> set plan \<and> times_fit (ev_kind ev)"
  shows "fold (\<lambda>(now, ev) (printed, pr). case events_response now (Resp_Event (ev_service ev) (to_wire_event (ev_kind ev))) pr of
       (lines, pr) \<Rightarrow> (printed @ lines, pr)) events ([], events_printer_new co ce plan eo)
     = (concat (map (\<lambda>(now, ev). up_event encode pr now (ev_service ev) (ev_kind ev)
            @ added_line pr now (ev_service ev) (ev_kind ev)) events),
        events_printer_new co ce plan eo)
    \<and> (\<forall>now service kind. added_line pr now service kind \<noteq> [] \<longleftrightarrow> up_event encode pr now service kind = [])"
proof -
  let ?pr = "events_printer_new co ce plan eo"
  let ?step = "\<lambda>(now, ev) (printed, pr). case events_response now (Resp_Event (ev_service ev) (to_wire_event (ev_kind ev))) pr of
       (lines, pr) \<Rightarrow> (printed @ lines, pr)"
  have plain: "up_event encode pr now service kind = up_draw pr now service kind" for now service kind
    using assms(1,2) by (simp add: up_event_def up_printer_new_def same_look_def)
  have "fold ?step events (printed, ?pr) =
      (printed @ concat (map (\<lambda>(now, ev). up_event encode pr now (ev_service ev) (ev_kind ev)
         @ added_line pr now (ev_service ev) (ev_kind ev)) events), ?pr)" for printed
    using assms(3)
  proof (induction events arbitrary: printed)
    case (Cons e events)
    obtain now ev where e: "e = (now, ev)" by (cases e)
    with Cons.prems have "events_draw now (ev_service ev) (to_wire_event (ev_kind ev)) ?pr
        = (up_draw pr now (ev_service ev) (ev_kind ev) @ added_line pr now (ev_service ev) (ev_kind ev), ?pr)"
      unfolding assms(2) by (intro drawn_alike [OF assms(1)]) simp_all
    with Cons show ?case by (simp add: e events_response_def plain)
  qed simp
  moreover have "added_line pr now service kind \<noteq> [] \<longleftrightarrow> up_event encode pr now service kind = []" for now service kind
    unfolding plain by (cases kind) (simp_all add: up_draw_def up_status_def up_log_def split: log_stream.split)
  ultimately show ?thesis by simp
qed

section \<open>How a run ends\<close>

text \<open>The exit code of \<open>up\<close> is 0 only when nothing has failed and nobody has stopped the stack.\<close>

lemma up_exit_zero: "up_exit_code out = 0 \<longleftrightarrow> outcome_is_success out \<and> out_shutdown out = None"
  by (auto simp: up_exit_code_def split: option.split shutdown_reason.splits)

section \<open>Witnesses\<close>

definition example_up :: up_options where
  "example_up =
     \<lparr> upo_no_restart = False, upo_no_prefix = False, upo_timestamps = True, upo_abort_on_failure = False,
       upo_require_watch = False, upo_json = False \<rparr>"

definition example_follow :: events_options where
  "example_follow = \<lparr> evo_json = False, evo_no_prefix = False, evo_timestamps = True, evo_no_logs = False \<rparr>"

theorem events_draw_what_up_draws_witness:
  "length (fst (fold (\<lambda>(now, ev) (printed, pr). case events_response now (Resp_Event (ev_service ev) (to_wire_event (ev_kind ev))) pr of
       (lines, pr) \<Rightarrow> (printed @ lines, pr))
     [(None, service_event_new ''api'' (EK_State Starting)), (None, service_event_new ''api'' (EK_Started 7)),
      (Some 5, service_event_new ''db'' (EK_Exited (ER_Code 1) (dur_secs 90)))]
     ([], events_printer_new False False [''api'', ''db''] example_follow))) = 3"
proof -
  have look: "same_look example_up example_follow" by (simp add: same_look_def example_up_def example_follow_def)
  have small: "dur_secs 90 div 1000000 < 2 ^ 64" by (simp add: dur_secs_def nanos_per_sec_def)
  have fit: "\<forall>(now, ev)\<in>set [(None, service_event_new ''api'' (EK_State Starting)), (None, service_event_new ''api'' (EK_Started 7)),
      (Some 5, service_event_new ''db'' (EK_Exited (ER_Code 1) (dur_secs 90)))]. ev_service ev \<in> set [''api'', ''db''] \<and> times_fit (ev_kind ev)"
    using small by (simp add: service_event_new_def)
  show ?thesis
    unfolding conjunct1 [OF events_draw_what_up_draws [OF look refl fit, where encode = "\<lambda>_. None"]]
    by (simp add: service_event_new_def up_event_def up_draw_def up_status_def up_printer_new_def example_up_def)
qed

end
