(* ===== verification/Reports.thy ===== *)
theory Reports
  imports Commands Server
begin

text \<open>
  The commands that work without a daemon: \<open>servicrab-cli/src/commands/check.rs\<close>, \<open>list.rs\<close>, \<open>run.rs\<close>
  and \<open>exec.rs\<close>.  A JSON document is a record here and serde renders it; the process that is run is a
  record, its outcome an argument.
\<close>

section \<open>Loading\<close>

text \<open>What \<open>check\<close> and \<open>list\<close> begin with; the warnings are printed by \<open>list\<close> only.\<close>

definition load_project :: "command_env \<Rightarrow> bool \<Rightarrow> cli_error + path \<times> config \<times> config_warning list" where
  "load_project env json =
     (case cm_resolve env of
        Inl e \<Rightarrow> Inl (in_json json (cli_failed (''could not find config: '' @ e)))
      | Inr p \<Rightarrow>
          (case cm_load env p of
             Inl errors \<Rightarrow>
               Inl (in_json json (with_errors (map (cm_config_error env) errors)
                 (cli_error_new EC_ValidationFailed (p @ '' has '' @ show_nat (length errors) @ '' error(s)''))))
           | Inr (config, warnings) \<Rightarrow> Inr (p, config, warnings)))"

text \<open>\<open>run\<close> and \<open>exec\<close> report the errors as one text and print the warnings.\<close>

definition load_or_text :: "command_env \<Rightarrow> (string + config) \<times> printed list" where
  "load_or_text env =
     (case cm_resolve env of
        Inl e \<Rightarrow> (Inl (''could not find config: '' @ e), [])
      | Inr p \<Rightarrow>
          (case cm_load env p of
             Inl errors \<Rightarrow>
               (Inl (cross_mark @ '' '' @ p @ '' has '' @ show_nat (length errors) @ '' error(s):'' @ [newline]
                  @ join [newline] (map (\<lambda>e. ''  '' @ bullet @ '' '' @ cm_config_error env e) errors)), [])
           | Inr (config, warnings) \<Rightarrow>
               (Inr config, map (\<lambda>w. PR_Err (warning_sign @ ''  '' @ cm_warning env w)) warnings)))"

section \<open>Check\<close>

text \<open>\<open>cfg.services[name]\<close> panics for a name without a service: \<open>None\<close>.\<close>

definition push_member :: "service_name \<Rightarrow> string \<Rightarrow> (string, service_name list) btmap \<Rightarrow> (string, service_name list) btmap" where
  "push_member name profile members =
     bt_insert profile ((case bt_get members profile of Some ns \<Rightarrow> ns | None \<Rightarrow> []) @ [name]) members"

fun members_of :: "config \<Rightarrow> service_name list \<Rightarrow> (string, service_name list) btmap \<Rightarrow> (string, service_name list) btmap option" where
  "members_of config [] members = Some members"
| "members_of config (name # names) members =
     (case bt_get (cfg_services config) name of
        None \<Rightarrow> None
      | Some svc \<Rightarrow> members_of config names (fold (push_member name) (svc_profiles svc) members))"

definition profile_members :: "config \<Rightarrow> (string, service_name list) btmap option" where
  "profile_members config = members_of config (cfg_start_order config) []"

definition profile_lines :: "config \<Rightarrow> string list option" where
  "profile_lines config =
     map_option (map (\<lambda>(profile, services). ''profile '' @ profile @ '': '' @ join '', '' services)) (profile_members config)"

record check_json =
  ckj_ok :: bool
  ckj_config :: path
  ckj_project :: string
  ckj_services :: nat
  ckj_start_order :: "service_name list"
  ckj_profiles :: "(string, service_name list) btmap"
  ckj_warnings :: "string list"

definition arrow_sign :: string where
  "arrow_sign = [CHR 0xE2, CHR 0x86, CHR 0x92]"

definition print_document :: "('a \<Rightarrow> string + string) \<Rightarrow> 'a \<Rightarrow> cli_error option \<times> printed list" where
  "print_document to_json document =
     (case to_json document of
        Inl e \<Rightarrow> (Some (cli_failed (''could not render JSON: '' @ e)), [])
      | Inr t \<Rightarrow> (None, [PR_Out t]))"

text \<open>The error, if there is one, and the lines; \<open>None\<close> is the panic of \<open>profile_members\<close>.\<close>

definition check_project :: "command_env \<Rightarrow> (check_json \<Rightarrow> string + string) \<Rightarrow> bool
    \<Rightarrow> (cli_error option \<times> printed list) option" where
  "check_project env to_json json =
     (case load_project env json of
        Inl e \<Rightarrow> Some (Some e, [])
      | Inr (p, config, warnings) \<Rightarrow>
          (case profile_members config of
             None \<Rightarrow> None
           | Some members \<Rightarrow>
               Some (if json then
                 print_document to_json
                   \<lparr> ckj_ok = True, ckj_config = p, ckj_project = proj_name (cfg_project config),
                     ckj_services = length (cfg_services config), ckj_start_order = cfg_start_order config,
                     ckj_profiles = members, ckj_warnings = map (cm_warning env) warnings \<rparr>
               else
                 (None,
                  [PR_Out (check_mark @ '' '' @ p @ '' '' @ em_dash @ '' project: '' @ proj_name (cfg_project config)),
                   PR_Out (''  '' @ show_nat (length (cfg_services config)) @ '' service''
                     @ (if length (cfg_services config) = 1 then [] else ''s'')),
                   PR_Out (''  start order: '' @ join ('' '' @ arrow_sign @ '' '') (cfg_start_order config))]
                  @ map (\<lambda>(profile, services). PR_Out (''  profile '' @ profile @ '': '' @ join '', '' services)) members
                  @ (if warnings = [] then []
                     else PR_Out (''  '' @ show_nat (length warnings) @ '' warning(s):'')
                       # map (\<lambda>w. PR_Out (''    '' @ warning_sign @ ''  '' @ cm_warning env w)) warnings)))))"

section \<open>List\<close>

record dependency_json =
  dpj_service :: service_name
  dpj_condition :: string

record service_json =
  svj_name :: service_name
  svj_command :: "string list"
  svj_cwd :: path
  svj_depends_on :: "dependency_json list"
  svj_profiles :: "string list"
  svj_autostart :: bool
  svj_restart :: string
  svj_health :: "string option"

definition list_dependencies :: "service \<Rightarrow> (service_name, service) btmap \<Rightarrow> dependency_json list" where
  "list_dependencies svc services =
     map (\<lambda>d. \<lparr> dpj_service = dep_service d,
                dpj_condition = (case bt_get services (dep_service d) of
                    Some target \<Rightarrow> show_dependency_condition (condition_for d target)
                  | None \<Rightarrow> ''unknown'') \<rparr>) (svc_depends_on svc)"

definition list_json :: "config \<Rightarrow> string \<times> service_json list" where
  "list_json config =
     (proj_name (cfg_project config),
      map (\<lambda>(_, svc).
        \<lparr> svj_name = svc_name svc, svj_command = svc_executable svc # svc_args svc, svj_cwd = svc_cwd svc,
          svj_depends_on = list_dependencies svc (cfg_services config), svj_profiles = svc_profiles svc,
          svj_autostart = svc_autostart svc, svj_restart = show_restart_policy (svc_restart svc),
          svj_health = map_option (\<lambda>h. show_health_probe (hc_probe h)) (svc_health svc) \<rparr>) (cfg_services config))"

definition ellipsis :: string where
  "ellipsis = [CHR 0xE2, CHR 0x80, CHR 0xA6]"

text \<open>The cut is before character \<open>max\<close>, when another follows it.\<close>

definition truncate_text :: "string \<Rightarrow> nat \<Rightarrow> string" where
  "truncate_text cmd limit = (if limit < chars_of cmd then take_chars (limit - 1) cmd @ ellipsis else cmd)"

definition rule_line :: string where
  "rule_line = concat (replicate 72 [CHR 0xE2, CHR 0x94, CHR 0x80])"

definition list_rows :: "(duration \<Rightarrow> string) \<Rightarrow> (service_name, service) btmap \<Rightarrow> service \<Rightarrow> printed list" where
  "list_rows format_duration services svc =
     [PR_Out (pad_right 24 (svc_name svc) @ '' '' @ pad_right 12 (show_restart_policy (svc_restart svc)) @ '' ''
        @ pad_right 8 (if svc_autostart svc then ''yes'' else ''no'') @ '' ''
        @ truncate_text (join '' '' (svc_executable svc # svc_args svc)) 30)]
     @ (if svc_depends_on svc = [] then []
        else [PR_Out (''  depends on: ''
          @ join '', '' (map (\<lambda>d. dpj_service d @ '' ('' @ dpj_condition d @ '')'') (list_dependencies svc services)))])
     @ (if svc_profiles svc = [] then [] else [PR_Out (''  profiles: '' @ join '', '' (svc_profiles svc))])
     @ (case svc_health svc of
          None \<Rightarrow> []
        | Some h \<Rightarrow> [PR_Out (''  health: '' @ show_health_probe (hc_probe h) @ '' every '' @ format_duration (hc_interval h))])"

definition list_table :: "(duration \<Rightarrow> string) \<Rightarrow> config \<Rightarrow> printed list" where
  "list_table format_duration config =
     [PR_Out (''Project: '' @ proj_name (cfg_project config)), PR_Out []]
     @ (if cfg_services config = [] then [PR_Out ''No services defined.'']
        else
          [PR_Out (pad_right 24 ''NAME'' @ '' '' @ pad_right 12 ''RESTART'' @ '' '' @ pad_right 8 ''AUTO'' @ '' COMMAND''),
           PR_Out rule_line]
          @ concat (map (\<lambda>(_, svc). list_rows format_duration (cfg_services config) svc) (cfg_services config)))"

definition list_command :: "command_env \<Rightarrow> (string \<times> service_json list \<Rightarrow> string + string) \<Rightarrow> bool
    \<Rightarrow> cli_error option \<times> printed list" where
  "list_command env to_json json =
     (case load_project env json of
        Inl e \<Rightarrow> (Some e, [])
      | Inr (p, config, warnings) \<Rightarrow>
          (let printed = map (\<lambda>w. PR_Err (warning_sign @ ''  '' @ cm_warning env w)) warnings in
           if json then (case print_document to_json (list_json config) of (e, ps) \<Rightarrow> (e, printed @ ps))
           else (None, printed @ list_table (cm_format_duration env) config)))"

section \<open>Run\<close>

fun run_exit_code :: "run_outcome \<Rightarrow> int" where
  "run_exit_code (RO_Exited reason attempts) =
     (case reason of ER_Code code \<Rightarrow> code | ER_Signal sig \<Rightarrow> 128 + sig | _ \<Rightarrow> 1)"
| "run_exit_code (RO_Stopped reason) =
     (case reason of
        SR_UserInterrupt \<Rightarrow> 130
      | SR_Terminated \<Rightarrow> 143
      | SR_HangUp \<Rightarrow> 129
      | SR_Requested \<Rightarrow> 0
      | _ \<Rightarrow> 1)"

definition tee_line :: "service_event \<Rightarrow> string option \<Rightarrow> printed list" where
  "tee_line ev problem =
     (case ev_kind ev of
        EK_Log stream line \<Rightarrow>
          (case problem of Some p \<Rightarrow> [PR_Err (warning_sign @ ''  '' @ p)] | None \<Rightarrow> [])
          @ [case stream of Stdout \<Rightarrow> PR_Out line | Stderr \<Rightarrow> PR_Err line]
      | _ \<Rightarrow> [])"

definition tee_output :: "(service_event \<times> string option) list \<Rightarrow> string option \<Rightarrow> printed list" where
  "tee_output events last_problem =
     concat (map (\<lambda>(ev, problem). tee_line ev problem) events)
     @ (case last_problem of Some p \<Rightarrow> [PR_Err (warning_sign @ ''  '' @ p)] | None \<Rightarrow> [])"

text \<open>The service, how it is run and the router its output is copied to.\<close>

definition run_prepare :: "command_env \<Rightarrow> (runtime_error \<Rightarrow> string) \<Rightarrow> string \<Rightarrow> bool
    \<Rightarrow> (string + service \<times> run_options \<times> log_router option) \<times> printed list" where
  "run_prepare env show_error name no_restart =
     (case load_or_text env of
        (Inl e, printed) \<Rightarrow> (Inl e, printed)
      | (Inr config, printed) \<Rightarrow>
          (case lookup_service config name of
             Inl e \<Rightarrow> (Inl (show_error e), printed)
           | Inr svc \<Rightarrow>
               (let router = (case router_for config of
                      Some r \<Rightarrow> if lr_handles (svc_name svc) r then Some r else None
                    | None \<Rightarrow> None) in
                (Inr (svc, \<lparr> ro_no_restart = no_restart, ro_output = (if router \<noteq> None then Capture else Inherit) \<rparr>, router),
                 printed))))"

definition run_finish :: "(runtime_error \<Rightarrow> string) \<Rightarrow> runtime_error + run_outcome \<Rightarrow> string + int" where
  "run_finish show_error result =
     (case result of Inl e \<Rightarrow> Inl (show_error e) | Inr out \<Rightarrow> Inr (run_exit_code out))"

section \<open>Exec\<close>

record exec_process =
  exp_program :: string
  exp_args :: "string list"
  exp_cwd :: path
  exp_env :: "(string, string) btmap"

datatype exec_answer =
    XA_Exited "int option" "int option"
  | XA_NotFound string
  | XA_PermissionDenied string
  | XA_Other string

definition exec_exit_code :: "int option \<Rightarrow> int option \<Rightarrow> int" where
  "exec_exit_code code sig =
     (case code of Some c \<Rightarrow> c | None \<Rightarrow> (case sig of Some s \<Rightarrow> 128 + s | None \<Rightarrow> 1))"

definition exec_prepare :: "command_env \<Rightarrow> (runtime_error \<Rightarrow> string) \<Rightarrow> string \<Rightarrow> string list
    \<Rightarrow> (string + exec_process) \<times> printed list" where
  "exec_prepare env show_error name argv =
     (case argv of
        [] \<Rightarrow> (Inl ''no command given; try: servicrab exec <SERVICE> -- ls'', [])
      | program # args \<Rightarrow>
          (case load_or_text env of
             (Inl e, printed) \<Rightarrow> (Inl e, printed)
           | (Inr config, printed) \<Rightarrow>
               (case lookup_service config name of
                  Inl e \<Rightarrow> (Inl (show_error e), printed)
                | Inr svc \<Rightarrow>
                    (Inr \<lparr> exp_program = program, exp_args = args, exp_cwd = svc_cwd svc, exp_env = svc_env svc \<rparr>, printed))))"

definition exec_finish :: "(string \<Rightarrow> string) \<Rightarrow> string \<Rightarrow> exec_answer \<Rightarrow> int \<times> printed list" where
  "exec_finish debug program answer =
     (let failed = (\<lambda>err. [PR_Err (''error: could not run '' @ debug program @ '': '' @ err)]) in
      case answer of
        XA_Exited code sig \<Rightarrow> (exec_exit_code code sig, [])
      | XA_NotFound err \<Rightarrow> (127, failed err)
      | XA_PermissionDenied err \<Rightarrow> (126, failed err)
      | XA_Other err \<Rightarrow> (1, failed err))"

section \<open>What the reports say\<close>

text \<open>Every profile of a service is listed with it, in start order, once for each time it names it.\<close>

lemma push_members:
  "bt_get (fold (push_member name) profiles members) p =
     (let old = (case bt_get members p of Some ns \<Rightarrow> ns | None \<Rightarrow> []);
          new = replicate (length (filter (\<lambda>q. q = p) profiles)) name in
      if old @ new = [] \<and> bt_get members p = None then None else Some (old @ new))"
proof (induction profiles arbitrary: members)
  case (Cons q profiles)
  show ?case
    unfolding fold_Cons comp_def Cons.IH
    by (simp add: push_member_def bt_get_insert Let_def replicate_append_same split: option.split)
qed (simp add: Let_def split: option.split)

definition profile_list :: "config \<Rightarrow> service_name list \<Rightarrow> string \<Rightarrow> service_name list" where
  "profile_list config names p =
     concat (map (\<lambda>n. case bt_get (cfg_services config) n of
         Some svc \<Rightarrow> replicate (length (filter (\<lambda>q. q = p) (svc_profiles svc))) n | None \<Rightarrow> []) names)"

lemma members_of_exact:
  assumes "\<forall>n\<in>set names. bt_get (cfg_services config) n \<noteq> None" and "\<forall>p. bt_get members p \<noteq> Some []"
  shows "\<exists>result. members_of config names members = Some result
    \<and> (\<forall>p. bt_get result p =
         (let ns = (case bt_get members p of Some ns \<Rightarrow> ns | None \<Rightarrow> []) @ profile_list config names p in
          if ns = [] then None else Some ns))"
  using assms
proof (induction names arbitrary: members)
  case Nil
  then show ?case by (auto simp: profile_list_def split: option.split)
next
  case (Cons n names)
  then obtain svc where svc: "bt_get (cfg_services config) n = Some svc" by auto
  let ?m = "fold (push_member n) (svc_profiles svc) members"
  have "\<forall>p. bt_get ?m p \<noteq> Some []" using Cons.prems(2) unfolding push_members by (auto simp: Let_def split: option.split)
  with Cons.IH [of ?m] Cons.prems(1) obtain result where result: "members_of config names ?m = Some result"
    "\<forall>p. bt_get result p = (let ns = (case bt_get ?m p of Some ns \<Rightarrow> ns | None \<Rightarrow> []) @ profile_list config names p in
          if ns = [] then None else Some ns)" by auto
  have "bt_get result p =
      (let ns = (case bt_get members p of Some ns \<Rightarrow> ns | None \<Rightarrow> []) @ profile_list config (n # names) p in
          if ns = [] then None else Some ns)" for p
    using Cons.prems(2) unfolding result(2) [rule_format] push_members
    by (auto simp: profile_list_def svc Let_def split: option.split)
  with result(1) svc show ?case by auto
qed

text \<open>\<open>check\<close> never panics on a configuration whose start order has only its services, and it lists for
  every profile exactly the services that name it, in start order.\<close>

theorem check_lists_the_profiles:
  assumes "\<forall>n\<in>set (cfg_start_order config). bt_get (cfg_services config) n \<noteq> None"
  shows "\<exists>members. profile_members config = Some members
    \<and> (\<forall>p. bt_get members p =
         (if profile_list config (cfg_start_order config) p = [] then None
          else Some (profile_list config (cfg_start_order config) p)))"
  using members_of_exact [OF assms, of "[]"] by (simp add: profile_members_def Let_def bt_get_def)

lemma truncate_fits: "0 < limit \<Longrightarrow> chars_of (truncate_text cmd limit) \<le> limit"
  using count_take_chars [of "limit - 1" cmd]
  by (clarsimp simp: truncate_text_def chars_of_def ellipsis_def continues_char_def) linarith

text \<open>A command that \<open>exec\<close> runs gets the environment and the directory of the service, and nothing
  else of the process that started it.\<close>

lemma exec_is_the_service:
  "exec_prepare env show_error name argv = (Inr proc, printed) \<Longrightarrow>
     \<exists>config svc. fst (load_or_text env) = Inr config \<and> lookup_service config name = Inr svc
       \<and> exp_env proc = svc_env svc \<and> exp_cwd proc = svc_cwd svc \<and> exp_program proc # exp_args proc = argv"
  by (auto simp: exec_prepare_def split: list.splits prod.splits sum.splits)

theorem check_lists_the_profiles_witness:
  "\<exists>members. profile_members (example_stack\<lparr> cfg_services :=
       map (\<lambda>(n, svc). (n, svc\<lparr> svc_profiles := [''dev''] \<rparr>)) (cfg_services example_stack) \<rparr>) = Some members
     \<and> bt_get members ''dev'' = Some [''db'', ''api'', ''tool'', ''web'']"
proof -
  let ?c = "example_stack\<lparr> cfg_services :=
       map (\<lambda>(n, svc). (n, svc\<lparr> svc_profiles := [''dev''] \<rparr>)) (cfg_services example_stack) \<rparr>"
  have planned: "\<forall>n\<in>set (cfg_start_order ?c). bt_get (cfg_services ?c) n \<noteq> None"
    by (simp add: example_stack_def bt_get_Cons)
  have "profile_list ?c (cfg_start_order ?c) ''dev'' = [''db'', ''api'', ''tool'', ''web'']"
    by (simp add: profile_list_def example_stack_def bt_get_Cons)
  with check_lists_the_profiles [OF planned] show ?thesis by auto
qed

end
