(* ===== verification/Spec2Isabelle.thy ===== *)
theory Spec2Isabelle
  imports Config Graph Raw Subst Plan Event Status Paths Envfile Checker Field_Checks Validation
    Validation_Contracts Validated Include Health Filewatch Runtime Readiness
    Stack Stack_Invariant Stack_Loops Stack_Spec Stack_Refines Stack_Reach Shutdown
    Runner Runner_Facts Runner_Groups Logs Logs_Facts Log_Files Log_Names Log_Router
    Wire Stopped Server Server_Facts Project_Lock Daemon_Paths Daemon_Start
    Machines Generate Terminal Client Commands Commands_Facts Log_Tail Drawing Reports
begin

text \<open>
  A model of servicrab, a supervisor of services written in Rust.  The configuration is read from
  \<open>servicrab.toml\<close>, checked as a whole and planned; a supervisor then runs one task for each planned
  service, restarts it under its policy, probes its health, watches its files and writes its output
  to rotated logs; a daemon keeps one such stack for each project and takes commands on a Unix
  socket.  Paths below are relative to \<open>crates/\<close>; \<open>core\<close> is \<open>servicrab-core/src\<close>, \<open>cli\<close> is
  \<open>servicrab-cli/src\<close> and \<open>protocol\<close> is \<open>servicrab-protocol/src\<close>.

  \<^bold>\<open>How the parts interact.\<close>
  \<^item> A file is read and merged with its includes (\<open>Include\<close>), expanded (\<open>Subst\<close>) and validated
    (\<open>Validation\<close>) into a \<open>config\<close>; \<open>Graph\<close> gives its start order and \<open>Plan\<close> the services to run.
  \<^item> The supervisor (\<open>Stack\<close>) holds a slot for each service.  A slot starts when its dependencies
    are ready (\<open>Readiness\<close>), runs a process (\<open>Runner\<close>) whose fate follows \<open>Lifecycle\<close>, and reports to
    the supervisor; commands arrive on a channel and are answered through acknowledgements.
  \<^item> Everything that happens is an event on a channel (\<open>Event\<close>), which the collector of the daemon
    folds into \<open>Status\<close>, hands to the log files (\<open>Logs\<close>) and to subscribers.
  \<^item> The daemon takes its lock (\<open>Project_Lock\<close>), finds its socket (\<open>Daemon_Paths\<close>), starts the stack
    without the services stopped by hand (\<open>Stopped\<close>, \<open>Daemon_Start\<close>) and answers clients
    (\<open>Wire\<close>, \<open>Server\<close>).

  \<^bold>\<open>Theories and sources.\<close>
  \<^item> \<open>Prelude\<close>: machine integers, \<open>BTreeMap\<close> as a sorted association list with its laws, strings as
    bytes, durations as nanoseconds.
  \<^item> \<open>Lifecycle\<close>: \<open>core/lifecycle.rs\<close>.  The state machine, the restart tracker with its \<open>u32\<close> counters
    and saturating backoff.
  \<^item> \<open>Errors\<close>, \<open>Config\<close>, \<open>Raw\<close>: \<open>core/error.rs\<close>, \<open>core/config.rs\<close>, \<open>core/raw.rs\<close>, the data.
  \<^item> \<open>Graph\<close>: \<open>core/graph.rs\<close>, Kahn's algorithm with its sorted queue, and the search for a cycle.  The
    possible panics are \<open>None\<close>; no input reaches them.
  \<^item> \<open>Subst\<close>, \<open>Envfile\<close>: \<open>core/subst.rs\<close>, \<open>core/envfile.rs\<close>, with templates and assignments as the
    reference they are proved against.
  \<^item> \<open>Paths\<close>, \<open>Checker\<close>, \<open>Field_Checks\<close>, \<open>Validation\<close>, \<open>Validation_Contracts\<close>, \<open>Validated\<close>:
    \<open>core/validation.rs\<close>.  The checks collect errors in a state monad, in the order of the source;
    the contracts say what each leaves true, and \<open>Validated\<close> puts them together.
  \<^item> \<open>Include\<close>: \<open>core/include.rs\<close> and \<open>core/load.rs\<close>.  The recursion over included files has fuel; a
    number above the files that can be opened is enough, as every file is merged once.
  \<^item> \<open>Plan\<close>, \<open>Event\<close>, \<open>Status\<close>, \<open>Health\<close>, \<open>Filewatch\<close>, \<open>Runtime\<close>: the modules of \<open>core/runtime\<close> of these
    names (\<open>Runtime\<close> is \<open>mod.rs\<close>).  Loops of tasks are their turns.
  \<^item> \<open>Readiness\<close>, \<open>Stack\<close>: \<open>core/runtime/stack.rs\<close>.  The record \<open>supervisor\<close> is the loop's state, one
    \<open>stack_step\<close> is one arm of its \<open>select!\<close> or one act of a task.  \<open>Stack_Invariant\<close> and \<open>Stack_Loops\<close>
    hold the invariant and its preservation, \<open>Stack_Spec\<close> the abstract machine of standings,
    \<open>Stack_Refines\<close> the simulation, \<open>Stack_Reach\<close> the reachable states, \<open>Shutdown\<close> the stopping in
    reverse order and the properties of all reachable stacks.
  \<^item> \<open>Runner\<close>, \<open>Runner_Facts\<close>, \<open>Runner_Groups\<close>: \<open>core/runtime/unix.rs\<close>.  A run is a trace of signals,
    spawns and published states over given answers of the system.
  \<^item> \<open>Logs\<close>, \<open>Logs_Facts\<close>, \<open>Log_Files\<close>, \<open>Log_Names\<close>, \<open>Log_Router\<close>: \<open>core/runtime/logs.rs\<close> over a disk of
    inodes behind names, every call of which may fail.  \<open>Log_Names\<close> has the names of the files it makes.
  \<^item> \<open>Wire\<close>: \<open>protocol/request.rs\<close>, \<open>response.rs\<close>, \<open>frame.rs\<close> and \<open>cli/wire.rs\<close>.
  \<^item> \<open>Stopped\<close>, \<open>Server\<close>, \<open>Server_Facts\<close>, \<open>Project_Lock\<close>, \<open>Daemon_Paths\<close>, \<open>Daemon_Start\<close>:
    \<open>cli/daemon/stopped.rs\<close>, \<open>server.rs\<close>, \<open>peer.rs\<close>, \<open>lock.rs\<close>, \<open>paths.rs\<close> and \<open>signals.rs\<close>.
    \<open>Machines\<close> is the interface of machines that run over lists of inputs.
  \<^item> \<open>Generate\<close>: \<open>cli/commands/generate.rs\<close>, the units that make an init system run the daemon.
  \<^item> \<open>Terminal\<close>, \<open>Client\<close>, \<open>Commands\<close>, \<open>Commands_Facts\<close>: \<open>cli/style.rs\<close>, \<open>output.rs\<close>,
    \<open>daemon/client.rs\<close> and \<open>commands/daemon.rs\<close>.  A command maps the answers of its surroundings and its
    exchanges with the daemon to an exit code and to lines; a loop takes a list of rounds.
  \<^item> \<open>Log_Tail\<close>, \<open>Drawing\<close>, \<open>Reports\<close>: \<open>cli/commands/logs.rs\<close>, \<open>up.rs\<close> and \<open>events.rs\<close>, and \<open>check.rs\<close>,
    \<open>list.rs\<close>, \<open>run.rs\<close> and \<open>exec.rs\<close>.

  \<^bold>\<open>What the lemmas show.\<close>
  \<^item> Configuration: an accepted one is planned, acyclic and has only valid fields; validation always
    answers; the start order and the plan are exact; expansion and env files equal their references.
  \<^item> Supervision: every command is answered exactly once or waits for a task that is stopping; the
    supervisor refines the machine of standings; a reload spares what it does not change; a
    shutdown stops the dependents of the plan first, and before them what a reload has dropped;
    process groups never outlive their handles; a crash loop ends.
  \<^item> Evidence: readiness and status are functions of the event stream, the status across reloads too;
    log lines are all accounted for; the health monitor signals every transition; the watcher waits
    for quiet, ten rounds at most; the log files hold the newest lines within their sizes and number.
  \<^item> Daemon: at most one for a project, whoever is killed; its socket is private; it cleans up on
    every way out; the answers to garbage are bounded; confirmed stops are remembered and honoured by
    the next start; a refused reload forgets the status of what it would have removed.
  \<^item> Commands: \<open>start --wait\<close> judges as the supervisor does from the first event of a run on, but
    takes the run before for the new one until then; a start reports its own daemon only; a follower
    prints every line of a growing log once; \<open>events\<close> draws what \<open>up\<close> draws, and states and summaries.
  \<^item> Units: a launchd job runs exactly the daemon that was asked for; the stop timeout of a unit
    covers every service alone with nine seconds to spare, but not the stop of a whole stack.

  \<^bold>\<open>Interfaces.\<close>  \<open>map_contract\<close> (\<open>Prelude\<close>) is what the registries need of a \<open>BTreeMap\<close>, \<open>start_order\<close>
  (\<open>Graph\<close>) what a plan needs of a sort, \<open>per_service\<close> (\<open>Stack_Loops\<close>) the contract of an operation that
  works on one slot after another, \<open>stop_memory\<close> (\<open>Stopped\<close>) what the daemon needs of the file of
  stopped services, \<open>machine\<close> (\<open>Machines\<close>) a step function with its runs.  Each is interpreted on the
  definitions of the model, and the properties rest on the facts of these interpretations.

  \<^bold>\<open>Bounds.\<close>  Counters are words of the width of the source where they can wrap or saturate; lengths,
  process ids and the counters that grow by one for each event are natural numbers.

  \<^bold>\<open>Not modelled.\<close>  Parsing of TOML, JSON and command lines (libraries: the parsers are parameters);
  the texts that derive macros render from errors; how Rust escapes text with \<open>{:?}\<close>; log lines of
  tracing; \<open>SignalWatcher\<close> and \<open>ForegroundRunner\<close>, which forward signals and terminal output; the
  dispatch of \<open>main.rs\<close>, the template that \<open>init\<close> writes, completions and manual pages; the refusals
  of platforms other than Unix.  Time is an argument or a sequence of ticks, and the
  scheduler is the order of the steps.
\<close>

end
